(* ===== verification/Qmk_Prelude.thy ===== *)
theory Qmk_Prelude
  imports Main "HOL-Library.Word"
begin

unbundle bit_operations_syntax

text \<open>
  Shared vocabulary of the development.

  The fixed-width integers of the firmware are words of \<open>HOL-Library.Word\<close>, whose arithmetic
  wraps as the C arithmetic on unsigned integers does. The millisecond clock that
  \<open>timer_read32\<close> returns is an argument (\<open>now\<close>) of every operation that reads the timer; the
  16-bit clock \<open>timer_read\<close> is its low half. The macros of \<open>platforms/timer.h\<close> follow.

  The rest of the theory is the library the component theories share: single-bit masks, bytes of
  wider words, \<open>memcpy\<close> on lists, and the collection \<open>word_bits\<close> of the rules that turn a
  statement on masks into one on bits.
\<close>

section \<open>Integers of the firmware\<close>

type_synonym u8 = "8 word"
type_synonym u16 = "16 word"
type_synonym u32 = "32 word"
type_synonym u64 = "64 word"

section \<open>The timer macros\<close>

definition timer_read :: "u32 \<Rightarrow> u16" where
  "timer_read now = ucast now"

definition TIMER_DIFF_16 :: "u16 \<Rightarrow> u16 \<Rightarrow> u16" where
  "TIMER_DIFF_16 a b = a - b"

definition TIMER_DIFF_32 :: "u32 \<Rightarrow> u32 \<Rightarrow> u32" where
  "TIMER_DIFF_32 a b = a - b"

definition timer_elapsed :: "u32 \<Rightarrow> u16 \<Rightarrow> u16" where
  "timer_elapsed now since = TIMER_DIFF_16 (timer_read now) since"

definition timer_elapsed32 :: "u32 \<Rightarrow> u32 \<Rightarrow> u32" where
  "timer_elapsed32 now since = TIMER_DIFF_32 now since"

definition timer_expired :: "u16 \<Rightarrow> u16 \<Rightarrow> bool" where
  "timer_expired current future = (current - future < 65535 div 2)"

definition timer_expired32 :: "u32 \<Rightarrow> u32 \<Rightarrow> bool" where
  "timer_expired32 current future = (current - future < 4294967295 div 2)"

lemma timer_elapsed32_self [simp]: "timer_elapsed32 now now = 0"
  by (simp add: timer_elapsed32_def TIMER_DIFF_32_def)

lemma timer_elapsed32_advance [simp]: "timer_elapsed32 (t + d) t = d"
  by (simp add: timer_elapsed32_def TIMER_DIFF_32_def)

section \<open>The matrix of the keyboard\<close>

text \<open>\<open>keyboards/hernian/danopad01/keyboard.json\<close> wires four rows and six columns.\<close>

definition MATRIX_ROWS :: nat where
  "MATRIX_ROWS = 4"

definition MATRIX_COLS :: nat where
  "MATRIX_COLS = 6"

section \<open>Bits\<close>

named_theorems word_bits

declare bit_and_iff [word_bits] bit_or_iff [word_bits] bit_xor_iff [word_bits]
  bit_not_iff [word_bits] bit_push_bit_iff [word_bits] bit_drop_bit_eq [word_bits]
  bit_exp_iff [word_bits] push_bit_of_1 [word_bits] and_exp_eq_0_iff_not_bit [word_bits]
  bit_take_bit_iff [word_bits] bit_unsigned_iff [word_bits] bit_1_iff [word_bits]

lemma and_bit_mask_eq_0 [word_bits]: "(x AND push_bit n 1 = 0) = (\<not> bit x n)"
  for x :: "'a::len word"
  by (simp add: push_bit_of_1 and_exp_eq_0_iff_not_bit)

lemma bit_word_over [simp]: "LENGTH('a) \<le> n \<Longrightarrow> \<not> bit (x :: 'a::len word) n"
  using bit_imp_le_length leD by blast

lemma bit_mask_iff_word [word_bits]: "bit (push_bit m 1 :: 'a::len word) n = (n = m \<and> m < LENGTH('a))"
  by (auto simp: push_bit_of_1 bit_exp_iff)

lemma bit_minus_1_word [word_bits]: "bit (- 1 :: 'a::len word) n = (n < LENGTH('a))"
  by (simp add: bit_minus_1_iff)

lemma word_neq_0_bit: "x \<noteq> 0 \<Longrightarrow> \<exists>n < LENGTH('a). bit x n" for x :: "'a::len word"
proof (rule ccontr)
  assume "x \<noteq> 0" and "\<not> (\<exists>n < LENGTH('a). bit x n)"
  then have "x = 0" by (intro bit_word_eqI) auto
  with \<open>x \<noteq> 0\<close> show False by simp
qed

lemma xor_eq_0_word [simp]: "x XOR y = 0 \<longleftrightarrow> x = y" for x y :: "'a::len word"
proof
  assume "x XOR y = 0"
  then have "(x XOR y) XOR y = y" by simp
  then show "x = y" by (simp add: xor.assoc)
qed simp

lemma unat_eq_0_word: "unat x = 0 \<longleftrightarrow> x = 0" for x :: "'a::len word"
  by (simp only: word_unat_eq_iff unat_0)

lemma unat_less_exp: "unat (x :: 'a::len word) < 2 ^ LENGTH('a)"
  by (rule unsigned_less)

lemma unat_drop_bit: "unat (drop_bit n x) = unat x div 2 ^ n" for x :: "'a::len word"
  unfolding unat_drop_bit_eq by (simp add: drop_bit_eq_div)

lemma drop_bit_range:
  fixes x c :: "'a::len word"
  assumes "drop_bit n x = c"
  shows "unat c * 2 ^ n \<le> unat x" "unat x < (unat c + 1) * 2 ^ n"
proof -
  have c: "unat c = unat x div 2 ^ n"
    unfolding assms [symmetric] by (rule unat_drop_bit)
  show "unat c * 2 ^ n \<le> unat x" unfolding c by simp
  show "unat x < (unat c + 1) * 2 ^ n"
    unfolding c using dividend_less_div_times [of "2 ^ n" "unat x"] by simp
qed

lemma drop_bit_0_bit: "drop_bit n x = 0 \<Longrightarrow> n \<le> i \<Longrightarrow> \<not> bit x i" for x :: "'a::len word"
proof -
  assume "drop_bit n x = 0" "n \<le> i"
  then have "\<not> bit (drop_bit n x) (i - n)" by simp
  with \<open>n \<le> i\<close> show ?thesis by (simp only: bit_drop_bit_eq comp_apply le_add_diff_inverse not_False_eq_True)
qed

text \<open>Equality of 8-bit and 16-bit words, bit by bit, for goals whose bits simplification computes.\<close>

lemma u8_eqI:
  fixes x y :: u8
  assumes "bit x 0 = bit y 0" "bit x 1 = bit y 1" "bit x 2 = bit y 2" "bit x 3 = bit y 3"
    "bit x 4 = bit y 4" "bit x 5 = bit y 5" "bit x 6 = bit y 6" "bit x 7 = bit y 7"
  shows "x = y"
proof (rule bit_word_eqI)
  fix n assume "n < LENGTH(8)"
  then have "n \<in> set [0, 1, 2, 3, 4, 5, 6, 7]" by (simp, presburger)
  then show "bit x n = bit y n" using assms by auto
qed

lemma u16_eqI:
  fixes x y :: u16
  assumes "bit x 0 = bit y 0" "bit x 1 = bit y 1" "bit x 2 = bit y 2" "bit x 3 = bit y 3"
    "bit x 4 = bit y 4" "bit x 5 = bit y 5" "bit x 6 = bit y 6" "bit x 7 = bit y 7"
    "bit x 8 = bit y 8" "bit x 9 = bit y 9" "bit x 10 = bit y 10" "bit x 11 = bit y 11"
    "bit x 12 = bit y 12" "bit x 13 = bit y 13" "bit x 14 = bit y 14" "bit x 15 = bit y 15"
  shows "x = y"
proof (rule bit_word_eqI)
  fix n assume "n < LENGTH(16)"
  then have "n \<in> set [0, 1, 2, 3, 4, 5, 6, 7, 8, 9, 10, 11, 12, 13, 14, 15]"
    by (simp, presburger)
  then show "bit x n = bit y n" using assms by auto
qed

section \<open>Bytes of wider words\<close>

text \<open>
  The targets are little-endian: the first byte of a word in memory is its low byte.
\<close>

definition lo8 :: "u16 \<Rightarrow> u8" where
  "lo8 w = ucast w"

definition hi8 :: "u16 \<Rightarrow> u8" where
  "hi8 w = ucast (drop_bit 8 w)"

definition mk16 :: "u8 \<Rightarrow> u8 \<Rightarrow> u16" where
  "mk16 lo hi = push_bit 8 (ucast hi) OR ucast lo"

lemma lo8_mk16 [simp]: "lo8 (mk16 lo hi) = lo"
  by (rule bit_word_eqI) (auto simp: lo8_def mk16_def word_bits)

lemma hi8_mk16 [simp]: "hi8 (mk16 lo hi) = hi"
  by (rule bit_word_eqI) (auto simp: hi8_def mk16_def word_bits)

lemma mk16_lo8_hi8 [simp]: "mk16 (lo8 w) (hi8 w) = w"
  by (rule bit_word_eqI) (auto simp: lo8_def hi8_def mk16_def word_bits)

lemma mk16_eq_iff [simp]: "mk16 a b = mk16 c d \<longleftrightarrow> a = c \<and> b = d"
  by (metis lo8_mk16 hi8_mk16)

lemma mk16_eq_0 [simp]: "mk16 a b = 0 \<longleftrightarrow> a = 0 \<and> b = 0"
proof -
  have "mk16 0 0 = 0" by (simp add: mk16_def)
  then show ?thesis using mk16_eq_iff [of a b 0 0] by simp
qed

section \<open>Copies within memory\<close>

text \<open>
  \<open>memcpy(&dst[ofs], src, n)\<close> on lists of bytes: the callers keep \<open>ofs + n\<close> within the
  destination.
\<close>

definition memcpy_at :: "'a list \<Rightarrow> nat \<Rightarrow> 'a list \<Rightarrow> 'a list" where
  "memcpy_at dst ofs src = take ofs dst @ src @ drop (ofs + length src) dst"

lemma length_memcpy_at [simp]:
  "ofs + length src \<le> length dst \<Longrightarrow> length (memcpy_at dst ofs src) = length dst"
  by (simp add: memcpy_at_def)

lemma memcpy_at_Nil [simp]: "memcpy_at dst ofs [] = dst"
  by (simp add: memcpy_at_def)

lemma memcpy_at_read [simp]:
  "ofs + length src \<le> length dst \<Longrightarrow> take (length src) (drop ofs (memcpy_at dst ofs src)) = src"
  by (simp add: memcpy_at_def)

lemma nth_memcpy_at:
  assumes "ofs + length src \<le> length dst" "i < length dst"
  shows "memcpy_at dst ofs src ! i =
    (if ofs \<le> i \<and> i < ofs + length src then src ! (i - ofs) else dst ! i)"
  using assms by (auto simp: memcpy_at_def nth_append min_def)

lemma memcpy_at_append:
  assumes "ofs + length (xs @ ys) \<le> length dst"
  shows "memcpy_at (memcpy_at dst ofs xs) (ofs + length xs) ys = memcpy_at dst ofs (xs @ ys)"
  by (rule nth_equalityI) (use assms in \<open>auto simp: nth_memcpy_at nth_append\<close>)

lemma memcpy_at_self:
  assumes "ofs + n \<le> length dst"
  shows "memcpy_at dst ofs (take n (drop ofs dst)) = dst"
  by (rule nth_equalityI) (use assms in \<open>auto simp: nth_memcpy_at\<close>)

lemma memcpy_at_single: "ofs < length dst \<Longrightarrow> memcpy_at dst ofs [v] = dst[ofs := v]"
  by (rule nth_equalityI) (auto simp: nth_memcpy_at nth_list_update)

section \<open>Lists\<close>

lemma nth_fold_update_other:
  assumes "\<And>j xs. j \<in> set js \<Longrightarrow> length (f j xs) = length xs \<and> f j xs ! i = xs ! i"
  shows "fold f js xs ! i = xs ! i"
  using assms by (induction js arbitrary: xs) auto

lemma length_fold_update:
  assumes "\<And>j xs. length (f j xs) = length xs"
  shows "length (fold f js xs) = length xs"
  using assms by (induction js arbitrary: xs) auto

end
