(* ===== verification/Bitwise.thy ===== *)
theory Bitwise
  imports Qmk_Prelude
begin

text \<open>
  \<open>quantum/bitwise.c\<close>: population count, most significant bit and bit reversal, each at the
  three widths of the source. The loop of \<open>bitpop\<close> clears the lowest set bit per round, so it
  stops after as many rounds as bits are set; the counter is the \<open>uint8_t\<close> of the source.
  The lemmas give the mathematical meaning of each function.
\<close>

section \<open>The functions\<close>

lemma clear_lowest_less: "bits \<noteq> 0 \<Longrightarrow> unat (bits AND (bits - 1)) < unat bits"
  for bits :: "'a::len word"
proof -
  assume nz: "bits \<noteq> 0"
  have "bits AND (bits - 1) \<le> bits - 1"
    by (simp add: word_and_le1)
  also have "bits - 1 < bits"
    using nz by (metis measure_unat unat_mono word_less_nat_alt)
  finally show ?thesis by (simp add: word_less_nat_alt)
qed

function bitpop_loop :: "u8 \<Rightarrow> 'a::len word \<Rightarrow> u8" where
  "bitpop_loop c bits = (if bits \<noteq> 0 then bitpop_loop (c + 1) (bits AND (bits - 1)) else c)"
  by pat_completeness auto
termination
  by (relation "measure (\<lambda>(c, bits). unat bits)") (auto simp: clear_lowest_less)

declare bitpop_loop.simps [simp del]

definition bitpop :: "u8 \<Rightarrow> u8" where
  "bitpop bits = bitpop_loop 0 bits"

definition bitpop16 :: "u16 \<Rightarrow> u8" where
  "bitpop16 bits = bitpop_loop 0 bits"

definition bitpop32 :: "u32 \<Rightarrow> u8" where
  "bitpop32 bits = bitpop_loop 0 bits"

text \<open>One halving step \<open>if (bits >> m) { bits >>= m; n += m; }\<close>.\<close>

definition biton_step :: "nat \<Rightarrow> 'a::len word \<times> u8 \<Rightarrow> 'a word \<times> u8" where
  "biton_step m = (\<lambda>(bits, n).
     if drop_bit m bits \<noteq> 0 then (drop_bit m bits, n + of_nat m) else (bits, n))"

definition biton :: "u8 \<Rightarrow> u8" where
  "biton bits = snd (biton_step 1 (biton_step 2 (biton_step 4 (bits, 0))))"

definition biton16 :: "u16 \<Rightarrow> u8" where
  "biton16 bits = snd (biton_step 1 (biton_step 2 (biton_step 4 (biton_step 8 (bits, 0)))))"

definition biton32 :: "u32 \<Rightarrow> u8" where
  "biton32 bits =
     snd (biton_step 1 (biton_step 2 (biton_step 4 (biton_step 8 (biton_step 16 (bits, 0))))))"

definition bitrev :: "u8 \<Rightarrow> u8" where
  "bitrev bits =
     (let b1 = push_bit 4 (bits AND 0x0F) OR drop_bit 4 (bits AND 0xF0);
          b2 = push_bit 2 (b1 AND 0x33) OR drop_bit 2 (b1 AND 0xCC);
          b3 = push_bit 1 (b2 AND 0x55) OR drop_bit 1 (b2 AND 0xAA)
      in b3)"

definition bitrev16 :: "u16 \<Rightarrow> u16" where
  "bitrev16 bits =
     push_bit 8 (ucast (bitrev (ucast (bits AND 0x00FF)))) OR
     ucast (bitrev (ucast (drop_bit 8 (bits AND 0xFF00))))"

definition bitrev32 :: "u32 \<Rightarrow> u32" where
  "bitrev32 bits =
     push_bit 16 (ucast (bitrev16 (ucast (bits AND 0x0000FFFF)))) OR
     ucast (bitrev16 (ucast (drop_bit 16 (bits AND 0xFFFF0000))))"

section \<open>Population count\<close>

text \<open>\<open>bits & (bits - 1)\<close> clears exactly the lowest set bit.\<close>

lemma and_minus_1:
  assumes "bits \<noteq> (0 :: 'a::len word)"
  shows "\<exists>k. bit bits k \<and> (\<forall>n. bit (bits AND (bits - 1)) n = (bit bits n \<and> n \<noteq> k))"
proof -
  obtain k0 where "bit bits k0" using word_neq_0_bit [OF assms] by blast
  then obtain k where k: "bit bits k" and low: "\<And>n. n < k \<Longrightarrow> \<not> bit bits n"
    using LeastI [of "bit bits"] not_less_Least [of _ "bit bits"] by metis
  from k have k_len: "k < LENGTH('a)" by (rule bit_imp_le_length)
  define y where "y = bits AND NOT (push_bit k 1)"
  have y_bit: "bit y n = (bit bits n \<and> n \<noteq> k)" for n
    using k_len by (auto simp: y_def word_bits dest: bit_imp_le_length)
  have "bits = y OR push_bit k 1"
    by (rule bit_word_eqI) (use k k_len in \<open>auto simp: y_bit word_bits\<close>)
  also have "\<dots> = y + push_bit k 1"
    by (rule disjunctive_add [symmetric]) (auto simp: y_bit word_bits)
  finally have "bits = y + 2 ^ k" by (simp add: push_bit_of_1)
  then have "bits - 1 = y + mask k" by (simp add: mask_eq_exp_minus_1 algebra_simps)
  also have "y + mask k = y OR mask k"
    by (rule disjunctive_add) (use low in \<open>auto simp: y_bit bit_mask_iff\<close>)
  finally have pred: "bits - 1 = y OR mask k" .
  have "bit (bits AND (bits - 1)) n = (bit bits n \<and> n \<noteq> k)" for n
    unfolding pred using low [of n] by (auto simp: bit_and_iff bit_or_iff y_bit bit_mask_iff)
  with k show ?thesis by blast
qed

definition ones :: "'a::len word \<Rightarrow> nat set" where
  "ones w = {n. bit w n}"

lemma ones_bounded: "ones w \<subseteq> {..<LENGTH('a)}" for w :: "'a::len word"
  by (auto simp: ones_def dest: bit_imp_le_length)

lemma finite_ones [simp]: "finite (ones w)" for w :: "'a::len word"
  using ones_bounded finite_subset by blast

lemma card_ones_le: "card (ones w) \<le> LENGTH('a)" for w :: "'a::len word"
  using card_mono [OF _ ones_bounded [of w]] by simp

lemma card_ones_clear_lowest:
  assumes "bits \<noteq> (0 :: 'a::len word)"
  shows "card (ones bits) = Suc (card (ones (bits AND (bits - 1))))"
proof -
  obtain k where k: "bit bits k"
    and cleared: "\<And>n. bit (bits AND (bits - 1)) n = (bit bits n \<and> n \<noteq> k)"
    using and_minus_1 [OF assms] by blast
  have "ones (bits AND (bits - 1)) = ones bits - {k}"
    unfolding ones_def cleared by blast
  moreover have "k \<in> ones bits" using k by (simp add: ones_def)
  ultimately show ?thesis using card_Suc_Diff1 [OF finite_ones, of k bits] by metis
qed

lemma bitpop_loop_eq: "bitpop_loop c bits = c + of_nat (card (ones bits))"
  for bits :: "'a::len word"
proof (induction c bits rule: bitpop_loop.induct)
  case (1 c bits)
  show ?case
  proof (cases "bits = 0")
    case True
    then show ?thesis by (simp add: bitpop_loop.simps ones_def)
  next
    case False
    with 1 show ?thesis
      by (subst bitpop_loop.simps) (simp add: card_ones_clear_lowest)
  qed
qed

lemma unat_bitpop_loop:
  "LENGTH('a) < 256 \<Longrightarrow> unat (bitpop_loop 0 bits) = card (ones bits)"
  for bits :: "'a::len word"
  using card_ones_le [of bits] by (simp add: bitpop_loop_eq unsigned_of_nat take_bit_eq_mod)

section \<open>Most significant bit\<close>

text \<open>The highest set bit of a nonzero word.\<close>

definition msb_index :: "'a::len word \<Rightarrow> nat" where
  "msb_index w = Max (ones w)"

lemma ones_nonempty: "w \<noteq> 0 \<Longrightarrow> ones w \<noteq> {}" for w :: "'a::len word"
  using word_neq_0_bit by (auto simp: ones_def)

lemma msb_index_in: "w \<noteq> 0 \<Longrightarrow> bit w (msb_index w)" for w :: "'a::len word"
  using Max_in [OF finite_ones ones_nonempty, of w] by (simp add: msb_index_def ones_def)

lemma msb_index_ge: "bit w n \<Longrightarrow> n \<le> msb_index w" for w :: "'a::len word"
  by (simp add: msb_index_def ones_def Max_ge [OF finite_ones, unfolded ones_def])

lemma msb_index_eqI: "bit w n \<Longrightarrow> (\<And>m. bit w m \<Longrightarrow> m \<le> n) \<Longrightarrow> msb_index w = n"
  for w :: "'a::len word"
  by (metis bit_0_eq bot_apply bot_bool_def le_antisym msb_index_ge msb_index_in)

lemma msb_index_drop_bit:
  assumes "drop_bit m w \<noteq> (0 :: 'a::len word)"
  shows "msb_index w = m + msb_index (drop_bit m w)"
proof (rule msb_index_eqI)
  let ?k = "msb_index (drop_bit m w)"
  show "bit w (m + ?k)" using msb_index_in [OF assms] by (simp add: bit_drop_bit_eq)
  fix i assume "bit w i"
  show "i \<le> m + ?k"
  proof (cases "i < m")
    case False
    with \<open>bit w i\<close> have "bit (drop_bit m w) (i - m)" by (simp add: bit_drop_bit_eq)
    from msb_index_ge [OF this] show ?thesis by linarith
  qed simp
qed

text \<open>
  The invariant of the halving steps: the bits still under search are nonzero and at most
  \<open>2 m\<close> wide, and the index found so far plus theirs is the index sought.
\<close>

definition msb_search :: "'a::len word \<Rightarrow> nat \<Rightarrow> 'a word \<times> u8 \<Rightarrow> bool" where
  "msb_search w m s \<longleftrightarrow> fst s \<noteq> 0 \<and> drop_bit m (fst s) = 0 \<and>
     of_nat (msb_index w) = snd s + of_nat (msb_index (fst s))"

lemma biton_step_search:
  assumes "msb_search w k s" "k = 2 * m"
  shows "msb_search w m (biton_step m s)"
proof (cases s)
  case (Pair b n)
  with assms have "drop_bit m (drop_bit m b) = 0" by (simp add: msb_search_def mult_2)
  with assms Pair show ?thesis
    by (auto simp: msb_search_def biton_step_def msb_index_drop_bit [of m b] add.assoc)
qed

lemma drop_bit_1_msb: "drop_bit 1 w = 0 \<Longrightarrow> w \<noteq> 0 \<Longrightarrow> msb_index w = 0"
  for w :: "'a::len word"
proof -
  assume "drop_bit 1 w = 0" "w \<noteq> 0"
  then have "\<not> bit w (Suc n)" for n
    by (metis One_nat_def bit_0_eq bit_drop_bit_eq bot_apply bot_bool_def comp_apply plus_1_eq_Suc)
  with msb_index_in [OF \<open>w \<noteq> 0\<close>] show ?thesis by (cases "msb_index w") auto
qed

lemma msb_search_done: "msb_search w 1 s \<Longrightarrow> snd s = of_nat (msb_index w)"
  using drop_bit_1_msb [of "fst s"] by (simp add: msb_search_def)

lemma msb_search_start:
  "bits \<noteq> 0 \<Longrightarrow> LENGTH('a) \<le> m \<Longrightarrow> msb_search bits m (bits, 0)" for bits :: "'a::len word"
  by (auto simp: msb_search_def intro!: bit_word_eqI simp: bit_drop_bit_eq)

lemma biton_msb: "bits \<noteq> 0 \<Longrightarrow> biton bits = of_nat (msb_index bits)"
  unfolding biton_def
  by (rule msb_search_done, (rule biton_step_search)+, rule msb_search_start [of bits 8]) simp_all

lemma biton16_msb: "bits \<noteq> 0 \<Longrightarrow> biton16 bits = of_nat (msb_index bits)"
  unfolding biton16_def
  by (rule msb_search_done, (rule biton_step_search)+, rule msb_search_start [of bits 16]) simp_all

lemma biton32_msb: "bits \<noteq> 0 \<Longrightarrow> biton32 bits = of_nat (msb_index bits)"
  unfolding biton32_def
  by (rule msb_search_done, (rule biton_step_search)+, rule msb_search_start [of bits 32]) simp_all

lemma biton_zero: "biton 0 = 0" "biton16 0 = 0" "biton32 0 = 0"
  by (simp_all add: biton_def biton16_def biton32_def biton_step_def)

section \<open>Bit reversal\<close>

text \<open>Each stage swaps neighbouring groups of 4, 2 and 1 bits.\<close>

lemma less_8_cases:
  assumes "n < (8 :: nat)"
  obtains "n = 0" | "n = 1" | "n = 2" | "n = 3" | "n = 4" | "n = 5" | "n = 6" | "n = 7"
  using assms by linarith

lemma bitrev_stage4:
  assumes "n < 8"
  shows "bit (push_bit 4 (b AND 0x0F) OR drop_bit 4 (b AND 0xF0) :: u8) n =
    bit b (if n < 4 then n + 4 else n - 4)"
  by (rule less_8_cases [OF assms])
     (simp_all add: bit_and_iff bit_or_iff bit_push_bit_iff bit_drop_bit_eq)

lemma bitrev_stage2:
  assumes "n < 8"
  shows "bit (push_bit 2 (b AND 0x33) OR drop_bit 2 (b AND 0xCC) :: u8) n =
    bit b (if n mod 4 < 2 then n + 2 else n - 2)"
  by (rule less_8_cases [OF assms],
      simp_all add: bit_and_iff bit_or_iff bit_push_bit_iff bit_drop_bit_eq)
     (simp_all only: numeral_2_eq_2 numeral_3_eq_3)

lemma bitrev_stage1:
  assumes "n < 8"
  shows "bit (push_bit 1 (b AND 0x55) OR drop_bit 1 (b AND 0xAA) :: u8) n =
    bit b (if n mod 2 < 1 then n + 1 else n - 1)"
  by (rule less_8_cases [OF assms],
      simp_all add: bit_and_iff bit_or_iff bit_push_bit_iff bit_drop_bit_eq,
      simp_all only: mult.commute [of _ 2] bit_double_iff, simp_all)
     (simp only: numeral_3_eq_3)

lemma bit_bitrev: "bit (bitrev b) n = (n < 8 \<and> bit b (7 - n))"
proof (cases "n < 8")
  case True
  define n1 where "n1 = (if n mod 2 < 1 then n + 1 else n - 1)"
  define n2 where "n2 = (if n1 mod 4 < 2 then n1 + 2 else n1 - 2)"
  define n3 where "n3 = (if n2 < 4 then n2 + 4 else n2 - 4)"
  have n1: "n1 < 8" unfolding n1_def using True by presburger
  then have n2: "n2 < 8" unfolding n2_def by presburger
  have "bit (bitrev b) n = bit b n3"
    unfolding bitrev_def Let_def bitrev_stage1 [OF True] n1_def [symmetric]
      bitrev_stage2 [OF n1] n2_def [symmetric] bitrev_stage4 [OF n2] n3_def [symmetric] ..
  moreover have "n3 = 7 - n"
    by (rule less_8_cases [OF True]) (simp_all add: n3_def n2_def n1_def)
  ultimately show ?thesis using True by simp
qed simp

lemma bit_bitrev16: "bit (bitrev16 b) n = (n < 16 \<and> bit b (15 - n))"
proof -
  have m: "(0x00FF :: u16) = mask 8" "(0xFF00 :: u16) = push_bit 8 (mask 8)"
    by (simp_all add: mask_eq_exp_minus_1)
  have low: "ucast (b AND 0x00FF) = (ucast b :: u8)"
    unfolding m by (rule bit_word_eqI) (auto simp: word_bits bit_mask_iff)
  have high: "ucast (drop_bit 8 (b AND 0xFF00)) = (ucast (drop_bit 8 b) :: u8)"
    unfolding m by (rule bit_word_eqI) (auto simp: word_bits bit_mask_iff)
  show ?thesis
    unfolding bitrev16_def low high
    by (cases "n < 8") (auto simp: word_bits bit_bitrev)
qed

lemma bit_bitrev32: "bit (bitrev32 b) n = (n < 32 \<and> bit b (31 - n))"
proof -
  have m: "(0x0000FFFF :: u32) = mask 16" "(0xFFFF0000 :: u32) = push_bit 16 (mask 16)"
    by (simp_all add: mask_eq_exp_minus_1)
  have low: "ucast (b AND 0x0000FFFF) = (ucast b :: u16)"
    unfolding m by (rule bit_word_eqI) (auto simp: word_bits bit_mask_iff)
  have high: "ucast (drop_bit 16 (b AND 0xFFFF0000)) = (ucast (drop_bit 16 b) :: u16)"
    unfolding m by (rule bit_word_eqI) (auto simp: word_bits bit_mask_iff)
  show ?thesis
    unfolding bitrev32_def low high
    by (cases "n < 16") (auto simp: word_bits bit_bitrev16)
qed

lemma bitrev32_involutive: "bitrev32 (bitrev32 b) = b"
  by (rule bit_word_eqI) (auto simp: bit_bitrev32)

section \<open>Properties\<close>

text \<open>
  The three population counts return the number of set bits of their argument, and the
  three most-significant-bit functions return its highest set bit, or 0 when no bit is set.
\<close>

theorem bitpop_biton_correct:
  "unat (bitpop b) = card (ones b) \<and>
   unat (bitpop16 h) = card (ones h) \<and>
   unat (bitpop32 w) = card (ones w) \<and>
   biton b = (if b = 0 then 0 else of_nat (msb_index b)) \<and>
   biton16 h = (if h = 0 then 0 else of_nat (msb_index h)) \<and>
   biton32 w = (if w = 0 then 0 else of_nat (msb_index w))"
  by (simp add: bitpop_def bitpop16_def bitpop32_def unat_bitpop_loop
      biton_msb biton16_msb biton32_msb biton_zero)

text \<open>
  Bit reversal maps bit \<open>n\<close> of its argument to the mirrored position at each width.
\<close>

theorem bitrev_mirrors:
  "bit (bitrev b) n = (n < 8 \<and> bit b (7 - n)) \<and>
   bit (bitrev16 h) n = (n < 16 \<and> bit h (15 - n)) \<and>
   bit (bitrev32 w) n = (n < 32 \<and> bit w (31 - n)) \<and>
   bitrev32 (bitrev32 w) = w"
  by (simp add: bit_bitrev bit_bitrev16 bit_bitrev32 bitrev32_involutive)

end
