(* ===== verification/Keycodes.thy ===== *)
theory Keycodes
  imports Qmk_Prelude
begin

text \<open>
  The numbers the firmware's components exchange: the 16-bit keycodes of
  \<open>quantum/keycodes.h\<close> that the modelled code names, the ranges its \<open>switch\<close> statements select
  on, the packed modifiers of \<open>quantum/modifiers.h\<close>, the field selectors of
  \<open>quantum/quantum_keycodes.h\<close>, and the HID usages of \<open>tmk_core/protocol/report.h\<close>.

  Constants are abbreviations, so that simplification computes with the numerals.
\<close>

section \<open>Basic keycodes\<close>

abbreviation (input) KC_NO :: u16 where "KC_NO \<equiv> 0x00"
abbreviation (input) KC_TRANSPARENT :: u16 where "KC_TRANSPARENT \<equiv> 0x01"
abbreviation (input) KC_A :: u16 where "KC_A \<equiv> 0x04"
abbreviation (input) KC_Z :: u16 where "KC_Z \<equiv> 0x1D"
abbreviation (input) KC_1 :: u16 where "KC_1 \<equiv> 0x1E"
abbreviation (input) KC_0 :: u16 where "KC_0 \<equiv> 0x27"
abbreviation (input) KC_ESCAPE :: u16 where "KC_ESCAPE \<equiv> 0x29"
abbreviation (input) KC_BACKSPACE :: u16 where "KC_BACKSPACE \<equiv> 0x2A"
abbreviation (input) KC_MINUS :: u16 where "KC_MINUS \<equiv> 0x2D"
abbreviation (input) KC_BACKSLASH :: u16 where "KC_BACKSLASH \<equiv> 0x31"
abbreviation (input) KC_GRAVE :: u16 where "KC_GRAVE \<equiv> 0x35"
abbreviation (input) KC_CAPS_LOCK :: u16 where "KC_CAPS_LOCK \<equiv> 0x39"
abbreviation (input) KC_DELETE :: u16 where "KC_DELETE \<equiv> 0x4C"
abbreviation (input) KC_LOCKING_CAPS_LOCK :: u16 where "KC_LOCKING_CAPS_LOCK \<equiv> 0x82"
abbreviation (input) KC_EXSEL :: u16 where "KC_EXSEL \<equiv> 0xA4"
abbreviation (input) KC_SYSTEM_POWER :: u16 where "KC_SYSTEM_POWER \<equiv> 0xA5"
abbreviation (input) KC_SYSTEM_WAKE :: u16 where "KC_SYSTEM_WAKE \<equiv> 0xA7"
abbreviation (input) KC_AUDIO_MUTE :: u16 where "KC_AUDIO_MUTE \<equiv> 0xA8"
abbreviation (input) KC_LAUNCHPAD :: u16 where "KC_LAUNCHPAD \<equiv> 0xC2"
abbreviation (input) QK_MOUSE_CURSOR_UP :: u16 where "QK_MOUSE_CURSOR_UP \<equiv> 0xCD"
abbreviation (input) QK_MOUSE_ACCELERATION_2 :: u16 where "QK_MOUSE_ACCELERATION_2 \<equiv> 0xDF"
abbreviation (input) KC_LEFT_CTRL :: u16 where "KC_LEFT_CTRL \<equiv> 0xE0"
abbreviation (input) KC_LEFT_SHIFT :: u16 where "KC_LEFT_SHIFT \<equiv> 0xE1"
abbreviation (input) KC_LEFT_ALT :: u16 where "KC_LEFT_ALT \<equiv> 0xE2"
abbreviation (input) KC_LEFT_GUI :: u16 where "KC_LEFT_GUI \<equiv> 0xE3"
abbreviation (input) KC_RIGHT_CTRL :: u16 where "KC_RIGHT_CTRL \<equiv> 0xE4"
abbreviation (input) KC_RIGHT_SHIFT :: u16 where "KC_RIGHT_SHIFT \<equiv> 0xE5"
abbreviation (input) KC_RIGHT_ALT :: u16 where "KC_RIGHT_ALT \<equiv> 0xE6"
abbreviation (input) KC_RIGHT_GUI :: u16 where "KC_RIGHT_GUI \<equiv> 0xE7"

definition IS_MODIFIER_KEYCODE :: "u16 \<Rightarrow> bool" where
  "IS_MODIFIER_KEYCODE code = (KC_LEFT_CTRL \<le> code \<and> code \<le> KC_RIGHT_GUI)"

section \<open>Ranges of quantum keycodes\<close>

abbreviation (input) QK_MODS :: u16 where "QK_MODS \<equiv> 0x0100"
abbreviation (input) QK_MODS_MAX :: u16 where "QK_MODS_MAX \<equiv> 0x1FFF"
abbreviation (input) QK_MOD_TAP :: u16 where "QK_MOD_TAP \<equiv> 0x2000"
abbreviation (input) QK_MOD_TAP_MAX :: u16 where "QK_MOD_TAP_MAX \<equiv> 0x3FFF"
abbreviation (input) QK_LAYER_TAP :: u16 where "QK_LAYER_TAP \<equiv> 0x4000"
abbreviation (input) QK_LAYER_TAP_MAX :: u16 where "QK_LAYER_TAP_MAX \<equiv> 0x4FFF"
abbreviation (input) QK_LAYER_MOD :: u16 where "QK_LAYER_MOD \<equiv> 0x5000"
abbreviation (input) QK_LAYER_MOD_MAX :: u16 where "QK_LAYER_MOD_MAX \<equiv> 0x51FF"
abbreviation (input) QK_TO :: u16 where "QK_TO \<equiv> 0x5200"
abbreviation (input) QK_TO_MAX :: u16 where "QK_TO_MAX \<equiv> 0x521F"
abbreviation (input) QK_MOMENTARY :: u16 where "QK_MOMENTARY \<equiv> 0x5220"
abbreviation (input) QK_MOMENTARY_MAX :: u16 where "QK_MOMENTARY_MAX \<equiv> 0x523F"
abbreviation (input) QK_DEF_LAYER :: u16 where "QK_DEF_LAYER \<equiv> 0x5240"
abbreviation (input) QK_DEF_LAYER_MAX :: u16 where "QK_DEF_LAYER_MAX \<equiv> 0x525F"
abbreviation (input) QK_TOGGLE_LAYER :: u16 where "QK_TOGGLE_LAYER \<equiv> 0x5260"
abbreviation (input) QK_TOGGLE_LAYER_MAX :: u16 where "QK_TOGGLE_LAYER_MAX \<equiv> 0x527F"
abbreviation (input) QK_ONE_SHOT_LAYER :: u16 where "QK_ONE_SHOT_LAYER \<equiv> 0x5280"
abbreviation (input) QK_ONE_SHOT_LAYER_MAX :: u16 where "QK_ONE_SHOT_LAYER_MAX \<equiv> 0x529F"
abbreviation (input) QK_ONE_SHOT_MOD :: u16 where "QK_ONE_SHOT_MOD \<equiv> 0x52A0"
abbreviation (input) QK_ONE_SHOT_MOD_MAX :: u16 where "QK_ONE_SHOT_MOD_MAX \<equiv> 0x52BF"
abbreviation (input) QK_LAYER_TAP_TOGGLE :: u16 where "QK_LAYER_TAP_TOGGLE \<equiv> 0x52C0"
abbreviation (input) QK_LAYER_TAP_TOGGLE_MAX :: u16 where "QK_LAYER_TAP_TOGGLE_MAX \<equiv> 0x52DF"
abbreviation (input) QK_SWAP_HANDS :: u16 where "QK_SWAP_HANDS \<equiv> 0x5600"
abbreviation (input) QK_SWAP_HANDS_MAX :: u16 where "QK_SWAP_HANDS_MAX \<equiv> 0x56FF"
abbreviation (input) QK_LEADER :: u16 where "QK_LEADER \<equiv> 0x7C58"
abbreviation (input) QK_LOCK :: u16 where "QK_LOCK \<equiv> 0x7C59"
abbreviation (input) QK_CAPS_WORD_TOGGLE :: u16 where "QK_CAPS_WORD_TOGGLE \<equiv> 0x7C73"
abbreviation (input) QK_TRI_LAYER_LOWER :: u16 where "QK_TRI_LAYER_LOWER \<equiv> 0x7C77"
abbreviation (input) QK_TRI_LAYER_UPPER :: u16 where "QK_TRI_LAYER_UPPER \<equiv> 0x7C78"
abbreviation (input) QK_DYNAMIC_MACRO_RECORD_START_1 :: u16 where "QK_DYNAMIC_MACRO_RECORD_START_1 \<equiv> 0x7C53"
abbreviation (input) QK_DYNAMIC_MACRO_RECORD_START_2 :: u16 where "QK_DYNAMIC_MACRO_RECORD_START_2 \<equiv> 0x7C54"
abbreviation (input) QK_DYNAMIC_MACRO_RECORD_STOP :: u16 where "QK_DYNAMIC_MACRO_RECORD_STOP \<equiv> 0x7C55"
abbreviation (input) QK_DYNAMIC_MACRO_PLAY_1 :: u16 where "QK_DYNAMIC_MACRO_PLAY_1 \<equiv> 0x7C56"
abbreviation (input) QK_DYNAMIC_MACRO_PLAY_2 :: u16 where "QK_DYNAMIC_MACRO_PLAY_2 \<equiv> 0x7C57"

text \<open>A \<open>case A ... B:\<close> label of a \<open>switch\<close>.\<close>

definition in_range :: "u16 \<Rightarrow> u16 \<Rightarrow> u16 \<Rightarrow> bool" where
  "in_range kc a b = (a \<le> kc \<and> kc \<le> b)"

section \<open>Packed modifiers\<close>

abbreviation (input) MOD_LCTL :: u8 where "MOD_LCTL \<equiv> 0x01"
abbreviation (input) MOD_LSFT :: u8 where "MOD_LSFT \<equiv> 0x02"
abbreviation (input) MOD_LALT :: u8 where "MOD_LALT \<equiv> 0x04"
abbreviation (input) MOD_LGUI :: u8 where "MOD_LGUI \<equiv> 0x08"
abbreviation (input) MOD_RCTL :: u8 where "MOD_RCTL \<equiv> 0x11"
abbreviation (input) MOD_RSFT :: u8 where "MOD_RSFT \<equiv> 0x12"
abbreviation (input) MOD_RALT :: u8 where "MOD_RALT \<equiv> 0x14"
abbreviation (input) MOD_RGUI :: u8 where "MOD_RGUI \<equiv> 0x18"

abbreviation (input) MOD_MASK_CTRL :: u8 where "MOD_MASK_CTRL \<equiv> 0x11"
abbreviation (input) MOD_MASK_SHIFT :: u8 where "MOD_MASK_SHIFT \<equiv> 0x22"
abbreviation (input) MOD_MASK_ALT :: u8 where "MOD_MASK_ALT \<equiv> 0x44"
abbreviation (input) MOD_MASK_GUI :: u8 where "MOD_MASK_GUI \<equiv> 0x88"

section \<open>Fields of quantum keycodes\<close>

definition QK_MODS_GET_MODS :: "u16 \<Rightarrow> u8" where
  "QK_MODS_GET_MODS kc = ucast (drop_bit 8 kc AND 0x1F)"

definition QK_MODS_GET_BASIC_KEYCODE :: "u16 \<Rightarrow> u16" where
  "QK_MODS_GET_BASIC_KEYCODE kc = kc AND 0xFF"

definition QK_LAYER_GET_LAYER :: "u16 \<Rightarrow> u8" where
  "QK_LAYER_GET_LAYER kc = ucast (kc AND 0x1F)"

definition QK_LAYER_MOD_GET_LAYER :: "u16 \<Rightarrow> u8" where
  "QK_LAYER_MOD_GET_LAYER kc = ucast (drop_bit 5 kc AND 0xF)"

definition QK_LAYER_MOD_GET_MODS :: "u16 \<Rightarrow> u8" where
  "QK_LAYER_MOD_GET_MODS kc = ucast (kc AND 0x1F)"

definition QK_ONE_SHOT_MOD_GET_MODS :: "u16 \<Rightarrow> u8" where
  "QK_ONE_SHOT_MOD_GET_MODS kc = ucast (kc AND 0x1F)"

definition QK_LAYER_TAP_GET_LAYER :: "u16 \<Rightarrow> u8" where
  "QK_LAYER_TAP_GET_LAYER kc = ucast (drop_bit 8 kc AND 0xF)"

definition QK_LAYER_TAP_GET_TAP_KEYCODE :: "u16 \<Rightarrow> u16" where
  "QK_LAYER_TAP_GET_TAP_KEYCODE kc = kc AND 0xFF"

definition QK_MOD_TAP_GET_MODS :: "u16 \<Rightarrow> u8" where
  "QK_MOD_TAP_GET_MODS kc = ucast (drop_bit 8 kc AND 0x1F)"

definition QK_MOD_TAP_GET_TAP_KEYCODE :: "u16 \<Rightarrow> u16" where
  "QK_MOD_TAP_GET_TAP_KEYCODE kc = kc AND 0xFF"

section \<open>HID usages of the extra keys\<close>

definition KEYCODE2SYSTEM :: "u8 \<Rightarrow> u16" where
  "KEYCODE2SYSTEM key =
    (if key = 0xA5 then 0x81 else if key = 0xA6 then 0x82 else if key = 0xA7 then 0x83 else 0)"

text \<open>The cases of \<open>KEYCODE2CONSUMER\<close>, in the order of the keycodes.\<close>

definition consumer_usages :: "(u8 \<times> u16) list" where
  "consumer_usages =
    [(0xA8, 0x0E2), (0xA9, 0x0E9), (0xAA, 0x0EA), (0xAB, 0x0B5), (0xAC, 0x0B6), (0xAD, 0x0B7),
     (0xAE, 0x0CD), (0xAF, 0x183), (0xB0, 0x0CC), (0xB1, 0x18A), (0xB2, 0x192), (0xB3, 0x194),
     (0xB4, 0x221), (0xB5, 0x223), (0xB6, 0x224), (0xB7, 0x225), (0xB8, 0x226), (0xB9, 0x227),
     (0xBA, 0x22A), (0xBB, 0x0B3), (0xBC, 0x0B4), (0xBD, 0x06F), (0xBE, 0x070), (0xBF, 0x19F),
     (0xC0, 0x1CB), (0xC1, 0x29F), (0xC2, 0x2A0)]"

definition KEYCODE2CONSUMER :: "u8 \<Rightarrow> u16" where
  "KEYCODE2CONSUMER key = (case map_of consumer_usages key of Some u \<Rightarrow> u | None \<Rightarrow> 0)"

section \<open>Positions and events\<close>

record keypos_t =
  col :: u8
  row :: u8

end
