(* ===== verification/Keycode_Config.thy ===== *)
theory Keycode_Config
  imports Keycodes
begin

text \<open>
  \<open>quantum/keycode_config.c\<close>: the \<open>magic\<close> settings that swap or disable keys. The global
  \<open>keymap_config\<close> is an argument; its bit field is a record of the flags with the names of
  \<open>quantum/keycode_config.h\<close>.
\<close>

record keymap_config_t =
  swap_control_capslock :: bool
  capslock_to_control :: bool
  swap_lalt_lgui :: bool
  swap_ralt_rgui :: bool
  no_gui :: bool
  swap_grave_esc :: bool
  swap_backslash_backspace :: bool
  nkro :: bool
  swap_lctl_lgui :: bool
  swap_rctl_rgui :: bool
  oneshot_enable :: bool
  swap_escape_capslock :: bool
  autocorrect_enable :: bool

text \<open>All flags off: the value of \<open>raw = 0\<close>.\<close>

definition keymap_config_zero :: keymap_config_t where
  "keymap_config_zero = \<lparr>
    swap_control_capslock = False, capslock_to_control = False, swap_lalt_lgui = False,
    swap_ralt_rgui = False, no_gui = False, swap_grave_esc = False,
    swap_backslash_backspace = False, nkro = False, swap_lctl_lgui = False,
    swap_rctl_rgui = False, oneshot_enable = False, swap_escape_capslock = False,
    autocorrect_enable = False \<rparr>"

definition keycode_config :: "keymap_config_t \<Rightarrow> u16 \<Rightarrow> u16" where
  "keycode_config cfg keycode =
    (if keycode = KC_CAPS_LOCK \<or> keycode = KC_LOCKING_CAPS_LOCK then
       (if swap_control_capslock cfg \<or> capslock_to_control cfg then KC_LEFT_CTRL
        else if swap_escape_capslock cfg then KC_ESCAPE
        else keycode)
     else if keycode = KC_LEFT_CTRL then
       (if swap_control_capslock cfg then KC_CAPS_LOCK
        else if swap_lctl_lgui cfg then (if no_gui cfg then KC_NO else KC_LEFT_GUI)
        else KC_LEFT_CTRL)
     else if keycode = KC_LEFT_ALT then
       (if swap_lalt_lgui cfg then (if no_gui cfg then KC_NO else KC_LEFT_GUI)
        else KC_LEFT_ALT)
     else if keycode = KC_LEFT_GUI then
       (if swap_lalt_lgui cfg then KC_LEFT_ALT
        else if swap_lctl_lgui cfg then KC_LEFT_CTRL
        else if no_gui cfg then KC_NO
        else KC_LEFT_GUI)
     else if keycode = KC_RIGHT_CTRL then
       (if swap_rctl_rgui cfg then (if no_gui cfg then KC_NO else KC_RIGHT_GUI)
        else KC_RIGHT_CTRL)
     else if keycode = KC_RIGHT_ALT then
       (if swap_ralt_rgui cfg then (if no_gui cfg then KC_NO else KC_RIGHT_GUI)
        else KC_RIGHT_ALT)
     else if keycode = KC_RIGHT_GUI then
       (if swap_ralt_rgui cfg then KC_RIGHT_ALT
        else if swap_rctl_rgui cfg then KC_RIGHT_CTRL
        else if no_gui cfg then KC_NO
        else KC_RIGHT_GUI)
     else if keycode = KC_GRAVE then (if swap_grave_esc cfg then KC_ESCAPE else KC_GRAVE)
     else if keycode = KC_ESCAPE then
       (if swap_grave_esc cfg then KC_GRAVE
        else if swap_escape_capslock cfg then KC_CAPS_LOCK
        else KC_ESCAPE)
     else if keycode = KC_BACKSLASH then
       (if swap_backslash_backspace cfg then KC_BACKSPACE else KC_BACKSLASH)
     else if keycode = KC_BACKSPACE then
       (if swap_backslash_backspace cfg then KC_BACKSLASH else KC_BACKSPACE)
     else keycode)"

text \<open>
  Each statement of \<open>mod_config\<close> is one step on the packed modifiers \<open>mod\<close>. The C operator
  \<open>^\<close> on the two comparisons is exclusive or of booleans.
\<close>

definition mod_config :: "keymap_config_t \<Rightarrow> u8 \<Rightarrow> u8" where
  "mod_config cfg mod0 =
    (let m1 = (if swap_lalt_lgui cfg
                  \<and> ((mod0 AND MOD_RALT = MOD_LALT) \<noteq> (mod0 AND MOD_RGUI = MOD_LGUI))
               then mod0 XOR (MOD_LALT OR MOD_LGUI) else mod0);
         m2 = (if swap_ralt_rgui cfg
                  \<and> ((m1 AND MOD_RALT = MOD_RALT) \<noteq> (m1 AND MOD_RGUI = MOD_RGUI))
               then m1 XOR (MOD_LALT OR MOD_LGUI) else m1);
         m3 = (if swap_lctl_lgui cfg
                  \<and> ((m2 AND MOD_RCTL = MOD_LCTL) \<noteq> (m2 AND MOD_RGUI = MOD_LGUI))
               then m2 XOR (MOD_LCTL OR MOD_LGUI) else m2);
         m4 = (if swap_rctl_rgui cfg
                  \<and> ((m3 AND MOD_RCTL = MOD_RCTL) \<noteq> (m3 AND MOD_RGUI = MOD_RGUI))
               then m3 XOR (MOD_LCTL OR MOD_LGUI) else m3)
     in if no_gui cfg then (m4 AND NOT MOD_LGUI) AND NOT MOD_RGUI else m4)"

section \<open>Facts\<close>

text \<open>
  The configurations in which every key takes part in at most one swap and none is disabled.
\<close>

definition magic_swaps_only :: "keymap_config_t \<Rightarrow> bool" where
  "magic_swaps_only cfg \<longleftrightarrow>
    \<not> no_gui cfg \<and> \<not> capslock_to_control cfg
    \<and> \<not> (swap_control_capslock cfg \<and> (swap_lctl_lgui cfg \<or> swap_escape_capslock cfg))
    \<and> \<not> (swap_lalt_lgui cfg \<and> swap_lctl_lgui cfg)
    \<and> \<not> (swap_ralt_rgui cfg \<and> swap_rctl_rgui cfg)
    \<and> \<not> (swap_grave_esc cfg \<and> swap_escape_capslock cfg)"

lemma keycode_config_zero [simp]: "keycode_config keymap_config_zero kc = kc"
  by (simp add: keycode_config_def keymap_config_zero_def)

lemma mod_config_zero [simp]: "mod_config keymap_config_zero m = m"
  by (simp add: mod_config_def keymap_config_zero_def)

lemma keycode_config_no_gui:
  "no_gui cfg \<Longrightarrow> keycode_config cfg kc \<noteq> KC_LEFT_GUI \<and> keycode_config cfg kc \<noteq> KC_RIGHT_GUI"
  by (simp add: keycode_config_def)

lemma keycode_config_cases [simp]:
  "keycode_config cfg KC_CAPS_LOCK =
    (if swap_control_capslock cfg \<or> capslock_to_control cfg then KC_LEFT_CTRL
     else if swap_escape_capslock cfg then KC_ESCAPE else KC_CAPS_LOCK)"
  "keycode_config cfg KC_LEFT_CTRL =
    (if swap_control_capslock cfg then KC_CAPS_LOCK
     else if swap_lctl_lgui cfg then (if no_gui cfg then KC_NO else KC_LEFT_GUI)
     else KC_LEFT_CTRL)"
  "keycode_config cfg KC_LEFT_SHIFT = KC_LEFT_SHIFT"
  "keycode_config cfg KC_LEFT_ALT =
    (if swap_lalt_lgui cfg then (if no_gui cfg then KC_NO else KC_LEFT_GUI) else KC_LEFT_ALT)"
  "keycode_config cfg KC_LEFT_GUI =
    (if swap_lalt_lgui cfg then KC_LEFT_ALT else if swap_lctl_lgui cfg then KC_LEFT_CTRL
     else if no_gui cfg then KC_NO else KC_LEFT_GUI)"
  "keycode_config cfg KC_RIGHT_CTRL =
    (if swap_rctl_rgui cfg then (if no_gui cfg then KC_NO else KC_RIGHT_GUI) else KC_RIGHT_CTRL)"
  "keycode_config cfg KC_RIGHT_SHIFT = KC_RIGHT_SHIFT"
  "keycode_config cfg KC_RIGHT_ALT =
    (if swap_ralt_rgui cfg then (if no_gui cfg then KC_NO else KC_RIGHT_GUI) else KC_RIGHT_ALT)"
  "keycode_config cfg KC_RIGHT_GUI =
    (if swap_ralt_rgui cfg then KC_RIGHT_ALT else if swap_rctl_rgui cfg then KC_RIGHT_CTRL
     else if no_gui cfg then KC_NO else KC_RIGHT_GUI)"
  "keycode_config cfg KC_GRAVE = (if swap_grave_esc cfg then KC_ESCAPE else KC_GRAVE)"
  "keycode_config cfg KC_ESCAPE =
    (if swap_grave_esc cfg then KC_GRAVE else if swap_escape_capslock cfg then KC_CAPS_LOCK
     else KC_ESCAPE)"
  "keycode_config cfg KC_BACKSLASH =
    (if swap_backslash_backspace cfg then KC_BACKSPACE else KC_BACKSLASH)"
  "keycode_config cfg KC_BACKSPACE =
    (if swap_backslash_backspace cfg then KC_BACKSLASH else KC_BACKSPACE)"
  by (simp_all add: keycode_config_def)

text \<open>The keycodes the function may change.\<close>

definition magic_keycodes :: "u16 list" where
  "magic_keycodes =
    [KC_CAPS_LOCK, KC_LOCKING_CAPS_LOCK, KC_LEFT_CTRL, KC_LEFT_ALT, KC_LEFT_GUI, KC_RIGHT_CTRL,
     KC_RIGHT_ALT, KC_RIGHT_GUI, KC_GRAVE, KC_ESCAPE, KC_BACKSLASH, KC_BACKSPACE]"

lemma keycode_config_other:
  "kc \<notin> set magic_keycodes \<Longrightarrow> keycode_config cfg kc = kc"
  by (simp add: keycode_config_def magic_keycodes_def)

lemma keycode_config_involution:
  assumes "magic_swaps_only cfg" "kc \<noteq> KC_LOCKING_CAPS_LOCK"
  shows "keycode_config cfg (keycode_config cfg kc) = kc"
proof (cases "kc \<in> set magic_keycodes")
  case False
  then show ?thesis by (simp add: keycode_config_other)
next
  case True
  then consider "kc = KC_CAPS_LOCK" | "kc = KC_LEFT_CTRL" | "kc = KC_LEFT_ALT" | "kc = KC_LEFT_GUI"
    | "kc = KC_RIGHT_CTRL" | "kc = KC_RIGHT_ALT" | "kc = KC_RIGHT_GUI" | "kc = KC_GRAVE"
    | "kc = KC_ESCAPE" | "kc = KC_BACKSLASH" | "kc = KC_BACKSPACE"
    using assms(2) by (auto simp: magic_keycodes_def)
  then show ?thesis
    using assms(1) by cases (simp_all add: magic_swaps_only_def split: if_splits)
qed

text \<open>The packed modifier of a modifier keycode, and the value 0 of a disabled one.\<close>

definition mod5_of_kc :: "u16 \<Rightarrow> u8" where
  "mod5_of_kc kc =
    (if kc = KC_LEFT_CTRL then MOD_LCTL else if kc = KC_LEFT_SHIFT then MOD_LSFT
     else if kc = KC_LEFT_ALT then MOD_LALT else if kc = KC_LEFT_GUI then MOD_LGUI
     else if kc = KC_RIGHT_CTRL then MOD_RCTL else if kc = KC_RIGHT_SHIFT then MOD_RSFT
     else if kc = KC_RIGHT_ALT then MOD_RALT else if kc = KC_RIGHT_GUI then MOD_RGUI
     else 0)"

lemma modifier_keycode_cases:
  assumes "IS_MODIFIER_KEYCODE kc"
  obtains "kc = KC_LEFT_CTRL" | "kc = KC_LEFT_SHIFT" | "kc = KC_LEFT_ALT" | "kc = KC_LEFT_GUI"
    | "kc = KC_RIGHT_CTRL" | "kc = KC_RIGHT_SHIFT" | "kc = KC_RIGHT_ALT" | "kc = KC_RIGHT_GUI"
proof -
  have "224 \<le> unat kc" "unat kc \<le> 231"
    using assms by (auto simp: IS_MODIFIER_KEYCODE_def word_le_nat_alt)
  then have "unat kc = 224 \<or> unat kc = 225 \<or> unat kc = 226 \<or> unat kc = 227 \<or>
    unat kc = 228 \<or> unat kc = 229 \<or> unat kc = 230 \<or> unat kc = 231" by linarith
  moreover have "kc = word_of_nat (unat kc)" by simp
  ultimately show thesis using that by (elim disjE) simp_all
qed


lemma mod_config_modifier:
  assumes "IS_MODIFIER_KEYCODE kc" "magic_swaps_only cfg" "\<not> swap_control_capslock cfg"
  shows "mod_config cfg (mod5_of_kc kc) = mod5_of_kc (keycode_config cfg kc)"
  using assms(1)
  by (rule modifier_keycode_cases)
    (use assms(2,3) in \<open>simp_all add: mod_config_def magic_swaps_only_def mod5_of_kc_def Let_def\<close>)

section \<open>Properties\<close>

text \<open>
  With swaps only, and no key in two of them, applying the magic settings twice gives back
  every keycode; a disabled GUI key is never produced, whatever the other settings are; and on a
  single modifier the packed modifiers of a modified key (\<open>mod_config\<close>) are remapped exactly as
  the modifier's own keycode is (\<open>keycode_config\<close>).
\<close>

theorem keycode_config_swaps:
  assumes "magic_swaps_only cfg" "\<not> swap_control_capslock cfg" "IS_MODIFIER_KEYCODE md"
    "kc \<noteq> KC_LOCKING_CAPS_LOCK"
  shows "keycode_config cfg (keycode_config cfg kc) = kc \<and>
    mod_config cfg (mod5_of_kc md) = mod5_of_kc (keycode_config cfg md) \<and>
    keycode_config (cfg\<lparr>no_gui := True\<rparr>) kc \<notin> {KC_LEFT_GUI, KC_RIGHT_GUI}"
  using assms keycode_config_no_gui [of "cfg\<lparr>no_gui := True\<rparr>" kc]
  by (simp add: keycode_config_involution mod_config_modifier)

theorem keycode_config_swaps_witness:
  "keycode_config (keymap_config_zero\<lparr>swap_lalt_lgui := True\<rparr>)
     (keycode_config (keymap_config_zero\<lparr>swap_lalt_lgui := True\<rparr>) KC_LEFT_ALT) = KC_LEFT_ALT"
  using keycode_config_swaps [of "keymap_config_zero\<lparr>swap_lalt_lgui := True\<rparr>" KC_LEFT_CTRL KC_LEFT_ALT]
  by (simp add: magic_swaps_only_def keymap_config_zero_def IS_MODIFIER_KEYCODE_def)

text \<open>
  With the GUI keys disabled, \<open>mod_config\<close> also clears the bit that marks the modifiers as
  right-hand ones, so every remaining modifier comes out as a left one: right control becomes
  left control, while \<open>keycode_config\<close> leaves the right control key alone.
\<close>

theorem mod_config_no_gui_moves_left:
  "mod_config (keymap_config_zero\<lparr>no_gui := True\<rparr>) m = m AND 0xE7 \<and>
   mod_config (keymap_config_zero\<lparr>no_gui := True\<rparr>) MOD_RCTL = MOD_LCTL \<and>
   keycode_config (keymap_config_zero\<lparr>no_gui := True\<rparr>) KC_RIGHT_CTRL = KC_RIGHT_CTRL"
proof -
  have n: "NOT (0x08 :: u8) AND NOT 0x18 = 0xE7"
    by (simp flip: word_unat_eq_iff)
  have "mod_config (keymap_config_zero\<lparr>no_gui := True\<rparr>) m = m AND (NOT MOD_LGUI AND NOT MOD_RGUI)"
    unfolding and.assoc [symmetric] by (simp add: mod_config_def keymap_config_zero_def Let_def)
  then have "mod_config (keymap_config_zero\<lparr>no_gui := True\<rparr>) m = m AND 0xE7"
    unfolding n .
  moreover have "mod_config (keymap_config_zero\<lparr>no_gui := True\<rparr>) MOD_RCTL = MOD_LCTL"
    by (simp add: mod_config_def keymap_config_zero_def)
  ultimately show ?thesis by (simp add: keymap_config_zero_def)
qed

end
