(* ===== verification/Keymap_Common.thy ===== *)
theory Keymap_Common
  imports Keycode_Config
begin

text \<open>
  From a key position to an action: the 16-bit action codes of \<open>quantum/action_code.h\<close>,
  \<open>keymap_key_to_keycode\<close>, \<open>action_for_keycode\<close> and \<open>action_for_key\<close> of
  \<open>quantum/keymap_common.c\<close>, and the raw keymap lookup of \<open>quantum/keymap_introspection.c\<close>.

  The configuration is the one of the danopad01 board: layers, tapping and one-shot keys are
  compiled in, the extra keys are enabled, swap hands, encoder map and DIP switch map are not.
  The keymap is an argument \<open>keymaps\<close>, one list of rows per layer; the board's own default
  keymap is \<open>danopad01_keymaps\<close>.
\<close>

section \<open>Action codes\<close>

type_synonym action_t = u16

abbreviation (input) ACTION_NO :: action_t where "ACTION_NO \<equiv> 0"
abbreviation (input) ACTION_TRANSPARENT :: action_t where "ACTION_TRANSPARENT \<equiv> 1"
abbreviation (input) ACT_MODS :: u16 where "ACT_MODS \<equiv> 0"
abbreviation (input) ACT_MODS_TAP :: u16 where "ACT_MODS_TAP \<equiv> 2"
abbreviation (input) ACT_USAGE :: u16 where "ACT_USAGE \<equiv> 4"
abbreviation (input) ACT_MOUSEKEY :: u16 where "ACT_MOUSEKEY \<equiv> 5"
abbreviation (input) ACT_LAYER :: u16 where "ACT_LAYER \<equiv> 8"
abbreviation (input) ACT_LAYER_MODS :: u16 where "ACT_LAYER_MODS \<equiv> 9"
abbreviation (input) ACT_LAYER_TAP :: u16 where "ACT_LAYER_TAP \<equiv> 10"
abbreviation (input) ACT_LAYER_TAP_EXT :: u16 where "ACT_LAYER_TAP_EXT \<equiv> 11"
abbreviation (input) ON_PRESS :: u16 where "ON_PRESS \<equiv> 1"
abbreviation (input) ON_RELEASE :: u16 where "ON_RELEASE \<equiv> 2"
abbreviation (input) OP_BIT_XOR :: u16 where "OP_BIT_XOR \<equiv> 2"
abbreviation (input) OP_BIT_SET :: u16 where "OP_BIT_SET \<equiv> 3"
abbreviation (input) OP_TAP_TOGGLE :: u16 where "OP_TAP_TOGGLE \<equiv> 0xF0"
abbreviation (input) OP_ON_OFF :: u16 where "OP_ON_OFF \<equiv> 0xF1"
abbreviation (input) OP_ONESHOT :: u16 where "OP_ONESHOT \<equiv> 0xF4"

definition ACTION :: "u16 \<Rightarrow> u16 \<Rightarrow> action_t" where
  "ACTION knd param = push_bit 12 knd OR param"

definition ACTION_MODS_KEY :: "u8 \<Rightarrow> u16 \<Rightarrow> action_t" where
  "ACTION_MODS_KEY mods key = ACTION ACT_MODS (push_bit 8 (ucast mods AND 0x1F) OR key)"

definition ACTION_MODS_TAP_KEY :: "u8 \<Rightarrow> u16 \<Rightarrow> action_t" where
  "ACTION_MODS_TAP_KEY mods key = ACTION ACT_MODS_TAP (push_bit 8 (ucast mods AND 0x1F) OR key)"

definition ACTION_LAYER_BITOP :: "u16 \<Rightarrow> u16 \<Rightarrow> u16 \<Rightarrow> u16 \<Rightarrow> action_t" where
  "ACTION_LAYER_BITOP op part bits on =
    ACTION ACT_LAYER (push_bit 10 op OR push_bit 8 on OR push_bit 5 part OR (bits AND 0x1F))"

definition ACTION_LAYER_TAP :: "u8 \<Rightarrow> u16 \<Rightarrow> action_t" where
  "ACTION_LAYER_TAP layer key = ACTION ACT_LAYER_TAP (push_bit 8 (ucast layer) OR key)"

text \<open>The bit of a layer within its four-layer part: \<open>(layer) / 4\<close> and \<open>1 << ((layer) % 4)\<close>.\<close>

definition layer_bitop :: "u16 \<Rightarrow> u8 \<Rightarrow> u16 \<Rightarrow> action_t" where
  "layer_bitop op layer on =
    ACTION_LAYER_BITOP op (ucast (drop_bit 2 layer)) (push_bit (unat (layer AND 3)) 1) on"

text \<open>The bit fields of the union \<open>action_t\<close>.\<close>

definition kind_id :: "action_t \<Rightarrow> u16" where
  "kind_id a = drop_bit 12 a"

definition key_code :: "action_t \<Rightarrow> u8" where
  "key_code a = ucast a"

definition key_mods :: "action_t \<Rightarrow> u8" where
  "key_mods a = ucast (drop_bit 8 a AND 0xF)"

definition layer_tap_code :: "action_t \<Rightarrow> u8" where
  "layer_tap_code a = ucast a"

definition layer_tap_val :: "action_t \<Rightarrow> u8" where
  "layer_tap_val a = ucast (drop_bit 8 a AND 0x1F)"

definition layer_mods_mods :: "action_t \<Rightarrow> u8" where
  "layer_mods_mods a = ucast a"

definition layer_mods_layer :: "action_t \<Rightarrow> u8" where
  "layer_mods_layer a = ucast (drop_bit 8 a AND 0xF)"

section \<open>From keycodes to actions\<close>

definition action_for_keycode :: "keymap_config_t \<Rightarrow> u16 \<Rightarrow> action_t" where
  "action_for_keycode cfg keycode0 =
    (let keycode = keycode_config cfg keycode0 in
     if in_range keycode KC_A KC_EXSEL \<or> in_range keycode KC_LEFT_CTRL KC_RIGHT_GUI then
       ACTION ACT_MODS keycode
     else if in_range keycode KC_SYSTEM_POWER KC_SYSTEM_WAKE then
       ACTION ACT_USAGE (KEYCODE2SYSTEM (ucast keycode))
     else if in_range keycode KC_AUDIO_MUTE KC_LAUNCHPAD then
       ACTION ACT_USAGE (push_bit 10 1 OR KEYCODE2CONSUMER (ucast keycode))
     else if in_range keycode QK_MOUSE_CURSOR_UP QK_MOUSE_ACCELERATION_2 then
       ACTION ACT_MOUSEKEY keycode
     else if keycode = KC_TRANSPARENT then ACTION_TRANSPARENT
     else if in_range keycode QK_MODS QK_MODS_MAX then
       ACTION_MODS_KEY (mod_config cfg (QK_MODS_GET_MODS keycode))
         (keycode_config cfg (QK_MODS_GET_BASIC_KEYCODE keycode))
     else if in_range keycode QK_LAYER_TAP QK_LAYER_TAP_MAX then
       ACTION_LAYER_TAP (QK_LAYER_TAP_GET_LAYER keycode)
         (keycode_config cfg (QK_LAYER_TAP_GET_TAP_KEYCODE keycode))
     else if in_range keycode QK_TO QK_TO_MAX then
       layer_bitop OP_BIT_SET (QK_LAYER_GET_LAYER keycode) ON_PRESS
     else if in_range keycode QK_MOMENTARY QK_MOMENTARY_MAX then
       ACTION_LAYER_TAP (QK_LAYER_GET_LAYER keycode) OP_ON_OFF
     else if in_range keycode QK_DEF_LAYER QK_DEF_LAYER_MAX then
       layer_bitop OP_BIT_SET (QK_LAYER_GET_LAYER keycode) 0
     else if in_range keycode QK_TOGGLE_LAYER QK_TOGGLE_LAYER_MAX then
       layer_bitop OP_BIT_XOR (QK_LAYER_GET_LAYER keycode) ON_RELEASE
     else if in_range keycode QK_ONE_SHOT_LAYER QK_ONE_SHOT_LAYER_MAX then
       ACTION_LAYER_TAP (QK_LAYER_GET_LAYER keycode) OP_ONESHOT
     else if in_range keycode QK_ONE_SHOT_MOD QK_ONE_SHOT_MOD_MAX then
       ACTION_MODS_TAP_KEY (mod_config cfg (QK_ONE_SHOT_MOD_GET_MODS keycode)) 0
     else if in_range keycode QK_LAYER_TAP_TOGGLE QK_LAYER_TAP_TOGGLE_MAX then
       ACTION_LAYER_TAP (QK_LAYER_GET_LAYER keycode) OP_TAP_TOGGLE
     else if in_range keycode QK_LAYER_MOD QK_LAYER_MOD_MAX then
       (let md = ucast (mod_config cfg (QK_LAYER_MOD_GET_MODS keycode)) :: u16;
            action_layer = ucast (QK_LAYER_MOD_GET_LAYER keycode) :: u16
        in ACTION ACT_LAYER_MODS
             (push_bit 8 action_layer OR (if md AND 0x10 \<noteq> 0 then push_bit 4 md else md)))
     else if in_range keycode QK_MOD_TAP QK_MOD_TAP_MAX then
       ACTION_MODS_TAP_KEY (mod_config cfg (QK_MOD_TAP_GET_MODS keycode))
         (keycode_config cfg (QK_MOD_TAP_GET_TAP_KEYCODE keycode))
     else ACTION_NO)"

section \<open>From positions to keycodes\<close>

type_synonym keymap = "u16 list list list"

definition keycode_at_keymap_location :: "keymap \<Rightarrow> u8 \<Rightarrow> u8 \<Rightarrow> u8 \<Rightarrow> u16" where
  "keycode_at_keymap_location keymaps layer_num rw cl =
    (if unat layer_num < length keymaps \<and> unat rw < MATRIX_ROWS \<and> unat cl < MATRIX_COLS
     then keymaps ! unat layer_num ! unat rw ! unat cl
     else KC_TRANSPARENT)"

definition keymap_key_to_keycode :: "keymap \<Rightarrow> u8 \<Rightarrow> keypos_t \<Rightarrow> u16" where
  "keymap_key_to_keycode keymaps layer key =
    (if unat (row key) < MATRIX_ROWS \<and> unat (col key) < MATRIX_COLS
     then keycode_at_keymap_location keymaps layer (row key) (col key)
     else KC_NO)"

definition action_for_key :: "keymap_config_t \<Rightarrow> keymap \<Rightarrow> u8 \<Rightarrow> keypos_t \<Rightarrow> action_t" where
  "action_for_key cfg keymaps layer key =
    action_for_keycode cfg (keymap_key_to_keycode keymaps layer key)"

text \<open>\<open>keyboards/hernian/danopad01/keymaps/default/keymap.c\<close>.\<close>

definition danopad01_keymaps :: keymap where
  "danopad01_keymaps =
    [[[0x2B, 0x14, 0x1A, 0x08, 0x15, 0x17],
      [0x2A, 0x04, 0x16, 0x07, 0x09, 0x0A],
      [0xE1, 0x1D, 0x1B, 0x06, 0x19, 0x05],
      [0xE0, 0x76, 0xE3, 0xE2, 0x2C, 0x2C]]]"

section \<open>The keycodes of the keymap macros\<close>

definition LT :: "u16 \<Rightarrow> u16 \<Rightarrow> u16" where
  "LT layer kc = QK_LAYER_TAP OR push_bit 8 (layer AND 0xF) OR (kc AND 0xFF)"

definition MT :: "u16 \<Rightarrow> u16 \<Rightarrow> u16" where
  "MT md kc = QK_MOD_TAP OR push_bit 8 (md AND 0x1F) OR (kc AND 0xFF)"

definition MO :: "u16 \<Rightarrow> u16" where
  "MO layer = QK_MOMENTARY OR (layer AND 0x1F)"

definition TO :: "u16 \<Rightarrow> u16" where
  "TO layer = QK_TO OR (layer AND 0x1F)"

definition TG :: "u16 \<Rightarrow> u16" where
  "TG layer = QK_TOGGLE_LAYER OR (layer AND 0x1F)"

definition OSL :: "u16 \<Rightarrow> u16" where
  "OSL layer = QK_ONE_SHOT_LAYER OR (layer AND 0x1F)"

definition OSM :: "u16 \<Rightarrow> u16" where
  "OSM md = QK_ONE_SHOT_MOD OR (md AND 0x1F)"

definition LM :: "u16 \<Rightarrow> u16 \<Rightarrow> u16" where
  "LM layer md = QK_LAYER_MOD OR push_bit 5 (layer AND 0xF) OR (md AND 0x1F)"


section \<open>Facts\<close>

lemma keycode_config_big: "256 \<le> unat kc \<Longrightarrow> keycode_config cfg kc = kc"
  by (rule keycode_config_other) (auto simp: magic_keycodes_def)

lemma keycode_config_small: "drop_bit 8 kc = 0 \<Longrightarrow> drop_bit 8 (keycode_config cfg kc) = 0"
  by (simp add: keycode_config_def)

lemma keycode_config_byte: "8 \<le> n \<Longrightarrow> \<not> bit (keycode_config cfg (kc AND 0xFF)) n"
  by (rule drop_bit_0_bit [where n = 8], rule keycode_config_small, rule u16_eqI)
    (simp_all add: word_bits)

lemma in_range_unat: "in_range kc a b \<longleftrightarrow> unat a \<le> unat kc \<and> unat kc \<le> unat b"
  by (simp add: in_range_def word_le_nat_alt)

lemma LT_class: "drop_bit 12 (LT l k) = 4"
  by (rule u16_eqI; simp add: LT_def word_bits)

lemma MT_class: "drop_bit 13 (MT m k) = 1"
  by (rule u16_eqI; simp add: MT_def word_bits)

lemma LM_class: "drop_bit 9 (LM l m) = 0x28"
  by (rule u16_eqI; simp add: LM_def word_bits)

lemma layer_class:
  "drop_bit 5 (TO l) = 0x290" "drop_bit 5 (MO l) = 0x291" "drop_bit 5 (TG l) = 0x293"
  "drop_bit 5 (OSL l) = 0x294" "drop_bit 5 (OSM l) = 0x295"
  by (rule u16_eqI; simp add: TO_def MO_def TG_def OSL_def OSM_def word_bits)+

lemma LT_fields:
  "QK_LAYER_TAP_GET_LAYER (LT l k) = ucast (l AND 0xF)"
  "QK_LAYER_TAP_GET_TAP_KEYCODE (LT l k) = k AND 0xFF"
  by (rule u8_eqI u16_eqI;
      simp add: LT_def QK_LAYER_TAP_GET_LAYER_def QK_LAYER_TAP_GET_TAP_KEYCODE_def word_bits)+

lemma MT_fields:
  "QK_MOD_TAP_GET_MODS (MT m k) = ucast (m AND 0x1F)"
  "QK_MOD_TAP_GET_TAP_KEYCODE (MT m k) = k AND 0xFF"
  by (rule u8_eqI u16_eqI;
      simp add: MT_def QK_MOD_TAP_GET_MODS_def QK_MOD_TAP_GET_TAP_KEYCODE_def word_bits)+

lemma LM_fields:
  "QK_LAYER_MOD_GET_LAYER (LM l m) = ucast (l AND 0xF)"
  "QK_LAYER_MOD_GET_MODS (LM l m) = ucast (m AND 0x1F)"
  by (rule u8_eqI;
      simp add: LM_def QK_LAYER_MOD_GET_LAYER_def QK_LAYER_MOD_GET_MODS_def word_bits)+

lemma layer_fields:
  "QK_LAYER_GET_LAYER (TO l) = ucast (l AND 0x1F)"
  "QK_LAYER_GET_LAYER (MO l) = ucast (l AND 0x1F)"
  "QK_LAYER_GET_LAYER (TG l) = ucast (l AND 0x1F)"
  "QK_LAYER_GET_LAYER (OSL l) = ucast (l AND 0x1F)"
  "QK_ONE_SHOT_MOD_GET_MODS (OSM l) = ucast (l AND 0x1F)"
  by (rule u8_eqI;
      simp add: TO_def MO_def TG_def OSL_def OSM_def QK_LAYER_GET_LAYER_def
        QK_ONE_SHOT_MOD_GET_MODS_def word_bits)+

text \<open>The keycodes of each macro lie in their range, so one branch of the switch applies.\<close>

lemma action_LT:
  "action_for_keycode cfg (LT l k) =
    ACTION_LAYER_TAP (ucast (l AND 0xF)) (keycode_config cfg (k AND 0xFF))"
proof -
  have r: "0x4000 \<le> unat (LT l k)" "unat (LT l k) \<le> 0x4FFF"
    using drop_bit_range [OF LT_class [of l k]] by simp_all
  moreover have "LT l k \<noteq> KC_TRANSPARENT" using r by auto
  ultimately show ?thesis
    by (simp add: action_for_keycode_def in_range_unat LT_fields keycode_config_big)
qed

lemma action_MT:
  "action_for_keycode cfg (MT m k) =
    ACTION_MODS_TAP_KEY (mod_config cfg (ucast (m AND 0x1F))) (keycode_config cfg (k AND 0xFF))"
proof -
  have r: "0x2000 \<le> unat (MT m k)" "unat (MT m k) \<le> 0x3FFF"
    using drop_bit_range [OF MT_class [of m k]] by simp_all
  moreover have "MT m k \<noteq> KC_TRANSPARENT" using r by auto
  ultimately show ?thesis
    by (simp add: action_for_keycode_def in_range_unat MT_fields keycode_config_big)
qed

lemma action_LM:
  "action_for_keycode cfg (LM l m) =
    (let md = ucast (mod_config cfg (ucast (m AND 0x1F))) :: u16
     in ACTION ACT_LAYER_MODS
          (push_bit 8 (l AND 0xF) OR (if md AND 0x10 \<noteq> 0 then push_bit 4 md else md)))"
proof -
  have r: "0x5000 \<le> unat (LM l m)" "unat (LM l m) \<le> 0x51FF"
    using drop_bit_range [OF LM_class [of l m]] by simp_all
  moreover have "LM l m \<noteq> KC_TRANSPARENT" using r by auto
  moreover have "ucast (ucast (l AND 0xF) :: u8) = l AND 0xF"
    by (rule u16_eqI; simp add: word_bits)
  ultimately show ?thesis
    by (simp add: action_for_keycode_def in_range_unat LM_fields keycode_config_big Let_def)
qed

lemma action_layer_keys:
  "action_for_keycode cfg (TO l) = layer_bitop OP_BIT_SET (ucast (l AND 0x1F)) ON_PRESS"
  "action_for_keycode cfg (MO l) = ACTION_LAYER_TAP (ucast (l AND 0x1F)) OP_ON_OFF"
  "action_for_keycode cfg (TG l) = layer_bitop OP_BIT_XOR (ucast (l AND 0x1F)) ON_RELEASE"
  "action_for_keycode cfg (OSL l) = ACTION_LAYER_TAP (ucast (l AND 0x1F)) OP_ONESHOT"
  "action_for_keycode cfg (OSM l) =
    ACTION_MODS_TAP_KEY (mod_config cfg (ucast (l AND 0x1F))) 0"
proof -
  note r = drop_bit_range [OF layer_class(1) [of l]] drop_bit_range [OF layer_class(2) [of l]]
    drop_bit_range [OF layer_class(3) [of l]] drop_bit_range [OF layer_class(4) [of l]]
    drop_bit_range [OF layer_class(5) [of l]]
  have n: "TO l \<noteq> KC_TRANSPARENT" "MO l \<noteq> KC_TRANSPARENT" "TG l \<noteq> KC_TRANSPARENT"
    "OSL l \<noteq> KC_TRANSPARENT" "OSM l \<noteq> KC_TRANSPARENT"
    using r by auto
  note rules = action_for_keycode_def in_range_unat layer_fields keycode_config_big
  show "action_for_keycode cfg (TO l) = layer_bitop OP_BIT_SET (ucast (l AND 0x1F)) ON_PRESS"
    using r(1,2) n(1) by (simp add: rules)
  show "action_for_keycode cfg (MO l) = ACTION_LAYER_TAP (ucast (l AND 0x1F)) OP_ON_OFF"
    using r(3,4) n(2) by (simp add: rules)
  show "action_for_keycode cfg (TG l) = layer_bitop OP_BIT_XOR (ucast (l AND 0x1F)) ON_RELEASE"
    using r(5,6) n(3) by (simp add: rules)
  show "action_for_keycode cfg (OSL l) = ACTION_LAYER_TAP (ucast (l AND 0x1F)) OP_ONESHOT"
    using r(7,8) n(4) by (simp add: rules)
  show "action_for_keycode cfg (OSM l) =
      ACTION_MODS_TAP_KEY (mod_config cfg (ucast (l AND 0x1F))) 0"
    using r(9,10) n(5) by (simp add: rules)
qed

lemmas action_keys = action_LT action_MT action_LM action_layer_keys

text \<open>The bit fields read back what the action macros store.\<close>

lemma layer_tap_fields:
  fixes l k :: u16
  assumes "\<And>n. 8 \<le> n \<Longrightarrow> \<not> bit k n"
  shows "drop_bit 13 (ACTION_LAYER_TAP (ucast (l AND 0x1F)) k) = 5"
    "layer_tap_val (ACTION_LAYER_TAP (ucast (l AND 0x1F)) k) = ucast (l AND 0x1F)"
    "layer_tap_code (ACTION_LAYER_TAP (ucast (l AND 0x1F)) k) = ucast k"
  by (rule u8_eqI u16_eqI;
      simp add: ACTION_LAYER_TAP_def ACTION_def layer_tap_val_def layer_tap_code_def
        assms word_bits)+

lemma mods_tap_fields:
  fixes k :: u16 and m :: u8
  assumes "\<And>n. 8 \<le> n \<Longrightarrow> \<not> bit k n"
  shows "drop_bit 13 (ACTION_MODS_TAP_KEY m k) = 1"
    "drop_bit 8 (ACTION_MODS_TAP_KEY m k) AND 0x1F = ucast m AND 0x1F"
    "key_code (ACTION_MODS_TAP_KEY m k) = ucast k"
  by (rule u8_eqI u16_eqI;
      simp add: ACTION_MODS_TAP_KEY_def ACTION_def key_code_def assms word_bits)+

lemma layer_mods_fields:
  fixes l md :: u16
  assumes "\<And>n. 5 \<le> n \<Longrightarrow> \<not> bit md n"
  shows "kind_id (ACTION ACT_LAYER_MODS (push_bit 8 (l AND 0xF) OR md)) = ACT_LAYER_MODS"
    "layer_mods_layer (ACTION ACT_LAYER_MODS (push_bit 8 (l AND 0xF) OR md)) = ucast (l AND 0xF)"
    "layer_mods_mods (ACTION ACT_LAYER_MODS (push_bit 8 (l AND 0xF) OR md)) = ucast md"
  by (rule u8_eqI u16_eqI;
      simp add: ACTION_def kind_id_def layer_mods_layer_def layer_mods_mods_def assms word_bits)+

lemma layer_mods_fields_right:
  fixes l md :: u16
  assumes "\<And>n. 5 \<le> n \<Longrightarrow> \<not> bit md n" "bit md 4"
  shows "kind_id (ACTION ACT_LAYER_MODS (push_bit 8 (l AND 0xF) OR push_bit 4 md)) = ACT_LAYER_MODS"
    "layer_mods_layer (ACTION ACT_LAYER_MODS (push_bit 8 (l AND 0xF) OR push_bit 4 md)) =
      ucast (l AND 0xF) OR 1"
    "layer_mods_mods (ACTION ACT_LAYER_MODS (push_bit 8 (l AND 0xF) OR push_bit 4 md)) =
      push_bit 4 (ucast md)"
  by (rule u8_eqI u16_eqI;
      simp add: ACTION_def kind_id_def layer_mods_layer_def layer_mods_mods_def assms word_bits)+

lemma drop_5_xor_step:
  "drop_bit 5 m = 0 \<Longrightarrow> drop_bit 5 x = 0 \<Longrightarrow> drop_bit 5 (if b then m XOR x else m) = 0"
  for m x :: u8
  by simp

lemma drop_5_and_step:
  "drop_bit 5 m = 0 \<Longrightarrow> drop_bit 5 (if b then (m AND x) AND y else m) = 0" for m x y :: u8
  by simp

lemma mod_config_5bit: "drop_bit 5 m = 0 \<Longrightarrow> drop_bit 5 (mod_config cfg m) = 0"
  unfolding mod_config_def Let_def
  by (intro drop_5_and_step drop_5_xor_step) simp_all

lemma mod_config_high_bits:
  fixes m :: u16
  assumes "5 \<le> n"
  shows "\<not> bit (ucast (mod_config cfg (ucast (m AND 0x1F))) :: u16) n"
proof -
  have "drop_bit 5 (ucast (m AND 0x1F) :: u8) = 0"
    by (rule u8_eqI) (simp_all add: word_bits)
  then show ?thesis
    using drop_bit_0_bit [OF mod_config_5bit assms] by (simp add: bit_unsigned_iff)
qed

section \<open>Properties\<close>

text \<open>
  The keycodes of the layer and modifier tap macros decode to the action they name, for any
  magic settings: \<open>LT\<close> and \<open>MT\<close> to a tap action holding their layer or remapped modifiers and
  their remapped tap key, \<open>MO\<close> and \<open>OSL\<close> to the layer's momentary and one-shot action.
\<close>

theorem tap_keys_decode:
  "let lt = action_for_keycode cfg (LT l k); mt = action_for_keycode cfg (MT l k);
       mo = action_for_keycode cfg (MO l); osl = action_for_keycode cfg (OSL l)
   in drop_bit 13 lt = 5 \<and> layer_tap_val lt = ucast (l AND 0xF) \<and>
      layer_tap_code lt = ucast (keycode_config cfg (k AND 0xFF)) \<and>
      drop_bit 13 mt = 1 \<and>
      drop_bit 8 mt AND 0x1F = ucast (mod_config cfg (ucast (l AND 0x1F))) AND 0x1F \<and>
      key_code mt = ucast (keycode_config cfg (k AND 0xFF)) \<and>
      drop_bit 13 mo = 5 \<and> layer_tap_val mo = ucast (l AND 0x1F) \<and> layer_tap_code mo = 0xF1 \<and>
      drop_bit 13 osl = 5 \<and> layer_tap_val osl = ucast (l AND 0x1F) \<and> layer_tap_code osl = 0xF4"
proof -
  have f: "\<not> bit (0xF1 :: u16) n" "\<not> bit (0xF4 :: u16) n" if "8 \<le> n" for n
    by (rule drop_bit_0_bit [OF _ that]; simp)+
  have "l AND 0xF = (l AND 0xF) AND 0x1F" by (simp add: and.assoc)
  then show ?thesis
    using layer_tap_fields [OF keycode_config_byte, of "l AND 0xF"]
      layer_tap_fields [OF f(1), of l] layer_tap_fields [OF f(2), of l]
      mods_tap_fields [OF keycode_config_byte]
    by (simp add: action_keys Let_def)
qed

text \<open>
  A layer-mod key sends the remapped modifiers in their eight-bit form, and selects its own
  layer when they are left-hand ones. For right-hand modifiers the shift \<open>mod << 4\<close> carries the
  right-hand flag into the lowest bit of the layer field: the action names the odd layer
  \<open>layer | 1\<close>, so \<open>LM(2, MOD_RCTL)\<close> turns on layer 3.
\<close>

theorem layer_mod_key_decode:
  "let a = action_for_keycode cfg (LM l m); md = mod_config cfg (ucast (m AND 0x1F))
   in kind_id a = ACT_LAYER_MODS \<and>
      layer_mods_layer a = (if bit md 4 then ucast (l AND 0xF) OR 1 else ucast (l AND 0xF)) \<and>
      layer_mods_mods a = (if bit md 4 then push_bit 4 md else md) \<and>
      layer_mods_layer (action_for_keycode keymap_config_zero (LM 2 (ucast MOD_RCTL))) = 3"
proof -
  let ?md = "ucast (mod_config cfg (ucast (m AND 0x1F))) :: u16"
  have b: "(?md AND 0x10 = 0) = (\<not> bit (mod_config cfg (ucast (m AND 0x1F))) 4)"
    using and_bit_mask_eq_0 [of ?md 4] by (simp add: bit_unsigned_iff)
  have u: "ucast ?md = mod_config cfg (ucast (m AND 0x1F))"
    by (rule u8_eqI) (simp_all add: word_bits)
  have e: "layer_mods_layer (action_for_keycode keymap_config_zero (LM 2 (ucast MOD_RCTL))) = 3"
    by (simp add: action_LM layer_mods_layer_def ACTION_def)
  show ?thesis
    using layer_mods_fields [OF mod_config_high_bits, of l]
      layer_mods_fields_right [OF mod_config_high_bits, of cfg m l] e
    by (cases "bit (mod_config cfg (ucast (m AND 0x1F))) 4")
      (simp_all add: action_LM Let_def b u bit_unsigned_iff)
qed

end
