(* ===== verification/Layers.thy ===== *)
theory Layers
  imports Bitwise Keymap_Common
begin

text \<open>
  \<open>quantum/action_layer.c\<close>: the layer state and the default layer state, the operations that
  change them, the selection of the layer of a key, and the source layer cache that makes a
  release act on the layer of its press. The weak hooks \<open>layer_state_set_kb\<close> and
  \<open>default_layer_state_set_kb\<close> have the default bodies of the source, which the board keeps.

  \<open>layer_state_t\<close> has 16 bits (\<open>LAYER_STATE_16BIT\<close>, the default); the cache has
  \<open>(4 * 6 + 7) / 8 = 3\<close> rows of \<open>MAX_LAYER_BITS = 4\<close> bytes.
\<close>

section \<open>State\<close>

type_synonym layer_state_t = u16

abbreviation (input) MAX_LAYER :: nat where "MAX_LAYER \<equiv> 16"
abbreviation (input) MAX_LAYER_BITS :: nat where "MAX_LAYER_BITS \<equiv> 4"

record layer_env =
  layer_state :: layer_state_t
  default_layer_state :: layer_state_t
  source_layers_cache :: "u8 list list"
  disable_action_cache :: bool

section \<open>Operations on the layer states\<close>

definition get_highest_layer :: "layer_state_t \<Rightarrow> u8" where
  "get_highest_layer state = biton16 state"

definition layer_bit :: "u8 \<Rightarrow> layer_state_t" where
  "layer_bit layer = push_bit (unat layer) 1"

definition default_layer_state_set_user :: "layer_state_t \<Rightarrow> layer_state_t" where
  "default_layer_state_set_user state = state"

definition default_layer_state_set_kb :: "layer_state_t \<Rightarrow> layer_state_t" where
  "default_layer_state_set_kb state = default_layer_state_set_user state"

definition default_layer_state_set :: "layer_state_t \<Rightarrow> layer_env \<Rightarrow> layer_env" where
  "default_layer_state_set state s = s\<lparr>default_layer_state := default_layer_state_set_kb state\<rparr>"

definition default_layer_set :: "layer_state_t \<Rightarrow> layer_env \<Rightarrow> layer_env" where
  "default_layer_set state s = default_layer_state_set state s"

definition default_layer_or :: "layer_state_t \<Rightarrow> layer_env \<Rightarrow> layer_env" where
  "default_layer_or state s = default_layer_state_set (default_layer_state s OR state) s"

definition default_layer_and :: "layer_state_t \<Rightarrow> layer_env \<Rightarrow> layer_env" where
  "default_layer_and state s = default_layer_state_set (default_layer_state s AND state) s"

definition default_layer_xor :: "layer_state_t \<Rightarrow> layer_env \<Rightarrow> layer_env" where
  "default_layer_xor state s = default_layer_state_set (default_layer_state s XOR state) s"

definition layer_state_set_user :: "layer_state_t \<Rightarrow> layer_state_t" where
  "layer_state_set_user state = state"

definition layer_state_set_kb :: "layer_state_t \<Rightarrow> layer_state_t" where
  "layer_state_set_kb state = layer_state_set_user state"

definition layer_state_set :: "layer_state_t \<Rightarrow> layer_env \<Rightarrow> layer_env" where
  "layer_state_set state s = s\<lparr>layer_state := layer_state_set_kb state\<rparr>"

definition layer_clear :: "layer_env \<Rightarrow> layer_env" where
  "layer_clear s = layer_state_set 0 s"

definition layer_state_cmp :: "layer_state_t \<Rightarrow> u8 \<Rightarrow> bool" where
  "layer_state_cmp cmp_layer_state layer =
    (if cmp_layer_state = 0 then layer = 0 else cmp_layer_state AND layer_bit layer \<noteq> 0)"

definition layer_state_is :: "u8 \<Rightarrow> layer_env \<Rightarrow> bool" where
  "layer_state_is layer s = layer_state_cmp (layer_state s) layer"

definition layer_move :: "u8 \<Rightarrow> layer_env \<Rightarrow> layer_env" where
  "layer_move layer s = layer_state_set (layer_bit layer) s"

definition layer_on :: "u8 \<Rightarrow> layer_env \<Rightarrow> layer_env" where
  "layer_on layer s = layer_state_set (layer_state s OR layer_bit layer) s"

definition layer_off :: "u8 \<Rightarrow> layer_env \<Rightarrow> layer_env" where
  "layer_off layer s = layer_state_set (layer_state s AND NOT (layer_bit layer)) s"

definition layer_invert :: "u8 \<Rightarrow> layer_env \<Rightarrow> layer_env" where
  "layer_invert layer s = layer_state_set (layer_state s XOR layer_bit layer) s"

definition layer_or :: "layer_state_t \<Rightarrow> layer_env \<Rightarrow> layer_env" where
  "layer_or state s = layer_state_set (layer_state s OR state) s"

definition layer_and :: "layer_state_t \<Rightarrow> layer_env \<Rightarrow> layer_env" where
  "layer_and state s = layer_state_set (layer_state s AND state) s"

definition layer_xor :: "layer_state_t \<Rightarrow> layer_env \<Rightarrow> layer_env" where
  "layer_xor state s = layer_state_set (layer_state s XOR state) s"

definition update_tri_layer_state :: "layer_state_t \<Rightarrow> u8 \<Rightarrow> u8 \<Rightarrow> u8 \<Rightarrow> layer_state_t" where
  "update_tri_layer_state state layer1 layer2 layer3 =
    (let mask12 = layer_bit layer1 OR layer_bit layer2;
         mask3 = layer_bit layer3
     in if state AND mask12 = mask12 then state OR mask3 else state AND NOT mask3)"

definition update_tri_layer :: "u8 \<Rightarrow> u8 \<Rightarrow> u8 \<Rightarrow> layer_env \<Rightarrow> layer_env" where
  "update_tri_layer layer1 layer2 layer3 s =
    layer_state_set (update_tri_layer_state (layer_state s) layer1 layer2 layer3) s"

section \<open>The source layer cache\<close>

text \<open>
  One iteration of the loop of \<open>update_source_layers_cache_impl\<close>: \<open>-(cond)\<close> is all ones or zero,
  so the two exclusive ors copy the bit of the layer into bit \<open>storage_bit\<close> of the byte.
\<close>

definition cache_write_bit :: "u8 \<Rightarrow> nat \<Rightarrow> nat \<Rightarrow> nat \<Rightarrow> u8 list list \<Rightarrow> u8 list list" where
  "cache_write_bit layer storage_idx storage_bit bit_number cache =
    (let old = cache ! storage_idx ! bit_number;
         new = old XOR (((if layer AND push_bit bit_number 1 \<noteq> 0 then - 1 else 0) XOR old)
                         AND push_bit storage_bit 1)
     in cache[storage_idx := (cache ! storage_idx)[bit_number := new]])"

definition update_source_layers_cache_impl :: "u8 \<Rightarrow> nat \<Rightarrow> u8 list list \<Rightarrow> u8 list list" where
  "update_source_layers_cache_impl layer entry_number cache =
    fold (cache_write_bit layer (entry_number div 8) (entry_number mod 8)) [0..<MAX_LAYER_BITS] cache"

definition read_source_layers_cache_impl :: "nat \<Rightarrow> u8 list list \<Rightarrow> u8" where
  "read_source_layers_cache_impl entry_number cache =
    fold (\<lambda>bit_number layer. layer OR push_bit bit_number
        (if (cache ! (entry_number div 8) ! bit_number) AND push_bit (entry_number mod 8) 1 \<noteq> 0
         then 1 else 0))
      [0..<MAX_LAYER_BITS] 0"

definition key_in_matrix :: "keypos_t \<Rightarrow> bool" where
  "key_in_matrix key \<longleftrightarrow> unat (row key) < MATRIX_ROWS \<and> unat (col key) < MATRIX_COLS"

definition entry_number :: "keypos_t \<Rightarrow> nat" where
  "entry_number key = unat (row key) * MATRIX_COLS + unat (col key)"

definition update_source_layers_cache :: "keypos_t \<Rightarrow> u8 \<Rightarrow> u8 list list \<Rightarrow> u8 list list" where
  "update_source_layers_cache key layer cache =
    (if key_in_matrix key then update_source_layers_cache_impl layer (entry_number key) cache
     else cache)"

definition read_source_layers_cache :: "keypos_t \<Rightarrow> u8 list list \<Rightarrow> u8" where
  "read_source_layers_cache key cache =
    (if key_in_matrix key then read_source_layers_cache_impl (entry_number key) cache else 0)"

section \<open>The layer and the action of a key\<close>

text \<open>
  The loop of \<open>layer_switch_get_layer\<close> over \<open>i = MAX_LAYER - 1, ..., 0\<close>; \<open>layer_scan i\<close> has the
  layers below \<open>i\<close> left to try and falls back to layer 0.
\<close>

fun layer_scan :: "keymap_config_t \<Rightarrow> keymap \<Rightarrow> layer_state_t \<Rightarrow> keypos_t \<Rightarrow> nat \<Rightarrow> u8" where
  "layer_scan cfg keymaps layers key 0 = 0"
| "layer_scan cfg keymaps layers key (Suc i) =
    (if layers AND push_bit i 1 \<noteq> 0
        \<and> action_for_key cfg keymaps (of_nat i) key \<noteq> ACTION_TRANSPARENT
     then of_nat i
     else layer_scan cfg keymaps layers key i)"

definition layer_switch_get_layer :: "keymap_config_t \<Rightarrow> keymap \<Rightarrow> layer_env \<Rightarrow> keypos_t \<Rightarrow> u8" where
  "layer_switch_get_layer cfg keymaps s key =
    layer_scan cfg keymaps (layer_state s OR default_layer_state s) key MAX_LAYER"

definition layer_switch_get_action ::
    "keymap_config_t \<Rightarrow> keymap \<Rightarrow> layer_env \<Rightarrow> keypos_t \<Rightarrow> action_t" where
  "layer_switch_get_action cfg keymaps s key =
    action_for_key cfg keymaps (layer_switch_get_layer cfg keymaps s key) key"

definition store_or_get_action ::
    "keymap_config_t \<Rightarrow> keymap \<Rightarrow> bool \<Rightarrow> keypos_t \<Rightarrow> layer_env \<Rightarrow> action_t \<times> layer_env" where
  "store_or_get_action cfg keymaps pressed key s =
    (if disable_action_cache s then (layer_switch_get_action cfg keymaps s key, s)
     else if pressed then
       (let layer = layer_switch_get_layer cfg keymaps s key in
        (action_for_key cfg keymaps layer key,
         s\<lparr>source_layers_cache := update_source_layers_cache key layer (source_layers_cache s)\<rparr>))
     else
       (action_for_key cfg keymaps (read_source_layers_cache key (source_layers_cache s)) key, s))"

text \<open>\<open>process_record_nocache\<close> of \<open>quantum/action.c\<close>, with the processing of the record as \<open>f\<close>.\<close>

definition process_record_nocache :: "(layer_env \<Rightarrow> layer_env) \<Rightarrow> layer_env \<Rightarrow> layer_env" where
  "process_record_nocache f s = (f (s\<lparr>disable_action_cache := True\<rparr>))\<lparr>disable_action_cache := False\<rparr>"

definition layer_env_init :: layer_env where
  "layer_env_init = \<lparr> layer_state = 0, default_layer_state = 0,
     source_layers_cache = replicate 3 (replicate 4 0), disable_action_cache = False \<rparr>"

section \<open>Facts on the cache\<close>

definition cache_ok :: "u8 list list \<Rightarrow> bool" where
  "cache_ok cache \<longleftrightarrow> length cache = 3 \<and> list_all (\<lambda>r. length r = MAX_LAYER_BITS) cache"

text \<open>Bit \<open>b\<close> of the layer stored for an entry.\<close>

definition cache_bit :: "u8 list list \<Rightarrow> nat \<Rightarrow> nat \<Rightarrow> bool" where
  "cache_bit cache e b = bit (cache ! (e div 8) ! b) (e mod 8)"

lemma cache_ok_row [simp]: "cache_ok c \<Longrightarrow> e < 24 \<Longrightarrow> length (c ! (e div 8)) = 4"
  by (auto simp: cache_ok_def list_all_length)

lemma cache_ok_length [simp]: "cache_ok c \<Longrightarrow> length c = 3"
  by (simp add: cache_ok_def)

lemma cache_ok_update: "cache_ok c \<Longrightarrow> length r = 4 \<Longrightarrow> cache_ok (c[i := r])"
  by (auto simp: cache_ok_def list_all_iff dest!: subsetD [OF set_update_subset_insert])

lemma cache_write_ok [simp]:
  "cache_ok c \<Longrightarrow> e < 24 \<Longrightarrow> cache_ok (cache_write_bit layer (e div 8) sb b c)"
  by (simp add: cache_write_bit_def Let_def cache_ok_update)

lemma cache_write_bit_bit:
  assumes "cache_ok c" "e < 24" "e' < 24" "b < 4" "b' < 4"
  shows "cache_bit (cache_write_bit layer (e div 8) (e mod 8) b c) e' b' =
    (if e' = e \<and> b' = b then bit layer b else cache_bit c e' b')"
proof (cases "e' div 8 = e div 8")
  case False
  then show ?thesis using assms 
    by (auto simp: cache_bit_def cache_write_bit_def Let_def)
next
  case True
  then have "e' = e \<longleftrightarrow> e' mod 8 = e mod 8"
    by (metis div_mult_mod_eq)
  moreover have "e div 8 < 3" using assms by simp
  ultimately show ?thesis using True assms
    by (cases "b' = b") (auto simp: cache_bit_def cache_write_bit_def Let_def word_bits bit_1_iff simp del: push_bit_of_1)
qed

lemma update_impl_ok [simp]:
  "cache_ok c \<Longrightarrow> e < 24 \<Longrightarrow> cache_ok (update_source_layers_cache_impl layer e c)"
  by (simp add: update_source_layers_cache_impl_def upt_rec)

lemma update_impl_bit:
  assumes "cache_ok c" "e < 24" "e' < 24" "b' < 4"
  shows "cache_bit (update_source_layers_cache_impl layer e c) e' b' =
    (if e' = e then bit layer b' else cache_bit c e' b')"
proof -
  have "b' = 0 \<or> b' = 1 \<or> b' = 2 \<or> b' = 3" using assms by linarith
  then show ?thesis
    using assms by (auto simp: update_source_layers_cache_impl_def upt_rec cache_write_bit_bit)
qed

lemma bit_flag:
  "bit (push_bit k (if b then 1 else 0) :: u8) n = (b \<and> n = k \<and> k < 8)"
  by (auto simp: word_bits bit_1_iff)

lemma read_impl_bit:
  "bit (read_source_layers_cache_impl e c) n = (n < 4 \<and> cache_bit c e n)"
proof -
  have "[0..<4] = [0, 1, 2, 3 :: nat]" by (simp add: upt_rec)
  then have "bit (read_source_layers_cache_impl e c) n =
      (cache_bit c e 0 \<and> n = 0 \<or> cache_bit c e 1 \<and> n = 1 \<or> cache_bit c e 2 \<and> n = 2 \<or>
       cache_bit c e 3 \<and> n = 3)"
    unfolding read_source_layers_cache_impl_def cache_bit_def
    by (simp only: fold.simps comp_apply id_apply bit_or_iff bit_flag and_bit_mask_eq_0 bit_0_eq) simp
  moreover have "n < 4 \<longleftrightarrow> n = 0 \<or> n = 1 \<or> n = 2 \<or> n = 3" by linarith
  ultimately show ?thesis by auto
qed

section \<open>The contract of the cache\<close>

text \<open>
  What the processing of events relies on: a layer stored for a covered key is read back, and
  storing one key's layer does not disturb another key's.
\<close>

locale layer_store =
  fixes upd :: "'k \<Rightarrow> u8 \<Rightarrow> 'c \<Rightarrow> 'c"
    and rd :: "'k \<Rightarrow> 'c \<Rightarrow> u8"
    and ok :: "'c \<Rightarrow> bool"
    and covered :: "'k \<Rightarrow> bool"
    and valid :: "u8 \<Rightarrow> bool"
  assumes ok_upd: "ok c \<Longrightarrow> ok (upd k l c)"
    and rd_same: "ok c \<Longrightarrow> covered k \<Longrightarrow> valid l \<Longrightarrow> rd k (upd k l c) = l"
    and rd_other: "ok c \<Longrightarrow> k \<noteq> k' \<Longrightarrow> rd k' (upd k l c) = rd k' c"
begin

lemma rd_after_others:
  "ok c \<Longrightarrow> k \<notin> fst ` set us \<Longrightarrow> rd k (fold (\<lambda>(k', l). upd k' l) us c) = rd k c"
  by (induction us arbitrary: c) (auto simp: ok_upd rd_other)

lemma rd_stored:
  "ok c \<Longrightarrow> covered k \<Longrightarrow> valid l \<Longrightarrow> k \<notin> fst ` set us \<Longrightarrow>
    rd k (fold (\<lambda>(k', l'). upd k' l') us (upd k l c)) = l"
  by (simp add: rd_after_others ok_upd rd_same)

end

lemma entry_number_less: "key_in_matrix key \<Longrightarrow> entry_number key < 24"
  by (simp add: key_in_matrix_def entry_number_def MATRIX_ROWS_def MATRIX_COLS_def)

lemma entry_number_inj:
  "key_in_matrix k \<Longrightarrow> key_in_matrix k' \<Longrightarrow> entry_number k = entry_number k' \<longleftrightarrow> k = k'"
proof -
  assume "key_in_matrix k" "key_in_matrix k'"
  then have b: "unat (col k) < 6" "unat (col k') < 6"
    by (simp_all add: key_in_matrix_def MATRIX_COLS_def)
  show ?thesis
  proof
    assume "entry_number k = entry_number k'"
    then have "unat (row k) * 6 + unat (col k) = unat (row k') * 6 + unat (col k')"
      by (simp add: entry_number_def MATRIX_COLS_def)
    with b have "unat (col k) = unat (col k')" "unat (row k) = unat (row k')" by presburger+
    then show "k = k'" by (simp flip: word_unat_eq_iff)
  qed simp
qed

lemma low_layer_bits: "l < 16 \<Longrightarrow> bit l n \<Longrightarrow> n < 4" for l :: u8
proof (rule ccontr)
  assume "l < 16" "bit l n" "\<not> n < 4"
  then have "unat (drop_bit 4 l) = 0" by (simp add: unat_drop_bit word_less_nat_alt)
  then have "drop_bit 4 l = 0" by (simp only: word_unat_eq_iff unat_0)
  then show False using drop_bit_0_bit [of 4 l n] \<open>bit l n\<close> \<open>\<not> n < 4\<close> by simp
qed

interpretation slc: layer_store update_source_layers_cache read_source_layers_cache cache_ok
  key_in_matrix "\<lambda>l. l < 16"
proof
  show "cache_ok (update_source_layers_cache k l c)" if "cache_ok c" for c k l
    using that by (simp add: update_source_layers_cache_def entry_number_less)
  show "read_source_layers_cache k (update_source_layers_cache k l c) = l"
    if "cache_ok c" "key_in_matrix k" "l < 16" for c k l
    using that entry_number_less [of k]
    by (intro bit_word_eqI)
      (auto simp: read_source_layers_cache_def update_source_layers_cache_def read_impl_bit
        update_impl_bit dest: low_layer_bits)
  show "read_source_layers_cache k' (update_source_layers_cache k l c) =
      read_source_layers_cache k' c" if "cache_ok c" "k \<noteq> k'" for c k k' l
    using that entry_number_less [of k] entry_number_less [of k']
    by (intro bit_word_eqI)
      (auto simp: read_source_layers_cache_def update_source_layers_cache_def read_impl_bit
        update_impl_bit entry_number_inj)
qed

section \<open>Sequences of events\<close>

text \<open>
  What happens between the press of a key and its release: presses and releases of keys, whose
  actions the rest of the firmware performs, and arbitrary changes of the two layer states. Each event
  comes with the configuration of the magic keys that is in force when it happens.
\<close>

datatype layer_event =
    Press keypos_t
  | Release keypos_t
  | SetLayers layer_state_t
  | SetDefault layer_state_t

fun layer_event_step :: "keymap_config_t \<Rightarrow> keymap \<Rightarrow> layer_event \<Rightarrow> layer_env \<Rightarrow> layer_env" where
  "layer_event_step cfg keymaps (Press key) s = snd (store_or_get_action cfg keymaps True key s)"
| "layer_event_step cfg keymaps (Release key) s = snd (store_or_get_action cfg keymaps False key s)"
| "layer_event_step cfg keymaps (SetLayers state) s = layer_state_set state s"
| "layer_event_step cfg keymaps (SetDefault state) s = default_layer_set state s"

definition layer_events :: "keymap \<Rightarrow> (keymap_config_t \<times> layer_event) list \<Rightarrow> layer_env \<Rightarrow> layer_env" where
  "layer_events keymaps es s = fold (\<lambda>(cfg, e). layer_event_step cfg keymaps e) es s"

lemmas layer_state_set_defs = layer_state_set_def layer_state_set_kb_def layer_state_set_user_def
  default_layer_state_set_def default_layer_state_set_kb_def default_layer_state_set_user_def
  default_layer_set_def

lemma layer_scan_less: "n \<le> 16 \<Longrightarrow> layer_scan cfg keymaps layers key n < 16"
  by (induction n) (auto simp: word_less_nat_alt unsigned_of_nat take_bit_nat_eq_self)

lemma layer_switch_get_layer_less: "layer_switch_get_layer cfg keymaps s key < 16"
  by (simp add: layer_switch_get_layer_def layer_scan_less)

lemma layer_events_cache:
  "\<not> disable_action_cache s \<Longrightarrow>
    \<exists>us. fst ` set us \<subseteq> {k. Press k \<in> snd ` set es} \<and>
      source_layers_cache (layer_events keymaps es s) =
        fold (\<lambda>(k, l). update_source_layers_cache k l) us (source_layers_cache s) \<and>
      \<not> disable_action_cache (layer_events keymaps es s)"
proof (induction es arbitrary: s)
  case Nil
  then show ?case by (intro exI [of _ "[]"]) (simp add: layer_events_def)
next
  case (Cons ce es)
  obtain cfg e where ce: "ce = (cfg, e)" by fastforce
  let ?s = "layer_event_step cfg keymaps e s"
  have "\<not> disable_action_cache ?s"
    using Cons.prems by (cases e) (auto simp: store_or_get_action_def Let_def layer_state_set_defs)
  from Cons.IH [OF this] obtain us where us: "fst ` set us \<subseteq> {k. Press k \<in> snd ` set es}"
    "source_layers_cache (layer_events keymaps es ?s) =
        fold (\<lambda>(k, l). update_source_layers_cache k l) us (source_layers_cache ?s)"
    "\<not> disable_action_cache (layer_events keymaps es ?s)" by blast
  have run: "layer_events keymaps (ce # es) s = layer_events keymaps es ?s"
    by (simp add: layer_events_def ce)
  show ?case
  proof (cases e)
    case (Press k)
    with us Cons.prems show ?thesis unfolding run
      by (intro exI [of _ "(k, layer_switch_get_layer cfg keymaps s k) # us"])
        (auto simp: store_or_get_action_def Let_def ce)
  qed (use us Cons.prems in \<open>unfold run, auto intro!: exI [of _ us]
        simp: store_or_get_action_def Let_def layer_state_set_defs\<close>)
qed

lemma action_outside_matrix:
  "\<not> key_in_matrix key \<Longrightarrow> action_for_key cfg keymaps layer key = action_for_keycode cfg KC_NO"
  by (auto simp: action_for_key_def keymap_key_to_keycode_def key_in_matrix_def)

text \<open>
  C5: the release of a key acts on the layer of its press. Whatever other keys are pressed and released in
  between, however the layers are changed and whatever the magic keys do to the configuration, the release
  performs the action of the keycode that the press has found; it is the action of the press itself
  unless the configuration has changed, and else what the keycode means under the new one. (The
  cache of source layers is in use throughout: only \<open>process_record_nocache\<close> turns it off, which nothing calls.)
\<close>

theorem release_matches_press:
  assumes "cache_ok (source_layers_cache s)" "\<not> disable_action_cache s" "Press key \<notin> snd ` set es"
  shows "let l = layer_switch_get_layer cfg keymaps s key;
      (press_action, s1) = store_or_get_action cfg keymaps True key s;
      release_action = fst (store_or_get_action cfg' keymaps False key (layer_events keymaps es s1))
    in press_action = action_for_key cfg keymaps l key \<and> release_action = action_for_key cfg' keymaps l key \<and>
      (cfg' = cfg \<longrightarrow> release_action = press_action)"
proof -
  let ?l = "layer_switch_get_layer cfg keymaps s key"
  let ?s = "snd (store_or_get_action cfg keymaps True key s)"
  have s: "\<not> disable_action_cache ?s"
    "source_layers_cache ?s = update_source_layers_cache key ?l (source_layers_cache s)"
    "fst (store_or_get_action cfg keymaps True key s) = action_for_key cfg keymaps ?l key"
    using assms(2) by (simp_all add: store_or_get_action_def Let_def)
  obtain us where us: "fst ` set us \<subseteq> {k. Press k \<in> snd ` set es}"
    "source_layers_cache (layer_events keymaps es ?s) =
        fold (\<lambda>(k, l). update_source_layers_cache k l) us (source_layers_cache ?s)"
    "\<not> disable_action_cache (layer_events keymaps es ?s)"
    using layer_events_cache [OF s(1)] by blast
  have "read_source_layers_cache key (source_layers_cache (layer_events keymaps es ?s)) = ?l"
    if "key_in_matrix key"
    unfolding us(2) s(2)
    by (rule slc.rd_stored) (use assms that us(1) layer_switch_get_layer_less in auto)
  then have "fst (store_or_get_action cfg' keymaps False key (layer_events keymaps es ?s)) =
      action_for_key cfg' keymaps ?l key"
    using us(3) by (cases "key_in_matrix key")
      (simp_all add: store_or_get_action_def Let_def action_outside_matrix)
  then show ?thesis using s(3) by (auto simp: split_beta)
qed

theorem release_matches_press_witness:
  "fst (store_or_get_action (keymap_config_zero\<lparr>swap_control_capslock := True\<rparr>) danopad01_keymaps False \<lparr>col = 0, row = 0\<rparr>
      (layer_events danopad01_keymaps
        [(keymap_config_zero, SetLayers 2),
         (keymap_config_zero\<lparr>swap_control_capslock := True\<rparr>, Press \<lparr>col = 1, row = 0\<rparr>)]
        (snd (store_or_get_action keymap_config_zero danopad01_keymaps True \<lparr>col = 0, row = 0\<rparr> layer_env_init)))) =
    action_for_key (keymap_config_zero\<lparr>swap_control_capslock := True\<rparr>) danopad01_keymaps
      (layer_switch_get_layer keymap_config_zero danopad01_keymaps layer_env_init \<lparr>col = 0, row = 0\<rparr>) \<lparr>col = 0, row = 0\<rparr>"
proof -
  have "cache_ok (source_layers_cache layer_env_init)" "\<not> disable_action_cache layer_env_init"
    by (simp_all add: layer_env_init_def cache_ok_def list_all_iff)
  moreover have "Press \<lparr>col = 0, row = 0\<rparr> \<notin> snd ` set [(keymap_config_zero, SetLayers 2),
         (keymap_config_zero\<lparr>swap_control_capslock := True\<rparr>, Press \<lparr>col = 1, row = 0\<rparr>)]" by simp
  ultimately show ?thesis
    by (rule release_matches_press [where cfg = keymap_config_zero and keymaps = danopad01_keymaps,
          unfolded Let_def case_prod_beta, THEN conjunct2, THEN conjunct1])
qed

section \<open>The layer of a key\<close>

text \<open>The active layers on which a key is not transparent.\<close>

definition opaque_layers :: "keymap_config_t \<Rightarrow> keymap \<Rightarrow> layer_state_t \<Rightarrow> keypos_t \<Rightarrow> nat set" where
  "opaque_layers cfg keymaps layers key =
    {i. i < MAX_LAYER \<and> bit layers i \<and>
        action_for_key cfg keymaps (of_nat i) key \<noteq> ACTION_TRANSPARENT}"

lemma layer_scan_highest:
  "n \<le> 16 \<Longrightarrow> unat (layer_scan cfg keymaps layers key n) =
    (if opaque_layers cfg keymaps layers key \<inter> {..<n} = {} then 0
     else Max (opaque_layers cfg keymaps layers key \<inter> {..<n}))"
proof (induction n)
  case 0
  then show ?case by simp
next
  case (Suc n)
  let ?O = "opaque_layers cfg keymaps layers key"
  have n: "n \<in> ?O \<longleftrightarrow> layers AND push_bit n 1 \<noteq> 0 \<and>
      action_for_key cfg keymaps (of_nat n) key \<noteq> ACTION_TRANSPARENT"
    using Suc.prems by (simp only: opaque_layers_def mem_Collect_eq and_bit_mask_eq_0) auto
  show ?case
  proof (cases "n \<in> ?O")
    case True
    then have "?O \<inter> {..<Suc n} = insert n (?O \<inter> {..<n})" by (auto simp: lessThan_Suc)
    moreover have "Max (insert n (?O \<inter> {..<n})) = n" by (intro Max_eqI) auto
    ultimately show ?thesis
      using True n Suc.prems by (simp add: unsigned_of_nat take_bit_nat_eq_self)
  next
    case False
    then have "?O \<inter> {..<Suc n} = ?O \<inter> {..<n}" by (auto simp: lessThan_Suc)
    then show ?thesis using False n Suc by auto
  qed
qed

text \<open>
  C25: a key takes effect on the highest layer that is on in the layer state or the default layer
  state and does not have the key transparent, and on layer 0 when there is none.
\<close>

theorem layer_of_key_is_highest_opaque:
  "unat (layer_switch_get_layer cfg keymaps s key) =
    (let L = opaque_layers cfg keymaps (layer_state s OR default_layer_state s) key
     in if L = {} then 0 else Max L)"
proof -
  have "opaque_layers cfg keymaps ls key \<inter> {..<16} = opaque_layers cfg keymaps ls key" for ls
    by (auto simp: opaque_layers_def)
  then show ?thesis by (simp add: layer_switch_get_layer_def layer_scan_highest Let_def)
qed

section \<open>Operations on single layers\<close>

lemma bit_layer_bit [word_bits]: "bit (layer_bit l) n = (n = unat l \<and> n < 16)"
  by (auto simp: layer_bit_def word_bits bit_1_iff simp del: push_bit_of_1)

text \<open>
  Turning a layer on, off, inverting it and moving to it change exactly that layer of the
  state (moving clears the others), for every layer number: a number of 16 or more changes
  nothing, and moving there turns all layers off.
\<close>

theorem layer_operations:
  "bit (layer_state (layer_on l s)) n = (bit (layer_state s) n \<or> n = unat l \<and> n < 16) \<and>
   bit (layer_state (layer_off l s)) n = (bit (layer_state s) n \<and> n \<noteq> unat l) \<and>
   bit (layer_state (layer_invert l s)) n =
     (bit (layer_state s) n \<noteq> (n = unat l \<and> n < 16)) \<and>
   bit (layer_state (layer_move l s)) n = (n = unat l \<and> n < 16) \<and>
   layer_invert l (layer_invert l s) = s"
proof -
  have "(x XOR y) XOR y = x" for x y :: u16 by (simp add: xor.assoc)
  then show ?thesis
    by (auto simp: layer_on_def layer_off_def layer_invert_def layer_move_def layer_state_set_defs
        word_bits dest: bit_imp_le_length)
qed

text \<open>
  After \<open>update_tri_layer\<close> the third layer is on exactly when the other two are, and no other
  layer changes; with three different layers the first two keep their state, so a second call
  changes nothing.
\<close>

theorem tri_layer_state:
  assumes "unat l1 < 16" "unat l2 < 16" "unat l3 < 16" "l3 \<noteq> l1" "l3 \<noteq> l2"
  shows "bit (layer_state (update_tri_layer l1 l2 l3 s)) n =
      (if n = unat l3 then bit (layer_state s) (unat l1) \<and> bit (layer_state s) (unat l2)
       else bit (layer_state s) n) \<and>
    update_tri_layer l1 l2 l3 (update_tri_layer l1 l2 l3 s) = update_tri_layer l1 l2 l3 s"
proof -
  have m: "(st AND (layer_bit l1 OR layer_bit l2) = layer_bit l1 OR layer_bit l2) =
      (bit st (unat l1) \<and> bit st (unat l2))" for st :: u16
  proof
    assume "st AND (layer_bit l1 OR layer_bit l2) = layer_bit l1 OR layer_bit l2"
    then have "bit (st AND (layer_bit l1 OR layer_bit l2)) k = bit (layer_bit l1 OR layer_bit l2) k"
      for k by simp
    from this [of "unat l1"] this [of "unat l2"] show "bit st (unat l1) \<and> bit st (unat l2)"
      using assms by (auto simp: word_bits)
  next
    assume "bit st (unat l1) \<and> bit st (unat l2)"
    then show "st AND (layer_bit l1 OR layer_bit l2) = layer_bit l1 OR layer_bit l2"
      by (intro bit_word_eqI) (auto simp: word_bits)
  qed
  have b: "bit (update_tri_layer_state st l1 l2 l3) k =
      (if k = unat l3 then bit st (unat l1) \<and> bit st (unat l2) else bit st k)" for st k
    using assms by (auto simp: update_tri_layer_state_def Let_def m word_bits dest: bit_imp_le_length)
  have "unat l3 \<noteq> unat l1" "unat l3 \<noteq> unat l2" using assms by (simp_all add: word_unat_eq_iff)
  then have "update_tri_layer_state (update_tri_layer_state st l1 l2 l3) l1 l2 l3 =
      update_tri_layer_state st l1 l2 l3" for st
    by (intro bit_word_eqI) (auto simp: b)
  then show ?thesis by (simp add: update_tri_layer_def layer_state_set_defs b)
qed

theorem tri_layer_state_witness:
  "bit (layer_state (update_tri_layer 1 2 3 (layer_env_init\<lparr>layer_state := 6\<rparr>))) 3"
  using tri_layer_state [of 1 2 3 "layer_env_init\<lparr>layer_state := 6\<rparr>" 3] by simp

end
