(* ===== verification/Report.thy ===== *)
theory Report
  imports Bitwise
begin

text \<open>
  \<open>tmk_core/protocol/report.c\<close>: the two keyboard reports and the operations that put keys into
  them. Every operation works on the NKRO report when the host uses the report protocol and NKRO
  is switched on; that condition is the argument \<open>nk\<close> (\<open>usb_device_state_get_protocol() ==
  USB_PROTOCOL_REPORT && keymap_config.nkro\<close>). The board has \<open>NKRO_ENABLE\<close>.
\<close>

section \<open>Reports\<close>

abbreviation (input) KEYBOARD_REPORT_KEYS :: nat where "KEYBOARD_REPORT_KEYS \<equiv> 6"
abbreviation (input) NKRO_REPORT_BITS :: nat where "NKRO_REPORT_BITS \<equiv> 30"

record report_keyboard_t =
  kb_mods :: u8
  kb_reserved :: u8
  keys :: "u8 list"

record report_nkro_t =
  nk_report_id :: u8
  nk_mods :: u8
  bits :: "u8 list"

record reports =
  keyboard_report :: report_keyboard_t
  nkro_report :: report_nkro_t

definition reports_init :: reports where
  "reports_init = \<lparr>
     keyboard_report = \<lparr> kb_mods = 0, kb_reserved = 0, keys = replicate KEYBOARD_REPORT_KEYS 0 \<rparr>,
     nkro_report = \<lparr> nk_report_id = 0, nk_mods = 0, bits = replicate NKRO_REPORT_BITS 0 \<rparr> \<rparr>"

section \<open>Queries\<close>

text \<open>The byte counter of the loop; the arrays are shorter than 256 bytes.\<close>

definition has_anykey :: "bool \<Rightarrow> reports \<Rightarrow> u8" where
  "has_anykey nk r =
    fold (\<lambda>p cnt. if p \<noteq> 0 then cnt + 1 else cnt)
      (if nk then bits (nkro_report r) else keys (keyboard_report r)) 0"

text \<open>The index at which the first loop of \<open>get_first_key\<close> stops.\<close>

fun first_nonzero :: "u8 list \<Rightarrow> nat \<Rightarrow> nat" where
  "first_nonzero [] i = i"
| "first_nonzero (b # bs) i = (if b \<noteq> 0 then i else first_nonzero bs (Suc i))"

text \<open>
  \<open>None\<close> is the read of \<open>nkro_report->bits[i]\<close> past the end of the array, of which C says nothing.
\<close>

definition get_first_key :: "bool \<Rightarrow> reports \<Rightarrow> u8 option" where
  "get_first_key nk r =
    (if nk then
       (let bs = bits (nkro_report r); i = first_nonzero bs 0 in
        if i < length bs then Some (push_bit 3 (of_nat i) OR biton (bs ! i)) else None)
     else Some (keys (keyboard_report r) ! 0))"

definition key_bit :: "u8 list \<Rightarrow> u8 \<Rightarrow> bool" where
  "key_bit bs key = (bs ! unat (drop_bit 3 key) AND push_bit (unat (key AND 7)) 1 \<noteq> 0)"

definition is_key_pressed :: "bool \<Rightarrow> u8 \<Rightarrow> reports \<Rightarrow> bool" where
  "is_key_pressed nk key r =
    (if key = 0 then False
     else if nk then
       (if unat (drop_bit 3 key) < NKRO_REPORT_BITS then key_bit (bits (nkro_report r)) key else False)
     else list_ex (\<lambda>k. k = key) (keys (keyboard_report r)))"

section \<open>Updates\<close>

text \<open>
  The loop of \<open>add_key_byte\<close>: it stops at the slot that holds the code and remembers the first
  free slot before it. The result is the final \<open>i\<close> and \<open>free\<close>.
\<close>

fun add_key_scan :: "u8 \<Rightarrow> u8 list \<Rightarrow> nat \<Rightarrow> nat option \<Rightarrow> nat \<times> nat option" where
  "add_key_scan code [] i free = (i, free)"
| "add_key_scan code (k # ks) i free =
    (if k = code then (i, free)
     else add_key_scan code ks (Suc i) (if free = None \<and> k = 0 then Some i else free))"

definition add_key_byte :: "report_keyboard_t \<Rightarrow> u8 \<Rightarrow> report_keyboard_t" where
  "add_key_byte kr code =
    (case add_key_scan code (keys kr) 0 None of
       (i, free) \<Rightarrow>
         if i = KEYBOARD_REPORT_KEYS then
           (case free of Some e \<Rightarrow> kr\<lparr>keys := (keys kr)[e := code]\<rparr> | None \<Rightarrow> kr)
         else kr)"

definition del_key_byte :: "report_keyboard_t \<Rightarrow> u8 \<Rightarrow> report_keyboard_t" where
  "del_key_byte kr code = kr\<lparr>keys := map (\<lambda>k. if k = code then 0 else k) (keys kr)\<rparr>"

definition add_key_bit :: "report_nkro_t \<Rightarrow> u8 \<Rightarrow> report_nkro_t" where
  "add_key_bit nr code =
    (let i = unat (drop_bit 3 code) in
     if i < NKRO_REPORT_BITS
     then nr\<lparr>bits := (bits nr)[i := bits nr ! i OR push_bit (unat (code AND 7)) 1]\<rparr>
     else nr)"

definition del_key_bit :: "report_nkro_t \<Rightarrow> u8 \<Rightarrow> report_nkro_t" where
  "del_key_bit nr code =
    (let i = unat (drop_bit 3 code) in
     if i < NKRO_REPORT_BITS
     then nr\<lparr>bits := (bits nr)[i := bits nr ! i AND NOT (push_bit (unat (code AND 7)) 1)]\<rparr>
     else nr)"

definition add_key_to_report :: "bool \<Rightarrow> u8 \<Rightarrow> reports \<Rightarrow> reports" where
  "add_key_to_report nk key r =
    (if nk then r\<lparr>nkro_report := add_key_bit (nkro_report r) key\<rparr>
     else r\<lparr>keyboard_report := add_key_byte (keyboard_report r) key\<rparr>)"

definition del_key_from_report :: "bool \<Rightarrow> u8 \<Rightarrow> reports \<Rightarrow> reports" where
  "del_key_from_report nk key r =
    (if nk then r\<lparr>nkro_report := del_key_bit (nkro_report r) key\<rparr>
     else r\<lparr>keyboard_report := del_key_byte (keyboard_report r) key\<rparr>)"

definition clear_keys_from_report :: "bool \<Rightarrow> reports \<Rightarrow> reports" where
  "clear_keys_from_report nk r =
    (if nk then r\<lparr>nkro_report := (nkro_report r)\<lparr>bits := replicate NKRO_REPORT_BITS 0\<rparr>\<rparr>
     else r\<lparr>keyboard_report := (keyboard_report r)\<lparr>keys := replicate KEYBOARD_REPORT_KEYS 0\<rparr>\<rparr>)"

section \<open>The contract of a key report\<close>

text \<open>
  What the rest of the firmware relies on: a report holds a set of keys; deleting a key removes
  exactly it, adding one adds at most it and does so whenever there is room for it.
\<close>

locale key_set =
  fixes add :: "'k \<Rightarrow> 'r \<Rightarrow> 'r"
    and del :: "'k \<Rightarrow> 'r \<Rightarrow> 'r"
    and clear :: "'r \<Rightarrow> 'r"
    and pressed :: "'k \<Rightarrow> 'r \<Rightarrow> bool"
    and room :: "'k \<Rightarrow> 'r \<Rightarrow> bool"
    and key :: "'k \<Rightarrow> bool"
    and ok :: "'r \<Rightarrow> bool"
  assumes ok_add: "ok r \<Longrightarrow> ok (add k r)"
    and ok_del: "ok r \<Longrightarrow> ok (del k r)"
    and ok_clear: "ok r \<Longrightarrow> ok (clear r)"
    and pressed_add: "ok r \<Longrightarrow> key k \<Longrightarrow> key k' \<Longrightarrow>
      pressed k' (add k r) \<longleftrightarrow> pressed k' r \<or> k' = k \<and> room k r"
    and pressed_del: "ok r \<Longrightarrow> key k \<Longrightarrow> key k' \<Longrightarrow> pressed k' (del k r) \<longleftrightarrow> pressed k' r \<and> k' \<noteq> k"
    and pressed_clear: "ok r \<Longrightarrow> key k \<Longrightarrow> \<not> pressed k (clear r)"
begin

text \<open>A sequence of additions (\<open>True\<close>) and deletions (\<open>False\<close>).\<close>

definition run :: "(bool \<times> 'k) list \<Rightarrow> 'r \<Rightarrow> 'r" where
  "run es r = fold (\<lambda>(p, k). if p then add k else del k) es r"

lemma ok_run: "ok r \<Longrightarrow> ok (run es r)"
  by (induction es arbitrary: r) (auto simp: run_def ok_add ok_del)

lemma run_Cons: "run ((p, k) # es) r = run es (if p then add k r else del k r)"
  by (simp add: run_def)

lemma run_released:
  "ok r \<Longrightarrow> key k \<Longrightarrow> list_all (\<lambda>(p, k'). key k' \<and> (p \<longrightarrow> k' \<noteq> k)) es \<Longrightarrow>
    pressed k (run es r) \<Longrightarrow> pressed k r"
proof (induction es arbitrary: r)
  case (Cons e es)
  obtain p k' where e: "e = (p, k')" by fastforce
  let ?r = "if p then add k' r else del k' r"
  have "pressed k ?r"
    using Cons.IH [of ?r] Cons.prems by (simp add: e run_Cons ok_add ok_del)
  then show ?case
    using Cons.prems pressed_add [of r k' k] pressed_del [of r k' k]
    by (auto simp: e split: if_splits)
qed (simp add: run_def)

lemma run_held:
  "ok r \<Longrightarrow> key k \<Longrightarrow> list_all (\<lambda>(p, k'). key k' \<and> (\<not> p \<longrightarrow> k' \<noteq> k)) es \<Longrightarrow>
    pressed k r \<Longrightarrow> pressed k (run es r)"
proof (induction es arbitrary: r)
  case (Cons e es)
  obtain p k' where e: "e = (p, k')" by fastforce
  let ?r = "if p then add k' r else del k' r"
  have "pressed k ?r"
    using Cons.prems pressed_add [of r k' k] pressed_del [of r k' k] by (auto simp: e)
  then show ?case
    using Cons.IH [of ?r] Cons.prems by (simp add: e run_Cons ok_add ok_del)
qed (simp add: run_def)

text \<open>A key is never stuck: after its release it stays out until it is pressed again.\<close>

lemma not_stuck:
  assumes "ok r" "key k" "list_all (\<lambda>(p, k'). key k' \<and> (p \<longrightarrow> k' \<noteq> k)) es"
  shows "\<not> pressed k (run es (del k r))"
  using run_released [OF ok_del assms(2,3), of r k] pressed_del [of r k k] assms by blast

lemma add_del:
  "ok r \<Longrightarrow> key k \<Longrightarrow> key k' \<Longrightarrow> \<not> pressed k r \<Longrightarrow> pressed k' (del k (add k r)) = pressed k' r"
  by (auto simp: pressed_add pressed_del ok_add)

end

section \<open>The boot report\<close>

definition keys_ok :: "u8 list \<Rightarrow> bool" where
  "keys_ok ks \<longleftrightarrow> length ks = KEYBOARD_REPORT_KEYS \<and> distinct (filter (\<lambda>k. k \<noteq> 0) ks)"

definition kb_ok :: "report_keyboard_t \<Rightarrow> bool" where
  "kb_ok r \<longleftrightarrow> keys_ok (keys r)"

definition kb_room :: "u8 \<Rightarrow> report_keyboard_t \<Rightarrow> bool" where
  "kb_room code r \<longleftrightarrow> 0 \<in> set (keys r)"

definition kb_clear :: "report_keyboard_t \<Rightarrow> report_keyboard_t" where
  "kb_clear r = r\<lparr>keys := replicate KEYBOARD_REPORT_KEYS 0\<rparr>"

lemma add_key_scan_found:
  "code \<in> set ks \<Longrightarrow> fst (add_key_scan code ks i e) < i + length ks"
  by (induction ks arbitrary: i e) (auto simp: less_Suc_eq_le order.strict_iff_not, (metis add_Suc not_less)+)?

lemma add_key_scan_absent:
  "code \<notin> set ks \<Longrightarrow> add_key_scan code ks i e =
    (i + length ks,
     case e of Some j \<Rightarrow> Some j
     | None \<Rightarrow> if 0 \<in> set ks then Some (i + length (takeWhile (\<lambda>k. k \<noteq> 0) ks)) else None)"
  by (induction ks arbitrary: i e) (auto split: option.splits)

lemma add_key_byte_keys:
  assumes "length (keys r) = 6"
  shows "keys (add_key_byte r code) =
    (if code \<notin> set (keys r) \<and> 0 \<in> set (keys r)
     then (keys r)[length (takeWhile (\<lambda>k. k \<noteq> 0) (keys r)) := code] else keys r)"
  using assms add_key_scan_found [of code "keys r" 0 None] add_key_scan_absent [of code "keys r" 0 None]
  by (cases "code \<in> set (keys r)") (auto simp: add_key_byte_def split: prod.splits)

lemma first_empty:
  fixes ks :: "u8 list"
  assumes "0 \<in> set ks"
  shows "ks = takeWhile (\<lambda>k. k \<noteq> 0) ks @ 0 # tl (dropWhile (\<lambda>k. k \<noteq> 0) ks)"
proof -
  have "dropWhile (\<lambda>k. k \<noteq> 0) ks \<noteq> []" using assms by (auto simp: dropWhile_eq_Nil_conv)
  then have "dropWhile (\<lambda>k. k \<noteq> 0) ks = 0 # tl (dropWhile (\<lambda>k. k \<noteq> 0) ks)"
    using hd_dropWhile [of "\<lambda>k. k \<noteq> 0" ks] by (metis list.collapse)
  then show ?thesis by (metis takeWhile_dropWhile_id)
qed

lemma set_first_empty:
  fixes ks :: "u8 list"
  assumes "0 \<in> set ks"
  obtains xs ys where "ks = xs @ 0 # ys" "ks[length (takeWhile (\<lambda>k. k \<noteq> 0) ks) := c] = xs @ c # ys"
proof -
  let ?n = "length (takeWhile (\<lambda>k. k \<noteq> 0) ks)"
  obtain xs ys where "ks = xs @ 0 # ys" "xs = takeWhile (\<lambda>k. k \<noteq> 0) ks"
    using first_empty [OF assms] by blast
  moreover from this have "ks[?n := c] = xs @ c # ys" by (metis list_update_length)
  ultimately show thesis using that by blast
qed

interpretation boot: key_set "\<lambda>k r. add_key_byte r k" "\<lambda>k r. del_key_byte r k" kb_clear
  "\<lambda>k r. k \<in> set (keys r)" kb_room "\<lambda>k. k \<noteq> 0" kb_ok
proof
  fix r :: report_keyboard_t and k k' :: u8
  assume ok: "kb_ok r"
  then have len: "length (keys r) = 6" by (simp add: kb_ok_def keys_ok_def)
  show "kb_ok (add_key_byte r k)"
  proof (cases "k \<notin> set (keys r) \<and> 0 \<in> set (keys r)")
    case True
    then obtain xs ys where "keys r = xs @ 0 # ys" "keys (add_key_byte r k) = xs @ k # ys"
      using set_first_empty [of "keys r" k] add_key_byte_keys [OF len, of k] by metis
    with ok True show ?thesis by (auto simp: kb_ok_def keys_ok_def)
  qed (use ok add_key_byte_keys [OF len, of k] in \<open>auto simp: kb_ok_def\<close>)
  show "kb_ok (kb_clear r)" by (simp add: kb_ok_def keys_ok_def kb_clear_def)
  show "kb_ok (del_key_byte r k)"
  proof -
    have "filter (\<lambda>x. x \<noteq> 0) (map (\<lambda>x. if x = k then 0 else x) ks) =
        filter (\<lambda>x. x \<noteq> k) (filter (\<lambda>x. x \<noteq> 0) ks)" for ks
      by (induction ks) auto
    moreover have "distinct (filter (\<lambda>x. x \<noteq> 0) (keys r))"
      using ok by (simp add: kb_ok_def keys_ok_def)
    then have "distinct (filter (\<lambda>x. x \<noteq> k) (filter (\<lambda>x. x \<noteq> 0) (keys r)))"
      by (rule distinct_filter)
    ultimately show ?thesis using ok by (simp add: kb_ok_def keys_ok_def del_key_byte_def)
  qed
  show "(k' \<in> set (keys (add_key_byte r k))) = (k' \<in> set (keys r) \<or> k' = k \<and> kb_room k r)"
    if "k \<noteq> 0" "k' \<noteq> 0"
  proof (cases "k \<notin> set (keys r) \<and> 0 \<in> set (keys r)")
    case True
    then obtain xs ys where "keys r = xs @ 0 # ys" "keys (add_key_byte r k) = xs @ k # ys"
      using set_first_empty [of "keys r" k] add_key_byte_keys [OF len, of k] by metis
    with that show ?thesis by (auto simp: kb_room_def)
  qed (use add_key_byte_keys [OF len, of k] in \<open>auto simp: kb_room_def\<close>)
  show "(k' \<in> set (keys (del_key_byte r k))) = (k' \<in> set (keys r) \<and> k' \<noteq> k)"
    if "k \<noteq> 0" "k' \<noteq> 0"
    using that by (auto simp: del_key_byte_def)
  show "k \<notin> set (keys (kb_clear r))" if "k \<noteq> 0"
    using that by (simp add: kb_clear_def)
qed

section \<open>The NKRO report\<close>

definition nk_ok :: "report_nkro_t \<Rightarrow> bool" where
  "nk_ok r \<longleftrightarrow> length (bits r) = NKRO_REPORT_BITS"

definition nk_room :: "u8 \<Rightarrow> report_nkro_t \<Rightarrow> bool" where
  "nk_room code r \<longleftrightarrow> unat code div 8 < NKRO_REPORT_BITS"

definition nk_pressed :: "u8 \<Rightarrow> report_nkro_t \<Rightarrow> bool" where
  "nk_pressed key r \<longleftrightarrow> unat key div 8 < NKRO_REPORT_BITS \<and> bit (bits r ! (unat key div 8)) (unat key mod 8)"

definition nk_clear :: "report_nkro_t \<Rightarrow> report_nkro_t" where
  "nk_clear r = r\<lparr>bits := replicate NKRO_REPORT_BITS 0\<rparr>"

lemma unat_drop_3: "unat (drop_bit 3 k) = unat k div 8" for k :: u8
  by (simp add: unat_drop_bit)

lemma unat_and_7: "unat (k AND 7) = unat k mod 8" for k :: u8
proof -
  have "(7 :: u8) = mask 3" by (simp add: mask_eq_exp_minus_1)
  then have "k AND 7 = take_bit 3 k" by (simp add: take_bit_eq_mask)
  then show ?thesis by (simp add: unat_mod take_bit_eq_mod)
qed

lemma key_bit_bit: "key_bit bs key = bit (bs ! (unat key div 8)) (unat key mod 8)"
  by (simp only: key_bit_def and_bit_mask_eq_0 unat_drop_3 unat_and_7 not_not)

lemma key_eq_div_mod:
  "k = k' \<longleftrightarrow> unat k div 8 = unat k' div 8 \<and> unat k mod 8 = unat k' mod 8" for k k' :: u8
  by (metis div_mult_mod_eq word_unat_eq_iff)

lemma nk_pressed_add:
  "nk_ok r \<Longrightarrow> nk_pressed k' (add_key_bit r k) = (nk_pressed k' r \<or> k' = k \<and> nk_room k r)"
  by (auto simp: nk_pressed_def nk_room_def nk_ok_def add_key_bit_def Let_def unat_drop_3 unat_and_7
      nth_list_update word_bits key_eq_div_mod [of k' k] simp del: push_bit_of_1)

lemma nk_pressed_del:
  "nk_ok r \<Longrightarrow> nk_pressed k' (del_key_bit r k) = (nk_pressed k' r \<and> k' \<noteq> k)"
  by (auto simp: nk_pressed_def nk_ok_def del_key_bit_def Let_def unat_drop_3 unat_and_7
      nth_list_update word_bits key_eq_div_mod [of k' k] simp del: push_bit_of_1)

interpretation nkro: key_set "\<lambda>k r. add_key_bit r k" "\<lambda>k r. del_key_bit r k" nk_clear
  nk_pressed nk_room "\<lambda>k. True" nk_ok
proof
  show "nk_ok (add_key_bit r k)" "nk_ok (del_key_bit r k)" "nk_ok (nk_clear r)"
    if "nk_ok r" for r k
    using that by (simp_all add: nk_ok_def add_key_bit_def del_key_bit_def nk_clear_def Let_def)
  show "\<not> nk_pressed k (nk_clear r)" for r k
    by (simp add: nk_pressed_def nk_clear_def)
qed (simp_all add: nk_pressed_add nk_pressed_del)

section \<open>The report in use\<close>

definition reports_ok :: "reports \<Rightarrow> bool" where
  "reports_ok r \<longleftrightarrow> kb_ok (keyboard_report r) \<and> nk_ok (nkro_report r)"

definition report_room :: "bool \<Rightarrow> u8 \<Rightarrow> reports \<Rightarrow> bool" where
  "report_room nk k r = (if nk then nk_room k (nkro_report r) else kb_room k (keyboard_report r))"

lemma is_key_pressed_report:
  "k \<noteq> 0 \<Longrightarrow> is_key_pressed nk k r =
    (if nk then nk_pressed k (nkro_report r) else k \<in> set (keys (keyboard_report r)))"
  by (auto simp: is_key_pressed_def nk_pressed_def key_bit_bit unat_drop_3 list_ex_iff)

interpretation active: key_set "add_key_to_report nk" "del_key_from_report nk"
  "clear_keys_from_report nk" "is_key_pressed nk" "report_room nk" "\<lambda>k. k \<noteq> 0" reports_ok
  for nk
proof
  fix r k k' assume ok: "reports_ok r"
  show "reports_ok (add_key_to_report nk k r)" "reports_ok (del_key_from_report nk k r)"
    "reports_ok (clear_keys_from_report nk r)"
    using ok boot.ok_add boot.ok_del boot.ok_clear nkro.ok_add nkro.ok_del nkro.ok_clear
    by (auto simp: reports_ok_def add_key_to_report_def del_key_from_report_def
        clear_keys_from_report_def kb_clear_def nk_clear_def)
  show "is_key_pressed nk k' (add_key_to_report nk k r) =
      (is_key_pressed nk k' r \<or> k' = k \<and> report_room nk k r)" if "k \<noteq> 0" "k' \<noteq> 0"
    using ok that by (simp add: is_key_pressed_report add_key_to_report_def report_room_def
        reports_ok_def boot.pressed_add nkro.pressed_add)
  show "is_key_pressed nk k' (del_key_from_report nk k r) = (is_key_pressed nk k' r \<and> k' \<noteq> k)"
    if "k \<noteq> 0" "k' \<noteq> 0"
    using ok that by (simp add: is_key_pressed_report del_key_from_report_def
        reports_ok_def boot.pressed_del nkro.pressed_del)
  show "\<not> is_key_pressed nk k (clear_keys_from_report nk r)"
    by (cases "k = 0") (auto simp: is_key_pressed_def key_bit_def clear_keys_from_report_def
        list_ex_iff)
qed


section \<open>The first key\<close>

lemma first_nonzero_find:
  "first_nonzero bs i = i + length (takeWhile (\<lambda>b. b = 0) bs)"
  by (induction bs arbitrary: i) auto

lemma first_nonzero_less:
  "first_nonzero bs 0 < length bs \<longleftrightarrow> list_ex (\<lambda>b. b \<noteq> 0) bs"
  by (induction bs) (auto simp: first_nonzero_find)

lemma first_nonzero_nth:
  "first_nonzero bs 0 < length bs \<Longrightarrow> bs ! first_nonzero bs 0 \<noteq> 0"
  using nth_length_takeWhile [of "\<lambda>b. b = 0" bs] by (simp add: first_nonzero_find)

lemma count_nonzero:
  "unat (n :: u8) + length bs < 256 \<Longrightarrow>
    unat (fold (\<lambda>p cnt. if p \<noteq> 0 then cnt + 1 else cnt) bs n) =
      unat n + length (filter (\<lambda>b. b \<noteq> 0) bs)"
proof (induction bs arbitrary: n)
  case (Cons b bs)
  have "unat (n + 1) = unat n + 1" using Cons.prems by (simp add: unat_word_ariths)
  then show ?case using Cons by simp
qed simp

lemma has_anykey_count:
  "reports_ok r \<Longrightarrow> unat (has_anykey nk r) =
    length (filter (\<lambda>b. b \<noteq> 0) (if nk then bits (nkro_report r) else keys (keyboard_report r)))"
  by (auto simp: has_anykey_def count_nonzero reports_ok_def kb_ok_def keys_ok_def nk_ok_def)

lemma has_anykey_0:
  "reports_ok r \<Longrightarrow> has_anykey nk r = 0 \<longleftrightarrow>
    \<not> list_ex (\<lambda>b. b \<noteq> 0) (if nk then bits (nkro_report r) else keys (keyboard_report r))"
  by (simp add: word_unat_eq_iff has_anykey_count filter_empty_conv list_ex_iff)

lemma has_anykey_pressed:
  assumes "reports_ok r" "is_key_pressed nk k r"
  shows "has_anykey nk r \<noteq> 0"
proof -
  have k: "k \<noteq> 0" using assms(2) by (auto simp: is_key_pressed_def)
  show ?thesis
  proof (cases nk)
    case True
    with assms k have "unat k div 8 < length (bits (nkro_report r))"
      "bits (nkro_report r) ! (unat k div 8) \<noteq> 0"
      by (auto simp: is_key_pressed_report nk_pressed_def reports_ok_def nk_ok_def)
    then have "list_ex (\<lambda>b. b \<noteq> 0) (bits (nkro_report r))"
      by (auto simp: list_ex_length)
    with True assms(1) show ?thesis by (simp add: has_anykey_0)
  next
    case False
    with assms k show ?thesis
      by (auto simp: has_anykey_0 is_key_pressed_report list_ex_iff)
  qed
qed

text \<open>The key that \<open>get_first_key\<close> computes from a byte of the NKRO report.\<close>

lemma unat_nkro_key:
  assumes "i < 30" "b < 8"
  shows "unat (push_bit 3 (of_nat i) OR of_nat b :: u8) = i * 8 + b"
proof -
  have "unat (drop_bit 3 (of_nat b :: u8)) = 0"
    using assms by (simp add: unat_drop_bit unsigned_of_nat take_bit_nat_eq_self)
  then have "drop_bit 3 (of_nat b :: u8) = 0" by (simp only: word_unat_eq_iff unat_0)
  then have "push_bit 3 (of_nat i) OR of_nat b = (push_bit 3 (of_nat i) + of_nat b :: u8)"
    by (intro disjunctive_add [symmetric]) (auto simp: bit_push_bit_iff dest: drop_bit_0_bit)
  also have "\<dots> = of_nat (i * 8 + b)" by (simp add: push_bit_eq_mult)
  finally show ?thesis using assms by (simp add: unsigned_of_nat take_bit_nat_eq_self del: of_nat_add)
qed

section \<open>Properties\<close>

text \<open>
  C26: in the report in use, adding a key adds that key when the report has room for it (a free
  slot among the six, or a code within the NKRO bitmap) and no other; deleting a key deletes
  exactly it; clearing deletes all. A seventh key is dropped, and a key never takes two slots, so
  that one deletion always releases it: after its deletion a key stays out of the report through
  any further additions and deletions of other keys.
\<close>

theorem key_report_is_key_set:
  assumes "reports_ok r" "k \<noteq> 0" "k' \<noteq> 0"
    "list_all (\<lambda>(p, k''). k'' \<noteq> 0 \<and> (p \<longrightarrow> k'' \<noteq> k)) es"
  shows "is_key_pressed nk k' (add_key_to_report nk k r) =
      (is_key_pressed nk k' r \<or> k' = k \<and> report_room nk k r) \<and>
    is_key_pressed nk k' (del_key_from_report nk k r) = (is_key_pressed nk k' r \<and> k' \<noteq> k) \<and>
    \<not> is_key_pressed nk k' (clear_keys_from_report nk r) \<and>
    \<not> is_key_pressed nk k
      (fold (\<lambda>(p, k''). if p then add_key_to_report nk k'' else del_key_from_report nk k'') es
        (del_key_from_report nk k r)) \<and>
    reports_ok (add_key_to_report nk k r) \<and> reports_ok (del_key_from_report nk k r)"
  using active.pressed_add [OF assms(1-3)] active.pressed_del [OF assms(1-3)]
    active.pressed_clear [OF assms(1,3)] active.not_stuck [OF assms(1,2,4)]
    active.ok_add [OF assms(1)] active.ok_del [OF assms(1)]
  by (simp add: active.run_def)

theorem key_report_is_key_set_witness:
  "\<not> is_key_pressed False 4 (add_key_to_report False 5 (del_key_from_report False 4
      (add_key_to_report False 4 reports_init)))"
  using key_report_is_key_set [of "add_key_to_report False 4 reports_init" 4 5 "[(True, 5)]" False]
    active.ok_add [of reports_init]
  by (simp add: reports_ok_def reports_init_def kb_ok_def keys_ok_def nk_ok_def)


text \<open>
  With NKRO, \<open>get_first_key\<close> returns a key whose bit is set when there is one; on an empty
  report its second statement reads the byte after the bitmap.
\<close>

theorem get_first_key_nkro:
  assumes "reports_ok r"
  shows "(get_first_key True r = None) = (has_anykey True r = 0) \<and>
    (case get_first_key True r of
       Some k \<Rightarrow> unat k div 8 < NKRO_REPORT_BITS \<and>
         bit (bits (nkro_report r) ! (unat k div 8)) (unat k mod 8)
     | None \<Rightarrow> True)"
proof -
  let ?bs = "bits (nkro_report r)" and ?i = "first_nonzero (bits (nkro_report r)) 0"
  have len: "length ?bs = 30" using assms by (simp add: reports_ok_def nk_ok_def)
  have none: "(get_first_key True r = None) = (has_anykey True r = 0)"
    using assms first_nonzero_less [of ?bs] by (simp add: get_first_key_def Let_def has_anykey_0)
  show ?thesis
  proof (cases "?i < length ?bs")
    case True
    let ?m = "msb_index (?bs ! ?i)"
    have b: "?bs ! ?i \<noteq> 0" using first_nonzero_nth [OF True] .
    then have m: "bit (?bs ! ?i) ?m" by (rule msb_index_in)
    then have "?m < 8" using bit_imp_le_length by fastforce
    moreover have "get_first_key True r = Some (push_bit 3 (of_nat ?i) OR of_nat ?m)"
      using True b by (simp add: get_first_key_def Let_def biton_msb)
    ultimately show ?thesis
      using none True len m unat_nkro_key [of ?i ?m] by simp
  qed (use none in \<open>simp add: get_first_key_def Let_def\<close>)
qed

theorem get_first_key_nkro_witness:
  "get_first_key True reports_init = None"
  using get_first_key_nkro [of reports_init]
  by (simp add: reports_ok_def reports_init_def kb_ok_def keys_ok_def nk_ok_def has_anykey_def
      numeral_eq_Suc)

end
