(* ===== verification/Action_Util.thy ===== *)
theory Action_Util
  imports Layers Report
begin

text \<open>
  \<open>quantum/action_util.c\<close> and the register and unregister functions of \<open>quantum/action.c\<close>: the
  modifiers a report carries (real, weak and one-shot), the one-shot layer, and the sending of a
  report when it differs from the last one sent.

  The file's static variables and the globals it uses are one record. What leaves the component
  is a list of events in the order of the calls: the reports and usages handed to the host driver,
  the calls of the weak \<open>..._changed_kb\<close> hooks, the write of the configuration to the EEPROM, the
  calls into the mouse-key component, and the waits. The board enables NKRO, the extra keys and the
  mouse keys; key overrides, swap hands, the one-shot timeout and locking support are not compiled.
\<close>

section \<open>State\<close>

datatype out_event =
    Send6KRO report_keyboard_t
  | SendNKRO report_nkro_t
  | SystemSend u16
  | ConsumerSend u16
  | RegisterMouse u8 bool
  | MousekeyClear
  | MousekeySend
  | OneshotModsChanged u8
  | OneshotLockedModsChanged u8
  | OneshotLayerChanged u8
  | EeconfigUpdateKeymap u16
  | WaitMs u16
  | LedSet

record action_util =
  real_mods :: u8
  weak_mods :: u8
  oneshot_mods :: u8
  oneshot_locked_mods :: u8
  oneshot_layer_data :: u8
  report :: reports
  last_6kro_report :: report_keyboard_t
  last_nkro_report :: report_nkro_t
  keymap_config :: keymap_config_t
  layers :: layer_env
  protocol_report :: bool
  out :: "out_event list"

definition emit :: "out_event \<Rightarrow> 'q action_util_scheme \<Rightarrow> 'q action_util_scheme" where
  "emit e s = s\<lparr>out := out s @ [e]\<rparr>"

text \<open>\<open>usb_device_state_get_protocol() == USB_PROTOCOL_REPORT && keymap_config.nkro\<close>\<close>

definition nkro_on :: "'q action_util_scheme \<Rightarrow> bool" where
  "nkro_on s \<longleftrightarrow> protocol_report s \<and> nkro (keymap_config s)"

text \<open>\<open>keymap_config.raw\<close>: the bit fields from bit 0 up.\<close>

definition keymap_config_raw :: "keymap_config_t \<Rightarrow> u16" where
  "keymap_config_raw c =
    fold (\<lambda>(i, b) w. if b then w OR push_bit i 1 else w)
      (zip [0..<13]
        [swap_control_capslock c, capslock_to_control c, swap_lalt_lgui c, swap_ralt_rgui c,
         no_gui c, swap_grave_esc c, swap_backslash_backspace c, nkro c, swap_lctl_lgui c,
         swap_rctl_rgui c, oneshot_enable c, swap_escape_capslock c, autocorrect_enable c]) 0"

section \<open>Locked one-shot modifiers\<close>

definition oneshot_locked_mods_changed_kb :: "u8 \<Rightarrow> 'q action_util_scheme \<Rightarrow> 'q action_util_scheme" where
  "oneshot_locked_mods_changed_kb mods s = emit (OneshotLockedModsChanged mods) s"

definition add_oneshot_locked_mods :: "u8 \<Rightarrow> 'q action_util_scheme \<Rightarrow> 'q action_util_scheme" where
  "add_oneshot_locked_mods mods s =
    (if oneshot_locked_mods s AND mods \<noteq> mods
     then oneshot_locked_mods_changed_kb (oneshot_locked_mods s OR mods)
            (s\<lparr>oneshot_locked_mods := oneshot_locked_mods s OR mods\<rparr>)
     else s)"

definition set_oneshot_locked_mods :: "u8 \<Rightarrow> 'q action_util_scheme \<Rightarrow> 'q action_util_scheme" where
  "set_oneshot_locked_mods mods s =
    (if mods \<noteq> oneshot_locked_mods s
     then oneshot_locked_mods_changed_kb mods (s\<lparr>oneshot_locked_mods := mods\<rparr>)
     else s)"

definition clear_oneshot_locked_mods :: "'q action_util_scheme \<Rightarrow> 'q action_util_scheme" where
  "clear_oneshot_locked_mods s =
    (if oneshot_locked_mods s \<noteq> 0
     then oneshot_locked_mods_changed_kb 0 (s\<lparr>oneshot_locked_mods := 0\<rparr>)
     else s)"

definition del_oneshot_locked_mods :: "u8 \<Rightarrow> 'q action_util_scheme \<Rightarrow> 'q action_util_scheme" where
  "del_oneshot_locked_mods mods s =
    (if oneshot_locked_mods s AND mods \<noteq> 0
     then oneshot_locked_mods_changed_kb (oneshot_locked_mods s AND NOT mods)
            (s\<lparr>oneshot_locked_mods := oneshot_locked_mods s AND NOT mods\<rparr>)
     else s)"

section \<open>One-shot layer\<close>

abbreviation (input) ONESHOT_PRESSED :: u8 where "ONESHOT_PRESSED \<equiv> 1"
abbreviation (input) ONESHOT_OTHER_KEY_PRESSED :: u8 where "ONESHOT_OTHER_KEY_PRESSED \<equiv> 2"
abbreviation (input) ONESHOT_START :: u8 where "ONESHOT_START \<equiv> 3"
abbreviation (input) ONESHOT_TOGGLED :: u8 where "ONESHOT_TOGGLED \<equiv> 4"

definition get_oneshot_layer :: "'q action_util_scheme \<Rightarrow> u8" where
  "get_oneshot_layer s = drop_bit 3 (oneshot_layer_data s)"

definition get_oneshot_layer_state :: "'q action_util_scheme \<Rightarrow> u8" where
  "get_oneshot_layer_state s = oneshot_layer_data s AND 7"

definition oneshot_layer_changed_kb :: "u8 \<Rightarrow> 'q action_util_scheme \<Rightarrow> 'q action_util_scheme" where
  "oneshot_layer_changed_kb layer s = emit (OneshotLayerChanged layer) s"

definition au_layer_on :: "u8 \<Rightarrow> 'q action_util_scheme \<Rightarrow> 'q action_util_scheme" where
  "au_layer_on layer s = s\<lparr>layers := layer_on layer (layers s)\<rparr>"

definition au_layer_off :: "u8 \<Rightarrow> 'q action_util_scheme \<Rightarrow> 'q action_util_scheme" where
  "au_layer_off layer s = s\<lparr>layers := layer_off layer (layers s)\<rparr>"

definition set_oneshot_layer :: "u8 \<Rightarrow> u8 \<Rightarrow> 'q action_util_scheme \<Rightarrow> 'q action_util_scheme" where
  "set_oneshot_layer layer state s =
    (if oneshot_enable (keymap_config s) then
       (let s1 = au_layer_on layer (s\<lparr>oneshot_layer_data := push_bit 3 layer OR state\<rparr>)
        in oneshot_layer_changed_kb (get_oneshot_layer s1) s1)
     else au_layer_on layer s)"

definition reset_oneshot_layer :: "'q action_util_scheme \<Rightarrow> 'q action_util_scheme" where
  "reset_oneshot_layer s =
    (let s1 = s\<lparr>oneshot_layer_data := 0\<rparr> in oneshot_layer_changed_kb (get_oneshot_layer s1) s1)"

definition clear_oneshot_layer_state :: "u8 \<Rightarrow> 'q action_util_scheme \<Rightarrow> 'q action_util_scheme" where
  "clear_oneshot_layer_state state s =
    (let start_state = oneshot_layer_data s;
         s1 = s\<lparr>oneshot_layer_data := oneshot_layer_data s AND NOT state\<rparr>
     in if get_oneshot_layer_state s1 = 0 \<and> start_state \<noteq> oneshot_layer_data s1
            \<and> oneshot_enable (keymap_config s1)
        then reset_oneshot_layer (au_layer_off (get_oneshot_layer s1) s1)
        else s1)"

definition is_oneshot_layer_active :: "'q action_util_scheme \<Rightarrow> bool" where
  "is_oneshot_layer_active s = (get_oneshot_layer_state s \<noteq> 0)"

definition oneshot_set :: "bool \<Rightarrow> 'q action_util_scheme \<Rightarrow> 'q action_util_scheme" where
  "oneshot_set active s =
    (if oneshot_enable (keymap_config s) \<noteq> active then
       (let c = (keymap_config s)\<lparr>oneshot_enable := active\<rparr>
        in clear_oneshot_layer_state ONESHOT_OTHER_KEY_PRESSED
             (emit (EeconfigUpdateKeymap (keymap_config_raw c)) (s\<lparr>keymap_config := c\<rparr>)))
     else s)"

definition oneshot_toggle :: "'q action_util_scheme \<Rightarrow> 'q action_util_scheme" where
  "oneshot_toggle s = oneshot_set (\<not> oneshot_enable (keymap_config s)) s"

definition oneshot_enable_key :: "'q action_util_scheme \<Rightarrow> 'q action_util_scheme" where
  "oneshot_enable_key s = oneshot_set True s"

definition oneshot_disable_key :: "'q action_util_scheme \<Rightarrow> 'q action_util_scheme" where
  "oneshot_disable_key s = oneshot_set False s"

section \<open>Modifiers\<close>

definition add_mods :: "u8 \<Rightarrow> 'q action_util_scheme \<Rightarrow> 'q action_util_scheme" where
  "add_mods mods s = s\<lparr>real_mods := real_mods s OR mods\<rparr>"

definition del_mods :: "u8 \<Rightarrow> 'q action_util_scheme \<Rightarrow> 'q action_util_scheme" where
  "del_mods mods s = s\<lparr>real_mods := real_mods s AND NOT mods\<rparr>"

definition set_mods :: "u8 \<Rightarrow> 'q action_util_scheme \<Rightarrow> 'q action_util_scheme" where
  "set_mods mods s = s\<lparr>real_mods := mods\<rparr>"

definition clear_mods :: "'q action_util_scheme \<Rightarrow> 'q action_util_scheme" where
  "clear_mods s = s\<lparr>real_mods := 0\<rparr>"

definition add_weak_mods :: "u8 \<Rightarrow> 'q action_util_scheme \<Rightarrow> 'q action_util_scheme" where
  "add_weak_mods mods s = s\<lparr>weak_mods := weak_mods s OR mods\<rparr>"

definition del_weak_mods :: "u8 \<Rightarrow> 'q action_util_scheme \<Rightarrow> 'q action_util_scheme" where
  "del_weak_mods mods s = s\<lparr>weak_mods := weak_mods s AND NOT mods\<rparr>"

definition set_weak_mods :: "u8 \<Rightarrow> 'q action_util_scheme \<Rightarrow> 'q action_util_scheme" where
  "set_weak_mods mods s = s\<lparr>weak_mods := mods\<rparr>"

definition clear_weak_mods :: "'q action_util_scheme \<Rightarrow> 'q action_util_scheme" where
  "clear_weak_mods s = s\<lparr>weak_mods := 0\<rparr>"

section \<open>One-shot modifiers\<close>

definition oneshot_mods_changed_kb :: "u8 \<Rightarrow> 'q action_util_scheme \<Rightarrow> 'q action_util_scheme" where
  "oneshot_mods_changed_kb mods s = emit (OneshotModsChanged mods) s"

definition add_oneshot_mods :: "u8 \<Rightarrow> 'q action_util_scheme \<Rightarrow> 'q action_util_scheme" where
  "add_oneshot_mods mods s =
    (if oneshot_mods s AND mods \<noteq> mods
     then oneshot_mods_changed_kb mods (s\<lparr>oneshot_mods := oneshot_mods s OR mods\<rparr>)
     else s)"

definition del_oneshot_mods :: "u8 \<Rightarrow> 'q action_util_scheme \<Rightarrow> 'q action_util_scheme" where
  "del_oneshot_mods mods s =
    (if oneshot_mods s AND mods \<noteq> 0
     then oneshot_mods_changed_kb (oneshot_mods s AND NOT mods)
            (s\<lparr>oneshot_mods := oneshot_mods s AND NOT mods\<rparr>)
     else s)"

definition set_oneshot_mods :: "u8 \<Rightarrow> 'q action_util_scheme \<Rightarrow> 'q action_util_scheme" where
  "set_oneshot_mods mods s =
    (if oneshot_enable (keymap_config s) then
       (if oneshot_mods s \<noteq> mods
        then oneshot_mods_changed_kb mods (s\<lparr>oneshot_mods := mods\<rparr>) else s)
     else s)"

definition clear_oneshot_mods :: "'q action_util_scheme \<Rightarrow> 'q action_util_scheme" where
  "clear_oneshot_mods s =
    (if oneshot_mods s \<noteq> 0
     then oneshot_mods_changed_kb 0 (s\<lparr>oneshot_mods := 0\<rparr>)
     else s)"

section \<open>Sending reports\<close>

definition get_mods_for_report :: "'q action_util_scheme \<Rightarrow> u8 \<times> 'q action_util_scheme" where
  "get_mods_for_report s =
    (let mods = real_mods s OR weak_mods s in
     if oneshot_mods s \<noteq> 0 then
       (mods OR oneshot_mods s,
        if has_anykey (nkro_on s) (report s) \<noteq> 0 then clear_oneshot_mods s else s)
     else (mods, s))"

definition send_6kro_report :: "'q action_util_scheme \<Rightarrow> 'q action_util_scheme" where
  "send_6kro_report s =
    (let (mods, s1) = get_mods_for_report s;
         kr = (keyboard_report (report s1))\<lparr>kb_mods := mods\<rparr>;
         s2 = s1\<lparr>report := (report s1)\<lparr>keyboard_report := kr\<rparr>\<rparr>
     in if kr \<noteq> last_6kro_report s2
        then emit (Send6KRO kr) (s2\<lparr>last_6kro_report := kr\<rparr>)
        else s2)"

definition send_nkro_report :: "'q action_util_scheme \<Rightarrow> 'q action_util_scheme" where
  "send_nkro_report s =
    (let (mods, s1) = get_mods_for_report s;
         nr = (nkro_report (report s1))\<lparr>nk_mods := mods\<rparr>;
         s2 = s1\<lparr>report := (report s1)\<lparr>nkro_report := nr\<rparr>\<rparr>
     in if nr \<noteq> last_nkro_report s2
        then emit (SendNKRO nr) (s2\<lparr>last_nkro_report := nr\<rparr>)
        else s2)"

definition send_keyboard_report :: "'q action_util_scheme \<Rightarrow> 'q action_util_scheme" where
  "send_keyboard_report s = (if nkro_on s then send_nkro_report s else send_6kro_report s)"

section \<open>Keys\<close>

definition add_key :: "u8 \<Rightarrow> 'q action_util_scheme \<Rightarrow> 'q action_util_scheme" where
  "add_key key s = s\<lparr>report := add_key_to_report (nkro_on s) key (report s)\<rparr>"

definition del_key :: "u8 \<Rightarrow> 'q action_util_scheme \<Rightarrow> 'q action_util_scheme" where
  "del_key key s = s\<lparr>report := del_key_from_report (nkro_on s) key (report s)\<rparr>"

definition clear_keys :: "'q action_util_scheme \<Rightarrow> 'q action_util_scheme" where
  "clear_keys s = s\<lparr>report := clear_keys_from_report (nkro_on s) (report s)\<rparr>"

definition key_pressed :: "u8 \<Rightarrow> 'q action_util_scheme \<Rightarrow> bool" where
  "key_pressed key s = is_key_pressed (nkro_on s) key (report s)"

definition MOD_BIT :: "u8 \<Rightarrow> u8" where
  "MOD_BIT code = push_bit (unat (code AND 7)) 1"

definition code_in :: "u8 \<Rightarrow> u8 \<Rightarrow> u8 \<Rightarrow> bool" where
  "code_in code a b = (a \<le> code \<and> code \<le> b)"

definition register_code :: "u8 \<Rightarrow> 'q action_util_scheme \<Rightarrow> 'q action_util_scheme" where
  "register_code code s =
    (if code = 0 then s
     else if code_in code 0x04 0xA4 then
       (let s1 = (if key_pressed code s then send_keyboard_report (del_key code s) else s)
        in send_keyboard_report (add_key code s1))
     else if code_in code 0xE0 0xE7 then send_keyboard_report (add_mods (MOD_BIT code) s)
     else if code_in code 0xA5 0xA7 then emit (SystemSend (KEYCODE2SYSTEM code)) s
     else if code_in code 0xA8 0xC2 then emit (ConsumerSend (KEYCODE2CONSUMER code)) s
     else if code_in code 0xCD 0xDF then emit (RegisterMouse code True) s
     else s)"

definition unregister_code :: "u8 \<Rightarrow> 'q action_util_scheme \<Rightarrow> 'q action_util_scheme" where
  "unregister_code code s =
    (if code = 0 then s
     else if code_in code 0x04 0xA4 then send_keyboard_report (del_key code s)
     else if code_in code 0xE0 0xE7 then send_keyboard_report (del_mods (MOD_BIT code) s)
     else if code_in code 0xA5 0xA7 then emit (SystemSend 0) s
     else if code_in code 0xA8 0xC2 then emit (ConsumerSend 0) s
     else if code_in code 0xCD 0xDF then emit (RegisterMouse code False) s
     else s)"

definition tap_code_delay :: "u8 \<Rightarrow> u16 \<Rightarrow> 'q action_util_scheme \<Rightarrow> 'q action_util_scheme" where
  "tap_code_delay code delay s =
    unregister_code code (emit (WaitMs delay) (register_code code s))"

text \<open>\<open>TAP_HOLD_CAPS_DELAY\<close> is 80 ms and \<open>TAP_CODE_DELAY\<close> 0 by default.\<close>

definition tap_code :: "u8 \<Rightarrow> 'q action_util_scheme \<Rightarrow> 'q action_util_scheme" where
  "tap_code code s = tap_code_delay code (if code = 0x39 then 80 else 0) s"

definition register_mods :: "u8 \<Rightarrow> 'q action_util_scheme \<Rightarrow> 'q action_util_scheme" where
  "register_mods mods s = (if mods \<noteq> 0 then send_keyboard_report (add_mods mods s) else s)"

definition unregister_mods :: "u8 \<Rightarrow> 'q action_util_scheme \<Rightarrow> 'q action_util_scheme" where
  "unregister_mods mods s = (if mods \<noteq> 0 then send_keyboard_report (del_mods mods s) else s)"

definition register_weak_mods :: "u8 \<Rightarrow> 'q action_util_scheme \<Rightarrow> 'q action_util_scheme" where
  "register_weak_mods mods s =
    (if mods \<noteq> 0 then send_keyboard_report (add_weak_mods mods s) else s)"

definition unregister_weak_mods :: "u8 \<Rightarrow> 'q action_util_scheme \<Rightarrow> 'q action_util_scheme" where
  "unregister_weak_mods mods s =
    (if mods \<noteq> 0 then send_keyboard_report (del_weak_mods mods s) else s)"

definition clear_keyboard_but_mods_and_keys :: "'q action_util_scheme \<Rightarrow> 'q action_util_scheme" where
  "clear_keyboard_but_mods_and_keys s =
    emit MousekeySend (emit MousekeyClear
      (send_keyboard_report (clear_weak_mods (emit (ConsumerSend 0) (emit (SystemSend 0) s)))))"

definition clear_keyboard_but_mods :: "'q action_util_scheme \<Rightarrow> 'q action_util_scheme" where
  "clear_keyboard_but_mods s = clear_keyboard_but_mods_and_keys (clear_keys s)"

definition clear_keyboard :: "'q action_util_scheme \<Rightarrow> 'q action_util_scheme" where
  "clear_keyboard s = clear_keyboard_but_mods (clear_mods s)"

definition has_anymod :: "'q action_util_scheme \<Rightarrow> u8" where
  "has_anymod s = bitpop (real_mods s)"

definition action_util_init :: action_util where
  "action_util_init = \<lparr>
     real_mods = 0, weak_mods = 0, oneshot_mods = 0, oneshot_locked_mods = 0,
     oneshot_layer_data = 0, report = reports_init,
     last_6kro_report = keyboard_report reports_init, last_nkro_report = nkro_report reports_init,
     keymap_config = keymap_config_zero\<lparr>oneshot_enable := True\<rparr>, layers = layer_env_init,
     protocol_report = True, out = [] \<rparr>"

section \<open>What the host holds\<close>

text \<open>The modifiers and the keys of the report last sent in the report format in use.\<close>

definition host_mods :: "'q action_util_scheme \<Rightarrow> u8" where
  "host_mods s = (if nkro_on s then nk_mods (last_nkro_report s) else kb_mods (last_6kro_report s))"

definition host_key :: "u8 \<Rightarrow> 'q action_util_scheme \<Rightarrow> bool" where
  "host_key key s = is_key_pressed (nkro_on s) key
     \<lparr> keyboard_report = last_6kro_report s, nkro_report = last_nkro_report s \<rparr>"

lemmas au_defs = emit_def oneshot_mods_changed_kb_def oneshot_layer_changed_kb_def
  oneshot_locked_mods_changed_kb_def au_layer_on_def au_layer_off_def clear_oneshot_mods_def

lemma nkro_on_simps [simp]:
  "nkro_on (emit e s) = nkro_on s"
  "nkro_on (s\<lparr>report := r\<rparr>) = nkro_on s"
  "nkro_on (s\<lparr>real_mods := m\<rparr>) = nkro_on s"
  "nkro_on (s\<lparr>weak_mods := m\<rparr>) = nkro_on s"
  "nkro_on (s\<lparr>oneshot_mods := m\<rparr>) = nkro_on s"
  "nkro_on (s\<lparr>last_6kro_report := l6\<rparr>) = nkro_on s"
  "nkro_on (s\<lparr>last_nkro_report := ln\<rparr>) = nkro_on s"
  "nkro_on (clear_oneshot_mods s) = nkro_on s"
  by (simp_all add: nkro_on_def au_defs)

lemma emit_simps [simp]:
  "real_mods (emit e s) = real_mods s" "weak_mods (emit e s) = weak_mods s"
  "oneshot_mods (emit e s) = oneshot_mods s" "report (emit e s) = report s"
  "last_6kro_report (emit e s) = last_6kro_report s"
  "last_nkro_report (emit e s) = last_nkro_report s"
  "keymap_config (emit e s) = keymap_config s" "layers (emit e s) = layers s"
  "oneshot_layer_data (emit e s) = oneshot_layer_data s"
  "protocol_report (emit e s) = protocol_report s"
  by (simp_all add: emit_def)

lemma get_mods_for_report_simps:
  "fst (get_mods_for_report s) = real_mods s OR weak_mods s OR oneshot_mods s"
  "real_mods (snd (get_mods_for_report s)) = real_mods s"
  "weak_mods (snd (get_mods_for_report s)) = weak_mods s"
  "report (snd (get_mods_for_report s)) = report s"
  "nkro_on (snd (get_mods_for_report s)) = nkro_on s"
  "oneshot_mods (snd (get_mods_for_report s)) =
    (if has_anykey (nkro_on s) (report s) \<noteq> 0 then 0 else oneshot_mods s)"
  "keymap_config (snd (get_mods_for_report s)) = keymap_config s"
  "layers (snd (get_mods_for_report s)) = layers s"
  "oneshot_layer_data (snd (get_mods_for_report s)) = oneshot_layer_data s"
  "last_6kro_report (snd (get_mods_for_report s)) = last_6kro_report s"
  "last_nkro_report (snd (get_mods_for_report s)) = last_nkro_report s"
  "protocol_report (snd (get_mods_for_report s)) = protocol_report s"
  by (auto simp: get_mods_for_report_def Let_def clear_oneshot_mods_def
      oneshot_mods_changed_kb_def or.assoc)

lemma is_key_pressed_nk_mods [simp]:
  "is_key_pressed True k (r\<lparr>nkro_report := (nkro_report r)\<lparr>nk_mods := m\<rparr>\<rparr>) = is_key_pressed True k r"
  "is_key_pressed False k (r\<lparr>keyboard_report := (keyboard_report r)\<lparr>kb_mods := m\<rparr>\<rparr>) =
    is_key_pressed False k r"
  by (simp_all add: is_key_pressed_def)

lemma send_keyboard_report_frame [simp]:
  "real_mods (send_keyboard_report s) = real_mods s"
  "weak_mods (send_keyboard_report s) = weak_mods s"
  "nkro_on (send_keyboard_report s) = nkro_on s"
  "keymap_config (send_keyboard_report s) = keymap_config s"
  "layers (send_keyboard_report s) = layers s"
  "oneshot_layer_data (send_keyboard_report s) = oneshot_layer_data s"
  "oneshot_mods (send_keyboard_report s) =
    (if has_anykey (nkro_on s) (report s) \<noteq> 0 then 0 else oneshot_mods s)"
  by (simp_all add: send_keyboard_report_def send_nkro_report_def send_6kro_report_def
      case_prod_beta Let_def get_mods_for_report_simps)

lemma send_keyboard_report_report:
  "report (send_keyboard_report s) =
    (let m = real_mods s OR weak_mods s OR oneshot_mods s in
     if nkro_on s then (report s)\<lparr>nkro_report := (nkro_report (report s))\<lparr>nk_mods := m\<rparr>\<rparr>
     else (report s)\<lparr>keyboard_report := (keyboard_report (report s))\<lparr>kb_mods := m\<rparr>\<rparr>)"
  "nkro_on s \<Longrightarrow> last_nkro_report (send_keyboard_report s) =
    nkro_report (report (send_keyboard_report s))"
  "\<not> nkro_on s \<Longrightarrow> last_6kro_report (send_keyboard_report s) =
    keyboard_report (report (send_keyboard_report s))"
  by (simp_all add: send_keyboard_report_def send_nkro_report_def send_6kro_report_def
      case_prod_beta Let_def get_mods_for_report_simps)

lemma key_pressed_send [simp]: "key_pressed k (send_keyboard_report s) = key_pressed k s"
  by (simp add: key_pressed_def send_keyboard_report_report Let_def)

lemma host_after_send:
  "host_mods (send_keyboard_report s) = real_mods s OR weak_mods s OR oneshot_mods s"
  "host_key k (send_keyboard_report s) = key_pressed k s"
  by (simp_all add: host_mods_def host_key_def key_pressed_def send_keyboard_report_report Let_def
      is_key_pressed_def)

lemma has_anykey_send [simp]:
  "has_anykey (nkro_on s) (report (send_keyboard_report s)) = has_anykey (nkro_on s) (report s)"
  by (simp add: send_keyboard_report_report has_anykey_def Let_def)


section \<open>Keys and modifiers reaching the host\<close>

lemma au_keys [simp]:
  "nkro_on (add_key k s) = nkro_on s" "nkro_on (del_key k s) = nkro_on s"
  "nkro_on (clear_keys s) = nkro_on s" "nkro_on (add_mods m s) = nkro_on s"
  "nkro_on (del_mods m s) = nkro_on s" "nkro_on (clear_weak_mods s) = nkro_on s"
  "nkro_on (clear_mods s) = nkro_on s" "key_pressed k (add_mods m s) = key_pressed k s"
  "key_pressed k (del_mods m s) = key_pressed k s" "key_pressed k (emit e s) = key_pressed k s"
  "key_pressed k (clear_weak_mods s) = key_pressed k s"
  by (simp_all add: add_key_def del_key_def clear_keys_def add_mods_def del_mods_def
      clear_weak_mods_def clear_mods_def key_pressed_def)

lemma reports_ok_send: "reports_ok (report s) \<Longrightarrow> reports_ok (report (send_keyboard_report s))"
  by (simp add: send_keyboard_report_report Let_def reports_ok_def kb_ok_def nk_ok_def)

lemma reports_ok_keys:
  "reports_ok (report s) \<Longrightarrow> reports_ok (report (add_key k s))"
  "reports_ok (report s) \<Longrightarrow> reports_ok (report (del_key k s))"
  "reports_ok (report s) \<Longrightarrow> reports_ok (report (clear_keys s))"
  by (simp_all add: add_key_def del_key_def clear_keys_def active.ok_add active.ok_del active.ok_clear)

definition key_room :: "u8 \<Rightarrow> 'q action_util_scheme \<Rightarrow> bool" where
  "key_room key s = report_room (nkro_on s) key (report s)"

lemma key_pressed_add:
  "reports_ok (report s) \<Longrightarrow> k \<noteq> 0 \<Longrightarrow> k' \<noteq> 0 \<Longrightarrow>
    key_pressed k' (add_key k s) = (key_pressed k' s \<or> k' = k \<and> key_room k s)"
  by (simp add: key_pressed_def key_room_def add_key_def active.pressed_add)

lemma key_pressed_del:
  "reports_ok (report s) \<Longrightarrow> k \<noteq> 0 \<Longrightarrow> k' \<noteq> 0 \<Longrightarrow>
    key_pressed k' (del_key k s) = (key_pressed k' s \<and> k' \<noteq> k)"
  by (simp add: key_pressed_def del_key_def active.pressed_del)

lemma key_room_send [simp]: "key_room k (send_keyboard_report s) = key_room k s"
  by (auto simp: key_room_def report_room_def send_keyboard_report_report Let_def nk_room_def kb_room_def)

lemma key_room_del:
  assumes "reports_ok (report s)" "key_pressed k s"
  shows "key_room k (del_key k s)"
proof -
  have "k \<noteq> 0" using assms(2) by (auto simp: key_pressed_def is_key_pressed_def)
  then show ?thesis
    using assms by (auto simp: key_room_def report_room_def key_pressed_def del_key_def
        is_key_pressed_report nk_pressed_def nk_room_def kb_room_def del_key_from_report_def
        del_key_byte_def)
qed

lemma code_in_unat: "code_in c a b \<longleftrightarrow> unat a \<le> unat c \<and> unat c \<le> unat b"
  by (simp add: code_in_def word_le_nat_alt)

lemma basic_code_nonzero: "code_in code 4 0xA4 \<Longrightarrow> code \<noteq> 0"
  by (auto simp: code_in_def)

lemma register_code_key:
  assumes "reports_ok (report s)" "code_in code 4 0xA4" "k \<noteq> 0"
  shows "key_pressed k (register_code code s) =
      (key_pressed k s \<or> k = code \<and> key_room code s)"
    "host_key k (register_code code s) = (key_pressed k s \<or> k = code \<and> key_room code s)"
    "reports_ok (report (register_code code s))"
proof -
  have c: "code \<noteq> 0" using assms(2) by (rule basic_code_nonzero)
  let ?s1 = "if key_pressed code s then send_keyboard_report (del_key code s) else s"
  have r: "register_code code s = send_keyboard_report (add_key code ?s1)"
    using assms(2) c by (simp add: register_code_def)
  have ok: "reports_ok (report ?s1)" using assms(1) by (simp add: reports_ok_send reports_ok_keys)
  show "reports_ok (report (register_code code s))"
    unfolding r by (rule reports_ok_send, rule reports_ok_keys(1), rule ok)
  have p: "key_pressed k (add_key code ?s1) = (key_pressed k s \<or> k = code \<and> key_room code s)"
    using key_pressed_add [OF ok c assms(3)] key_room_del [OF assms(1), of code]
    by (auto simp: key_pressed_del [OF assms(1) c assms(3)] c split: if_splits)
  then show "key_pressed k (register_code code s) =
      (key_pressed k s \<or> k = code \<and> key_room code s)"
    "host_key k (register_code code s) = (key_pressed k s \<or> k = code \<and> key_room code s)"
    unfolding r by (simp_all add: host_after_send)
qed

lemma unregister_code_key:
  assumes "reports_ok (report s)" "code_in code 4 0xA4" "k \<noteq> 0"
  shows "key_pressed k (unregister_code code s) = (key_pressed k s \<and> k \<noteq> code)"
    "host_key k (unregister_code code s) = (key_pressed k s \<and> k \<noteq> code)"
  using assms basic_code_nonzero [OF assms(2)]
  by (simp_all add: unregister_code_def host_after_send key_pressed_del)

text \<open>
  Registering a basic key makes the host hold it as well as the keys that were down, provided
  the report has room, also when the key was down already; unregistering it removes exactly that
  key, and so does a tap.
\<close>

theorem register_code_reaches_host:
  assumes "reports_ok (report s)" "code_in code 0x04 0xA4" "k \<noteq> 0"
  shows "host_key k (register_code code s) = (key_pressed k s \<or> k = code \<and> key_room code s) \<and>
    host_key k (unregister_code code s) = (key_pressed k s \<and> k \<noteq> code) \<and>
    host_key k (tap_code code s) = (key_pressed k s \<and> k \<noteq> code)"
proof -
  have ok: "reports_ok (report (emit e (register_code code s)))" for e
    using register_code_key(3) [OF assms] by simp
  have "host_key k (unregister_code code (emit e (register_code code s))) = (key_pressed k s \<and> k \<noteq> code)" for e
    using unregister_code_key(2) [OF ok assms(2,3)] register_code_key(1) [OF assms] by auto
  then have "host_key k (tap_code code s) = (key_pressed k s \<and> k \<noteq> code)"
    by (simp add: tap_code_def tap_code_delay_def)
  then show ?thesis
    using register_code_key(2) [OF assms] unregister_code_key(2) [OF assms] by simp
qed

theorem register_code_reaches_host_witness:
  "host_key 4 (register_code 4 action_util_init) \<and> \<not> host_key 4 (tap_code 4 action_util_init)"
  using register_code_reaches_host [of action_util_init 4 4]
  by (simp add: action_util_init_def reports_ok_def reports_init_def kb_ok_def keys_ok_def nk_ok_def
      code_in_def key_room_def report_room_def nkro_on_def keymap_config_zero_def kb_room_def
      key_pressed_def is_key_pressed_def)

text \<open>
  Registering a modifier key adds its bit to the modifiers the host holds, and unregistering
  it removes it unless a weak or one-shot modifier still asks for it.
\<close>

theorem register_code_modifier:
  assumes "code_in code 0xE0 0xE7"
  shows "host_mods (register_code code s) =
      real_mods s OR MOD_BIT code OR weak_mods s OR oneshot_mods s \<and>
    host_mods (unregister_code code s) =
      (real_mods s AND NOT (MOD_BIT code)) OR weak_mods s OR oneshot_mods s"
proof -
  have "code \<noteq> 0" "\<not> code_in code 4 0xA4" using assms by (auto simp: code_in_unat)
  then show ?thesis
    using assms
    by (simp add: register_code_def unregister_code_def host_after_send add_mods_def del_mods_def or.assoc)
qed

theorem register_code_modifier_witness:
  "host_mods (register_code 0xE1 action_util_init) = 2"
  using register_code_modifier [of "0xE1" action_util_init]
  by (simp add: code_in_def action_util_init_def MOD_BIT_def)

section \<open>One-shot layers\<close>

text \<open>The eight bits \<open>layer << 3 | state\<close>, kept folded in the proofs.\<close>

definition oneshot_data :: "u8 \<Rightarrow> u8 \<Rightarrow> u8" where
  "oneshot_data layer state = push_bit 3 layer OR state"

lemma oneshot_data_fields:
  assumes "drop_bit 5 layer = 0"
  shows "drop_bit 3 (oneshot_data layer 0) = layer" "drop_bit 3 (oneshot_data layer 1) = layer"
    "drop_bit 3 (oneshot_data layer 2) = layer" "drop_bit 3 (oneshot_data layer 3) = layer"
    "oneshot_data layer 0 AND 7 = 0" "oneshot_data layer 1 AND 7 = 1"
    "oneshot_data layer 2 AND 7 = 2" "oneshot_data layer 3 AND 7 = 3"
  by (rule u8_eqI; simp add: oneshot_data_def word_bits drop_bit_0_bit [OF assms])+

lemma oneshot_data_clear:
  "oneshot_data layer 3 AND - 2 = oneshot_data layer 2"
  "oneshot_data layer 3 AND - 3 = oneshot_data layer 1"
  "oneshot_data layer 2 AND - 3 = oneshot_data layer 0"
  "oneshot_data layer 1 AND - 2 = oneshot_data layer 0"
  "oneshot_data layer 0 AND - 3 = oneshot_data layer 0"
  "oneshot_data layer 1 AND - 3 = oneshot_data layer 1"
  by (rule u8_eqI; simp add: oneshot_data_def word_bits)+

lemma oneshot_data_differ:
  assumes "drop_bit 5 layer = 0"
  shows "oneshot_data layer 0 \<noteq> oneshot_data layer 1" "oneshot_data layer 0 \<noteq> oneshot_data layer 2"
  using oneshot_data_fields(5-7) [OF assms] by fastforce+

lemma small_layer: "unat layer < 16 \<Longrightarrow> drop_bit 5 layer = 0" for layer :: u8
  by (simp add: word_unat_eq_iff unat_drop_bit)

lemma set_oneshot_layer_simps:
  assumes "oneshot_enable (keymap_config s)"
  shows "oneshot_layer_data (set_oneshot_layer layer state s) = oneshot_data layer state"
    "layers (set_oneshot_layer layer state s) = layer_on layer (layers s)"
    "keymap_config (set_oneshot_layer layer state s) = keymap_config s"
  using assms by (simp_all add: set_oneshot_layer_def Let_def au_defs oneshot_data_def)

lemma clear_oneshot_layer_state_simps:
  "oneshot_layer_data (clear_oneshot_layer_state st s) =
    (let d = oneshot_layer_data s AND NOT st in
     if d AND 7 = 0 \<and> d \<noteq> oneshot_layer_data s \<and> oneshot_enable (keymap_config s) then 0 else d)"
  "layers (clear_oneshot_layer_state st s) =
    (let d = oneshot_layer_data s AND NOT st in
     if d AND 7 = 0 \<and> d \<noteq> oneshot_layer_data s \<and> oneshot_enable (keymap_config s)
     then layer_off (drop_bit 3 d) (layers s) else layers s)"
  "keymap_config (clear_oneshot_layer_state st s) = keymap_config s"
  by (auto simp: clear_oneshot_layer_state_def Let_def reset_oneshot_layer_def au_defs
      get_oneshot_layer_state_def get_oneshot_layer_def)

text \<open>
  A one-shot layer stays on until its key has been released and another key has been pressed,
  in whichever order, and is then turned off and forgotten.
\<close>

theorem oneshot_layer_ends_after_both:
  assumes "oneshot_enable (keymap_config s)" "unat layer < 16"
  shows "let s1 = set_oneshot_layer layer ONESHOT_START s;
             released = clear_oneshot_layer_state ONESHOT_PRESSED s1;
             other = clear_oneshot_layer_state ONESHOT_OTHER_KEY_PRESSED s1;
             done1 = clear_oneshot_layer_state ONESHOT_OTHER_KEY_PRESSED released;
             done2 = clear_oneshot_layer_state ONESHOT_PRESSED other
         in is_oneshot_layer_active s1 \<and> get_oneshot_layer s1 = layer \<and>
            is_oneshot_layer_active released \<and> is_oneshot_layer_active other \<and>
            bit (layer_state (layers released)) (unat layer) \<and>
            bit (layer_state (layers other)) (unat layer) \<and>
            oneshot_layer_data done1 = 0 \<and> oneshot_layer_data done2 = 0 \<and>
            layers done1 = layer_off layer (layer_on layer (layers s)) \<and> layers done2 = layers done1"
proof -
  have d: "drop_bit 5 layer = 0" using assms(2) by (rule small_layer)
  have on: "bit (layer_state (layer_on layer (layers s))) (unat layer)"
    using assms(2) by (simp add: layer_on_def layer_state_set_defs word_bits)
  show ?thesis
    using assms(1) on
    by (simp add: Let_def set_oneshot_layer_simps clear_oneshot_layer_state_simps
        is_oneshot_layer_active_def get_oneshot_layer_state_def get_oneshot_layer_def
        oneshot_data_clear oneshot_data_differ [OF d] oneshot_data_fields [OF d])
qed

theorem oneshot_layer_ends_after_both_witness:
  "layers (clear_oneshot_layer_state ONESHOT_OTHER_KEY_PRESSED (clear_oneshot_layer_state
      ONESHOT_PRESSED (set_oneshot_layer 3 ONESHOT_START action_util_init))) =
    layer_off 3 (layer_on 3 layer_env_init)"
  using oneshot_layer_ends_after_both [of action_util_init 3]
  by (simp add: action_util_init_def Let_def)

lemma oneshot_set_off:
  assumes "oneshot_enable (keymap_config s)"
  shows "layers (oneshot_set False s) = layers s"
    "oneshot_layer_data (oneshot_set False s) = oneshot_layer_data s AND NOT 2"
  using assms by (simp_all add: oneshot_set_def clear_oneshot_layer_state_simps Let_def emit_def)

text \<open>
  Switching the one-shot keys off while a one-shot layer waits for the next key leaves that
  layer on: \<open>oneshot_set\<close> clears the enable flag first, and \<open>clear_oneshot_layer_state\<close> turns the
  layer off only when the flag is set. The layer is on and no longer recorded as active, so no
  later call of \<open>clear_oneshot_layer_state\<close> turns it off, even after the keys are enabled again.
\<close>

theorem oneshot_disable_leaves_layer_on:
  assumes "oneshot_enable (keymap_config s)" "unat layer < 16"
  shows "let t = oneshot_disable_key (clear_oneshot_layer_state ONESHOT_PRESSED
                   (set_oneshot_layer layer ONESHOT_START s))
         in bit (layer_state (layers t)) (unat layer) \<and> \<not> is_oneshot_layer_active t \<and>
            layers (clear_oneshot_layer_state ONESHOT_OTHER_KEY_PRESSED (oneshot_enable_key t)) =
              layers t"
proof -
  have d: "drop_bit 5 layer = 0" using assms(2) by (rule small_layer)
  have on: "bit (layer_state (layer_on layer (layers s))) (unat layer)"
    using assms(2) by (simp add: layer_on_def layer_state_set_defs word_bits)
  have n: "oneshot_data layer 0 AND 7 = 0" using oneshot_data_fields [OF d] by simp
  show ?thesis
    using assms(1) on
    by (simp add: Let_def oneshot_disable_key_def oneshot_enable_key_def set_oneshot_layer_simps
        clear_oneshot_layer_state_simps oneshot_set_def emit_def is_oneshot_layer_active_def
        get_oneshot_layer_state_def oneshot_data_clear oneshot_data_fields [OF d])
qed

theorem oneshot_disable_leaves_layer_on_witness:
  "bit (layer_state (layers (oneshot_disable_key (clear_oneshot_layer_state ONESHOT_PRESSED
      (set_oneshot_layer 3 ONESHOT_START action_util_init))))) 3"
  using oneshot_disable_leaves_layer_on [of action_util_init 3]
  by (simp add: action_util_init_def Let_def)

text \<open>
  The hook that adding one-shot modifiers calls receives only the added modifiers, where the
  hooks' description and the calls for deleting and clearing pass the modifiers active after the
  change.
\<close>

theorem add_oneshot_mods_hook_argument:
  assumes "oneshot_mods s AND m \<noteq> m"
  shows "oneshot_mods (add_oneshot_mods m s) = oneshot_mods s OR m \<and>
    out (add_oneshot_mods m s) = out s @ [OneshotModsChanged m] \<and>
    out (add_oneshot_mods 2 (add_oneshot_mods 1 action_util_init)) =
      [OneshotModsChanged 1, OneshotModsChanged 2] \<and>
    out (del_oneshot_mods 1 (add_oneshot_mods 3 action_util_init)) =
      [OneshotModsChanged 3, OneshotModsChanged 2]"
  using assms
  by (simp add: add_oneshot_mods_def del_oneshot_mods_def au_defs action_util_init_def)

theorem add_oneshot_mods_hook_argument_witness:
  "out (add_oneshot_mods 2 (action_util_init\<lparr>oneshot_mods := 1\<rparr>)) = [OneshotModsChanged 2]"
  using add_oneshot_mods_hook_argument [of "action_util_init\<lparr>oneshot_mods := 1\<rparr>" 2]
  by (simp add: action_util_init_def)

section \<open>Reachable states\<close>

text \<open>The public operations as steps of a transition system.\<close>

inductive au_step :: "'q action_util_scheme \<Rightarrow> 'q action_util_scheme \<Rightarrow> bool" where
  register: "au_step s (register_code code s)"
| unregister: "au_step s (unregister_code code s)"
| tap: "au_step s (tap_code code s)"
| reg_mods: "au_step s (register_mods m s)"
| unreg_mods: "au_step s (unregister_mods m s)"
| reg_weak: "au_step s (register_weak_mods m s)"
| unreg_weak: "au_step s (unregister_weak_mods m s)"
| set_real: "au_step s (set_mods m s)"
| set_weak: "au_step s (set_weak_mods m s)"
| key_down: "au_step s (add_key k s)"
| key_up: "au_step s (del_key k s)"
| send: "au_step s (send_keyboard_report s)"
| clear_all: "au_step s (clear_keyboard s)"
| osm_add: "au_step s (add_oneshot_mods m s)"
| osm_del: "au_step s (del_oneshot_mods m s)"
| osm_set: "au_step s (set_oneshot_mods m s)"
| osm_clear: "au_step s (clear_oneshot_mods s)"
| osl_set: "au_step s (set_oneshot_layer layer st s)"
| osl_clear: "au_step s (clear_oneshot_layer_state st s)"
| osl_reset: "au_step s (reset_oneshot_layer s)"
| os_set: "au_step s (oneshot_set active s)"
| lock_add: "au_step s (add_oneshot_locked_mods m s)"
| lock_del: "au_step s (del_oneshot_locked_mods m s)"
| lock_set: "au_step s (set_oneshot_locked_mods m s)"
| lock_clear: "au_step s (clear_oneshot_locked_mods s)"
| usb_protocol: "au_step s (s\<lparr>protocol_report := b\<rparr>)"
| magic_nkro: "au_step s (s\<lparr>keymap_config := (keymap_config s)\<lparr>nkro := b\<rparr>\<rparr>)"

inductive au_reachable :: "'q action_util_scheme \<Rightarrow> bool" where
  init: "au_reachable (action_util.extend action_util_init q)"
| step: "au_reachable s \<Longrightarrow> au_step s t \<Longrightarrow> au_reachable t"

text \<open>The reports a host holds after a sequence of events.\<close>

fun host_receive :: "out_event \<Rightarrow> report_keyboard_t \<times> report_nkro_t \<Rightarrow>
    report_keyboard_t \<times> report_nkro_t" where
  "host_receive (Send6KRO r) h = (r, snd h)"
| "host_receive (SendNKRO r) h = (fst h, r)"
| "host_receive _ h = h"

definition host_view :: "out_event list \<Rightarrow> report_keyboard_t \<times> report_nkro_t" where
  "host_view es = fold host_receive es (keyboard_report reports_init, nkro_report reports_init)"

text \<open>The modifiers and the keys of the last report received in the format in use.\<close>

definition received_mods :: "'q action_util_scheme \<Rightarrow> u8" where
  "received_mods s = (if nkro_on s then nk_mods (snd (host_view (out s))) else kb_mods (fst (host_view (out s))))"

definition received_key :: "u8 \<Rightarrow> 'q action_util_scheme \<Rightarrow> bool" where
  "received_key key s = is_key_pressed (nkro_on s) key
     \<lparr> keyboard_report = fst (host_view (out s)), nkro_report = snd (host_view (out s)) \<rparr>"

definition au_inv :: "'q action_util_scheme \<Rightarrow> bool" where
  "au_inv s \<longleftrightarrow> reports_ok (report s) \<and> host_view (out s) = (last_6kro_report s, last_nkro_report s)"

lemma host_view_emit [simp]: "host_view (out (emit e s)) = host_receive e (host_view (out s))"
  by (simp add: host_view_def emit_def)

lemma au_inv_emit:
  "au_inv s \<Longrightarrow> (\<And>h. host_receive e h = h) \<Longrightarrow> au_inv (emit e s)"
  by (simp add: au_inv_def)

lemma au_inv_update [simp]:
  "au_inv (s\<lparr>real_mods := m\<rparr>) = au_inv s" "au_inv (s\<lparr>weak_mods := m\<rparr>) = au_inv s"
  "au_inv (s\<lparr>oneshot_mods := m\<rparr>) = au_inv s" "au_inv (s\<lparr>oneshot_locked_mods := m\<rparr>) = au_inv s"
  "au_inv (s\<lparr>oneshot_layer_data := d\<rparr>) = au_inv s" "au_inv (s\<lparr>keymap_config := c\<rparr>) = au_inv s"
  "au_inv (s\<lparr>layers := l\<rparr>) = au_inv s" "au_inv (s\<lparr>protocol_report := b\<rparr>) = au_inv s"
  by (simp_all add: au_inv_def)

lemma au_inv_key [simp]: "au_inv s \<Longrightarrow> au_inv (add_key k s)" "au_inv s \<Longrightarrow> au_inv (del_key k s)"
  "au_inv s \<Longrightarrow> au_inv (clear_keys s)"
  by (simp_all add: au_inv_def reports_ok_keys) (simp_all add: add_key_def del_key_def clear_keys_def)

lemma au_inv_get_mods: "au_inv s \<Longrightarrow> au_inv (snd (get_mods_for_report s))"
  by (simp add: get_mods_for_report_def Let_def clear_oneshot_mods_def oneshot_mods_changed_kb_def
      au_inv_emit)

lemma au_inv_send [simp]: "au_inv s \<Longrightarrow> au_inv (send_keyboard_report s)"
proof -
  assume s: "au_inv s"
  then have ok: "reports_ok (report (send_keyboard_report s))"
    by (simp add: au_inv_def reports_ok_send)
  have "host_view (out (snd (get_mods_for_report s))) =
      (last_6kro_report s, last_nkro_report s)"
    using au_inv_get_mods [OF s] by (simp add: au_inv_def get_mods_for_report_simps)
  with ok show ?thesis
    unfolding au_inv_def
    by (simp add: send_keyboard_report_def send_nkro_report_def send_6kro_report_def
      case_prod_beta Let_def get_mods_for_report_simps)
qed

lemmas au_inv_rules = au_inv_emit au_defs add_mods_def del_mods_def set_mods_def
  clear_mods_def add_weak_mods_def del_weak_mods_def set_weak_mods_def clear_weak_mods_def

lemma au_inv_register [simp]:
  "au_inv s \<Longrightarrow> au_inv (register_code code s)" "au_inv s \<Longrightarrow> au_inv (unregister_code code s)"
  by (simp_all add: register_code_def unregister_code_def au_inv_emit add_mods_def del_mods_def Let_def)

lemma au_inv_emits [simp]: 
  "au_inv s \<Longrightarrow> au_inv (emit (OneshotModsChanged m) s)" 
  "au_inv s \<Longrightarrow> au_inv (emit (OneshotLockedModsChanged m) s)" 
  "au_inv s \<Longrightarrow> au_inv (emit (OneshotLayerChanged m) s)" 
  "au_inv s \<Longrightarrow> au_inv (emit (EeconfigUpdateKeymap w) s)" 
  "au_inv s \<Longrightarrow> au_inv (emit (WaitMs w) s)" 
  "au_inv s \<Longrightarrow> au_inv (emit MousekeyClear s)"  "au_inv s \<Longrightarrow> au_inv (emit MousekeySend s)" 
  "au_inv s \<Longrightarrow> au_inv (emit (SystemSend w) s)"  "au_inv s \<Longrightarrow> au_inv (emit (ConsumerSend w) s)" 
  by (simp_all add: au_inv_emit)

lemma au_inv_clear_state [simp]: "au_inv s \<Longrightarrow> au_inv (clear_oneshot_layer_state st s)"
  by (simp add: clear_oneshot_layer_state_def Let_def reset_oneshot_layer_def
      oneshot_layer_changed_kb_def au_layer_off_def)

lemma au_inv_step: "au_step s t \<Longrightarrow> au_inv s \<Longrightarrow> au_inv t"
  by (induction rule: au_step.induct)
    (simp_all add: tap_code_def tap_code_delay_def register_mods_def unregister_mods_def
      register_weak_mods_def unregister_weak_mods_def set_mods_def set_weak_mods_def
      add_mods_def del_mods_def add_weak_mods_def del_weak_mods_def clear_keyboard_def
      clear_mods_def clear_keyboard_but_mods_def clear_keyboard_but_mods_and_keys_def
      clear_weak_mods_def
      add_oneshot_mods_def del_oneshot_mods_def set_oneshot_mods_def clear_oneshot_mods_def
      oneshot_mods_changed_kb_def set_oneshot_layer_def reset_oneshot_layer_def
      oneshot_layer_changed_kb_def au_layer_on_def Let_def oneshot_set_def
      add_oneshot_locked_mods_def del_oneshot_locked_mods_def set_oneshot_locked_mods_def
      clear_oneshot_locked_mods_def oneshot_locked_mods_changed_kb_def)

lemma au_inv_reachable: "au_reachable s \<Longrightarrow> au_inv s"
proof (induction rule: au_reachable.induct)
  case (init q)
  then show ?case
    by (simp add: au_inv_def action_util_init_def action_util.defs host_view_def reports_init_def reports_ok_def
        kb_ok_def keys_ok_def nk_ok_def)
qed (rule au_inv_step)

lemma received_after_send:
  assumes "au_inv s"
  shows "received_mods (send_keyboard_report s) = real_mods s OR weak_mods s OR oneshot_mods s"
    "received_key k (send_keyboard_report s) = key_pressed k s"
proof -
  let ?t = "send_keyboard_report s"
  have "host_view (out ?t) = (last_6kro_report ?t, last_nkro_report ?t)"
    using au_inv_send [OF assms] by (simp only: au_inv_def)
  then have "received_mods ?t = host_mods ?t" "received_key k ?t = host_key k ?t"
    unfolding received_mods_def received_key_def host_mods_def host_key_def by simp_all
  then show "received_mods ?t = real_mods s OR weak_mods s OR oneshot_mods s"
    "received_key k ?t = key_pressed k s" by (simp_all add: host_after_send)
qed

text \<open>
  C3: what has been sent is what is held. In every state the operations reach, the reports that have left
  the firmware by the end of \<open>send_keyboard_report\<close> leave the host, in the report format in use, with exactly
  the keys of the report and the union of the real, the weak and the one-shot modifiers. One-shot modifiers
  are spent by the first report that holds a key: a second report, sent with nothing else changed, has them
  released; while no key is down they stay.
\<close>

theorem report_sent_to_host:
  assumes "au_reachable s"
  shows "let t = send_keyboard_report s; u = send_keyboard_report t;
       anykey = has_anykey (nkro_on s) (report s) \<noteq> 0
   in received_mods t = real_mods s OR weak_mods s OR oneshot_mods s \<and>
      received_key k t = key_pressed k s \<and>
      oneshot_mods t = (if anykey then 0 else oneshot_mods s) \<and>
      received_mods u = (if anykey then real_mods s OR weak_mods s
                     else real_mods s OR weak_mods s OR oneshot_mods s) \<and>
      received_key k u = key_pressed k s"
  using au_inv_reachable [OF assms] by (simp add: Let_def received_after_send)

theorem report_sent_to_host_witness:
  "received_mods (send_keyboard_report (register_code 0xE1 action_util_init)) = 2"
proof -
  have "real_mods (register_code 0xE1 action_util_init) = 2" "weak_mods (register_code 0xE1 action_util_init) = 0"
    "oneshot_mods (register_code 0xE1 action_util_init) = 0" by code_simp+
  moreover have "action_util.extend action_util_init () = action_util_init"
    by (simp add: action_util_init_def action_util.defs)
  ultimately show ?thesis
    using report_sent_to_host [OF au_reachable.step [OF au_reachable.init [of "()"] au_step.register [of _ "0xE1"]]]
    by (simp add: Let_def)
qed



end
