(* ===== verification/Debounce.thy ===== *)
theory Debounce
  imports Qmk_Prelude
begin

text \<open>
  The debouncers of \<open>quantum/debounce/\<close> that work on whole rows or on the whole matrix
  (\<open>none.c\<close>, \<open>sym_defer_g.c\<close>, \<open>sym_defer_pr.c\<close>, \<open>sym_eager_pr.c\<close>), the contract all
  debouncers share, and the lemmas on their loops. The per-key ones are in \<open>Debounce_Keys\<close>.

  A debouncer is called after every scan with the matrix read (\<open>raw\<close>), the matrix the rest of the
  firmware sees (\<open>cooked\<close>) and whether the scan changed \<open>raw\<close>; it returns whether it changed
  \<open>cooked\<close>. \<open>matrix_row_t\<close> has 8 bits for six columns; the number of rows is the length of the
  matrices. The static variables of each file are a record, \<open>cooked\<close> is passed and returned. The
  clock \<open>timer_read_fast\<close> is the 32-bit clock \<open>now\<close>. \<open>DEBOUNCE\<close> has its default value.
\<close>

section \<open>Common definitions\<close>

type_synonym matrix = "u8 list"

definition DEBOUNCE :: u8 where
  "DEBOUNCE = 5"

text \<open>\<open>elapsed_time > UINT8_MAX ? UINT8_MAX : elapsed_time\<close>, as an 8-bit value.\<close>

definition cap_elapsed :: "u32 \<Rightarrow> u8" where
  "cap_elapsed e = (if e > 255 then 255 else ucast e)"

lemma DEBOUNCE_pos [simp]: "DEBOUNCE \<noteq> 0" "0 < unat DEBOUNCE"
  by (simp_all add: DEBOUNCE_def)

lemma unat_cap_elapsed: "unat (cap_elapsed e) = min (unat e) 255"
proof (cases "e > 255")
  case False
  then have "unat e \<le> 255" by (simp add: word_le_nat_alt not_less)
  then show ?thesis using False
    by (simp add: cap_elapsed_def unsigned_ucast_eq take_bit_nat_eq_self min_def)
qed (simp add: cap_elapsed_def word_less_nat_alt min_def)

section \<open>The contract of a debouncer\<close>

type_synonym 'st debounce_fun = "u32 \<Rightarrow> matrix \<Rightarrow> bool \<Rightarrow> 'st \<Rightarrow> matrix \<Rightarrow> bool \<times> 'st \<times> matrix"

text \<open>A sequence of scans, each with its time, its raw matrix and its change flag.\<close>

fun debounce_run ::
    "'st debounce_fun \<Rightarrow> (u32 \<times> matrix \<times> bool) list \<Rightarrow> 'st \<Rightarrow> matrix \<Rightarrow> 'st \<times> matrix" where
  "debounce_run deb [] st cooked = (st, cooked)"
| "debounce_run deb ((now, raw, changed) # scans) st cooked =
    (let (f, st', cooked') = deb now raw changed st cooked in debounce_run deb scans st' cooked')"

text \<open>Scans of an unchanged matrix, given by the milliseconds between them.\<close>

fun debounce_wait ::
    "'st debounce_fun \<Rightarrow> u32 \<Rightarrow> matrix \<Rightarrow> nat list \<Rightarrow> 'st \<Rightarrow> matrix \<Rightarrow> 'st \<times> matrix" where
  "debounce_wait deb t raw [] st cooked = (st, cooked)"
| "debounce_wait deb t raw (d # ds) st cooked =
    (let (f, st', cooked') = deb (t + of_nat d) raw False st cooked
     in debounce_wait deb (t + of_nat d) raw ds st' cooked')"

text \<open>The cooked matrix after a changed scan at time \<open>t\<close> and scans of the same matrix after it.\<close>

definition debounce_settled ::
    "'st debounce_fun \<Rightarrow> u32 \<Rightarrow> matrix \<Rightarrow> nat list \<Rightarrow> 'st \<Rightarrow> matrix \<Rightarrow> matrix" where
  "debounce_settled deb t raw ds st cooked =
    (case deb t raw True st cooked of (f, st1, cooked1) \<Rightarrow>
       snd (debounce_wait deb t raw ds st1 cooked1))"

text \<open>One call moves each bit to its raw value or leaves it, and reports exactly the changes.\<close>

definition debounce_call_ok ::
    "'st debounce_fun \<Rightarrow> u32 \<Rightarrow> matrix \<Rightarrow> bool \<Rightarrow> 'st \<Rightarrow> matrix \<Rightarrow> nat \<Rightarrow> nat \<Rightarrow> bool" where
  "debounce_call_ok deb now raw changed st cooked r c =
    (case deb now raw changed st cooked of (f, st', cooked') \<Rightarrow>
       f = (cooked' \<noteq> cooked) \<and>
       (bit (cooked' ! r) c = bit (cooked ! r) c \<or> bit (cooked' ! r) c = bit (raw ! r) c))"

text \<open>
  A call only ever moves bits of the cooked matrix to their raw value, and it reports a change
  exactly when it made one.
\<close>

locale debouncer =
  fixes deb :: "'st debounce_fun"
    and ok :: "nat \<Rightarrow> 'st \<Rightarrow> matrix \<Rightarrow> bool"
  assumes ok_length: "ok n st cooked \<Longrightarrow> length cooked = n"
    and ok_deb: "ok n st cooked \<Longrightarrow> length raw = n \<Longrightarrow>
      deb now raw changed st cooked = (f, st', cooked') \<Longrightarrow> ok n st' cooked'"
    and deb_bits: "ok n st cooked \<Longrightarrow> length raw = n \<Longrightarrow>
      deb now raw changed st cooked = (f, st', cooked') \<Longrightarrow> r < n \<Longrightarrow>
      bit (cooked' ! r) c = bit (cooked ! r) c \<or> bit (cooked' ! r) c = bit (raw ! r) c"
    and deb_flag: "ok n st cooked \<Longrightarrow> length raw = n \<Longrightarrow>
      deb now raw changed st cooked = (f, st', cooked') \<Longrightarrow> f = (cooked' \<noteq> cooked)"
begin

text \<open>No key is invented: each cooked bit is the initial one or one that a scan has read.\<close>

lemma no_ghost:
  "ok n st cooked \<Longrightarrow> list_all (\<lambda>(now, raw, changed). length raw = n) scans \<Longrightarrow>
    debounce_run deb scans st cooked = (st', cooked') \<Longrightarrow> r < n \<Longrightarrow>
    bit (cooked' ! r) c = bit (cooked ! r) c \<or>
    (\<exists>(now, raw, changed) \<in> set scans. bit (cooked' ! r) c = bit (raw ! r) c)"
proof (induction scans arbitrary: st cooked)
  case (Cons s scans)
  obtain now raw changed where s: "s = (now, raw, changed)" by (metis prod_cases3)
  obtain f st1 cooked1 where d: "deb now raw changed st cooked = (f, st1, cooked1)"
    by (metis prod_cases3)
  have raw: "length raw = n" and rest: "list_all (\<lambda>(now, raw, changed). length raw = n) scans"
    using Cons.prems(2) by (simp_all add: s)
  have "bit (cooked1 ! r) c = bit (cooked ! r) c \<or> bit (cooked1 ! r) c = bit (raw ! r) c"
    by (rule deb_bits [OF Cons.prems(1) raw d Cons.prems(4)])
  moreover have "bit (cooked' ! r) c = bit (cooked1 ! r) c \<or>
      (\<exists>(now, raw, changed) \<in> set scans. bit (cooked' ! r) c = bit (raw ! r) c)"
    by (rule Cons.IH [OF ok_deb [OF Cons.prems(1) raw d] rest _ Cons.prems(4)])
      (use Cons.prems(3) in \<open>simp add: s d\<close>)
  ultimately show ?case by (auto simp: s)
qed simp

text \<open>A matrix that reads as it was reported leaves the report alone.\<close>

lemma quiet:
  assumes "ok n st cooked" "deb now cooked changed st cooked = (f, st', cooked')"
  shows "cooked' = cooked \<and> \<not> f"
proof -
  have raw: "length cooked = n" by (rule ok_length [OF assms(1)])
  have "length cooked' = n" by (rule ok_length [OF ok_deb [OF assms(1) raw assms(2)]])
  then have "cooked' = cooked"
    using deb_bits [OF assms(1) raw assms(2)] raw
    by (intro nth_equalityI bit_word_eqI) auto
  then show ?thesis using deb_flag [OF assms(1) raw assms(2)] by simp
qed

end

text \<open>
  A debouncer that settles: \<open>due m t st raw cooked\<close> says that, with the state after a call at time
  \<open>t\<close>, the cooked matrix agrees with \<open>raw\<close> after \<open>m\<close> further milliseconds of unchanged reading, with scans fewer than
  \<open>gap\<close> milliseconds apart; after a changed scan \<open>m\<close> is at most \<open>period\<close>.
\<close>

locale settling_debouncer = debouncer deb ok
  for deb :: "'st debounce_fun"
    and ok :: "nat \<Rightarrow> 'st \<Rightarrow> matrix \<Rightarrow> bool" +
  fixes due :: "nat \<Rightarrow> u32 \<Rightarrow> 'st \<Rightarrow> matrix \<Rightarrow> matrix \<Rightarrow> bool"
    and period gap :: nat
  assumes due_start: "ok n st cooked \<Longrightarrow> length raw = n \<Longrightarrow>
      deb now raw True st cooked = (f, st', cooked') \<Longrightarrow> due period now st' raw cooked'"
    and due_wait: "ok n st cooked \<Longrightarrow> length raw = n \<Longrightarrow> due m t st raw cooked \<Longrightarrow> d < gap \<Longrightarrow>
      deb (t + of_nat d) raw False st cooked = (f, st', cooked') \<Longrightarrow>
      due (m - d) (t + of_nat d) st' raw cooked'"
    and due_settled: "ok n st cooked \<Longrightarrow> length raw = n \<Longrightarrow> due 0 t st raw cooked \<Longrightarrow>
      r < n \<Longrightarrow> c < MATRIX_COLS \<Longrightarrow> bit (cooked ! r) c = bit (raw ! r) c"
begin

lemma due_wait_all:
  "ok n st cooked \<Longrightarrow> length raw = n \<Longrightarrow> list_all (\<lambda>d. d < gap) ds \<Longrightarrow> due m t st raw cooked \<Longrightarrow>
    debounce_wait deb t raw ds st cooked = (st', cooked') \<Longrightarrow>
    ok n st' cooked' \<and> (\<exists>t'. due (m - sum_list ds) t' st' raw cooked')"
proof (induction ds arbitrary: t st cooked m)
  case (Cons d ds)
  obtain f st1 cooked1 where d: "deb (t + of_nat d) raw False st cooked = (f, st1, cooked1)"
    by (metis prod_cases3)
  have "due (m - d) (t + of_nat d) st1 raw cooked1"
    by (rule due_wait [OF Cons.prems(1,2,4) _ d]) (use Cons.prems(3) in simp)
  from Cons.IH [OF ok_deb [OF Cons.prems(1,2) d] Cons.prems(2) _ this] Cons.prems(3,5)
  show ?case by (simp add: d diff_diff_left)
qed auto

lemma call_ok:
  assumes "ok n st cooked" "length raw = n" "r < n"
  shows "debounce_call_ok deb now raw changed st cooked r c"
proof (cases "deb now raw changed st cooked")
  case (fields f st' cooked')
  then show ?thesis
    using deb_flag [OF assms(1,2) fields] deb_bits [OF assms(1,2) fields assms(3)]
    by (simp add: debounce_call_ok_def)
qed

lemma settles:
  assumes "ok n st cooked" "length raw = n" "list_all (\<lambda>d. d < gap) ds"
    "period \<le> sum_list ds" "r < n" "c < MATRIX_COLS"
  shows "bit (debounce_settled deb t raw ds st cooked ! r) c = bit (raw ! r) c"
proof -
  obtain f st1 cooked1 where d: "deb t raw True st cooked = (f, st1, cooked1)" by (metis prod_cases3)
  obtain st' cooked' where w: "debounce_wait deb t raw ds st1 cooked1 = (st', cooked')" by fastforce
  have "ok n st1 cooked1" by (rule ok_deb [OF assms(1,2) d])
  moreover have "due period t st1 raw cooked1" by (rule due_start [OF assms(1,2) d])
  ultimately obtain t' where "ok n st' cooked'" "due (period - sum_list ds) t' st' raw cooked'"
    using due_wait_all [OF _ assms(2,3) _ w] by blast
  with assms(4) have "bit (cooked' ! r) c = bit (raw ! r) c"
    using due_settled [OF _ assms(2) _ assms(5,6)] by simp
  then show ?thesis by (simp add: debounce_settled_def d w)
qed

end

section \<open>Loops over rows and over keys\<close>

text \<open>
  A loop whose step \<open>r\<close> reads and writes only the part of the state that belongs to row \<open>r\<close>, and
  may raise flags.
\<close>

locale row_loop =
  fixes step :: "nat \<Rightarrow> 's \<Rightarrow> 's"
    and view :: "'s \<Rightarrow> nat \<Rightarrow> 'v"
    and upd :: "nat \<Rightarrow> 'v \<Rightarrow> 'v"
    and flag :: "'k \<Rightarrow> 's \<Rightarrow> bool"
    and hit :: "'k \<Rightarrow> nat \<Rightarrow> 'v \<Rightarrow> bool"
    and valid :: "nat \<Rightarrow> 's \<Rightarrow> bool"
  assumes step_valid: "valid n s \<Longrightarrow> valid n (step r s)"
    and step_same: "valid n s \<Longrightarrow> r < n \<Longrightarrow> view (step r s) r = upd r (view s r)"
    and step_other: "valid n s \<Longrightarrow> r < n \<Longrightarrow> r' \<noteq> r \<Longrightarrow> view (step r s) r' = view s r'"
    and step_flag: "valid n s \<Longrightarrow> r < n \<Longrightarrow> flag k (step r s) = (flag k s \<or> hit k r (view s r))"
begin

lemma fold_valid: "valid n s \<Longrightarrow> valid n (fold step rs s)"
  by (induction rs arbitrary: s) (auto simp: step_valid)

lemma fold_view:
  "valid n s \<Longrightarrow> m \<le> n \<Longrightarrow>
    view (fold step [0..<m] s) r = (if r < m then upd r (view s r) else view s r)"
  by (induction m) (auto simp: step_same [OF fold_valid] step_other [OF fold_valid] less_Suc_eq)

lemma fold_flag:
  "valid n s \<Longrightarrow> m \<le> n \<Longrightarrow>
    flag k (fold step [0..<m] s) = (flag k s \<or> (\<exists>r < m. hit k r (view s r)))"
  by (induction m) (auto simp: step_flag [OF fold_valid] fold_view less_Suc_eq)

end

section \<open>none\<close>

definition debounce_none :: "u32 \<Rightarrow> matrix \<Rightarrow> bool \<Rightarrow> unit \<Rightarrow> matrix \<Rightarrow> bool \<times> unit \<times> matrix" where
  "debounce_none now raw changed st cooked =
    (if changed then (if cooked \<noteq> raw then (True, st, raw) else (False, st, cooked))
     else (False, st, cooked))"

section \<open>sym_defer_g\<close>

record defer_g =
  g_debouncing :: bool
  g_debouncing_time :: u32

definition defer_g_init :: defer_g where
  "defer_g_init = \<lparr> g_debouncing = False, g_debouncing_time = 0 \<rparr>"

definition debounce_defer_g ::
    "u32 \<Rightarrow> matrix \<Rightarrow> bool \<Rightarrow> defer_g \<Rightarrow> matrix \<Rightarrow> bool \<times> defer_g \<times> matrix" where
  "debounce_defer_g now raw changed st cooked =
    (if changed then (False, st\<lparr>g_debouncing := True, g_debouncing_time := now\<rparr>, cooked)
     else if g_debouncing st \<and> timer_elapsed32 now (g_debouncing_time st) \<ge> ucast DEBOUNCE then
       (if cooked \<noteq> raw then (True, st\<lparr>g_debouncing := False\<rparr>, raw)
        else (False, st\<lparr>g_debouncing := False\<rparr>, cooked))
     else (False, st, cooked))"

section \<open>sym_defer_pr\<close>

record defer_pr =
  pr_last_time :: u16
  pr_countdowns :: "u8 list"
  pr_last_raw :: matrix

definition defer_pr_init :: "nat \<Rightarrow> u32 \<Rightarrow> defer_pr" where
  "defer_pr_init num_rows now =
    \<lparr> pr_last_time = timer_read now, pr_countdowns = replicate num_rows 0,
      pr_last_raw = replicate num_rows 0 \<rparr>"

definition defer_pr_row ::
    "matrix \<Rightarrow> u8 \<Rightarrow> nat \<Rightarrow> bool \<times> defer_pr \<times> matrix \<Rightarrow> bool \<times> defer_pr \<times> matrix" where
  "defer_pr_row raw elapsed row = (\<lambda>(cooked_changed, st, cooked).
    let raw_row = raw ! row; countdown = pr_countdowns st ! row in
    if raw_row \<noteq> pr_last_raw st ! row then
      (cooked_changed,
       st\<lparr>pr_countdowns := (pr_countdowns st)[row := DEBOUNCE],
          pr_last_raw := (pr_last_raw st)[row := raw_row]\<rparr>, cooked)
    else if countdown > elapsed then
      (cooked_changed, st\<lparr>pr_countdowns := (pr_countdowns st)[row := countdown - elapsed]\<rparr>, cooked)
    else if countdown \<noteq> 0 then
      (cooked_changed \<or> cooked ! row XOR raw_row \<noteq> 0,
       st\<lparr>pr_countdowns := (pr_countdowns st)[row := 0]\<rparr>, cooked[row := raw_row])
    else (cooked_changed, st, cooked))"

definition debounce_defer_pr ::
    "u32 \<Rightarrow> matrix \<Rightarrow> bool \<Rightarrow> defer_pr \<Rightarrow> matrix \<Rightarrow> bool \<times> defer_pr \<times> matrix" where
  "debounce_defer_pr now raw changed st cooked =
    (let now16 = timer_read now;
         elapsed16 = TIMER_DIFF_16 now16 (pr_last_time st);
         elapsed = (if elapsed16 > 255 then 255 else ucast elapsed16)
     in fold (defer_pr_row raw elapsed) [0..<length raw]
          (False, st\<lparr>pr_last_time := now16\<rparr>, cooked))"

section \<open>sym_eager_pr\<close>

record eager_pr =
  er_matrix_need_update :: bool
  er_counters :: "u8 list"
  er_last_time :: u32
  er_counters_need_update :: bool

definition eager_pr_init :: "nat \<Rightarrow> eager_pr" where
  "eager_pr_init num_rows =
    \<lparr> er_matrix_need_update = False, er_counters = replicate num_rows 0, er_last_time = 0,
      er_counters_need_update = False \<rparr>"

definition eager_pr_count :: "u8 \<Rightarrow> nat \<Rightarrow> eager_pr \<Rightarrow> eager_pr" where
  "eager_pr_count elapsed_time row st =
    (let counter = er_counters st ! row in
     if counter \<noteq> 0 then
       (if counter \<le> elapsed_time then
          st\<lparr>er_counters := (er_counters st)[row := 0], er_matrix_need_update := True\<rparr>
        else
          st\<lparr>er_counters := (er_counters st)[row := counter - elapsed_time],
             er_counters_need_update := True\<rparr>)
     else st)"

definition eager_pr_update_counters :: "nat \<Rightarrow> u8 \<Rightarrow> eager_pr \<Rightarrow> eager_pr" where
  "eager_pr_update_counters num_rows elapsed_time st =
    fold (eager_pr_count elapsed_time) [0..<num_rows]
      (st\<lparr>er_counters_need_update := False, er_matrix_need_update := False\<rparr>)"

definition eager_pr_transfer_row ::
    "matrix \<Rightarrow> nat \<Rightarrow> bool \<times> eager_pr \<times> matrix \<Rightarrow> bool \<times> eager_pr \<times> matrix" where
  "eager_pr_transfer_row raw row = (\<lambda>(cooked_changed, st, cooked).
    let existing_row = cooked ! row; raw_row = raw ! row in
    if existing_row \<noteq> raw_row \<and> er_counters st ! row = 0 then
      (cooked_changed \<or> existing_row XOR raw_row \<noteq> 0,
       st\<lparr>er_counters := (er_counters st)[row := DEBOUNCE], er_counters_need_update := True\<rparr>,
       cooked[row := raw_row])
    else (cooked_changed, st, cooked))"

definition eager_pr_transfer :: "matrix \<Rightarrow> eager_pr \<Rightarrow> matrix \<Rightarrow> bool \<times> eager_pr \<times> matrix" where
  "eager_pr_transfer raw st cooked =
    fold (eager_pr_transfer_row raw) [0..<length raw]
      (False, st\<lparr>er_matrix_need_update := False\<rparr>, cooked)"

definition debounce_eager_pr ::
    "u32 \<Rightarrow> matrix \<Rightarrow> bool \<Rightarrow> eager_pr \<Rightarrow> matrix \<Rightarrow> bool \<times> eager_pr \<times> matrix" where
  "debounce_eager_pr now raw changed st cooked =
    (let updated_last = er_counters_need_update st;
         elapsed = TIMER_DIFF_32 now (er_last_time st);
         st1 = (if updated_last then
                  (let st0 = st\<lparr>er_last_time := now\<rparr> in
                   if cap_elapsed elapsed > 0
                   then eager_pr_update_counters (length raw) (cap_elapsed elapsed) st0 else st0)
                else st)
     in if changed \<or> er_matrix_need_update st1 then
          eager_pr_transfer raw (if \<not> updated_last then st1\<lparr>er_last_time := now\<rparr> else st1) cooked
        else (False, st1, cooked))"

section \<open>The whole-matrix debouncers meet the contract\<close>

interpretation none: settling_debouncer debounce_none "\<lambda>n st cooked. length cooked = n"
  "\<lambda>m t st raw cooked. cooked = raw" "unat DEBOUNCE" 65536
  by unfold_locales (auto simp: debounce_none_def split: if_splits)

definition defer_g_due :: "nat \<Rightarrow> u32 \<Rightarrow> defer_g \<Rightarrow> matrix \<Rightarrow> matrix \<Rightarrow> bool" where
  "defer_g_due m t st raw cooked \<longleftrightarrow>
    cooked = raw \<or> g_debouncing st \<and> unat (t - g_debouncing_time st) < unat DEBOUNCE \<and>
      unat DEBOUNCE \<le> m + unat (t - g_debouncing_time st)"

lemma unat_later:
  fixes t t0 :: u32
  assumes "unat (t - t0) < 256" "d < 65536"
  shows "unat (t + of_nat d - t0) = unat (t - t0) + d"
proof -
  have e: "t + of_nat d - t0 = (t - t0) + of_nat d" by simp
  show ?thesis
    unfolding e using assms by (simp only: unat_word_ariths unsigned_of_nat) (simp add: take_bit_nat_eq_self)
qed

lemma unat_DEBOUNCE_less [simp]: "unat DEBOUNCE < 256"
  using unat_less_exp [of DEBOUNCE] by simp

lemma ucast_DEBOUNCE_le: "(ucast DEBOUNCE :: u32) \<le> x \<longleftrightarrow> unat DEBOUNCE \<le> unat x"
  by (simp add: word_le_nat_alt unsigned_ucast_eq take_bit_nat_eq_self
      less_trans [OF unat_DEBOUNCE_less])

interpretation defer_g: settling_debouncer debounce_defer_g "\<lambda>n st cooked. length cooked = n"
  defer_g_due "unat DEBOUNCE" 65536
proof
  fix n m d :: nat and st st' :: defer_g and t :: u32 and raw cooked cooked' :: matrix and f
  show "defer_g_due (unat DEBOUNCE) t st' raw cooked'"
    if "debounce_defer_g t raw True st cooked = (f, st', cooked')"
    using that by (auto simp: debounce_defer_g_def defer_g_due_def)
  show "defer_g_due (m - d) (t + of_nat d) st' raw cooked'"
    if due: "defer_g_due m t st raw cooked" and d: "d < 65536"
      and r: "debounce_defer_g (t + of_nat d) raw False st cooked = (f, st', cooked')"
  proof (cases "cooked = raw")
    case True
    with r show ?thesis by (auto simp: debounce_defer_g_def defer_g_due_def split: if_splits)
  next
    case False
    with due have g: "g_debouncing st" "unat (t - g_debouncing_time st) < unat DEBOUNCE"
      "unat DEBOUNCE \<le> m + unat (t - g_debouncing_time st)" by (auto simp: defer_g_due_def)
    from unat_later [OF less_trans [OF g(2) unat_DEBOUNCE_less] d]
    have "unat (t + of_nat d - g_debouncing_time st) = unat (t - g_debouncing_time st) + d" .
    with g r False show ?thesis
      by (auto simp: debounce_defer_g_def defer_g_due_def timer_elapsed32_def TIMER_DIFF_32_def
          ucast_DEBOUNCE_le split: if_splits)
  qed
qed (auto simp: debounce_defer_g_def defer_g_due_def split: if_splits)

section \<open>The per-row debouncers meet the contract\<close>

definition defer_pr_ok :: "nat \<Rightarrow> defer_pr \<Rightarrow> matrix \<Rightarrow> bool" where
  "defer_pr_ok n st cooked \<longleftrightarrow>
    length cooked = n \<and> length (pr_countdowns st) = n \<and> length (pr_last_raw st) = n \<and>
    (\<forall>r < n. cooked ! r = pr_last_raw st ! r \<or>
       pr_countdowns st ! r \<noteq> 0 \<and> pr_countdowns st ! r \<le> DEBOUNCE)"

text \<open>The part of the state of one row: its countdown, its last raw value, its cooked value.\<close>

fun defer_pr_view :: "bool \<times> defer_pr \<times> matrix \<Rightarrow> nat \<Rightarrow> u8 \<times> u8 \<times> u8" where
  "defer_pr_view (f, st, cooked) r = (pr_countdowns st ! r, pr_last_raw st ! r, cooked ! r)"

fun defer_pr_upd :: "u8 \<Rightarrow> u8 \<Rightarrow> u8 \<times> u8 \<times> u8 \<Rightarrow> u8 \<times> u8 \<times> u8" where
  "defer_pr_upd raw_row elapsed (k, l, c) =
    (if raw_row \<noteq> l then (DEBOUNCE, raw_row, c)
     else if k > elapsed then (k - elapsed, l, c)
     else if k \<noteq> 0 then (0, l, raw_row) else (k, l, c))"

lemma row_loop_defer_pr:
  "row_loop (defer_pr_row raw elapsed) defer_pr_view (\<lambda>r. defer_pr_upd (raw ! r) elapsed)
    (\<lambda>(k :: unit) s. fst s)
    (\<lambda>k r (cd, l, c). raw ! r = l \<and> cd \<noteq> 0 \<and> cd \<le> elapsed \<and> c \<noteq> raw ! r)
    (\<lambda>n (f, st, cooked). length cooked = n \<and> length (pr_countdowns st) = n \<and>
       length (pr_last_raw st) = n \<and> pr_last_time st = now)"
  by unfold_locales
    (auto simp: defer_pr_row_def Let_def not_less split: if_splits prod.splits)

lemma defer_pr_result:
  assumes "defer_pr_ok n st cooked" "length raw = n"
    "debounce_defer_pr now raw changed st cooked = (f, st', cooked')"
  defines "el \<equiv> (if TIMER_DIFF_16 (timer_read now) (pr_last_time st) > 255 then 255
                else ucast (TIMER_DIFF_16 (timer_read now) (pr_last_time st))) :: u8"
  shows "length cooked' = n" "length (pr_countdowns st') = n" "length (pr_last_raw st') = n"
    "pr_last_time st' = timer_read now"
    "r < n \<Longrightarrow> (pr_countdowns st' ! r, pr_last_raw st' ! r, cooked' ! r) =
      defer_pr_upd (raw ! r) el (pr_countdowns st ! r, pr_last_raw st ! r, cooked ! r)"
    "f = (\<exists>r < n. raw ! r = pr_last_raw st ! r \<and> pr_countdowns st ! r \<noteq> 0 \<and>
           pr_countdowns st ! r \<le> el \<and> cooked ! r \<noteq> raw ! r)"
proof -
  let ?s0 = "(False, st\<lparr>pr_last_time := timer_read now\<rparr>, cooked)"
  let ?valid = "\<lambda>n (f :: bool, st, cooked). length cooked = n \<and> length (pr_countdowns st) = n \<and>
    length (pr_last_raw st) = n \<and> pr_last_time st = timer_read now"
  have v: "?valid n ?s0" using assms(1) by (simp add: defer_pr_ok_def)
  have e: "fold (defer_pr_row raw el) [0..<n] ?s0 = (f, st', cooked')"
    using assms(2,3) by (simp add: debounce_defer_pr_def Let_def el_def)
  note L = row_loop_defer_pr [of raw el "timer_read now"]
  from row_loop.fold_valid [OF L v, of "[0..<n]"]
  show "length cooked' = n" "length (pr_countdowns st') = n" "length (pr_last_raw st') = n"
    "pr_last_time st' = timer_read now" by (simp_all add: e)
  from row_loop.fold_view [OF L v order.refl, of r]
  show "(pr_countdowns st' ! r, pr_last_raw st' ! r, cooked' ! r) =
      defer_pr_upd (raw ! r) el (pr_countdowns st ! r, pr_last_raw st ! r, cooked ! r)" if "r < n"
    using that by (simp add: e)
  from row_loop.fold_flag [OF L v order.refl]
  show "f = (\<exists>r < n. raw ! r = pr_last_raw st ! r \<and> pr_countdowns st ! r \<noteq> 0 \<and>
           pr_countdowns st ! r \<le> el \<and> cooked ! r \<noteq> raw ! r)"
    by (simp add: e)
qed

definition defer_pr_due :: "nat \<Rightarrow> u32 \<Rightarrow> defer_pr \<Rightarrow> matrix \<Rightarrow> matrix \<Rightarrow> bool" where
  "defer_pr_due m t st raw cooked \<longleftrightarrow>
    pr_last_time st = timer_read t \<and>
    (\<forall>r < length raw. pr_last_raw st ! r = raw ! r \<and>
       (cooked ! r = raw ! r \<or> pr_countdowns st ! r \<noteq> 0 \<and> unat (pr_countdowns st ! r) \<le> m))"

lemma defer_pr_ok_step:
  assumes "defer_pr_ok n st cooked" "length raw = n"
    "debounce_defer_pr now raw changed st cooked = (f, st', cooked')"
  shows "defer_pr_ok n st' cooked'"
  unfolding defer_pr_ok_def
proof (intro conjI allI impI)
  note R = defer_pr_result [OF assms]
  show "length cooked' = n" "length (pr_countdowns st') = n" "length (pr_last_raw st') = n"
    by (rule R)+
  fix r assume r: "r < n"
  have le: "k - x \<noteq> 0 \<and> k - x \<le> k" if "x < k" for k x :: u8
    using that by (auto simp: word_le_nat_alt word_less_nat_alt unat_sub)
  have "cooked ! r = pr_last_raw st ! r \<or> pr_countdowns st ! r \<noteq> 0 \<and> pr_countdowns st ! r \<le> DEBOUNCE"
    using assms(1) r by (simp add: defer_pr_ok_def)
  then show "cooked' ! r = pr_last_raw st' ! r \<or>
      pr_countdowns st' ! r \<noteq> 0 \<and> pr_countdowns st' ! r \<le> DEBOUNCE"
    using R(5) [OF r] le by (auto split: if_splits intro: order.trans)
qed

lemma timer_read_later:
  assumes "d < 65536"
  shows "unat (TIMER_DIFF_16 (timer_read (t + of_nat d)) (timer_read t)) = d"
proof -
  have "TIMER_DIFF_16 (timer_read (t + of_nat d)) (timer_read t) = of_nat d"
    unfolding TIMER_DIFF_16_def timer_read_def
    by (transfer, simp add: take_bit_eq_mod, subst mod_diff_eq [symmetric],
        simp add: mod_mod_cancel mod_diff_eq)
  then show ?thesis using assms by (simp add: unsigned_of_nat take_bit_nat_eq_self)
qed

lemma defer_pr_elapsed:
  assumes "d < 65536" "pr_last_time st = timer_read t"
  shows "unat (if TIMER_DIFF_16 (timer_read (t + of_nat d)) (pr_last_time st) > 255 then 255
      else ucast (TIMER_DIFF_16 (timer_read (t + of_nat d)) (pr_last_time st)) :: u8) = min d 255"
proof -
  note l = timer_read_later [OF assms(1), of t]
  show ?thesis
    unfolding assms(2)
    by (auto simp: word_less_nat_alt l unsigned_ucast_eq take_bit_nat_eq_self min_def)
qed

lemma defer_pr_upd_due:
  assumes "(k', l', c') = defer_pr_upd raw el (k, raw, c)" "unat el = min d 255"
    "c = raw \<or> k \<noteq> 0 \<and> unat k \<le> m"
  shows "l' = raw \<and> (c' = raw \<or> k' \<noteq> 0 \<and> unat k' \<le> m - d)"
proof (cases "k > el")
  case True
  then have "unat (k - el) = unat k - unat el" by (simp add: word_less_nat_alt word_le_nat_alt unat_sub)
  moreover have "unat el < unat k" "unat k < 256"
    using True unat_less_exp [of k] by (simp_all add: word_less_nat_alt)
  ultimately have "k - el \<noteq> 0" "unat (k - el) = unat k - d"
    using assms(2) unat_eq_0_word [of "k - el"] by auto
  then show ?thesis using assms True by auto
qed (use assms in \<open>auto split: if_splits\<close>)

lemma defer_pr_due_after:
  assumes "defer_pr_ok n st cooked" "length raw = n"
    "debounce_defer_pr now raw changed st cooked = (f, st', cooked')"
  shows "defer_pr_due (unat DEBOUNCE) now st' raw cooked'"
  unfolding defer_pr_due_def assms(2)
proof (intro conjI allI impI)
  note R = defer_pr_result [OF assms]
  show "pr_last_time st' = timer_read now" by (rule R)
  fix r assume "r < n"
  with R(5) [of r] show "pr_last_raw st' ! r = raw ! r" by (auto split: if_splits)
  with \<open>r < n\<close> show "cooked' ! r = raw ! r \<or>
      pr_countdowns st' ! r \<noteq> 0 \<and> unat (pr_countdowns st' ! r) \<le> unat DEBOUNCE"
    using defer_pr_ok_step [OF assms] by (auto simp: defer_pr_ok_def word_le_nat_alt)
qed

interpretation defer_pr: settling_debouncer debounce_defer_pr defer_pr_ok defer_pr_due
  "unat DEBOUNCE" 65536
proof
  fix n m d r c :: nat and st st' :: defer_pr and now t :: u32 and raw cooked cooked' :: matrix
    and f changed
  assume ok: "defer_pr_ok n st cooked"
  then show "length cooked = n" by (simp add: defer_pr_ok_def)
  show "bit (cooked ! r) c = bit (raw ! r) c"
    if "length raw = n" "defer_pr_due 0 t st raw cooked" "r < n"
    using that by (simp add: defer_pr_due_def unat_eq_0_word)
  assume raw: "length raw = n"
  show "defer_pr_due (unat DEBOUNCE) now st' raw cooked'"
    if "debounce_defer_pr now raw True st cooked = (f, st', cooked')"
    by (rule defer_pr_due_after [OF ok raw that])
  show "defer_pr_due (m - d) (t + of_nat d) st' raw cooked'"
    if due: "defer_pr_due m t st raw cooked" and d: "d < 65536"
      and r: "debounce_defer_pr (t + of_nat d) raw False st cooked = (f, st', cooked')"
  proof -
    note R = defer_pr_result [OF ok raw r]
    have "pr_last_time st = timer_read t" using due by (simp add: defer_pr_due_def)
    note el = defer_pr_elapsed [OF d this]
    show ?thesis
      unfolding defer_pr_due_def raw
    proof (intro conjI allI impI)
      show "pr_last_time st' = timer_read (t + of_nat d)" by (rule R)
      fix r assume "r < n"
      note V = R(5) [OF this]
      have u: "pr_last_raw st ! r = raw ! r"
        "cooked ! r = raw ! r \<or> pr_countdowns st ! r \<noteq> 0 \<and> unat (pr_countdowns st ! r) \<le> m"
        using due \<open>r < n\<close> by (simp_all add: defer_pr_due_def raw)
      from defer_pr_upd_due [OF V [unfolded u(1)] el u(2)]
      show "pr_last_raw st' ! r = raw ! r"
        "cooked' ! r = raw ! r \<or>
          pr_countdowns st' ! r \<noteq> 0 \<and> unat (pr_countdowns st' ! r) \<le> m - d" by auto
    qed
  qed
  assume r: "debounce_defer_pr now raw changed st cooked = (f, st', cooked')"
  note R = defer_pr_result [OF ok raw r]
  show "defer_pr_ok n st' cooked'" by (rule defer_pr_ok_step [OF ok raw r])
  show "bit (cooked' ! r) c = bit (cooked ! r) c \<or> bit (cooked' ! r) c = bit (raw ! r) c"
    if "r < n"
    using R(5) [OF that] by (auto split: if_splits)
  show "f = (cooked' \<noteq> cooked)"
  proof
    assume f
    then obtain r where "r < n" "raw ! r = pr_last_raw st ! r" "pr_countdowns st ! r \<noteq> 0"
      "pr_countdowns st ! r \<le> (if TIMER_DIFF_16 (timer_read now) (pr_last_time st) > 255 then 255
        else ucast (TIMER_DIFF_16 (timer_read now) (pr_last_time st)))" "cooked ! r \<noteq> raw ! r"
      using R(6) by blast
    with R(5) [of r] show "cooked' \<noteq> cooked" by (auto split: if_splits)
  next
    assume "cooked' \<noteq> cooked"
    then obtain r where "r < n" "cooked' ! r \<noteq> cooked ! r"
      using R(1) ok by (auto simp: defer_pr_ok_def list_eq_iff_nth_eq)
    with R(5) [of r] show f
      unfolding R(6) by (intro exI [of _ r]) (auto simp: not_less split: if_splits)
  qed
qed

section \<open>The eager per-row debouncer\<close>

definition eager_pr_ok :: "nat \<Rightarrow> eager_pr \<Rightarrow> matrix \<Rightarrow> bool" where
  "eager_pr_ok n st cooked \<longleftrightarrow>
    length cooked = n \<and> length (er_counters st) = n \<and>
    (\<forall>r < n. er_counters st ! r \<le> DEBOUNCE \<and> (er_counters st ! r \<noteq> 0 \<longrightarrow> er_counters_need_update st))"

definition eager_pr_due :: "nat \<Rightarrow> u32 \<Rightarrow> eager_pr \<Rightarrow> matrix \<Rightarrow> matrix \<Rightarrow> bool" where
  "eager_pr_due m t st raw cooked \<longleftrightarrow>
    (er_counters_need_update st \<longrightarrow> er_last_time st = t) \<and>
    (\<forall>r < length raw.
       cooked ! r = raw ! r \<or> er_counters st ! r \<noteq> 0 \<and> unat (er_counters st ! r) \<le> m)"

text \<open>What a counter becomes after \<open>el\<close> milliseconds.\<close>

definition count_down :: "u8 \<Rightarrow> u8 \<Rightarrow> u8" where
  "count_down el k = (if k \<le> el then 0 else k - el)"

lemma unat_count_down: "unat (count_down el k) = unat k - unat el"
  by (auto simp: count_down_def word_le_nat_alt unat_sub)

lemma count_down_eq_0: "count_down el k = 0 \<longleftrightarrow> k \<le> el"
  by (simp add: unat_eq_0_word [symmetric] unat_count_down word_le_nat_alt)

lemma count_down_0 [simp]: "count_down el 0 = 0" "count_down 0 k = k"
  by (simp_all add: count_down_def)

lemma row_loop_eager_pr_count:
  "row_loop (eager_pr_count el) (\<lambda>st r. er_counters st ! r) (\<lambda>r. count_down el)
    (\<lambda>k st. if k then er_counters_need_update st else er_matrix_need_update st)
    (\<lambda>k r c. if k then el < c else c \<noteq> 0 \<and> c \<le> el)
    (\<lambda>n st. length (er_counters st) = n \<and> er_last_time st = t)"
  by unfold_locales (auto simp: eager_pr_count_def Let_def count_down_def not_le)

lemma row_loop_eager_pr_transfer:
  "row_loop (eager_pr_transfer_row raw) (\<lambda>(f, st, cooked) r. (er_counters st ! r, cooked ! r))
    (\<lambda>r (k, c). if c \<noteq> raw ! r \<and> k = 0 then (DEBOUNCE, raw ! r) else (k, c))
    (\<lambda>k (f, st, cooked). if k then er_counters_need_update st else f)
    (\<lambda>k r (cd, c). c \<noteq> raw ! r \<and> cd = 0)
    (\<lambda>n (f, st, cooked). length cooked = n \<and> length (er_counters st) = n \<and>
       er_last_time st = t \<and> er_matrix_need_update st = b)"
  by unfold_locales (auto simp: eager_pr_transfer_row_def Let_def split: if_splits)

lemma eager_pr_counted:
  fixes el :: u8
  assumes "length (er_counters st) = n"
  defines "st' \<equiv> eager_pr_update_counters n el st"
  shows "length (er_counters st') = n" "er_last_time st' = er_last_time st"
    "r < n \<Longrightarrow> er_counters st' ! r = count_down el (er_counters st ! r)"
    "er_counters_need_update st' = (\<exists>r < n. el < er_counters st ! r)"
    "er_matrix_need_update st' = (\<exists>r < n. er_counters st ! r \<noteq> 0 \<and> er_counters st ! r \<le> el)"
proof -
  let ?s0 = "st\<lparr>er_counters_need_update := False, er_matrix_need_update := False\<rparr>"
  note L = row_loop_eager_pr_count [of el "er_last_time st"]
  have v: "length (er_counters ?s0) = n \<and> er_last_time ?s0 = er_last_time st" using assms by simp
  have s': "st' = fold (eager_pr_count el) [0..<n] ?s0"
    by (simp add: st'_def eager_pr_update_counters_def)
  from row_loop.fold_valid [OF L v, of "[0..<n]"]
  show "length (er_counters st') = n" "er_last_time st' = er_last_time st" by (simp_all add: s')
  from row_loop.fold_view [OF L v order.refl, of r]
  show "er_counters st' ! r = count_down el (er_counters st ! r)" if "r < n"
    using that by (simp add: s')
  from row_loop.fold_flag [OF L v order.refl, of True]
  show "er_counters_need_update st' = (\<exists>r < n. el < er_counters st ! r)" by (simp add: s')
  from row_loop.fold_flag [OF L v order.refl, of False]
  show "er_matrix_need_update st' = (\<exists>r < n. er_counters st ! r \<noteq> 0 \<and> er_counters st ! r \<le> el)"
    by (simp add: s')
qed

lemma eager_pr_transferred:
  assumes "length (er_counters st) = n" "length cooked = n" "length raw = n"
    "eager_pr_transfer raw st cooked = (f, st', cooked')"
  shows "length (er_counters st') = n" "length cooked' = n" "er_last_time st' = er_last_time st"
    "\<not> er_matrix_need_update st'"
    "r < n \<Longrightarrow> (er_counters st' ! r, cooked' ! r) =
      (if cooked ! r \<noteq> raw ! r \<and> er_counters st ! r = 0 then (DEBOUNCE, raw ! r)
       else (er_counters st ! r, cooked ! r))"
    "er_counters_need_update st' = (er_counters_need_update st \<or>
      (\<exists>r < n. cooked ! r \<noteq> raw ! r \<and> er_counters st ! r = 0))"
    "f = (\<exists>r < n. cooked ! r \<noteq> raw ! r \<and> er_counters st ! r = 0)"
proof -
  let ?s0 = "(False, st\<lparr>er_matrix_need_update := False\<rparr>, cooked)"
  note L = row_loop_eager_pr_transfer [of raw "er_last_time st" False]
  have v: "(case ?s0 of (f, st1, cooked) \<Rightarrow> length cooked = n \<and> length (er_counters st1) = n \<and>
       er_last_time st1 = er_last_time st \<and> er_matrix_need_update st1 = False)" using assms by simp
  have e: "fold (eager_pr_transfer_row raw) [0..<n] ?s0 = (f, st', cooked')"
    using assms by (simp add: eager_pr_transfer_def)
  from row_loop.fold_valid [OF L v, of "[0..<n]"]
  show "length (er_counters st') = n" "length cooked' = n" "er_last_time st' = er_last_time st"
    "\<not> er_matrix_need_update st'" by (simp_all add: e)
  from row_loop.fold_view [OF L v order.refl, of r]
  show "(er_counters st' ! r, cooked' ! r) =
      (if cooked ! r \<noteq> raw ! r \<and> er_counters st ! r = 0 then (DEBOUNCE, raw ! r)
       else (er_counters st ! r, cooked ! r))" if "r < n"
    using that by (simp add: e)
  from row_loop.fold_flag [OF L v order.refl, of True] row_loop.fold_flag [OF L v order.refl, of False]
  show "er_counters_need_update st' = (er_counters_need_update st \<or>
      (\<exists>r < n. cooked ! r \<noteq> raw ! r \<and> er_counters st ! r = 0))"
    "f = (\<exists>r < n. cooked ! r \<noteq> raw ! r \<and> er_counters st ! r = 0)"
    by (simp_all add: e)
qed

text \<open>The milliseconds a call takes off the counters.\<close>

definition eager_pr_elapsed :: "u32 \<Rightarrow> eager_pr \<Rightarrow> u8" where
  "eager_pr_elapsed now st =
    (if er_counters_need_update st then cap_elapsed (now - er_last_time st) else 0)"

text \<open>The state after the first half of a call.\<close>

definition eager_pr_phase1 :: "u32 \<Rightarrow> nat \<Rightarrow> eager_pr \<Rightarrow> eager_pr" where
  "eager_pr_phase1 now n st =
    (if er_counters_need_update st then
       (let st0 = st\<lparr>er_last_time := now\<rparr> in
        if cap_elapsed (now - er_last_time st) > 0
        then eager_pr_update_counters n (cap_elapsed (now - er_last_time st)) st0 else st0)
     else st)"

lemma eager_pr_phase1:
  fixes now :: u32
  assumes "eager_pr_ok n st cooked"
  defines "st1 \<equiv> eager_pr_phase1 now n st" and "el \<equiv> eager_pr_elapsed now st"
  shows "length (er_counters st1) = n"
    "r < n \<Longrightarrow> er_counters st1 ! r = count_down el (er_counters st ! r)"
    "r < n \<Longrightarrow> er_counters st1 ! r \<noteq> 0 \<Longrightarrow> er_counters_need_update st1"
    "er_counters_need_update st1 \<Longrightarrow> er_last_time st1 = now \<and> er_counters_need_update st"
    "r < n \<Longrightarrow> er_counters st ! r \<noteq> 0 \<Longrightarrow> er_counters st ! r \<le> el \<Longrightarrow> er_matrix_need_update st1"
proof -
  have len: "length (er_counters st) = n" using assms(1) by (simp add: eager_pr_ok_def)
  have need: "er_counters_need_update st" if "r < n" "er_counters st ! r \<noteq> 0"
    using assms(1) that by (simp add: eager_pr_ok_def)
  note C = eager_pr_counted [where st = "st\<lparr>er_last_time := now\<rparr>" and n = n
      and el = "cap_elapsed (now - er_last_time st)", simplified, OF len]
  consider "\<not> er_counters_need_update st" | "er_counters_need_update st" "el = 0"
    | "er_counters_need_update st" "el \<noteq> 0" by blast
  then have "length (er_counters st1) = n \<and>
    (r < n \<longrightarrow> er_counters st1 ! r = count_down el (er_counters st ! r)) \<and>
    (r < n \<and> er_counters st1 ! r \<noteq> 0 \<longrightarrow> er_counters_need_update st1) \<and>
    (er_counters_need_update st1 \<longrightarrow> er_last_time st1 = now \<and> er_counters_need_update st) \<and>
    (r < n \<and> er_counters st ! r \<noteq> 0 \<and> er_counters st ! r \<le> el \<longrightarrow> er_matrix_need_update st1)"
  proof cases
    case 1
    then show ?thesis using len need
      by (auto simp: st1_def el_def eager_pr_phase1_def eager_pr_elapsed_def)
  next
    case 2
    then show ?thesis using len need
      by (auto simp: st1_def el_def eager_pr_phase1_def eager_pr_elapsed_def)
  next
    case 3
    then have e: "st1 = eager_pr_update_counters n el (st\<lparr>er_last_time := now\<rparr>)"
      "cap_elapsed (now - er_last_time st) = el"
      by (simp_all add: st1_def el_def eager_pr_phase1_def eager_pr_elapsed_def word_gt_0)
    show ?thesis
      using 3(1) C(1-3) C(4,5) unfolding e(2) e(1) [symmetric]
      by (auto simp: count_down_eq_0 not_le)
  qed
  then show "length (er_counters st1) = n"
    "r < n \<Longrightarrow> er_counters st1 ! r = count_down el (er_counters st ! r)"
    "r < n \<Longrightarrow> er_counters st1 ! r \<noteq> 0 \<Longrightarrow> er_counters_need_update st1"
    "er_counters_need_update st1 \<Longrightarrow> er_last_time st1 = now \<and> er_counters_need_update st"
    "r < n \<Longrightarrow> er_counters st ! r \<noteq> 0 \<Longrightarrow> er_counters st ! r \<le> el \<Longrightarrow> er_matrix_need_update st1"
    by blast+
qed

lemma eager_pr_result:
  assumes "eager_pr_ok n st cooked" "length raw = n"
    "debounce_eager_pr now raw changed st cooked = (f, st', cooked')"
  defines "el \<equiv> eager_pr_elapsed now st"
  obtains runs where "changed \<Longrightarrow> runs"
    "\<And>r. r < n \<Longrightarrow> er_counters st ! r \<noteq> 0 \<Longrightarrow> er_counters st ! r \<le> el \<Longrightarrow> runs"
    "length (er_counters st') = n" "length cooked' = n"
    "er_counters_need_update st' \<Longrightarrow> er_last_time st' = now"
    "\<And>r. r < n \<Longrightarrow> er_counters st' ! r \<noteq> 0 \<Longrightarrow> er_counters_need_update st'"
    "\<And>r. r < n \<Longrightarrow> er_counters st' ! r =
      (if runs \<and> cooked ! r \<noteq> raw ! r \<and> count_down el (er_counters st ! r) = 0
       then DEBOUNCE else count_down el (er_counters st ! r))"
    "\<And>r. r < n \<Longrightarrow> cooked' ! r =
      (if runs \<and> cooked ! r \<noteq> raw ! r \<and> count_down el (er_counters st ! r) = 0
       then raw ! r else cooked ! r)"
    "f = (\<exists>r < n. runs \<and> cooked ! r \<noteq> raw ! r \<and> count_down el (er_counters st ! r) = 0)"
proof -
  let ?st1 = "eager_pr_phase1 now n st"
  note P = eager_pr_phase1 [OF assms(1), where now = now, folded el_def]
  have len: "length cooked = n" using assms(1) by (simp add: eager_pr_ok_def)
  have D: "debounce_eager_pr now raw changed st cooked =
      (if changed \<or> er_matrix_need_update ?st1 then
         eager_pr_transfer raw
           (if \<not> er_counters_need_update st then ?st1\<lparr>er_last_time := now\<rparr> else ?st1) cooked
       else (False, ?st1, cooked))"
    by (simp add: debounce_eager_pr_def eager_pr_phase1_def Let_def assms(2) TIMER_DIFF_32_def)
  show thesis
  proof (cases "changed \<or> er_matrix_need_update ?st1")
    case True
    let ?st2 = "if \<not> er_counters_need_update st then ?st1\<lparr>er_last_time := now\<rparr> else ?st1"
    have 2: "er_counters ?st2 = er_counters ?st1"
      "er_counters_need_update ?st2 = er_counters_need_update ?st1" by simp_all
    have lt: "er_last_time ?st2 = now"
      using assms(1) eager_pr_counted(2) [where st = "st\<lparr>er_last_time := now\<rparr>" and n = n]
      by (simp add: eager_pr_phase1_def Let_def eager_pr_ok_def)
    have "eager_pr_transfer raw ?st2 cooked = (f, st', cooked')" using True D assms(3) by simp
    note T = eager_pr_transferred [OF _ len assms(2) this, unfolded 2, OF P(1)]
    show thesis
    proof (rule that [of True])
      show "er_counters_need_update st'" if "r < n" "er_counters st' ! r \<noteq> 0" for r
        using T(5) [OF that(1)] T(6) P(3) [OF that(1)] that by (auto split: if_splits)
      show "er_counters st' ! r =
        (if True \<and> cooked ! r \<noteq> raw ! r \<and> count_down el (er_counters st ! r) = 0
         then DEBOUNCE else count_down el (er_counters st ! r))"
        "cooked' ! r =
        (if True \<and> cooked ! r \<noteq> raw ! r \<and> count_down el (er_counters st ! r) = 0
         then raw ! r else cooked ! r)"
        if "r < n" for r
        using T(5) [OF that] P(2) [OF that] by (simp_all split: if_splits)
      show "f = (\<exists>r < n. True \<and> cooked ! r \<noteq> raw ! r \<and> count_down el (er_counters st ! r) = 0)"
        using T(7) P(2) by auto
    qed (use T lt in auto)
  next
    case False
    then have e: "f = False" "st' = ?st1" "cooked' = cooked" using D assms(3) by auto
    show thesis
      by (rule that [of False]) (use False e P len in auto)
  qed
qed

lemma cap_elapsed_later:
  "d < 65536 \<Longrightarrow> unat (cap_elapsed (t + of_nat d - t)) = min d 255" for t :: u32
  by (simp add: unat_cap_elapsed unsigned_of_nat take_bit_nat_eq_self)

lemma count_down_le_wait:
  assumes "unat el = min d 255" "unat k \<le> m"
  shows "unat (count_down el k) \<le> m - d"
  using assms unat_less_exp [of k] by (auto simp: unat_count_down min_def)

lemma count_down_DEBOUNCE: "k \<le> DEBOUNCE \<Longrightarrow> count_down el k \<le> DEBOUNCE"
  by (simp add: word_le_nat_alt unat_count_down)

interpretation eager_pr: settling_debouncer debounce_eager_pr eager_pr_ok eager_pr_due
  "unat DEBOUNCE" 65536
proof
  fix n m d r c :: nat and st st' :: eager_pr and now t :: u32 and raw cooked cooked' :: matrix
    and f changed
  assume ok: "eager_pr_ok n st cooked"
  then show "length cooked = n" by (simp add: eager_pr_ok_def)
  show "bit (cooked ! r) c = bit (raw ! r) c"
    if "length raw = n" "eager_pr_due 0 t st raw cooked" "r < n"
    using that by (simp add: eager_pr_due_def unat_eq_0_word)
  assume raw: "length raw = n"
  have le: "count_down el (er_counters st ! r) \<le> DEBOUNCE" if "r < n" for r el
    using ok that by (simp add: eager_pr_ok_def count_down_DEBOUNCE)
  show "eager_pr_due (unat DEBOUNCE) now st' raw cooked'"
    if "debounce_eager_pr now raw True st cooked = (f, st', cooked')"
    by (rule eager_pr_result [OF ok raw that])
      (auto simp: eager_pr_due_def raw word_le_nat_alt [symmetric] le)
  show "eager_pr_due (m - d) (t + of_nat d) st' raw cooked'"
    if due: "eager_pr_due m t st raw cooked" and d: "d < 65536"
      and r: "debounce_eager_pr (t + of_nat d) raw False st cooked = (f, st', cooked')"
  proof (rule eager_pr_result [OF ok raw r])
    fix runs
    let ?el = "eager_pr_elapsed (t + of_nat d) st"
    assume R: "\<And>r. r < n \<Longrightarrow> er_counters st ! r \<noteq> 0 \<Longrightarrow> er_counters st ! r \<le> ?el \<Longrightarrow> runs"
      "er_counters_need_update st' \<Longrightarrow> er_last_time st' = t + of_nat d"
      "\<And>r. r < n \<Longrightarrow> er_counters st' ! r =
      (if runs \<and> cooked ! r \<noteq> raw ! r \<and> count_down ?el (er_counters st ! r) = 0
       then DEBOUNCE else count_down ?el (er_counters st ! r))"
      "\<And>r. r < n \<Longrightarrow> cooked' ! r =
      (if runs \<and> cooked ! r \<noteq> raw ! r \<and> count_down ?el (er_counters st ! r) = 0
       then raw ! r else cooked ! r)"
    show "eager_pr_due (m - d) (t + of_nat d) st' raw cooked'"
      unfolding eager_pr_due_def raw
    proof (intro conjI allI impI)
      fix r assume r: "r < n"
      show "cooked' ! r = raw ! r \<or>
          er_counters st' ! r \<noteq> 0 \<and> unat (er_counters st' ! r) \<le> m - d"
      proof (cases "cooked ! r = raw ! r")
        case True
        then show ?thesis using R(4) [OF r] by (auto split: if_splits)
      next
        case False
        with due r raw have k: "er_counters st ! r \<noteq> 0" "unat (er_counters st ! r) \<le> m"
          by (auto simp: eager_pr_due_def)
        then have "er_counters_need_update st" "er_last_time st = t"
          using ok due r by (auto simp: eager_pr_ok_def eager_pr_due_def)
        then have "unat ?el = min d 255"
          using cap_elapsed_later [OF d, of t] by (simp add: eager_pr_elapsed_def)
        from count_down_le_wait [OF this k(2)] show ?thesis
          using R(1) [OF r k(1)] R(3,4) [OF r] False by (auto simp: count_down_eq_0 split: if_splits)
      qed
    qed (rule R)
  qed
  assume "debounce_eager_pr now raw changed st cooked = (f, st', cooked')"
  note res = eager_pr_result [OF ok raw this]
  show "eager_pr_ok n st' cooked'"
    by (rule res) (auto simp: eager_pr_ok_def le)
  show "bit (cooked' ! r) c = bit (cooked ! r) c \<or> bit (cooked' ! r) c = bit (raw ! r) c"
    if "r < n"
    by (rule res) (use that in \<open>auto split: if_splits\<close>)
  show "f = (cooked' \<noteq> cooked)"
    by (rule res) (use ok in \<open>auto simp: eager_pr_ok_def list_eq_iff_nth_eq split: if_splits\<close>)
qed

section \<open>Properties\<close>

text \<open>
  After a change the cooked matrix of the whole-matrix and the per-row debouncers agrees with
  the raw one once the scans of the unchanged matrix span \<open>DEBOUNCE\<close> milliseconds, however the
  scans are spaced (with gaps below the 16-bit range of \<open>timer_read\<close>) and whatever the debouncer
  was doing before.
\<close>

theorem row_debouncers_settle:
  assumes "length cooked = n" "defer_pr_ok n st2 cooked" "eager_pr_ok n st3 cooked"
    "length raw = n" "list_all (\<lambda>d. d < 65536) ds" "unat DEBOUNCE \<le> sum_list ds"
    "r < n" "c < MATRIX_COLS"
  shows "bit (debounce_settled debounce_none t raw ds () cooked ! r) c = bit (raw ! r) c \<and>
    bit (debounce_settled debounce_defer_g t raw ds st1 cooked ! r) c = bit (raw ! r) c \<and>
    bit (debounce_settled debounce_defer_pr t raw ds st2 cooked ! r) c = bit (raw ! r) c \<and>
    bit (debounce_settled debounce_eager_pr t raw ds st3 cooked ! r) c = bit (raw ! r) c"
  using none.settles [OF assms(1,4-8)] defer_g.settles [OF assms(1,4-8)]
    defer_pr.settles [OF assms(2,4-8)] eager_pr.settles [OF assms(3,4-8)]
  by simp

theorem row_debouncers_settle_witness:
  "bit (debounce_settled debounce_defer_g 100 [1] [2, 3] defer_g_init [0] ! 0) 0"
  using row_debouncers_settle [of "[0]" 1 "defer_pr_init 1 100" "eager_pr_init 1" "[1]" "[2, 3]"
      0 0 100 defer_g_init]
  by (simp add: defer_pr_ok_def eager_pr_ok_def defer_pr_init_def eager_pr_init_def MATRIX_COLS_def
      DEBOUNCE_def)

text \<open>
  Every call of these debouncers changes a cooked bit only to its raw value, and returns true
  exactly when it changed the cooked matrix.
\<close>

theorem row_debouncers_report_exactly:
  assumes "length cooked = n" "defer_pr_ok n st2 cooked" "eager_pr_ok n st3 cooked"
    "length raw = n" "r < n"
  shows "debounce_call_ok debounce_none now raw changed () cooked r c \<and>
    debounce_call_ok debounce_defer_g now raw changed st1 cooked r c \<and>
    debounce_call_ok debounce_defer_pr now raw changed st2 cooked r c \<and>
    debounce_call_ok debounce_eager_pr now raw changed st3 cooked r c"
  using none.call_ok [OF assms(1,4,5)] defer_g.call_ok [OF assms(1,4,5)]
    defer_pr.call_ok [OF assms(2,4,5)] eager_pr.call_ok [OF assms(3,4,5)]
  by simp

theorem row_debouncers_report_exactly_witness:
  "debounce_call_ok debounce_eager_pr 7 [1] True (eager_pr_init 1) [0] 0 0"
  using row_debouncers_report_exactly [of "[0]" 1 "defer_pr_init 1 100" "eager_pr_init 1" "[1]"
      0 7 True 0 defer_g_init]
  by (simp add: defer_pr_ok_def eager_pr_ok_def defer_pr_init_def eager_pr_init_def)

end
