(* ===== verification/Debounce_Keys.thy ===== *)
theory Debounce_Keys
  imports Debounce
begin

text \<open>
  The per-key debouncers of \<open>quantum/debounce/\<close>: \<open>sym_defer_pk.c\<close>, \<open>sym_eager_pk.c\<close> and
  \<open>asym_eager_defer_pk.c\<close>. Their counters are one array with \<open>MATRIX_COLS\<close> entries per row; the
  pointer that the C loops advance with every key is the index \<open>row * MATRIX_COLS + col\<close>.

  The loops are the nested loops of the source; \<open>key_loop\<close> reduces them to what happens to one key.
  On it rest the proofs that the three debouncers meet the contract of \<open>Debounce\<close>.
\<close>

section \<open>sym_defer_pk\<close>

definition key_index :: "nat \<Rightarrow> nat \<Rightarrow> nat" where
  "key_index row col = row * MATRIX_COLS + col"

record key_debounce =
  dk_counters :: "u8 list"
  dk_last_time :: u32
  dk_counters_need_update :: bool
  dk_matrix_need_update :: bool

definition key_debounce_init :: "nat \<Rightarrow> key_debounce" where
  "key_debounce_init num_rows =
    \<lparr> dk_counters = replicate (num_rows * MATRIX_COLS) 0, dk_last_time = 0,
      dk_counters_need_update = False, dk_matrix_need_update = False \<rparr>"

definition defer_pk_update_key ::
    "matrix \<Rightarrow> u8 \<Rightarrow> nat \<Rightarrow> nat \<Rightarrow> bool \<times> key_debounce \<times> matrix \<Rightarrow> bool \<times> key_debounce \<times> matrix" where
  "defer_pk_update_key raw elapsed_time row col = (\<lambda>(cooked_changed, st, cooked).
    let i = key_index row col; counter = dk_counters st ! i in
    if counter \<noteq> 0 then
      (if counter \<le> elapsed_time then
         (let cooked_next = (cooked ! row AND NOT (push_bit col 1)) OR (raw ! row AND push_bit col 1)
          in (cooked_changed \<or> cooked ! row XOR cooked_next \<noteq> 0,
              st\<lparr>dk_counters := (dk_counters st)[i := 0]\<rparr>, cooked[row := cooked_next]))
       else
         (cooked_changed,
          st\<lparr>dk_counters := (dk_counters st)[i := counter - elapsed_time],
             dk_counters_need_update := True\<rparr>, cooked))
    else (cooked_changed, st, cooked))"

definition defer_pk_update ::
    "matrix \<Rightarrow> u8 \<Rightarrow> key_debounce \<Rightarrow> matrix \<Rightarrow> bool \<times> key_debounce \<times> matrix" where
  "defer_pk_update raw elapsed_time st cooked =
    fold (\<lambda>row. fold (defer_pk_update_key raw elapsed_time row) [0..<MATRIX_COLS]) [0..<length raw]
      (False, st\<lparr>dk_counters_need_update := False\<rparr>, cooked)"

definition defer_pk_start_key :: "u8 \<Rightarrow> nat \<Rightarrow> nat \<Rightarrow> key_debounce \<Rightarrow> key_debounce" where
  "defer_pk_start_key delta row col st =
    (let i = key_index row col in
     if delta AND push_bit col 1 \<noteq> 0 then
       (if dk_counters st ! i = 0
        then st\<lparr>dk_counters := (dk_counters st)[i := DEBOUNCE], dk_counters_need_update := True\<rparr>
        else st)
     else st\<lparr>dk_counters := (dk_counters st)[i := 0]\<rparr>)"

definition defer_pk_start :: "matrix \<Rightarrow> matrix \<Rightarrow> key_debounce \<Rightarrow> key_debounce" where
  "defer_pk_start raw cooked st =
    fold (\<lambda>row st. let delta = raw ! row XOR cooked ! row
                   in fold (defer_pk_start_key delta row) [0..<MATRIX_COLS] st)
      [0..<length raw] st"

definition debounce_defer_pk :: "key_debounce debounce_fun" where
  "debounce_defer_pk now raw changed st cooked =
    (let updated_last = dk_counters_need_update st;
         elapsed = cap_elapsed (TIMER_DIFF_32 now (dk_last_time st));
         (cooked_changed, st1, cooked1) =
           (if updated_last then
              (let st0 = st\<lparr>dk_last_time := now\<rparr> in
               if elapsed > 0 then defer_pk_update raw elapsed st0 cooked else (False, st0, cooked))
            else (False, st, cooked));
         st2 = (if changed then
                  defer_pk_start raw cooked1 (if \<not> updated_last then st1\<lparr>dk_last_time := now\<rparr> else st1)
                else st1)
     in (cooked_changed, st2, cooked1))"

section \<open>sym_eager_pk\<close>

definition eager_pk_count_key :: "u8 \<Rightarrow> nat \<Rightarrow> nat \<Rightarrow> key_debounce \<Rightarrow> key_debounce" where
  "eager_pk_count_key elapsed_time row col st =
    (let i = key_index row col; counter = dk_counters st ! i in
     if counter \<noteq> 0 then
       (if counter \<le> elapsed_time then
          st\<lparr>dk_counters := (dk_counters st)[i := 0], dk_matrix_need_update := True\<rparr>
        else
          st\<lparr>dk_counters := (dk_counters st)[i := counter - elapsed_time],
             dk_counters_need_update := True\<rparr>)
     else st)"

definition eager_pk_update_counters :: "nat \<Rightarrow> u8 \<Rightarrow> key_debounce \<Rightarrow> key_debounce" where
  "eager_pk_update_counters num_rows elapsed_time st =
    fold (\<lambda>row. fold (eager_pk_count_key elapsed_time row) [0..<MATRIX_COLS]) [0..<num_rows]
      (st\<lparr>dk_counters_need_update := False, dk_matrix_need_update := False\<rparr>)"

definition eager_pk_transfer_key ::
    "u8 \<Rightarrow> nat \<Rightarrow> nat \<Rightarrow> bool \<times> key_debounce \<times> u8 \<Rightarrow> bool \<times> key_debounce \<times> u8" where
  "eager_pk_transfer_key delta row col = (\<lambda>(cooked_changed, st, existing_row).
    let i = key_index row col; col_mask = push_bit col 1 in
    if delta AND col_mask \<noteq> 0 \<and> dk_counters st ! i = 0 then
      (True,
       st\<lparr>dk_counters := (dk_counters st)[i := DEBOUNCE], dk_counters_need_update := True\<rparr>,
       existing_row XOR col_mask)
    else (cooked_changed, st, existing_row))"

definition eager_pk_transfer_row ::
    "matrix \<Rightarrow> nat \<Rightarrow> bool \<times> key_debounce \<times> matrix \<Rightarrow> bool \<times> key_debounce \<times> matrix" where
  "eager_pk_transfer_row raw row = (\<lambda>(cooked_changed, st, cooked).
    let delta = raw ! row XOR cooked ! row;
        (f, st1, existing_row) =
          fold (eager_pk_transfer_key delta row) [0..<MATRIX_COLS] (cooked_changed, st, cooked ! row)
    in (f, st1, cooked[row := existing_row]))"

definition eager_pk_transfer ::
    "matrix \<Rightarrow> key_debounce \<Rightarrow> matrix \<Rightarrow> bool \<times> key_debounce \<times> matrix" where
  "eager_pk_transfer raw st cooked =
    fold (eager_pk_transfer_row raw) [0..<length raw]
      (False, st\<lparr>dk_matrix_need_update := False\<rparr>, cooked)"

definition debounce_eager_pk :: "key_debounce debounce_fun" where
  "debounce_eager_pk now raw changed st cooked =
    (let updated_last = dk_counters_need_update st;
         elapsed = cap_elapsed (TIMER_DIFF_32 now (dk_last_time st));
         st1 = (if updated_last then
                  (let st0 = st\<lparr>dk_last_time := now\<rparr> in
                   if elapsed > 0 then eager_pk_update_counters (length raw) elapsed st0 else st0)
                else st)
     in if changed \<or> dk_matrix_need_update st1 then
          eager_pk_transfer raw (if \<not> updated_last then st1\<lparr>dk_last_time := now\<rparr> else st1) cooked
        else (False, st1, cooked))"

section \<open>asym_eager_defer_pk\<close>

text \<open>
  The C counter packs \<open>pressed : 1\<close> and \<open>time : 7\<close> into a byte; \<open>DEBOUNCE\<close> is below 128, and the
  times never exceed it.
\<close>

record debounce_counter_t =
  ct_pressed :: bool
  ct_time :: u8

record asym_debounce =
  ad_counters :: "debounce_counter_t list"
  ad_last_time :: u32
  ad_counters_need_update :: bool
  ad_matrix_need_update :: bool

text \<open>The flags \<open>pressed\<close> are what \<open>malloc\<close> left there.\<close>

definition asym_debounce_init :: "bool list \<Rightarrow> asym_debounce" where
  "asym_debounce_init garbage =
    \<lparr> ad_counters = map (\<lambda>p. \<lparr> ct_pressed = p, ct_time = 0 \<rparr>) garbage, ad_last_time = 0,
      ad_counters_need_update = False, ad_matrix_need_update = False \<rparr>"

definition asym_update_key ::
    "matrix \<Rightarrow> u8 \<Rightarrow> nat \<Rightarrow> nat \<Rightarrow> bool \<times> asym_debounce \<times> matrix \<Rightarrow> bool \<times> asym_debounce \<times> matrix" where
  "asym_update_key raw elapsed_time row col = (\<lambda>(cooked_changed, st, cooked).
    let i = key_index row col; counter = ad_counters st ! i; col_mask = push_bit col 1 in
    if ct_time counter \<noteq> 0 then
      (if ct_time counter \<le> elapsed_time then
         (let st1 = st\<lparr>ad_counters := (ad_counters st)[i := counter\<lparr>ct_time := 0\<rparr>]\<rparr> in
          if ct_pressed counter then
            (cooked_changed, st1\<lparr>ad_matrix_need_update := True\<rparr>, cooked)
          else
            (let cooked_next = (cooked ! row AND NOT col_mask) OR (raw ! row AND col_mask)
             in (cooked_changed \<or> cooked_next XOR cooked ! row \<noteq> 0, st1, cooked[row := cooked_next])))
       else
         (cooked_changed,
          st\<lparr>ad_counters := (ad_counters st)[i := counter\<lparr>ct_time := ct_time counter - elapsed_time\<rparr>],
             ad_counters_need_update := True\<rparr>, cooked))
    else (cooked_changed, st, cooked))"

definition asym_update ::
    "matrix \<Rightarrow> u8 \<Rightarrow> asym_debounce \<Rightarrow> matrix \<Rightarrow> bool \<times> asym_debounce \<times> matrix" where
  "asym_update raw elapsed_time st cooked =
    fold (\<lambda>row. fold (asym_update_key raw elapsed_time row) [0..<MATRIX_COLS]) [0..<length raw]
      (False, st\<lparr>ad_counters_need_update := False, ad_matrix_need_update := False\<rparr>, cooked)"

definition asym_transfer_key ::
    "matrix \<Rightarrow> u8 \<Rightarrow> nat \<Rightarrow> nat \<Rightarrow> bool \<times> asym_debounce \<times> matrix \<Rightarrow> bool \<times> asym_debounce \<times> matrix" where
  "asym_transfer_key raw delta row col = (\<lambda>(cooked_changed, st, cooked).
    let i = key_index row col; counter = ad_counters st ! i; col_mask = push_bit col 1 in
    if delta AND col_mask \<noteq> 0 then
      (if ct_time counter = 0 then
         (let pressed = (raw ! row AND col_mask \<noteq> 0);
              st1 = st\<lparr>ad_counters := (ad_counters st)[i := \<lparr> ct_pressed = pressed, ct_time = DEBOUNCE \<rparr>],
                       ad_counters_need_update := True\<rparr>
          in if pressed then (True, st1, cooked[row := cooked ! row XOR col_mask])
             else (cooked_changed, st1, cooked))
       else (cooked_changed, st, cooked))
    else if ct_time counter \<noteq> 0 then
      (if \<not> ct_pressed counter
       then (cooked_changed, st\<lparr>ad_counters := (ad_counters st)[i := counter\<lparr>ct_time := 0\<rparr>]\<rparr>, cooked)
       else (cooked_changed, st, cooked))
    else (cooked_changed, st, cooked))"

definition asym_transfer_row ::
    "matrix \<Rightarrow> nat \<Rightarrow> bool \<times> asym_debounce \<times> matrix \<Rightarrow> bool \<times> asym_debounce \<times> matrix" where
  "asym_transfer_row raw row = (\<lambda>(cooked_changed, st, cooked).
    let delta = raw ! row XOR cooked ! row
    in fold (asym_transfer_key raw delta row) [0..<MATRIX_COLS] (cooked_changed, st, cooked))"

definition asym_transfer ::
    "matrix \<Rightarrow> bool \<Rightarrow> asym_debounce \<Rightarrow> matrix \<Rightarrow> bool \<times> asym_debounce \<times> matrix" where
  "asym_transfer raw cooked_changed st cooked =
    fold (asym_transfer_row raw) [0..<length raw]
      (cooked_changed, st\<lparr>ad_matrix_need_update := False\<rparr>, cooked)"

definition debounce_asym :: "asym_debounce debounce_fun" where
  "debounce_asym now raw changed st cooked =
    (let updated_last = ad_counters_need_update st;
         elapsed = cap_elapsed (TIMER_DIFF_32 now (ad_last_time st));
         (cooked_changed, st1, cooked1) =
           (if updated_last then
              (let st0 = st\<lparr>ad_last_time := now\<rparr> in
               if elapsed > 0 then asym_update raw elapsed st0 cooked else (False, st0, cooked))
            else (False, st, cooked))
     in if changed \<or> ad_matrix_need_update st1 then
          asym_transfer raw cooked_changed
            (if \<not> updated_last then st1\<lparr>ad_last_time := now\<rparr> else st1) cooked1
        else (cooked_changed, st1, cooked1))"

section \<open>Loops over keys\<close>

definition key_fold ::
    "('d \<Rightarrow> nat \<Rightarrow> nat \<Rightarrow> 's \<Rightarrow> 's) \<Rightarrow> ('s \<Rightarrow> nat \<Rightarrow> 'd) \<Rightarrow> nat \<Rightarrow> 's \<Rightarrow> 's" where
  "key_fold step rowc m s =
    fold (\<lambda>r s. fold (step (rowc s r) r) [0..<MATRIX_COLS] s) [0..<m] s"

text \<open>
  A nested loop whose step for row \<open>r\<close> and column \<open>c\<close> reads and writes only the part of the state
  of that key and a value \<open>d\<close> that the outer loop computes from the row (its \<open>delta\<close>).
\<close>

locale key_loop =
  fixes step :: "'d \<Rightarrow> nat \<Rightarrow> nat \<Rightarrow> 's \<Rightarrow> 's"
    and rowc :: "'s \<Rightarrow> nat \<Rightarrow> 'd"
    and view :: "'s \<Rightarrow> nat \<Rightarrow> nat \<Rightarrow> 'v"
    and upd :: "'d \<Rightarrow> nat \<Rightarrow> nat \<Rightarrow> 'v \<Rightarrow> 'v"
    and flag :: "'k \<Rightarrow> 's \<Rightarrow> bool"
    and hit :: "'k \<Rightarrow> 'd \<Rightarrow> nat \<Rightarrow> nat \<Rightarrow> 'v \<Rightarrow> bool"
    and valid :: "nat \<Rightarrow> 's \<Rightarrow> bool"
  assumes step_valid: "valid n s \<Longrightarrow> r < n \<Longrightarrow> c < MATRIX_COLS \<Longrightarrow> valid n (step d r c s)"
    and step_same: "valid n s \<Longrightarrow> r < n \<Longrightarrow> c < MATRIX_COLS \<Longrightarrow>
      view (step d r c s) r c = upd d r c (view s r c)"
    and step_other: "valid n s \<Longrightarrow> r < n \<Longrightarrow> c < MATRIX_COLS \<Longrightarrow> c' < MATRIX_COLS \<Longrightarrow>
      r' \<noteq> r \<or> c' \<noteq> c \<Longrightarrow> view (step d r c s) r' c' = view s r' c'"
    and step_rowc: "valid n s \<Longrightarrow> r < n \<Longrightarrow> c < MATRIX_COLS \<Longrightarrow> r' \<noteq> r \<Longrightarrow>
      rowc (step d r c s) r' = rowc s r'"
    and step_flag: "valid n s \<Longrightarrow> r < n \<Longrightarrow> c < MATRIX_COLS \<Longrightarrow>
      flag k (step d r c s) = (flag k s \<or> hit k d r c (view s r c))"
begin

lemma inner:
  assumes "valid n s" "r < n" "m \<le> MATRIX_COLS"
  shows "valid n (fold (step d r) [0..<m] s) \<and>
    (\<forall>c < MATRIX_COLS. view (fold (step d r) [0..<m] s) r c =
      (if c < m then upd d r c (view s r c) else view s r c)) \<and>
    (\<forall>r' c. r' \<noteq> r \<and> c < MATRIX_COLS \<longrightarrow> view (fold (step d r) [0..<m] s) r' c = view s r' c) \<and>
    (\<forall>r'. r' \<noteq> r \<longrightarrow> rowc (fold (step d r) [0..<m] s) r' = rowc s r') \<and>
    (\<forall>k. flag k (fold (step d r) [0..<m] s) = (flag k s \<or> (\<exists>c < m. hit k d r c (view s r c))))"
  using assms(3)
proof (induction m)
  case 0
  then show ?case using assms(1) by simp
next
  case (Suc m)
  let ?t = "fold (step d r) [0..<m] s"
  have m: "m < MATRIX_COLS" and IH: "valid n ?t"
    "\<And>c. c < MATRIX_COLS \<Longrightarrow> view ?t r c = (if c < m then upd d r c (view s r c) else view s r c)"
    "\<And>r' c. r' \<noteq> r \<Longrightarrow> c < MATRIX_COLS \<Longrightarrow> view ?t r' c = view s r' c"
    "\<And>r'. r' \<noteq> r \<Longrightarrow> rowc ?t r' = rowc s r'"
    "\<And>k. flag k ?t = (flag k s \<or> (\<exists>c < m. hit k d r c (view s r c)))"
    using Suc by auto
  have e: "fold (step d r) [0..<Suc m] s = step d r m ?t" by simp
  show ?case
    unfolding e
    using step_valid [OF IH(1) assms(2) m] step_same [OF IH(1) assms(2) m]
      step_other [OF IH(1) assms(2) m] step_rowc [OF IH(1) assms(2) m]
      step_flag [OF IH(1) assms(2) m] IH(2-5) m
    by (auto simp: less_Suc_eq)
qed

lemma outer:
  assumes "valid n s" "m \<le> n"
  shows "valid n (key_fold step rowc m s) \<and>
    (\<forall>r c. c < MATRIX_COLS \<longrightarrow> view (key_fold step rowc m s) r c =
      (if r < m then upd (rowc s r) r c (view s r c) else view s r c)) \<and>
    (\<forall>r. m \<le> r \<longrightarrow> rowc (key_fold step rowc m s) r = rowc s r) \<and>
    (\<forall>k. flag k (key_fold step rowc m s) =
      (flag k s \<or> (\<exists>r < m. \<exists>c < MATRIX_COLS. hit k (rowc s r) r c (view s r c))))"
  using assms(2)
proof (induction m)
  case 0
  then show ?case using assms(1) by (simp add: key_fold_def)
next
  case (Suc m)
  let ?t = "key_fold step rowc m s"
  have m: "m < n" and IH: "valid n ?t"
    "\<And>r c. c < MATRIX_COLS \<Longrightarrow> view ?t r c =
      (if r < m then upd (rowc s r) r c (view s r c) else view s r c)"
    "\<And>r. m \<le> r \<Longrightarrow> rowc ?t r = rowc s r"
    "\<And>k. flag k ?t =
      (flag k s \<or> (\<exists>r < m. \<exists>c < MATRIX_COLS. hit k (rowc s r) r c (view s r c)))"
    using Suc by auto
  have e: "key_fold step rowc (Suc m) s = fold (step (rowc s m) m) [0..<MATRIX_COLS] ?t"
    using IH(3) [of m] by (simp add: key_fold_def)
  have v: "view ?t m c = view s m c" if "c < MATRIX_COLS" for c using IH(2) [OF that] by simp
  then have h: "(\<exists>c < MATRIX_COLS. hit k (rowc s m) m c (view ?t m c)) =
      (\<exists>c < MATRIX_COLS. hit k (rowc s m) m c (view s m c))" for k by auto
  note I = inner [OF IH(1) m order.refl, of "rowc s m"]
  show ?case
    unfolding e using I IH(2-4) h
    by (auto simp: less_Suc_eq)
qed

lemmas loop_valid = outer [OF _ order.refl, THEN conjunct1]

lemma loop_view:
  "valid n s \<Longrightarrow> r < n \<Longrightarrow> c < MATRIX_COLS \<Longrightarrow> view (key_fold step rowc n s) r c = upd (rowc s r) r c (view s r c)"
  using outer [OF _ order.refl] by simp

lemma loop_flag:
  "valid n s \<Longrightarrow> flag k (key_fold step rowc n s) =
    (flag k s \<or> (\<exists>r < n. \<exists>c < MATRIX_COLS. hit k (rowc s r) r c (view s r c)))"
  using outer [OF _ order.refl] by simp

end

section \<open>Facts on key indices\<close>

lemma key_index_less: "r < n \<Longrightarrow> c < MATRIX_COLS \<Longrightarrow> key_index r c < n * MATRIX_COLS"
proof -
  assume "r < n" "c < MATRIX_COLS"
  then have "key_index r c < Suc r * MATRIX_COLS" by (simp add: key_index_def)
  also have "\<dots> \<le> n * MATRIX_COLS" using \<open>r < n\<close> by (intro mult_le_mono1) simp
  finally show ?thesis .
qed

lemma key_index_eq:
  assumes "c < MATRIX_COLS" "c' < MATRIX_COLS"
  shows "key_index r c = key_index r' c' \<longleftrightarrow> r = r' \<and> c = c'"
proof
  assume "key_index r c = key_index r' c'"
  then have "(r * MATRIX_COLS + c) div MATRIX_COLS = (r' * MATRIX_COLS + c') div MATRIX_COLS"
    "(r * MATRIX_COLS + c) mod MATRIX_COLS = (r' * MATRIX_COLS + c') mod MATRIX_COLS"
    by (simp_all add: key_index_def)
  then show "r = r' \<and> c = c'" using assms by simp
qed simp

lemma col_less_8: "c < MATRIX_COLS \<Longrightarrow> c < 8"
  by (simp add: MATRIX_COLS_def)

lemmas key_facts = nth_list_update key_index_eq key_index_less col_less_8

text \<open>The bits outside the matrix columns, which no per-key loop touches.\<close>

definition high_bits :: "nat \<Rightarrow> matrix \<Rightarrow> matrix \<Rightarrow> bool" where
  "high_bits n cooked cooked0 \<longleftrightarrow>
    (\<forall>r < n. \<forall>c. MATRIX_COLS \<le> c \<longrightarrow> bit (cooked ! r) c = bit (cooked0 ! r) c)"

lemma high_bits_refl [simp]: "high_bits n cooked cooked"
  by (simp add: high_bits_def)

lemma high_bits_trans: "high_bits n a b \<Longrightarrow> high_bits n b c \<Longrightarrow> high_bits n a c"
  by (simp add: high_bits_def)

lemma high_bits_update:
  "high_bits n cooked cooked0 \<Longrightarrow> length cooked = n \<Longrightarrow> r < n \<Longrightarrow>
    (\<And>c. MATRIX_COLS \<le> c \<Longrightarrow> bit w c = bit (cooked ! r) c) \<Longrightarrow> high_bits n (cooked[r := w]) cooked0"
  by (auto simp: high_bits_def nth_list_update)

lemma matrix_neq:
  assumes "length cooked' = n" "length cooked = n" "high_bits n cooked' cooked"
  shows "cooked' \<noteq> cooked \<longleftrightarrow>
    (\<exists>r < n. \<exists>c < MATRIX_COLS. bit (cooked' ! r) c \<noteq> bit (cooked ! r) c)"
proof
  assume "cooked' \<noteq> cooked"
  then obtain r where "r < n" "cooked' ! r \<noteq> cooked ! r"
    using assms by (auto simp: list_eq_iff_nth_eq)
  moreover from this obtain c where "bit (cooked' ! r) c \<noteq> bit (cooked ! r) c"
    by (meson bit_word_eqI)
  ultimately show "\<exists>r < n. \<exists>c < MATRIX_COLS. bit (cooked' ! r) c \<noteq> bit (cooked ! r) c"
    using assms(3) by (metis high_bits_def not_le)
qed auto

text \<open>Setting one bit of a row to its raw value, and flipping it.\<close>

declare push_bit_of_1 [simp del]

lemma bit_set_key:
  "c < MATRIX_COLS \<Longrightarrow> bit ((a AND NOT (push_bit c 1)) OR (b AND push_bit c 1)) j =
    (if j = c then bit b c else bit a j)" for a b :: u8
  using col_less_8 [of c] by (auto simp: word_bits dest: bit_imp_le_length)

lemma set_key_unchanged:
  "c < MATRIX_COLS \<Longrightarrow>
    a = (a AND NOT (push_bit c 1)) OR (b AND push_bit c 1) \<longleftrightarrow> bit a c = bit b c" for a b :: u8
  by (subst bit_eq_iff) (auto simp: bit_set_key)

lemma bit_flip_key:
  "c < MATRIX_COLS \<Longrightarrow> bit (a XOR push_bit c 1) j = (if j = c then \<not> bit a c else bit a j)"
  for a :: u8
  using col_less_8 [of c] by (auto simp: word_bits dest: bit_imp_le_length)

lemma ex_key_cong:
  "(\<And>r c. r < n \<Longrightarrow> c < m \<Longrightarrow> P r c = Q r c) \<Longrightarrow>
    (\<exists>r < n. \<exists>c < m. P r c) = (\<exists>r < n. \<exists>c < m. Q r c)" for m n :: nat
  by auto

section \<open>sym_defer_pk meets the contract\<close>

lemma key_loop_defer_pk_update:
  "key_loop (\<lambda>(d :: unit). defer_pk_update_key raw el) (\<lambda>_ _. ())
    (\<lambda>(f, st, cooked) r c. (dk_counters st ! key_index r c, bit (cooked ! r) c))
    (\<lambda>_ r c (k, b). (count_down el k, if k \<noteq> 0 \<and> k \<le> el then bit (raw ! r) c else b))
    (\<lambda>i (f, st, cooked). if i then dk_counters_need_update st else f)
    (\<lambda>i _ r c (k, b). if i then el < k else k \<noteq> 0 \<and> k \<le> el \<and> b \<noteq> bit (raw ! r) c)
    (\<lambda>n (f, st, cooked). length cooked = n \<and> length (dk_counters st) = n * MATRIX_COLS \<and>
       dk_last_time st = t \<and> high_bits n cooked cooked0)"
  by unfold_locales
    (auto simp: defer_pk_update_key_def Let_def count_down_def key_facts bit_set_key
      set_key_unchanged not_le intro!: high_bits_update split: prod.splits if_splits)

lemma key_loop_defer_pk_start:
  "key_loop defer_pk_start_key (\<lambda>_ r. raw ! r XOR cooked ! r)
    (\<lambda>st r c. dk_counters st ! key_index r c)
    (\<lambda>d r c k. if bit d c then (if k = 0 then DEBOUNCE else k) else 0)
    (\<lambda>(i :: unit) st. dk_counters_need_update st) (\<lambda>i d r c k. bit d c \<and> k = 0)
    (\<lambda>n st. length (dk_counters st) = n * MATRIX_COLS \<and> dk_last_time st = t)"
  by unfold_locales
    (auto simp: defer_pk_start_key_def Let_def key_facts and_bit_mask_eq_0)

lemma defer_pk_updated:
  assumes "length raw = n" "length cooked = n" "length (dk_counters st) = n * MATRIX_COLS"
    "defer_pk_update raw el st cooked = (f, st', cooked')"
  shows "length cooked' = n" "length (dk_counters st') = n * MATRIX_COLS"
    "dk_last_time st' = dk_last_time st" "high_bits n cooked' cooked"
    "r < n \<Longrightarrow> c < MATRIX_COLS \<Longrightarrow>
      dk_counters st' ! key_index r c = count_down el (dk_counters st ! key_index r c)"
    "r < n \<Longrightarrow> c < MATRIX_COLS \<Longrightarrow> bit (cooked' ! r) c =
      (if dk_counters st ! key_index r c \<noteq> 0 \<and> dk_counters st ! key_index r c \<le> el
       then bit (raw ! r) c else bit (cooked ! r) c)"
    "dk_counters_need_update st' = (\<exists>r < n. \<exists>c < MATRIX_COLS. el < dk_counters st ! key_index r c)"
    "f = (cooked' \<noteq> cooked)"
proof -
  let ?s0 = "(False, st\<lparr>dk_counters_need_update := False\<rparr>, cooked)"
  note L = key_loop_defer_pk_update [where el = el and raw = raw
      and t = "dk_last_time st" and ?cooked0.0 = cooked]
  have v: "case ?s0 of (f, st1, cooked1) \<Rightarrow> length cooked1 = n \<and>
      length (dk_counters st1) = n * MATRIX_COLS \<and> dk_last_time st1 = dk_last_time st \<and>
      high_bits n cooked1 cooked"
    using assms by simp
  have e: "key_fold (\<lambda>(d :: unit). defer_pk_update_key raw el) (\<lambda>_ _. ()) n ?s0 = (f, st', cooked')"
    using assms by (simp add: defer_pk_update_def key_fold_def)
  from key_loop.loop_valid [OF L v]
  show len: "length cooked' = n" "length (dk_counters st') = n * MATRIX_COLS"
    "dk_last_time st' = dk_last_time st" and h: "high_bits n cooked' cooked" by (simp_all add: e)
  show k: "dk_counters st' ! key_index r c = count_down el (dk_counters st ! key_index r c)"
    and b: "bit (cooked' ! r) c =
      (if dk_counters st ! key_index r c \<noteq> 0 \<and> dk_counters st ! key_index r c \<le> el
       then bit (raw ! r) c else bit (cooked ! r) c)" if "r < n" "c < MATRIX_COLS" for r c
    using key_loop.loop_view [OF L v that] by (simp_all add: e)
  show "dk_counters_need_update st' = (\<exists>r < n. \<exists>c < MATRIX_COLS. el < dk_counters st ! key_index r c)"
    using key_loop.loop_flag [OF L v, of True] by (simp add: e)
  have "f = (\<exists>r < n. \<exists>c < MATRIX_COLS. dk_counters st ! key_index r c \<noteq> 0 \<and>
      dk_counters st ! key_index r c \<le> el \<and> bit (cooked ! r) c \<noteq> bit (raw ! r) c)"
    using key_loop.loop_flag [OF L v, of False] by (simp add: e)
  also have "\<dots> = (cooked' \<noteq> cooked)"
    unfolding matrix_neq [OF len(1) assms(2) h] by (rule ex_key_cong) (auto simp: b)
  finally show "f = (cooked' \<noteq> cooked)" .
qed

lemma defer_pk_started:
  fixes cooked :: matrix
  assumes "length raw = n" "length (dk_counters st) = n * MATRIX_COLS"
  defines "st' \<equiv> defer_pk_start raw cooked st"
  shows "length (dk_counters st') = n * MATRIX_COLS" "dk_last_time st' = dk_last_time st"
    "r < n \<Longrightarrow> c < MATRIX_COLS \<Longrightarrow> dk_counters st' ! key_index r c =
      (if bit (raw ! r) c \<noteq> bit (cooked ! r) c
       then (if dk_counters st ! key_index r c = 0 then DEBOUNCE else dk_counters st ! key_index r c)
       else 0)"
    "dk_counters_need_update st' = (dk_counters_need_update st \<or>
      (\<exists>r < n. \<exists>c < MATRIX_COLS. bit (raw ! r) c \<noteq> bit (cooked ! r) c \<and>
         dk_counters st ! key_index r c = 0))"
proof -
  note L = key_loop_defer_pk_start [where raw = raw and cooked = cooked
      and t = "dk_last_time st"]
  have v: "length (dk_counters st) = n * MATRIX_COLS \<and> dk_last_time st = dk_last_time st"
    using assms by simp
  have e: "key_fold defer_pk_start_key (\<lambda>_ r. raw ! r XOR cooked ! r) n st = st'"
    using assms by (simp add: defer_pk_start_def key_fold_def Let_def)
  from key_loop.loop_valid [OF L v]
  show "length (dk_counters st') = n * MATRIX_COLS" "dk_last_time st' = dk_last_time st"
    by (simp_all add: e)
  from key_loop.loop_view [OF L v, of r c]
  show "dk_counters st' ! key_index r c =
      (if bit (raw ! r) c \<noteq> bit (cooked ! r) c
       then (if dk_counters st ! key_index r c = 0 then DEBOUNCE else dk_counters st ! key_index r c)
       else 0)" if "r < n" "c < MATRIX_COLS"
    using that by (simp add: e bit_xor_iff)
  from key_loop.loop_flag [OF L v]
  show "dk_counters_need_update st' = (dk_counters_need_update st \<or>
      (\<exists>r < n. \<exists>c < MATRIX_COLS. bit (raw ! r) c \<noteq> bit (cooked ! r) c \<and>
         dk_counters st ! key_index r c = 0))"
    by (simp add: e bit_xor_iff conj_assoc)
qed

definition key_debounce_ok :: "nat \<Rightarrow> key_debounce \<Rightarrow> matrix \<Rightarrow> bool" where
  "key_debounce_ok n st cooked \<longleftrightarrow>
    length cooked = n \<and> length (dk_counters st) = n * MATRIX_COLS \<and>
    (\<forall>r < n. \<forall>c < MATRIX_COLS. dk_counters st ! key_index r c \<le> DEBOUNCE \<and>
       (dk_counters st ! key_index r c \<noteq> 0 \<longrightarrow> dk_counters_need_update st))"

definition key_debounce_due :: "nat \<Rightarrow> u32 \<Rightarrow> key_debounce \<Rightarrow> matrix \<Rightarrow> matrix \<Rightarrow> bool" where
  "key_debounce_due m t st raw cooked \<longleftrightarrow>
    (dk_counters_need_update st \<longrightarrow> dk_last_time st = t) \<and>
    (\<forall>r < length raw. \<forall>c < MATRIX_COLS. bit (cooked ! r) c = bit (raw ! r) c \<or>
       dk_counters st ! key_index r c \<noteq> 0 \<and> unat (dk_counters st ! key_index r c) \<le> m)"

text \<open>The milliseconds a call takes off the counters.\<close>

definition key_elapsed :: "u32 \<Rightarrow> key_debounce \<Rightarrow> u8" where
  "key_elapsed now st = (if dk_counters_need_update st then cap_elapsed (now - dk_last_time st) else 0)"

lemma defer_pk_phase1:
  assumes "key_debounce_ok n st cooked" "length raw = n"
    "(if dk_counters_need_update st then
        (let st0 = st\<lparr>dk_last_time := now\<rparr> in
         if cap_elapsed (now - dk_last_time st) > 0
         then defer_pk_update raw (cap_elapsed (now - dk_last_time st)) st0 cooked
         else (False, st0, cooked))
      else (False, st, cooked)) = (f, st1, cooked1)"
  defines "el \<equiv> key_elapsed now st"
  shows "length cooked1 = n" "length (dk_counters st1) = n * MATRIX_COLS" "high_bits n cooked1 cooked"
    "dk_counters_need_update st \<Longrightarrow> dk_last_time st1 = now"
    "\<not> dk_counters_need_update st \<Longrightarrow> \<not> dk_counters_need_update st1"
    "f = (cooked1 \<noteq> cooked)"
    "r < n \<Longrightarrow> c < MATRIX_COLS \<Longrightarrow>
      dk_counters st1 ! key_index r c = count_down el (dk_counters st ! key_index r c)"
    "r < n \<Longrightarrow> c < MATRIX_COLS \<Longrightarrow> bit (cooked1 ! r) c =
      (if dk_counters st ! key_index r c \<noteq> 0 \<and> dk_counters st ! key_index r c \<le> el
       then bit (raw ! r) c else bit (cooked ! r) c)"
    "r < n \<Longrightarrow> c < MATRIX_COLS \<Longrightarrow> dk_counters st1 ! key_index r c \<noteq> 0 \<Longrightarrow>
      dk_counters_need_update st1"
proof -
  have len: "length cooked = n" "length (dk_counters st) = n * MATRIX_COLS"
    and need: "\<And>r c. r < n \<Longrightarrow> c < MATRIX_COLS \<Longrightarrow> dk_counters st ! key_index r c \<noteq> 0 \<Longrightarrow>
      dk_counters_need_update st"
    using assms(1) by (auto simp: key_debounce_ok_def)
  consider "\<not> dk_counters_need_update st" | "dk_counters_need_update st" "el = 0"
    | "dk_counters_need_update st" "el \<noteq> 0" by blast
  then have *: "length cooked1 = n \<and> length (dk_counters st1) = n * MATRIX_COLS \<and>
    high_bits n cooked1 cooked \<and> (dk_counters_need_update st \<longrightarrow> dk_last_time st1 = now) \<and>
    (\<not> dk_counters_need_update st \<longrightarrow> \<not> dk_counters_need_update st1) \<and> f = (cooked1 \<noteq> cooked) \<and>
    (\<forall>r < n. \<forall>c < MATRIX_COLS.
      dk_counters st1 ! key_index r c = count_down el (dk_counters st ! key_index r c) \<and>
      bit (cooked1 ! r) c =
      (if dk_counters st ! key_index r c \<noteq> 0 \<and> dk_counters st ! key_index r c \<le> el
       then bit (raw ! r) c else bit (cooked ! r) c) \<and>
      (dk_counters st1 ! key_index r c \<noteq> 0 \<longrightarrow> dk_counters_need_update st1))"
  proof cases
    case 1
    then show ?thesis using assms(3) len need by (auto simp: el_def key_elapsed_def)
  next
    case 2
    then show ?thesis using assms(3) len need by (auto simp: el_def key_elapsed_def)
  next
    case 3
    then have "defer_pk_update raw el (st\<lparr>dk_last_time := now\<rparr>) cooked = (f, st1, cooked1)"
      using assms(3) by (simp add: el_def key_elapsed_def word_gt_0)
    note U = defer_pk_updated [OF assms(2) len(1) _ this, simplified, OF len(2)]
    show ?thesis using U 3(1) by (auto simp: count_down_eq_0 not_le)
  qed
  then show "length cooked1 = n" "length (dk_counters st1) = n * MATRIX_COLS"
    "high_bits n cooked1 cooked" "dk_counters_need_update st \<Longrightarrow> dk_last_time st1 = now"
    "\<not> dk_counters_need_update st \<Longrightarrow> \<not> dk_counters_need_update st1" "f = (cooked1 \<noteq> cooked)"
    by blast+
  show "dk_counters st1 ! key_index r c = count_down el (dk_counters st ! key_index r c)"
    "bit (cooked1 ! r) c =
      (if dk_counters st ! key_index r c \<noteq> 0 \<and> dk_counters st ! key_index r c \<le> el
       then bit (raw ! r) c else bit (cooked ! r) c)"
    "dk_counters st1 ! key_index r c \<noteq> 0 \<Longrightarrow> dk_counters_need_update st1"
    if "r < n" "c < MATRIX_COLS"
    using * that by blast+
qed

text \<open>One call: the first half gives \<open>st1\<close> and the cooked matrix, the second the counters.\<close>

lemma defer_pk_call:
  assumes "key_debounce_ok n st cooked" "length raw = n"
    "debounce_defer_pk now raw changed st cooked = (f, st', cooked')"
  defines "el \<equiv> key_elapsed now st"
  shows "length cooked' = n" "length (dk_counters st') = n * MATRIX_COLS" "high_bits n cooked' cooked"
    "f = (cooked' \<noteq> cooked)"
    "dk_counters_need_update st' \<Longrightarrow> dk_last_time st' = now"
    "r < n \<Longrightarrow> c < MATRIX_COLS \<Longrightarrow> bit (cooked' ! r) c =
      (if dk_counters st ! key_index r c \<noteq> 0 \<and> dk_counters st ! key_index r c \<le> el
       then bit (raw ! r) c else bit (cooked ! r) c)"
    "r < n \<Longrightarrow> c < MATRIX_COLS \<Longrightarrow> dk_counters st' ! key_index r c =
      (let k = count_down el (dk_counters st ! key_index r c) in
       if \<not> changed then k
       else if bit (raw ! r) c \<noteq> bit (cooked' ! r) c then (if k = 0 then DEBOUNCE else k) else 0)"
    "r < n \<Longrightarrow> c < MATRIX_COLS \<Longrightarrow> dk_counters st' ! key_index r c \<noteq> 0 \<Longrightarrow>
      dk_counters_need_update st'"
proof -
  obtain f1 st1 cooked1 where p1: "(if dk_counters_need_update st then
        (let st0 = st\<lparr>dk_last_time := now\<rparr> in
         if cap_elapsed (now - dk_last_time st) > 0
         then defer_pk_update raw (cap_elapsed (now - dk_last_time st)) st0 cooked
         else (False, st0, cooked))
      else (False, st, cooked)) = (f1, st1, cooked1)" by (metis prod_cases3)
  note P = defer_pk_phase1 [OF assms(1,2) p1, folded el_def]
  let ?st2 = "if \<not> dk_counters_need_update st then st1\<lparr>dk_last_time := now\<rparr> else st1"
  have e: "f = f1" "cooked' = cooked1"
    "st' = (if changed then defer_pk_start raw cooked1 ?st2 else st1)"
    using assms(3) p1 by (auto simp: debounce_defer_pk_def Let_def TIMER_DIFF_32_def split: prod.splits)
  have lt: "dk_last_time ?st2 = now" using P(4) by auto
  have l2: "length (dk_counters ?st2) = n * MATRIX_COLS" using P(2) by simp
  note S = defer_pk_started [OF assms(2) l2, where cooked = cooked1]
  show "length cooked' = n" "high_bits n cooked' cooked" "f = (cooked' \<noteq> cooked)"
    using P e by auto
  show "length (dk_counters st') = n * MATRIX_COLS" using P(2) S(1) e by simp
  show "dk_last_time st' = now" if "dk_counters_need_update st'"
    using that P(4,5) S(2) lt e by (auto split: if_splits)
  show "bit (cooked' ! r) c =
      (if dk_counters st ! key_index r c \<noteq> 0 \<and> dk_counters st ! key_index r c \<le> el
       then bit (raw ! r) c else bit (cooked ! r) c)"
    and k: "dk_counters st' ! key_index r c =
      (let k = count_down el (dk_counters st ! key_index r c) in
       if \<not> changed then k
       else if bit (raw ! r) c \<noteq> bit (cooked' ! r) c then (if k = 0 then DEBOUNCE else k) else 0)"
    if "r < n" "c < MATRIX_COLS" for r c
    using P(7,8) [OF that] S(3) [OF that] e by (simp_all add: Let_def)
  show "dk_counters_need_update st'"
    if "r < n" "c < MATRIX_COLS" "dk_counters st' ! key_index r c \<noteq> 0"
    using P(9) [OF that(1,2)] S(3) [OF that(1,2)] S(4) that e by (auto split: if_splits)
qed

lemma key_elapsed_later:
  assumes "key_debounce_ok n st cooked" "key_debounce_due m t st raw cooked" "d < 65536"
    "r < n" "c < MATRIX_COLS" "dk_counters st ! key_index r c \<noteq> 0"
  shows "unat (key_elapsed (t + of_nat d) st) = min d 255"
proof -
  have "dk_counters_need_update st" using assms by (auto simp: key_debounce_ok_def)
  then show ?thesis
    using assms(2) cap_elapsed_later [OF assms(3), of t]
    by (simp add: key_elapsed_def key_debounce_due_def)
qed

interpretation defer_pk: settling_debouncer debounce_defer_pk key_debounce_ok key_debounce_due
  "unat DEBOUNCE" 65536
proof
  fix n m d r c :: nat and st st' :: key_debounce and now t :: u32 and raw cooked cooked' :: matrix
    and f changed
  assume ok: "key_debounce_ok n st cooked"
  then show "length cooked = n" by (simp add: key_debounce_ok_def)
  show "bit (cooked ! r) c = bit (raw ! r) c"
    if "length raw = n" "key_debounce_due 0 t st raw cooked" "r < n" "c < MATRIX_COLS"
    using that by (simp add: key_debounce_due_def unat_eq_0_word)
  assume raw: "length raw = n"
  have le: "count_down el (dk_counters st ! key_index r c) \<le> DEBOUNCE"
    if "r < n" "c < MATRIX_COLS" for r c el
    using ok that by (simp add: key_debounce_ok_def count_down_DEBOUNCE)
  show "key_debounce_due (unat DEBOUNCE) now st' raw cooked'"
    if "debounce_defer_pk now raw True st cooked = (f, st', cooked')"
    using defer_pk_call(5,7) [OF ok raw that] le
    by (auto simp: key_debounce_due_def raw Let_def word_le_nat_alt [symmetric])
  show "key_debounce_due (m - d) (t + of_nat d) st' raw cooked'"
    if due: "key_debounce_due m t st raw cooked" and d: "d < 65536"
      and r: "debounce_defer_pk (t + of_nat d) raw False st cooked = (f, st', cooked')"
    unfolding key_debounce_due_def raw
  proof (intro conjI allI impI)
    note C = defer_pk_call [OF ok raw r]
    show "dk_counters_need_update st' \<Longrightarrow> dk_last_time st' = t + of_nat d" by (rule C)
    fix r c assume r: "r < n" and c: "c < MATRIX_COLS"
    show "bit (cooked' ! r) c = bit (raw ! r) c \<or>
        dk_counters st' ! key_index r c \<noteq> 0 \<and> unat (dk_counters st' ! key_index r c) \<le> m - d"
    proof (cases "bit (cooked ! r) c = bit (raw ! r) c")
      case False
      with due r c raw have k: "dk_counters st ! key_index r c \<noteq> 0"
        "unat (dk_counters st ! key_index r c) \<le> m" by (auto simp: key_debounce_due_def)
      from count_down_le_wait [OF key_elapsed_later [OF ok due d r c k(1)] k(2)]
      show ?thesis using C(6,7) [OF r c] k(1) by (auto simp: count_down_eq_0)
    qed (use C(6) [OF r c] in auto)
  qed
  assume r: "debounce_defer_pk now raw changed st cooked = (f, st', cooked')"
  note C = defer_pk_call [OF ok raw r]
  show "key_debounce_ok n st' cooked'"
    using C(1,2,7,8) le by (auto simp: key_debounce_ok_def Let_def)
  show "f = (cooked' \<noteq> cooked)" by (rule C)
  show "bit (cooked' ! r) c = bit (cooked ! r) c \<or> bit (cooked' ! r) c = bit (raw ! r) c"
    if "r < n"
    using C(3,6) that by (cases "c < MATRIX_COLS") (auto simp: high_bits_def not_less)
qed

section \<open>sym_eager_pk meets the contract\<close>

lemma key_loop_eager_pk_count:
  "key_loop (\<lambda>(d :: unit). eager_pk_count_key el) (\<lambda>_ _. ())
    (\<lambda>st r c. dk_counters st ! key_index r c) (\<lambda>_ r c. count_down el)
    (\<lambda>i st. if i then dk_counters_need_update st else dk_matrix_need_update st)
    (\<lambda>i _ r c k. if i then el < k else k \<noteq> 0 \<and> k \<le> el)
    (\<lambda>n st. length (dk_counters st) = n * MATRIX_COLS \<and> dk_last_time st = t)"
  by unfold_locales
    (auto simp: eager_pk_count_key_def Let_def count_down_def key_facts not_le)

text \<open>
  The transfer loop collects a row in \<open>existing_row\<close> and stores it after the row's last column; no
  iteration reads the row in between, so storing each bit at once gives the same state.
\<close>

definition eager_pk_flip_key ::
    "u8 \<Rightarrow> nat \<Rightarrow> nat \<Rightarrow> bool \<times> key_debounce \<times> matrix \<Rightarrow> bool \<times> key_debounce \<times> matrix" where
  "eager_pk_flip_key delta row col = (\<lambda>(f, st, cooked).
    let i = key_index row col in
    if bit delta col \<and> dk_counters st ! i = 0 then
      (True, st\<lparr>dk_counters := (dk_counters st)[i := DEBOUNCE], dk_counters_need_update := True\<rparr>,
       cooked[row := cooked ! row XOR push_bit col 1])
    else (f, st, cooked))"

lemma eager_pk_transfer_key_flip:
  "row < length cooked \<Longrightarrow>
    fold (eager_pk_flip_key delta row) cs (f, st, cooked) =
    (case fold (eager_pk_transfer_key delta row) cs (f, st, cooked ! row) of
       (f', st', existing) \<Rightarrow> (f', st', cooked[row := existing]))"
proof (induction cs arbitrary: f st cooked)
  case (Cons c cs)
  obtain f1 st1 e1 where t: "eager_pk_transfer_key delta row c (f, st, cooked ! row) = (f1, st1, e1)"
    by (metis prod_cases3)
  then have "eager_pk_flip_key delta row c (f, st, cooked) = (f1, st1, cooked[row := e1])"
    by (auto simp: eager_pk_flip_key_def eager_pk_transfer_key_def Let_def and_bit_mask_eq_0
        split: if_splits)
  with Cons t show ?case by (simp split: prod.splits)
qed simp

lemma eager_pk_transfer_fold:
  "length cooked = n \<Longrightarrow>
    fold (eager_pk_transfer_row raw) [0..<n] (f, st, cooked) =
    key_fold eager_pk_flip_key (\<lambda>s r. raw ! r XOR snd (snd s) ! r) n (f, st, cooked)"
proof -
  assume len: "length cooked = n"
  have flip_len: "length (snd (snd (fold (eager_pk_flip_key d r) cs s))) = length (snd (snd s))"
    for d r cs s
    by (induction cs arbitrary: s)
      (auto simp: eager_pk_flip_key_def Let_def case_prod_beta)
  have row: "eager_pk_transfer_row raw r s =
      fold (eager_pk_flip_key (raw ! r XOR snd (snd s) ! r) r) [0..<MATRIX_COLS] s"
    if "length (snd (snd s)) = n" "r < n" for r s
    using that eager_pk_transfer_key_flip
    by (auto simp: eager_pk_transfer_row_def Let_def split: prod.splits)
  have "fold (eager_pk_transfer_row raw) [0..<m] s =
      key_fold eager_pk_flip_key (\<lambda>s r. raw ! r XOR snd (snd s) ! r) m s \<and>
    length (snd (snd (fold (eager_pk_transfer_row raw) [0..<m] s))) = n"
    if "m \<le> n" "length (snd (snd s)) = n" for m s
    using that(1)
  proof (induction m)
    case (Suc m)
    let ?t = "fold (eager_pk_transfer_row raw) [0..<m] s"
    have m: "m \<le> n" "m < n" using Suc.prems by simp_all
    note IH = Suc.IH [OF m(1)]
    have t: "length (snd (snd ?t)) = n" "m < n" using IH m(2) by blast+
    have "eager_pk_transfer_row raw m ?t =
        fold (eager_pk_flip_key (raw ! m XOR snd (snd ?t) ! m) m) [0..<MATRIX_COLS] ?t"
      by (rule row [OF t])
    moreover have "length (snd (snd
        (key_fold eager_pk_flip_key (\<lambda>s r. raw ! r XOR snd (snd s) ! r) m s))) = n"
      using IH by metis
    ultimately show ?case using IH flip_len by (simp add: key_fold_def)
  qed (use that(2) in \<open>simp add: key_fold_def\<close>)
  from this [of n "(f, st, cooked)"] show ?thesis using len by simp
qed

lemma key_loop_eager_pk_flip:
  "key_loop eager_pk_flip_key (\<lambda>s r. raw ! r XOR snd (snd s) ! r)
    (\<lambda>(f, st, cooked) r c. (dk_counters st ! key_index r c, bit (cooked ! r) c))
    (\<lambda>d r c (k, b). if bit d c \<and> k = 0 then (DEBOUNCE, \<not> b) else (k, b))
    (\<lambda>i (f, st, cooked). if i then dk_counters_need_update st else f)
    (\<lambda>i d r c (k, b). bit d c \<and> k = 0)
    (\<lambda>n (f, st, cooked). length cooked = n \<and> length (dk_counters st) = n * MATRIX_COLS \<and>
       dk_last_time st = t \<and> high_bits n cooked cooked0)"
  by unfold_locales
    (auto simp: eager_pk_flip_key_def Let_def key_facts bit_flip_key intro!: high_bits_update
      split: prod.splits if_splits)

lemma eager_pk_counted:
  fixes el :: u8
  assumes "length (dk_counters st) = n * MATRIX_COLS"
  defines "st' \<equiv> eager_pk_update_counters n el st"
  shows "length (dk_counters st') = n * MATRIX_COLS" "dk_last_time st' = dk_last_time st"
    "r < n \<Longrightarrow> c < MATRIX_COLS \<Longrightarrow>
      dk_counters st' ! key_index r c = count_down el (dk_counters st ! key_index r c)"
    "dk_counters_need_update st' = (\<exists>r < n. \<exists>c < MATRIX_COLS. el < dk_counters st ! key_index r c)"
    "dk_matrix_need_update st' = (\<exists>r < n. \<exists>c < MATRIX_COLS.
       dk_counters st ! key_index r c \<noteq> 0 \<and> dk_counters st ! key_index r c \<le> el)"
proof -
  let ?s0 = "st\<lparr>dk_counters_need_update := False, dk_matrix_need_update := False\<rparr>"
  note L = key_loop_eager_pk_count [where el = el and t = "dk_last_time st"]
  have v: "length (dk_counters ?s0) = n * MATRIX_COLS \<and> dk_last_time ?s0 = dk_last_time st"
    using assms by simp
  have e: "key_fold (\<lambda>(d :: unit). eager_pk_count_key el) (\<lambda>_ _. ()) n ?s0 = st'"
    by (simp add: st'_def eager_pk_update_counters_def key_fold_def)
  from key_loop.loop_valid [OF L v]
  show "length (dk_counters st') = n * MATRIX_COLS" "dk_last_time st' = dk_last_time st"
    by (simp_all add: e)
  from key_loop.loop_view [OF L v, of r c]
  show "dk_counters st' ! key_index r c = count_down el (dk_counters st ! key_index r c)"
    if "r < n" "c < MATRIX_COLS" using that by (simp add: e)
  from key_loop.loop_flag [OF L v, of True] key_loop.loop_flag [OF L v, of False]
  show "dk_counters_need_update st' = (\<exists>r < n. \<exists>c < MATRIX_COLS. el < dk_counters st ! key_index r c)"
    "dk_matrix_need_update st' = (\<exists>r < n. \<exists>c < MATRIX_COLS.
       dk_counters st ! key_index r c \<noteq> 0 \<and> dk_counters st ! key_index r c \<le> el)"
    by (simp_all add: e)
qed

lemma eager_pk_transferred:
  assumes "length raw = n" "length cooked = n" "length (dk_counters st) = n * MATRIX_COLS"
    "eager_pk_transfer raw st cooked = (f, st', cooked')"
  shows "length cooked' = n" "length (dk_counters st') = n * MATRIX_COLS"
    "dk_last_time st' = dk_last_time st" "high_bits n cooked' cooked"
    "r < n \<Longrightarrow> c < MATRIX_COLS \<Longrightarrow> dk_counters st' ! key_index r c =
      (if bit (raw ! r) c \<noteq> bit (cooked ! r) c \<and> dk_counters st ! key_index r c = 0
       then DEBOUNCE else dk_counters st ! key_index r c)"
    "r < n \<Longrightarrow> c < MATRIX_COLS \<Longrightarrow> bit (cooked' ! r) c =
      (if dk_counters st ! key_index r c = 0 then bit (raw ! r) c else bit (cooked ! r) c)"
    "dk_counters_need_update st' = (dk_counters_need_update st \<or>
      (\<exists>r < n. \<exists>c < MATRIX_COLS. bit (raw ! r) c \<noteq> bit (cooked ! r) c \<and>
         dk_counters st ! key_index r c = 0))"
    "f = (cooked' \<noteq> cooked)"
proof -
  let ?s0 = "(False, st\<lparr>dk_matrix_need_update := False\<rparr>, cooked)"
  note L = key_loop_eager_pk_flip [where raw = raw and t = "dk_last_time st" and ?cooked0.0 = cooked]
  have v: "case ?s0 of (f, st1, cooked1) \<Rightarrow> length cooked1 = n \<and>
      length (dk_counters st1) = n * MATRIX_COLS \<and> dk_last_time st1 = dk_last_time st \<and>
      high_bits n cooked1 cooked"
    using assms by simp
  have e: "key_fold eager_pk_flip_key (\<lambda>s r. raw ! r XOR snd (snd s) ! r) n ?s0 =
      (f, st', cooked')"
    using assms eager_pk_transfer_fold [OF assms(2)] by (simp add: eager_pk_transfer_def)
  from key_loop.loop_valid [OF L v]
  show len: "length cooked' = n" "length (dk_counters st') = n * MATRIX_COLS"
    "dk_last_time st' = dk_last_time st" and h: "high_bits n cooked' cooked" by (simp_all add: e)
  show "dk_counters st' ! key_index r c =
      (if bit (raw ! r) c \<noteq> bit (cooked ! r) c \<and> dk_counters st ! key_index r c = 0
       then DEBOUNCE else dk_counters st ! key_index r c)"
    and b: "bit (cooked' ! r) c =
      (if dk_counters st ! key_index r c = 0 then bit (raw ! r) c else bit (cooked ! r) c)"
    if "r < n" "c < MATRIX_COLS" for r c
    using key_loop.loop_view [OF L v that] by (auto simp: e bit_xor_iff split: if_splits)
  show "dk_counters_need_update st' = (dk_counters_need_update st \<or>
      (\<exists>r < n. \<exists>c < MATRIX_COLS. bit (raw ! r) c \<noteq> bit (cooked ! r) c \<and>
         dk_counters st ! key_index r c = 0))"
    using key_loop.loop_flag [OF L v, of True] by (simp add: e bit_xor_iff conj_assoc)
  have "f = (\<exists>r < n. \<exists>c < MATRIX_COLS. bit (raw ! r) c \<noteq> bit (cooked ! r) c \<and>
      dk_counters st ! key_index r c = 0)"
    using key_loop.loop_flag [OF L v, of False] by (simp add: e bit_xor_iff conj_assoc)
  also have "\<dots> = (cooked' \<noteq> cooked)"
    unfolding matrix_neq [OF len(1) assms(2) h] by (rule ex_key_cong) (auto simp: b)
  finally show "f = (cooked' \<noteq> cooked)" .
qed

lemma eager_pk_call:
  assumes "key_debounce_ok n st cooked" "length raw = n"
    "debounce_eager_pk now raw changed st cooked = (f, st', cooked')"
  defines "el \<equiv> key_elapsed now st"
  obtains runs where "changed \<Longrightarrow> runs"
    "\<And>r c. r < n \<Longrightarrow> c < MATRIX_COLS \<Longrightarrow> dk_counters st ! key_index r c \<noteq> 0 \<Longrightarrow>
      dk_counters st ! key_index r c \<le> el \<Longrightarrow> runs"
    "length cooked' = n" "length (dk_counters st') = n * MATRIX_COLS" "high_bits n cooked' cooked"
    "f = (cooked' \<noteq> cooked)"
    "dk_counters_need_update st' \<Longrightarrow> dk_last_time st' = now"
    "\<And>r c. r < n \<Longrightarrow> c < MATRIX_COLS \<Longrightarrow> dk_counters st' ! key_index r c =
      (if runs \<and> bit (raw ! r) c \<noteq> bit (cooked ! r) c \<and>
          count_down el (dk_counters st ! key_index r c) = 0
       then DEBOUNCE else count_down el (dk_counters st ! key_index r c))"
    "\<And>r c. r < n \<Longrightarrow> c < MATRIX_COLS \<Longrightarrow> bit (cooked' ! r) c =
      (if runs \<and> count_down el (dk_counters st ! key_index r c) = 0
       then bit (raw ! r) c else bit (cooked ! r) c)"
    "\<And>r c. r < n \<Longrightarrow> c < MATRIX_COLS \<Longrightarrow> dk_counters st' ! key_index r c \<noteq> 0 \<Longrightarrow>
      dk_counters_need_update st'"
proof -
  have len: "length cooked = n" "length (dk_counters st) = n * MATRIX_COLS"
    and need: "\<And>r c. r < n \<Longrightarrow> c < MATRIX_COLS \<Longrightarrow> dk_counters st ! key_index r c \<noteq> 0 \<Longrightarrow>
      dk_counters_need_update st"
    using assms(1) by (auto simp: key_debounce_ok_def)
  define st1 where "st1 = (if dk_counters_need_update st then
      (let st0 = st\<lparr>dk_last_time := now\<rparr> in
       if cap_elapsed (now - dk_last_time st) > 0
       then eager_pk_update_counters n (cap_elapsed (now - dk_last_time st)) st0 else st0)
    else st)"
  let ?st2 = "if \<not> dk_counters_need_update st then st1\<lparr>dk_last_time := now\<rparr> else st1"
  note C = eager_pk_counted [where st = "st\<lparr>dk_last_time := now\<rparr>" and n = n and el = el,
      simplified, OF len(2)]
  have D: "debounce_eager_pk now raw changed st cooked =
      (if changed \<or> dk_matrix_need_update st1 then eager_pk_transfer raw ?st2 cooked
       else (False, st1, cooked))"
    by (simp add: debounce_eager_pk_def Let_def assms(2) TIMER_DIFF_32_def st1_def)
  consider "\<not> dk_counters_need_update st" | "dk_counters_need_update st" "el = 0"
    | "dk_counters_need_update st" "el \<noteq> 0" by blast
  then have 1: "length (dk_counters st1) = n * MATRIX_COLS \<and>
      (dk_counters_need_update st \<longrightarrow> dk_last_time st1 = now) \<and>
      (\<not> dk_counters_need_update st \<longrightarrow> \<not> dk_counters_need_update st1) \<and>
      (\<forall>r < n. \<forall>c < MATRIX_COLS.
        dk_counters st1 ! key_index r c = count_down el (dk_counters st ! key_index r c) \<and>
        (dk_counters st1 ! key_index r c \<noteq> 0 \<longrightarrow> dk_counters_need_update st1) \<and>
        (dk_counters st ! key_index r c \<noteq> 0 \<and> dk_counters st ! key_index r c \<le> el \<longrightarrow>
          dk_matrix_need_update st1))"
  proof cases
    case 1
    then show ?thesis using len need by (auto simp: st1_def el_def key_elapsed_def)
  next
    case 2
    then show ?thesis using len need by (auto simp: st1_def el_def key_elapsed_def)
  next
    case 3
    then have "st1 = eager_pk_update_counters n el (st\<lparr>dk_last_time := now\<rparr>)"
      by (simp add: st1_def el_def key_elapsed_def word_gt_0)
    then show ?thesis using C 3(1) by (auto simp: count_down_eq_0 not_le)
  qed
  have l2: "length (dk_counters ?st2) = n * MATRIX_COLS" using 1 by simp
  have lt: "dk_last_time ?st2 = now" using 1 by simp
  show thesis
  proof (cases "changed \<or> dk_matrix_need_update st1")
    case True
    then have "eager_pk_transfer raw ?st2 cooked = (f, st', cooked')" using D assms(3) by simp
    note T = eager_pk_transferred [OF assms(2) len(1) l2 this]
    show thesis
    proof (rule that [of True])
      show "dk_last_time st' = now" using T(3) lt by simp
      show "dk_counters_need_update st'"
        if "r < n" "c < MATRIX_COLS" "dk_counters st' ! key_index r c \<noteq> 0" for r c
        using T(5) [OF that(1,2)] T(7) 1 that by (auto split: if_splits)
    qed (use T 1 in auto)
  next
    case False
    then have "f = False" "st' = st1" "cooked' = cooked" using D assms(3) by auto
    then show thesis
      by (intro that [of False]) (use False 1 len in auto)
  qed
qed

interpretation eager_pk: settling_debouncer debounce_eager_pk key_debounce_ok key_debounce_due
  "unat DEBOUNCE" 65536
proof
  fix n m d r c :: nat and st st' :: key_debounce and now t :: u32 and raw cooked cooked' :: matrix
    and f changed
  assume ok: "key_debounce_ok n st cooked"
  then show "length cooked = n" by (simp add: key_debounce_ok_def)
  show "bit (cooked ! r) c = bit (raw ! r) c"
    if "length raw = n" "key_debounce_due 0 t st raw cooked" "r < n" "c < MATRIX_COLS"
    using that by (simp add: key_debounce_due_def unat_eq_0_word)
  assume raw: "length raw = n"
  have le: "count_down el (dk_counters st ! key_index r c) \<le> DEBOUNCE"
    if "r < n" "c < MATRIX_COLS" for r c el
    using ok that by (simp add: key_debounce_ok_def count_down_DEBOUNCE)
  show "key_debounce_due (unat DEBOUNCE) now st' raw cooked'"
    if "debounce_eager_pk now raw True st cooked = (f, st', cooked')"
    by (rule eager_pk_call [OF ok raw that])
      (use le in \<open>auto simp: key_debounce_due_def raw word_le_nat_alt [symmetric]\<close>)
  show "key_debounce_due (m - d) (t + of_nat d) st' raw cooked'"
    if due: "key_debounce_due m t st raw cooked" and d: "d < 65536"
      and r: "debounce_eager_pk (t + of_nat d) raw False st cooked = (f, st', cooked')"
  proof (rule eager_pk_call [OF ok raw r])
    fix runs
    let ?el = "key_elapsed (t + of_nat d) st"
    assume R: "\<And>r c. r < n \<Longrightarrow> c < MATRIX_COLS \<Longrightarrow> dk_counters st ! key_index r c \<noteq> 0 \<Longrightarrow>
        dk_counters st ! key_index r c \<le> ?el \<Longrightarrow> runs"
      "dk_counters_need_update st' \<Longrightarrow> dk_last_time st' = t + of_nat d"
      "\<And>r c. r < n \<Longrightarrow> c < MATRIX_COLS \<Longrightarrow> dk_counters st' ! key_index r c =
        (if runs \<and> bit (raw ! r) c \<noteq> bit (cooked ! r) c \<and>
            count_down ?el (dk_counters st ! key_index r c) = 0
         then DEBOUNCE else count_down ?el (dk_counters st ! key_index r c))"
      "\<And>r c. r < n \<Longrightarrow> c < MATRIX_COLS \<Longrightarrow> bit (cooked' ! r) c =
        (if runs \<and> count_down ?el (dk_counters st ! key_index r c) = 0
         then bit (raw ! r) c else bit (cooked ! r) c)"
    show "key_debounce_due (m - d) (t + of_nat d) st' raw cooked'"
      unfolding key_debounce_due_def raw
    proof (intro conjI allI impI)
      fix r c assume r: "r < n" and c: "c < MATRIX_COLS"
      show "bit (cooked' ! r) c = bit (raw ! r) c \<or>
          dk_counters st' ! key_index r c \<noteq> 0 \<and> unat (dk_counters st' ! key_index r c) \<le> m - d"
      proof (cases "bit (cooked ! r) c = bit (raw ! r) c")
        case False
        with due r c raw have k: "dk_counters st ! key_index r c \<noteq> 0"
          "unat (dk_counters st ! key_index r c) \<le> m" by (auto simp: key_debounce_due_def)
        from count_down_le_wait [OF key_elapsed_later [OF ok due d r c k(1)] k(2)]
        show ?thesis using R(1) [OF r c k(1)] R(3,4) [OF r c] by (auto simp: count_down_eq_0)
      qed (use R(4) [OF r c] in auto)
    qed (rule R)
  qed
  assume "debounce_eager_pk now raw changed st cooked = (f, st', cooked')"
  note res = eager_pk_call [OF ok raw this]
  show "key_debounce_ok n st' cooked'"
    by (rule res) (use le in \<open>auto simp: key_debounce_ok_def\<close>)
  show "f = (cooked' \<noteq> cooked)" by (rule res)
  show "bit (cooked' ! r) c = bit (cooked ! r) c \<or> bit (cooked' ! r) c = bit (raw ! r) c"
    if "r < n"
    by (rule res, cases "c < MATRIX_COLS") (use that in \<open>auto simp: high_bits_def not_less\<close>)
qed

section \<open>asym_eager_defer_pk meets the contract\<close>

text \<open>What the update loop does to one key: its counter and its cooked bit.\<close>

definition asym_expired :: "u8 \<Rightarrow> debounce_counter_t \<Rightarrow> bool" where
  "asym_expired el ct \<longleftrightarrow> ct_time ct \<noteq> 0 \<and> ct_time ct \<le> el"

lemma key_loop_asym_update:
  "key_loop (\<lambda>(d :: unit). asym_update_key raw el) (\<lambda>_ _. ())
    (\<lambda>(f, st, cooked) r c. (ad_counters st ! key_index r c, bit (cooked ! r) c))
    (\<lambda>_ r c (ct, b). (ct\<lparr>ct_time := count_down el (ct_time ct)\<rparr>,
       if asym_expired el ct \<and> \<not> ct_pressed ct then bit (raw ! r) c else b))
    (\<lambda>i (f, st, cooked). if i = (0 :: nat) then ad_counters_need_update st
       else if i = 1 then ad_matrix_need_update st else f)
    (\<lambda>i _ r c (ct, b). if i = 0 then el < ct_time ct
       else if i = 1 then asym_expired el ct \<and> ct_pressed ct
       else asym_expired el ct \<and> \<not> ct_pressed ct \<and> b \<noteq> bit (raw ! r) c)
    (\<lambda>n (f, st, cooked). length cooked = n \<and> length (ad_counters st) = n * MATRIX_COLS \<and>
       ad_last_time st = t \<and> high_bits n cooked cooked0)"
  by unfold_locales
    (auto simp: asym_update_key_def Let_def count_down_def asym_expired_def key_facts bit_set_key
      set_key_unchanged not_le eq_commute [of "_ OR _"] intro!: high_bits_update
      split: prod.splits if_splits)

lemma key_loop_asym_transfer:
  "key_loop (asym_transfer_key raw) (\<lambda>s r. raw ! r XOR snd (snd s) ! r)
    (\<lambda>(f, st, cooked) r c. (ad_counters st ! key_index r c, bit (cooked ! r) c))
    (\<lambda>d r c (ct, b).
       if bit d c then
         (if ct_time ct = 0 then
            (\<lparr> ct_pressed = bit (raw ! r) c, ct_time = DEBOUNCE \<rparr>, if bit (raw ! r) c then \<not> b else b)
          else (ct, b))
       else if ct_time ct \<noteq> 0 \<and> \<not> ct_pressed ct then (ct\<lparr>ct_time := 0\<rparr>, b) else (ct, b))
    (\<lambda>i (f, st, cooked). if i then ad_counters_need_update st else f)
    (\<lambda>i d r c (ct, b). bit d c \<and> ct_time ct = 0 \<and> (i \<or> bit (raw ! r) c))
    (\<lambda>n (f, st, cooked). length cooked = n \<and> length (ad_counters st) = n * MATRIX_COLS \<and>
       ad_last_time st = t \<and> high_bits n cooked cooked0)"
  by unfold_locales
    (auto simp: asym_transfer_key_def Let_def key_facts bit_flip_key and_bit_mask_eq_0
      intro!: high_bits_update split: prod.splits if_splits)

lemma asym_updated:
  assumes "length raw = n" "length cooked = n" "length (ad_counters st) = n * MATRIX_COLS"
    "asym_update raw el st cooked = (f, st', cooked')"
  shows "length cooked' = n" "length (ad_counters st') = n * MATRIX_COLS"
    "ad_last_time st' = ad_last_time st" "high_bits n cooked' cooked"
    "r < n \<Longrightarrow> c < MATRIX_COLS \<Longrightarrow> ad_counters st' ! key_index r c =
      (ad_counters st ! key_index r c)\<lparr>ct_time := count_down el (ct_time (ad_counters st ! key_index r c))\<rparr>"
    "r < n \<Longrightarrow> c < MATRIX_COLS \<Longrightarrow> bit (cooked' ! r) c =
      (if asym_expired el (ad_counters st ! key_index r c) \<and>
          \<not> ct_pressed (ad_counters st ! key_index r c)
       then bit (raw ! r) c else bit (cooked ! r) c)"
    "ad_counters_need_update st' =
      (\<exists>r < n. \<exists>c < MATRIX_COLS. el < ct_time (ad_counters st ! key_index r c))"
    "ad_matrix_need_update st' = (\<exists>r < n. \<exists>c < MATRIX_COLS.
       asym_expired el (ad_counters st ! key_index r c) \<and> ct_pressed (ad_counters st ! key_index r c))"
    "f = (cooked' \<noteq> cooked)"
proof -
  let ?s0 = "(False, st\<lparr>ad_counters_need_update := False, ad_matrix_need_update := False\<rparr>, cooked)"
  note L = key_loop_asym_update [where el = el and raw = raw and t = "ad_last_time st"
      and ?cooked0.0 = cooked]
  have v: "case ?s0 of (f, st1, cooked1) \<Rightarrow> length cooked1 = n \<and>
      length (ad_counters st1) = n * MATRIX_COLS \<and> ad_last_time st1 = ad_last_time st \<and>
      high_bits n cooked1 cooked"
    using assms by simp
  have e: "key_fold (\<lambda>(d :: unit). asym_update_key raw el) (\<lambda>_ _. ()) n ?s0 = (f, st', cooked')"
    using assms by (simp add: asym_update_def key_fold_def)
  from key_loop.loop_valid [OF L v]
  show len: "length cooked' = n" "length (ad_counters st') = n * MATRIX_COLS"
    "ad_last_time st' = ad_last_time st" and h: "high_bits n cooked' cooked" by (simp_all add: e)
  show "ad_counters st' ! key_index r c =
      (ad_counters st ! key_index r c)\<lparr>ct_time := count_down el (ct_time (ad_counters st ! key_index r c))\<rparr>"
    and b: "bit (cooked' ! r) c =
      (if asym_expired el (ad_counters st ! key_index r c) \<and>
          \<not> ct_pressed (ad_counters st ! key_index r c)
       then bit (raw ! r) c else bit (cooked ! r) c)"
    if "r < n" "c < MATRIX_COLS" for r c
    using key_loop.loop_view [OF L v that] by (simp_all add: e)
  note F = key_loop.loop_flag [OF L v]
  from F [of 0] F [of 1]
  show "ad_counters_need_update st' =
      (\<exists>r < n. \<exists>c < MATRIX_COLS. el < ct_time (ad_counters st ! key_index r c))"
    "ad_matrix_need_update st' = (\<exists>r < n. \<exists>c < MATRIX_COLS.
       asym_expired el (ad_counters st ! key_index r c) \<and> ct_pressed (ad_counters st ! key_index r c))"
    by (simp_all add: e)
  have "f = (\<exists>r < n. \<exists>c < MATRIX_COLS. asym_expired el (ad_counters st ! key_index r c) \<and>
      \<not> ct_pressed (ad_counters st ! key_index r c) \<and> bit (cooked ! r) c \<noteq> bit (raw ! r) c)"
    using F [of 2] by (simp add: e)
  also have "\<dots> = (cooked' \<noteq> cooked)"
    unfolding matrix_neq [OF len(1) assms(2) h] by (rule ex_key_cong) (auto simp: b)
  finally show "f = (cooked' \<noteq> cooked)" .
qed

text \<open>What the transfer loop does to one key.\<close>

definition asym_transferred_key :: "bool \<Rightarrow> debounce_counter_t \<times> bool \<Rightarrow> debounce_counter_t \<times> bool" where
  "asym_transferred_key w = (\<lambda>(ct, b).
    if w \<noteq> b then
      (if ct_time ct = 0 then (\<lparr> ct_pressed = w, ct_time = DEBOUNCE \<rparr>, w \<or> b) else (ct, b))
    else if ct_time ct \<noteq> 0 \<and> \<not> ct_pressed ct then (ct\<lparr>ct_time := 0\<rparr>, b) else (ct, b))"

lemma asym_transferred:
  assumes "length raw = n" "length cooked = n" "length (ad_counters st) = n * MATRIX_COLS"
    "asym_transfer raw f0 st cooked = (f, st', cooked')"
  shows "length cooked' = n" "length (ad_counters st') = n * MATRIX_COLS"
    "ad_last_time st' = ad_last_time st" "high_bits n cooked' cooked"
    "r < n \<Longrightarrow> c < MATRIX_COLS \<Longrightarrow>
      (ad_counters st' ! key_index r c, bit (cooked' ! r) c) =
      asym_transferred_key (bit (raw ! r) c) (ad_counters st ! key_index r c, bit (cooked ! r) c)"
    "ad_counters_need_update st' = (ad_counters_need_update st \<or>
      (\<exists>r < n. \<exists>c < MATRIX_COLS. bit (raw ! r) c \<noteq> bit (cooked ! r) c \<and>
         ct_time (ad_counters st ! key_index r c) = 0))"
    "f = (f0 \<or> cooked' \<noteq> cooked)"
proof -
  let ?s0 = "(f0, st\<lparr>ad_matrix_need_update := False\<rparr>, cooked)"
  note L = key_loop_asym_transfer [where raw = raw and t = "ad_last_time st" and ?cooked0.0 = cooked]
  have v: "case ?s0 of (f, st1, cooked1) \<Rightarrow> length cooked1 = n \<and>
      length (ad_counters st1) = n * MATRIX_COLS \<and> ad_last_time st1 = ad_last_time st \<and>
      high_bits n cooked1 cooked"
    using assms by simp
  have r: "asym_transfer_row raw r s = fold (asym_transfer_key raw (raw ! r XOR snd (snd s) ! r) r) [0..<MATRIX_COLS] s"
    for r s by (simp add: asym_transfer_row_def case_prod_beta Let_def)
  have e: "key_fold (asym_transfer_key raw) (\<lambda>s r. raw ! r XOR snd (snd s) ! r) n ?s0 =
      (f, st', cooked')"
    using assms unfolding asym_transfer_def key_fold_def r [abs_def] by simp
  from key_loop.loop_valid [OF L v]
  show len: "length cooked' = n" "length (ad_counters st') = n * MATRIX_COLS"
    "ad_last_time st' = ad_last_time st" and h: "high_bits n cooked' cooked" by (simp_all add: e)
  show k: "(ad_counters st' ! key_index r c, bit (cooked' ! r) c) =
      asym_transferred_key (bit (raw ! r) c) (ad_counters st ! key_index r c, bit (cooked ! r) c)"
    if "r < n" "c < MATRIX_COLS" for r c
    using key_loop.loop_view [OF L v that]
    by (auto simp: e bit_xor_iff asym_transferred_key_def split: if_splits)
  have b: "bit (cooked' ! r) c =
      (bit (cooked ! r) c \<or> bit (raw ! r) c \<and> ct_time (ad_counters st ! key_index r c) = 0)"
    if "r < n" "c < MATRIX_COLS" for r c
    using k [OF that] by (auto simp: asym_transferred_key_def split: if_splits)
  note F = key_loop.loop_flag [OF L v]
  from F [of True]
  show "ad_counters_need_update st' = (ad_counters_need_update st \<or>
      (\<exists>r < n. \<exists>c < MATRIX_COLS. bit (raw ! r) c \<noteq> bit (cooked ! r) c \<and>
         ct_time (ad_counters st ! key_index r c) = 0))"
    by (simp add: e bit_xor_iff conj_assoc)
  have "f = (f0 \<or> (\<exists>r < n. \<exists>c < MATRIX_COLS. bit (raw ! r) c \<noteq> bit (cooked ! r) c \<and>
      ct_time (ad_counters st ! key_index r c) = 0 \<and> bit (raw ! r) c))"
    using F [of False] by (simp add: e bit_xor_iff conj_assoc)
  also have "\<dots> = (f0 \<or> cooked' \<noteq> cooked)"
    unfolding matrix_neq [OF len(1) assms(2) h]
    by (intro arg_cong2 [where f = "(\<or>)"] refl ex_key_cong) (auto simp: b)
  finally show "f = (f0 \<or> cooked' \<noteq> cooked)" .
qed

text \<open>What one call does to one key: \<open>runs\<close> says whether the transfer loop runs.\<close>

definition asym_key ::
    "u8 \<Rightarrow> bool \<Rightarrow> bool \<Rightarrow> debounce_counter_t \<times> bool \<Rightarrow> debounce_counter_t \<times> bool" where
  "asym_key el runs w = (\<lambda>(ct, b).
    let v = (ct\<lparr>ct_time := count_down el (ct_time ct)\<rparr>,
             if asym_expired el ct \<and> \<not> ct_pressed ct then w else b)
    in if runs then asym_transferred_key w v else v)"

definition asym_ok :: "nat \<Rightarrow> asym_debounce \<Rightarrow> matrix \<Rightarrow> bool" where
  "asym_ok n st cooked \<longleftrightarrow>
    length cooked = n \<and> length (ad_counters st) = n * MATRIX_COLS \<and>
    (\<forall>r < n. \<forall>c < MATRIX_COLS. ct_time (ad_counters st ! key_index r c) \<le> DEBOUNCE \<and>
       (ct_time (ad_counters st ! key_index r c) \<noteq> 0 \<longrightarrow>
          ad_counters_need_update st \<and> bit (cooked ! r) c))"

definition asym_elapsed :: "u32 \<Rightarrow> asym_debounce \<Rightarrow> u8" where
  "asym_elapsed now st = (if ad_counters_need_update st then cap_elapsed (now - ad_last_time st) else 0)"

text \<open>
  A pressed key that now reads released waits for its lockout to end and then for the release
  timer.
\<close>

definition asym_key_due :: "nat \<Rightarrow> bool \<Rightarrow> debounce_counter_t \<times> bool \<Rightarrow> bool" where
  "asym_key_due m w = (\<lambda>(ct, b).
    b = w \<or> ct_time ct \<noteq> 0 \<and>
      unat (ct_time ct) + (if ct_pressed ct then unat DEBOUNCE else 0) \<le> m)"

definition asym_due :: "nat \<Rightarrow> u32 \<Rightarrow> asym_debounce \<Rightarrow> matrix \<Rightarrow> matrix \<Rightarrow> bool" where
  "asym_due m t st raw cooked \<longleftrightarrow>
    (ad_counters_need_update st \<longrightarrow> ad_last_time st = t) \<and>
    (\<forall>r < length raw. \<forall>c < MATRIX_COLS.
       asym_key_due m (bit (raw ! r) c) (ad_counters st ! key_index r c, bit (cooked ! r) c))"

lemma asym_call:
  assumes "asym_ok n st cooked" "length raw = n"
    "debounce_asym now raw changed st cooked = (f, st', cooked')"
  defines "el \<equiv> asym_elapsed now st"
  obtains runs where "changed \<Longrightarrow> runs"
    "\<And>r c. r < n \<Longrightarrow> c < MATRIX_COLS \<Longrightarrow> asym_expired el (ad_counters st ! key_index r c) \<Longrightarrow>
      ct_pressed (ad_counters st ! key_index r c) \<Longrightarrow> runs"
    "length cooked' = n" "length (ad_counters st') = n * MATRIX_COLS" "high_bits n cooked' cooked"
    "f = (cooked' \<noteq> cooked)"
    "ad_counters_need_update st' \<Longrightarrow> ad_last_time st' = now"
    "\<And>r c. r < n \<Longrightarrow> c < MATRIX_COLS \<Longrightarrow>
      (ad_counters st' ! key_index r c, bit (cooked' ! r) c) =
      asym_key el runs (bit (raw ! r) c) (ad_counters st ! key_index r c, bit (cooked ! r) c)"
    "\<And>r c. r < n \<Longrightarrow> c < MATRIX_COLS \<Longrightarrow> ct_time (ad_counters st' ! key_index r c) \<noteq> 0 \<Longrightarrow>
      ad_counters_need_update st'"
proof -
  have len: "length cooked = n" "length (ad_counters st) = n * MATRIX_COLS"
    and need: "\<And>r c. r < n \<Longrightarrow> c < MATRIX_COLS \<Longrightarrow> ct_time (ad_counters st ! key_index r c) \<noteq> 0 \<Longrightarrow>
      ad_counters_need_update st"
    using assms(1) by (auto simp: asym_ok_def)
  define key where "key r c = (ad_counters st ! key_index r c, bit (cooked ! r) c)" for r c
  obtain f1 st1 cooked1 where p1: "(if ad_counters_need_update st then
        (let st0 = st\<lparr>ad_last_time := now\<rparr> in
         if cap_elapsed (now - ad_last_time st) > 0
         then asym_update raw (cap_elapsed (now - ad_last_time st)) st0 cooked
         else (False, st0, cooked))
      else (False, st, cooked)) = (f1, st1, cooked1)" by (metis prod_cases3)
  let ?st2 = "if \<not> ad_counters_need_update st then st1\<lparr>ad_last_time := now\<rparr> else st1"
  have D: "debounce_asym now raw changed st cooked =
      (if changed \<or> ad_matrix_need_update st1 then asym_transfer raw f1 ?st2 cooked1
       else (f1, st1, cooked1))"
    using p1 by (auto simp: debounce_asym_def Let_def TIMER_DIFF_32_def split: prod.splits)
  have ct0: "ct\<lparr>ct_time := ct_time ct\<rparr> = ct" for ct :: debounce_counter_t by simp
  consider "\<not> ad_counters_need_update st" | "ad_counters_need_update st" "el = 0"
    | "ad_counters_need_update st" "el \<noteq> 0" by blast
  then have 1: "length cooked1 = n \<and> length (ad_counters st1) = n * MATRIX_COLS \<and>
      high_bits n cooked1 cooked \<and> f1 = (cooked1 \<noteq> cooked) \<and>
      (ad_counters_need_update st \<longrightarrow> ad_last_time st1 = now) \<and>
      (\<not> ad_counters_need_update st \<longrightarrow> \<not> ad_counters_need_update st1) \<and>
      (\<forall>r < n. \<forall>c < MATRIX_COLS.
        (ad_counters st1 ! key_index r c, bit (cooked1 ! r) c) = asym_key el False (bit (raw ! r) c) (key r c) \<and>
        (ct_time (ad_counters st1 ! key_index r c) \<noteq> 0 \<longrightarrow> ad_counters_need_update st1) \<and>
        (asym_expired el (ad_counters st ! key_index r c) \<and> ct_pressed (ad_counters st ! key_index r c) \<longrightarrow>
          ad_matrix_need_update st1))"
  proof cases
    case 1
    then show ?thesis using p1 len need
      by (auto simp: el_def asym_elapsed_def asym_key_def asym_expired_def key_def)
  next
    case 2
    then show ?thesis using p1 len need
      by (auto simp: el_def asym_elapsed_def asym_key_def asym_expired_def key_def)
  next
    case 3
    then have "asym_update raw el (st\<lparr>ad_last_time := now\<rparr>) cooked = (f1, st1, cooked1)"
      using p1 by (simp add: el_def asym_elapsed_def word_gt_0)
    note U = asym_updated [OF assms(2) len(1) _ this, simplified, OF len(2)]
    show ?thesis using U 3(1) by (auto simp: asym_key_def count_down_eq_0 not_le key_def)
  qed
  have l2: "length (ad_counters ?st2) = n * MATRIX_COLS" "ad_last_time ?st2 = now" using 1 by simp_all
  have k1: "(ad_counters st1 ! key_index r c, bit (cooked1 ! r) c) =
      asym_key el False (bit (raw ! r) c) (key r c)" if "r < n" "c < MATRIX_COLS" for r c
    using 1 that by blast
  show thesis
  proof (cases "changed \<or> ad_matrix_need_update st1")
    case True
    then have "asym_transfer raw f1 ?st2 cooked1 = (f, st', cooked')" using D assms(3) by simp
    note T = asym_transferred [OF assms(2) _ l2(1) this]
    have lc: "length cooked1 = n" using 1 by blast
    have key: "(ad_counters st' ! key_index r c, bit (cooked' ! r) c) =
        asym_key el True (bit (raw ! r) c) (key r c)" if "r < n" "c < MATRIX_COLS" for r c
      using T(5) [OF lc that] k1 [OF that] by (auto simp: asym_key_def key_def Let_def)
    have h: "high_bits n cooked' cooked" "high_bits n cooked1 cooked" "high_bits n cooked' cooked1"
      using T(4) [OF lc] 1 high_bits_trans by blast+
    have "(cooked1 \<noteq> cooked \<or> cooked' \<noteq> cooked1) = (cooked' \<noteq> cooked)"
    proof (cases "cooked1 = cooked")
      case False
      then obtain r c where rc: "r < n" "c < MATRIX_COLS" "bit (cooked1 ! r) c \<noteq> bit (cooked ! r) c"
        using matrix_neq [OF lc len(1) h(2)] by blast
      then have "bit (cooked1 ! r) c = bit (raw ! r) c"
        using k1 [OF rc(1,2)] by (auto simp: asym_key_def key_def split: if_splits)
      then have "bit (cooked' ! r) c = bit (cooked1 ! r) c"
        using T(5) [OF lc rc(1,2)] by (auto simp: asym_transferred_key_def split: if_splits)
      with rc have "cooked' \<noteq> cooked" by auto
      then show ?thesis using False by blast
    qed auto
    then have f: "f = (cooked' \<noteq> cooked)" using T(7) [OF lc] 1 by blast
    show thesis
    proof (rule that [of True])
      show "ad_counters_need_update st'"
        if "r < n" "c < MATRIX_COLS" "ct_time (ad_counters st' ! key_index r c) \<noteq> 0" for r c
      proof -
        have "ct_time (ad_counters st1 ! key_index r c) \<noteq> 0 \<or>
            bit (raw ! r) c \<noteq> bit (cooked1 ! r) c \<and> ct_time (ad_counters ?st2 ! key_index r c) = 0"
          using T(5) [OF lc that(1,2)] that(3)
          by (auto simp: asym_transferred_key_def split: if_splits)
        moreover have "ad_counters_need_update ?st2" if "ct_time (ad_counters st1 ! key_index r c) \<noteq> 0"
          using 1 that \<open>r < n\<close> \<open>c < MATRIX_COLS\<close> by auto
        ultimately show ?thesis using T(6) [OF lc] that(1,2) by blast
      qed
      show "ad_last_time st' = now" using T(3) [OF lc] l2 by simp
    qed (use T(1,2) [OF lc] key f h(1) in \<open>auto simp: key_def\<close>)
  next
    case False
    then have "f = f1" "st' = st1" "cooked' = cooked1" using D assms(3) by auto
    then show thesis
      by (intro that [of False]) (use False 1 in \<open>auto simp: key_def\<close>)
  qed
qed

lemma asym_key_steps:
  assumes "ct_time ct \<le> DEBOUNCE" "ct_time ct \<noteq> 0 \<Longrightarrow> b"
    "asym_key el runs w (ct, b) = (ct', b')"
  shows "ct_time ct' \<le> DEBOUNCE" "ct_time ct' \<noteq> 0 \<Longrightarrow> b'" "b' = b \<or> b' = w"
    "runs \<Longrightarrow> asym_key_due (2 * unat DEBOUNCE) w (ct', b')"
    "asym_key_due m w (ct, b) \<Longrightarrow> d < 2 \<Longrightarrow> (ct_time ct \<noteq> 0 \<Longrightarrow> unat el = d) \<Longrightarrow>
      (asym_expired el ct \<Longrightarrow> ct_pressed ct \<Longrightarrow> runs) \<Longrightarrow> asym_key_due (m - d) w (ct', b')"
proof -
  let ?k = "count_down el (ct_time ct)"
  have le: "?k \<le> DEBOUNCE" using assms(1) by (rule count_down_DEBOUNCE)
  have u: "unat ?k = unat (ct_time ct) - unat el" by (rule unat_count_down)
  have z: "?k = 0 \<longleftrightarrow> unat (ct_time ct) \<le> unat el" by (simp add: count_down_eq_0 word_le_nat_alt)
  have e: "asym_expired el ct \<longleftrightarrow> ct_time ct \<noteq> 0 \<and> ?k = 0"
    by (simp add: asym_expired_def count_down_eq_0)
  have k0: "?k \<noteq> 0 \<Longrightarrow> ct_time ct \<noteq> 0" by auto
  have nz: "ct_time ct \<noteq> 0 \<longleftrightarrow> 0 < unat (ct_time ct)" using unat_eq_0_word [of "ct_time ct"] by auto
  note defs = asym_key_def asym_transferred_key_def Let_def e
  show "ct_time ct' \<le> DEBOUNCE"
    using assms(3) le by (auto simp: defs split: if_splits)
  show "ct_time ct' \<noteq> 0 \<Longrightarrow> b'"
    using assms(2,3) k0 by (auto simp: defs split: if_splits)
  show "b' = b \<or> b' = w"
    using assms(3) by (auto simp: defs split: if_splits)
  show "asym_key_due (2 * unat DEBOUNCE) w (ct', b')" if runs
    using assms(3) le that
    by (auto simp: defs asym_key_due_def word_le_nat_alt split: if_splits)
  show "asym_key_due (m - d) w (ct', b')"
    if "asym_key_due m w (ct, b)" "d < 2" "ct_time ct \<noteq> 0 \<Longrightarrow> unat el = d"
      "asym_expired el ct \<Longrightarrow> ct_pressed ct \<Longrightarrow> runs"
  proof (cases "b = w")
    case True
    then show ?thesis using assms(3) by (auto simp: defs asym_key_due_def split: if_splits)
  next
    case False
    with that(1) have k: "ct_time ct \<noteq> 0"
      "unat (ct_time ct) + (if ct_pressed ct then unat DEBOUNCE else 0) \<le> m"
      by (auto simp: asym_key_due_def)
    then have b: "b" "\<not> w" and el: "unat el = d" using assms(2) False that(3) by auto
    show ?thesis
    proof (cases "?k = 0")
      case True
      then have "d \<le> 1" "1 \<le> unat (ct_time ct)" "unat (ct_time ct) \<le> d"
        using that(2) k(1) nz z el by auto
      then show ?thesis using True k b that(4) assms(3)
        by (auto simp: defs asym_key_due_def split: if_splits)
    next
      case False
      then have "unat el < unat (ct_time ct)" using z by simp
      with False show ?thesis using k b assms(3) u el
        by (auto simp: defs asym_key_due_def split: if_splits)
    qed
  qed
qed

lemma asym_key_ok:
  assumes "asym_ok n st cooked" "r < n" "c < MATRIX_COLS"
  shows "ct_time (ad_counters st ! key_index r c) \<le> DEBOUNCE"
    "ct_time (ad_counters st ! key_index r c) \<noteq> 0 \<Longrightarrow> bit (cooked ! r) c"
    "ct_time (ad_counters st ! key_index r c) \<noteq> 0 \<Longrightarrow> ad_counters_need_update st"
  using assms by (auto simp: asym_ok_def)

lemma asym_call_ok:
  assumes "asym_ok n st cooked" "length raw = n"
    "debounce_asym now raw changed st cooked = (f, st', cooked')"
  shows "asym_ok n st' cooked'" "f = (cooked' \<noteq> cooked)"
    "r < n \<Longrightarrow> bit (cooked' ! r) c = bit (cooked ! r) c \<or> bit (cooked' ! r) c = bit (raw ! r) c"
    "changed \<Longrightarrow> asym_due (2 * unat DEBOUNCE) now st' raw cooked'"
proof -
  obtain runs where R: "changed \<Longrightarrow> runs" "length cooked' = n"
    "length (ad_counters st') = n * MATRIX_COLS" "high_bits n cooked' cooked"
    "f = (cooked' \<noteq> cooked)" "ad_counters_need_update st' \<Longrightarrow> ad_last_time st' = now"
    "\<And>r c. r < n \<Longrightarrow> c < MATRIX_COLS \<Longrightarrow>
      asym_key (asym_elapsed now st) runs (bit (raw ! r) c)
        (ad_counters st ! key_index r c, bit (cooked ! r) c) =
      (ad_counters st' ! key_index r c, bit (cooked' ! r) c)"
    "\<And>r c. r < n \<Longrightarrow> c < MATRIX_COLS \<Longrightarrow> ct_time (ad_counters st' ! key_index r c) \<noteq> 0 \<Longrightarrow>
      ad_counters_need_update st'"
    by (rule asym_call [OF assms]) (rule that, assumption+, simp, assumption)
  note K = asym_key_steps [OF asym_key_ok(1,2) [OF assms(1)] R(7)]
  show "asym_ok n st' cooked'"
    unfolding asym_ok_def using R(2,3,8) K(1,2) by simp
  show "f = (cooked' \<noteq> cooked)" by (rule R)
  show "asym_due (2 * unat DEBOUNCE) now st' raw cooked'" if changed
    unfolding asym_due_def assms(2) using R(1) [OF that] R(6) K(4) by simp
  show "bit (cooked' ! r) c = bit (cooked ! r) c \<or> bit (cooked' ! r) c = bit (raw ! r) c"
    if "r < n"
  proof (cases "c < MATRIX_COLS")
    case True
    then show ?thesis using K(3) [OF that True that True] that by simp
  next
    case False
    then show ?thesis using R(4) that by (simp add: high_bits_def)
  qed
qed
lemma asym_call_wait:
  assumes "asym_ok n st cooked" "length raw = n" "asym_due m t st raw cooked" "d < 2"
    "debounce_asym (t + of_nat d) raw False st cooked = (f, st', cooked')"
  shows "asym_due (m - d) (t + of_nat d) st' raw cooked'"
proof (rule asym_call [OF assms(1,2,5)])
  fix runs
  let ?el = "asym_elapsed (t + of_nat d) st"
  assume R: "\<And>r c. r < n \<Longrightarrow> c < MATRIX_COLS \<Longrightarrow> asym_expired ?el (ad_counters st ! key_index r c) \<Longrightarrow>
      ct_pressed (ad_counters st ! key_index r c) \<Longrightarrow> runs"
    "ad_counters_need_update st' \<Longrightarrow> ad_last_time st' = t + of_nat d"
    "\<And>r c. r < n \<Longrightarrow> c < MATRIX_COLS \<Longrightarrow>
      (ad_counters st' ! key_index r c, bit (cooked' ! r) c) =
      asym_key ?el runs (bit (raw ! r) c) (ad_counters st ! key_index r c, bit (cooked ! r) c)"
  have "unat ?el = d"
    if "r < n" "c < MATRIX_COLS" "ct_time (ad_counters st ! key_index r c) \<noteq> 0" for r c
    using asym_key_ok(3) [OF assms(1) that] assms(3,4) cap_elapsed_later [of d t]
    by (simp add: asym_elapsed_def asym_due_def)
  then show "asym_due (m - d) (t + of_nat d) st' raw cooked'"
    using assms(3) R(2) asym_key_steps(5) [OF asym_key_ok(1,2) [OF assms(1)] R(3) [symmetric] _ assms(4)] R(1)
    unfolding asym_due_def assms(2) by simp
qed

interpretation asym: settling_debouncer debounce_asym asym_ok asym_due "2 * unat DEBOUNCE" 2
proof (unfold_locales, goal_cases)
  case (1 n st cooked)
  then show ?case by (simp add: asym_ok_def)
next
  case 2
  then show ?case by (rule asym_call_ok)
next
  case 3
  then show ?case by (rule asym_call_ok)
next
  case 4
  then show ?case by (rule asym_call_ok)
next
  case 5
  then show ?case by (rule asym_call_ok(4)) simp
next
  case 6
  then show ?case by (rule asym_call_wait)
next
  case 7
  then show ?case by (auto simp: asym_due_def asym_key_due_def unat_eq_0_word)
qed

section \<open>Properties\<close>

text \<open>
  C22: after a change, the cooked matrix of the per-key debouncers agrees with the raw one once the
  scans of the unchanged matrix span \<open>DEBOUNCE\<close> milliseconds; \<open>asym_eager_defer_pk\<close> needs at most
  twice that, for a key that is released while its press is still locked out, when it is called
  every millisecond.
\<close>

theorem key_debouncers_settle:
  assumes "key_debounce_ok n st1 cooked" "key_debounce_ok n st2 cooked" "asym_ok n st3 cooked"
    "length raw = n" "list_all (\<lambda>d. d < 65536) ds" "unat DEBOUNCE \<le> sum_list ds"
    "list_all (\<lambda>d. d < 2) es" "2 * unat DEBOUNCE \<le> sum_list es"
    "r < n" "c < MATRIX_COLS"
  shows "bit (debounce_settled debounce_defer_pk t raw ds st1 cooked ! r) c = bit (raw ! r) c \<and>
    bit (debounce_settled debounce_eager_pk t raw ds st2 cooked ! r) c = bit (raw ! r) c \<and>
    bit (debounce_settled debounce_asym t raw es st3 cooked ! r) c = bit (raw ! r) c"
  using defer_pk.settles [OF assms(1,4-6,9,10)] eager_pk.settles [OF assms(2,4-6,9,10)]
    asym.settles [OF assms(3,4,7-10)]
  by simp

theorem key_debouncers_settle_witness:
  "\<not> bit (debounce_settled debounce_asym 100 [0] (replicate 10 1)
      \<lparr> ad_counters = replicate 6 \<lparr> ct_pressed = True, ct_time = 5 \<rparr>,
        ad_last_time = 100, ad_counters_need_update = True, ad_matrix_need_update = False \<rparr> [63] ! 0) 0"
proof -
  have "bit (63 :: u8) c" if "c < 6" for c
    using that by (auto simp: less_Suc_eq numeral_eq_Suc)
  then show ?thesis
    using key_debouncers_settle [of 1 "key_debounce_init 1" "[63]" "key_debounce_init 1"
        "\<lparr> ad_counters = replicate 6 \<lparr> ct_pressed = True, ct_time = 5 \<rparr>,
          ad_last_time = 100, ad_counters_need_update = True, ad_matrix_need_update = False \<rparr>"
        "[0]" "[5]" "replicate 10 1" 0 0 100]
    by (simp add: key_debounce_ok_def key_debounce_init_def asym_ok_def MATRIX_COLS_def DEBOUNCE_def
        key_index_def list_all_length sum_list_replicate)
qed

text \<open>
  C27: every call of the per-key debouncers changes a cooked bit only to its raw value, and returns
  true exactly when it changed the cooked matrix.
\<close>

theorem key_debouncers_report_exactly:
  assumes "key_debounce_ok n st1 cooked" "asym_ok n st2 cooked" "length raw = n" "r < n"
  shows "debounce_call_ok debounce_defer_pk now raw changed st1 cooked r c \<and>
    debounce_call_ok debounce_eager_pk now raw changed st1 cooked r c \<and>
    debounce_call_ok debounce_asym now raw changed st2 cooked r c"
  using defer_pk.call_ok [OF assms(1,3,4)] eager_pk.call_ok [OF assms(1,3,4)]
    asym.call_ok [OF assms(2-4)]
  by simp

theorem key_debouncers_report_exactly_witness:
  "debounce_call_ok debounce_asym 7 [1] True (asym_debounce_init (replicate 6 False)) [0] 0 0"
  using key_debouncers_report_exactly [of 1 "key_debounce_init 1" "[0]"
      "asym_debounce_init (replicate 6 False)" "[1]" 0 7 True 0]
  by (simp add: key_debounce_ok_def key_debounce_init_def asym_ok_def asym_debounce_init_def
      key_index_def MATRIX_COLS_def)

text \<open>Scans of a bouncing matrix: the milliseconds since the scan before, the raw matrix, the flag.\<close>

fun debounce_noise ::
    "'st debounce_fun \<Rightarrow> u32 \<Rightarrow> (nat \<times> matrix \<times> bool) list \<Rightarrow> 'st \<Rightarrow> matrix \<Rightarrow> 'st \<times> matrix" where
  "debounce_noise deb t [] st cooked = (st, cooked)"
| "debounce_noise deb t ((d, raw, changed) # scans) st cooked =
    (let (f, st', cooked') = deb (t + of_nat d) raw changed st cooked
     in debounce_noise deb (t + of_nat d) scans st' cooked')"

lemma eager_pk_locked:
  "key_debounce_ok n st cooked \<Longrightarrow> list_all (\<lambda>(d, raw, changed). length raw = n) scans \<Longrightarrow>
    dk_last_time st = t \<Longrightarrow> sum_list (map fst scans) < unat (dk_counters st ! key_index r c) \<Longrightarrow>
    r < n \<Longrightarrow> c < MATRIX_COLS \<Longrightarrow>
    bit (snd (debounce_noise debounce_eager_pk t scans st cooked) ! r) c = bit (cooked ! r) c"
proof (induction scans arbitrary: t st cooked)
  case (Cons s scans)
  obtain d raw changed where s: "s = (d, raw, changed)" by (metis prod_cases3)
  have raw: "length raw = n" using Cons.prems(2) by (simp add: s)
  obtain f st' cooked' where
    D: "debounce_eager_pk (t + of_nat d) raw changed st cooked = (f, st', cooked')" by (metis prod_cases3)
  let ?k = "dk_counters st ! key_index r c"
  have sum: "d + sum_list (map fst scans) < unat ?k" using Cons.prems(4) by (simp add: s)
  then have d: "d < 65536" using unat_less_exp [of ?k] by simp
  have "?k \<noteq> 0" using sum by auto
  then have "dk_counters_need_update st" using Cons.prems(1,5,6) by (simp add: key_debounce_ok_def)
  then have el: "unat (key_elapsed (t + of_nat d) st) = min d 255"
    using cap_elapsed_later [OF d, of t] Cons.prems(3) by (simp add: key_elapsed_def)
  then have k: "unat (count_down (key_elapsed (t + of_nat d) st) ?k) = unat ?k - d"
    using sum unat_less_exp [of ?k] by (simp add: unat_count_down min_def)
  then have nz: "count_down (key_elapsed (t + of_nat d) st) ?k \<noteq> 0" using sum by auto
  have 1: "bit (cooked' ! r) c = bit (cooked ! r) c \<and> dk_last_time st' = t + of_nat d \<and>
      sum_list (map fst scans) < unat (dk_counters st' ! key_index r c)"
    by (rule eager_pk_call [OF Cons.prems(1) raw D]) (use Cons.prems(5,6) nz k sum in auto)
  have "key_debounce_ok n st' cooked'" by (rule eager_pk.ok_deb [OF Cons.prems(1) raw D])
  then show ?case using Cons.IH 1 Cons.prems(2,5,6) by (simp add: s D)
qed simp

text \<open>
  C24: once \<open>sym_eager_pk\<close> has passed an edge of a key on, the key keeps its new state for as long
  as the scans that follow add up to less than \<open>DEBOUNCE\<close> milliseconds, whatever they read.
\<close>

theorem eager_pk_locks_out_bounces:
  assumes "key_debounce_ok n st cooked" "length raw = n"
    "debounce_eager_pk t raw changed st cooked = (f, st', cooked')"
    "r < n" "c < MATRIX_COLS" "bit (cooked' ! r) c \<noteq> bit (cooked ! r) c"
    "list_all (\<lambda>(d, raw, changed). length raw = n) scans" "sum_list (map fst scans) < unat DEBOUNCE"
  shows "bit (snd (debounce_noise debounce_eager_pk t scans st' cooked') ! r) c = bit (raw ! r) c"
proof -
  have 1: "bit (cooked' ! r) c = bit (raw ! r) c \<and> dk_counters st' ! key_index r c = DEBOUNCE \<and>
      dk_last_time st' = t"
    by (rule eager_pk_call [OF assms(1-3)]) (use assms(4-6) in \<open>auto split: if_splits\<close>)
  then show ?thesis
    using eager_pk_locked [OF eager_pk.ok_deb [OF assms(1-3)] assms(7) _ _ assms(4,5)] assms(8)
    by simp
qed

theorem eager_pk_locks_out_bounces_witness:
  "\<exists>f st' cooked'. debounce_eager_pk 100 [1] True (key_debounce_init 1) [0] = (f, st', cooked') \<and>
    bit (snd (debounce_noise debounce_eager_pk 100 [(1, [0], True), (1, [1], True), (2, [0], True)]
      st' cooked') ! 0) 0"
proof -
  obtain f st' cooked' where
    D: "debounce_eager_pk 100 [1] True (key_debounce_init 1) [0] = (f, st', cooked')" by (metis prod_cases3)
  have ok: "key_debounce_ok 1 (key_debounce_init 1) [0]"
    by (simp add: key_debounce_ok_def key_debounce_init_def key_index_def)
  have b: "bit (cooked' ! 0) 0 \<noteq> bit ([0 :: u8] ! 0) 0"
    by (rule eager_pk_call [OF ok _ D]) (auto simp: key_debounce_init_def MATRIX_COLS_def key_index_def)
  show ?thesis
    using eager_pk_locks_out_bounces [OF ok _ D _ _ b, of "[(1, [0], True), (1, [1], True), (2, [0], True)]"] D
    by (auto simp: MATRIX_COLS_def DEBOUNCE_def)
qed

end
