(* ===== verification/Deferred_Exec.thy ===== *)
theory Deferred_Exec
  imports Qmk_Prelude "HOL-Library.Monad_Syntax"
begin

text \<open>
  Deferred execution, \<open>quantum/deferred_exec.c\<close>: a table of executors that are called back when
  their time has come, each named by a token.

  Callbacks are user code. What a callback can do to the table is a list of calls of the API, so
  that the behaviour of the callbacks is a function \<open>prog\<close> from the callback, the trigger time, its
  argument and the state to the calls it makes and the delay it returns. The field \<open>df_log\<close> records
  the invocations, for the statements about them. The model's list is the table together with its
  length; a null table and an empty one are refused alike.
\<close>

section \<open>The table\<close>

abbreviation (input) INVALID_DEFERRED_TOKEN :: u8 where "INVALID_DEFERRED_TOKEN \<equiv> 0"

definition MAX_DEFERRED_EXECUTORS :: nat where
  "MAX_DEFERRED_EXECUTORS = 8"

record ('c, 'a) deferred_executor_t =
  df_token :: u8
  df_trigger_time :: u32
  df_callback :: "'c option"
  df_cb_arg :: "'a option"

record ('c, 'a) deferred =
  df_current_token :: u8
  df_table :: "('c, 'a) deferred_executor_t list"
  df_last_exec :: u32
  df_log :: "(u32 \<times> 'c \<times> 'a option) list"

definition free_entry :: "('c, 'a) deferred_executor_t" where
  "free_entry = \<lparr> df_token = INVALID_DEFERRED_TOKEN, df_trigger_time = 0, df_callback = None,
    df_cb_arg = None \<rparr>"

definition deferred_init :: "('c, 'a) deferred" where
  "deferred_init = \<lparr> df_current_token = 0, df_table = replicate MAX_DEFERRED_EXECUTORS free_entry,
    df_last_exec = 0, df_log = [] \<rparr>"

text \<open>The loops that look for the first entry with a token.\<close>

fun slot_of :: "u8 \<Rightarrow> ('c, 'a) deferred_executor_t list \<Rightarrow> nat option" where
  "slot_of tok [] = None"
| "slot_of tok (e # es) = (if df_token e = tok then Some 0 else map_option Suc (slot_of tok es))"

definition token_can_be_used :: "('c, 'a) deferred_executor_t list \<Rightarrow> u8 \<Rightarrow> bool" where
  "token_can_be_used table tok \<longleftrightarrow>
    (if tok = INVALID_DEFERRED_TOKEN then False else list_all (\<lambda>e. df_token e \<noteq> tok) table)"

lemma word_pred_less: "x \<noteq> 0 \<Longrightarrow> unat (x - 1) < unat x" for x :: u8
  using word_diff_ls(2) [of 1 x] word_le_sub1 [of x]
  by (simp add: unat_sub word_le_nat_alt unat_eq_0_word [symmetric])

text \<open>
  The loop of \<open>allocate_token\<close>: the result is the token, or the invalid one, and the new value of
  \<open>current_token\<close>. It ends at the latest when the counter is back at \<open>first\<close>.
\<close>

function allocate_from ::
    "('c, 'a) deferred_executor_t list \<Rightarrow> u8 \<Rightarrow> u8 \<Rightarrow> u8 \<times> u8" where
  "allocate_from table first current =
    (if token_can_be_used table current then (current, current)
     else if current + 1 = first then (INVALID_DEFERRED_TOKEN, current + 1)
     else allocate_from table first (current + 1))"
  by pat_completeness auto
termination
proof (relation "measure (\<lambda>(table, first, current). unat (first - current - 1))", goal_cases)
  case (2 table first current)
  let ?x = "first - current - 1"
  from 2 have "?x \<noteq> 0" by (auto simp: algebra_simps)
  then have "unat (?x - 1) < unat ?x" by (rule word_pred_less)
  moreover have "first - (current + 1) - 1 = ?x - 1" by simp
  ultimately show ?case by (simp only: in_measure prod.case)
qed simp

declare allocate_from.simps [simp del]

definition allocate_token :: "('c, 'a) deferred_executor_t list \<Rightarrow> u8 \<Rightarrow> u8 \<times> u8" where
  "allocate_token table current = (let first = current + 1 in allocate_from table first first)"

section \<open>The API\<close>

definition defer_exec_advanced ::
    "u32 \<Rightarrow> u32 \<Rightarrow> 'c option \<Rightarrow> 'a option \<Rightarrow> ('c, 'a) deferred \<Rightarrow> u8 \<times> ('c, 'a) deferred" where
  "defer_exec_advanced now delay_ms cb arg s =
    (if df_table s = [] \<or> delay_ms = 0 \<or> cb = None then (INVALID_DEFERRED_TOKEN, s)
     else case slot_of INVALID_DEFERRED_TOKEN (df_table s) of
       None \<Rightarrow> (INVALID_DEFERRED_TOKEN, s)
     | Some i \<Rightarrow>
         (let (tok, current) = allocate_token (df_table s) (df_current_token s);
              s1 = s\<lparr>df_current_token := current\<rparr>
          in if tok = INVALID_DEFERRED_TOKEN then (INVALID_DEFERRED_TOKEN, s1)
             else (current,
               s1\<lparr>df_table := (df_table s)[i := \<lparr> df_token = current,
                 df_trigger_time = now + delay_ms, df_callback = cb, df_cb_arg = arg \<rparr>]\<rparr>)))"

definition extend_deferred_exec_advanced ::
    "u32 \<Rightarrow> u8 \<Rightarrow> u32 \<Rightarrow> ('c, 'a) deferred \<Rightarrow> bool \<times> ('c, 'a) deferred" where
  "extend_deferred_exec_advanced now tok delay_ms s =
    (if df_table s = [] \<or> delay_ms = 0 \<or> tok = INVALID_DEFERRED_TOKEN then (False, s)
     else case slot_of tok (df_table s) of
       None \<Rightarrow> (False, s)
     | Some i \<Rightarrow>
         (True, s\<lparr>df_table := (df_table s)[i := (df_table s ! i)\<lparr>df_trigger_time := now + delay_ms\<rparr>]\<rparr>))"

definition cancel_deferred_exec_advanced ::
    "u8 \<Rightarrow> ('c, 'a) deferred \<Rightarrow> bool \<times> ('c, 'a) deferred" where
  "cancel_deferred_exec_advanced tok s =
    (if df_table s = [] \<or> tok = INVALID_DEFERRED_TOKEN then (False, s)
     else case slot_of tok (df_table s) of
       None \<Rightarrow> (False, s)
     | Some i \<Rightarrow> (True, s\<lparr>df_table := (df_table s)[i := free_entry]\<rparr>))"

section \<open>The task\<close>

text \<open>The calls a callback can make; each reads the clock when it is made.\<close>

datatype ('c, 'a) api_call =
    Defer u32 u32 "'c option" "'a option"
  | Extend u32 u8 u32
  | Cancel u8

fun run_api :: "('c, 'a) api_call \<Rightarrow> ('c, 'a) deferred \<Rightarrow> ('c, 'a) deferred" where
  "run_api (Defer now delay_ms cb arg) s = snd (defer_exec_advanced now delay_ms cb arg s)"
| "run_api (Extend now tok delay_ms) s = snd (extend_deferred_exec_advanced now tok delay_ms s)"
| "run_api (Cancel tok) s = snd (cancel_deferred_exec_advanced tok s)"

type_synonym ('c, 'a) callbacks =
  "'c \<Rightarrow> u32 \<Rightarrow> 'a option \<Rightarrow> ('c, 'a) deferred \<Rightarrow> ('c, 'a) api_call list \<times> u32"

definition entry_due :: "u32 \<Rightarrow> ('c, 'a) deferred_executor_t \<Rightarrow> bool" where
  "entry_due now e \<longleftrightarrow>
    df_token e \<noteq> INVALID_DEFERRED_TOKEN \<and> sint (TIMER_DIFF_32 (df_trigger_time e) now) \<le> 0"

text \<open>A null callback would be undefined; no reachable entry has one.\<close>

definition run_entry :: "('c, 'a) callbacks \<Rightarrow> u32 \<Rightarrow> nat \<Rightarrow> ('c, 'a) deferred \<Rightarrow> ('c, 'a) deferred" where
  "run_entry prog now i s =
    (let entry = df_table s ! i; curr_token = df_token entry in
     if entry_due now entry then
       (case df_callback entry of
         None \<Rightarrow> s
       | Some cb \<Rightarrow>
           (let (calls, delay_ms) = prog cb (df_trigger_time entry) (df_cb_arg entry) s;
                s1 = fold run_api calls
                  (s\<lparr>df_log := df_log s @ [(df_trigger_time entry, cb, df_cb_arg entry)]\<rparr>);
                entry1 = df_table s1 ! i
            in if df_token entry1 \<noteq> curr_token then s1
               else if delay_ms > 0 then
                 s1\<lparr>df_table := (df_table s1)[i := entry1\<lparr>df_trigger_time := df_trigger_time entry1 + delay_ms\<rparr>]\<rparr>
               else s1\<lparr>df_table := (df_table s1)[i := free_entry]\<rparr>))
     else s)"

definition deferred_exec_advanced_task ::
    "('c, 'a) callbacks \<Rightarrow> u32 \<Rightarrow> ('c, 'a) deferred \<Rightarrow> ('c, 'a) deferred" where
  "deferred_exec_advanced_task prog now s =
    (if sint (TIMER_DIFF_32 now (df_last_exec s)) > 0
     then fold (run_entry prog now) [0..<length (df_table s)] (s\<lparr>df_last_exec := now\<rparr>)
     else s)"

section \<open>Tokens\<close>

lemma slot_of_Some:
  "slot_of tok t = Some i \<Longrightarrow> i < length t \<and> df_token (t ! i) = tok"
  by (induction t arbitrary: i) (auto split: if_splits)

lemma slot_of_None: "slot_of tok t = None \<longleftrightarrow> (\<forall>i < length t. df_token (t ! i) \<noteq> tok)"
  by (induction t) (auto simp: less_Suc_eq_0_disj nth_Cons split: nat.split)

definition tokens_distinct :: "('c, 'a) deferred_executor_t list \<Rightarrow> bool" where
  "tokens_distinct t \<longleftrightarrow> (\<forall>i < length t. \<forall>j < length t.
     df_token (t ! i) \<noteq> 0 \<and> df_token (t ! i) = df_token (t ! j) \<longrightarrow> i = j)"

lemma slot_of_iff:
  assumes "tokens_distinct t" "tok \<noteq> 0"
  shows "slot_of tok t = Some i \<longleftrightarrow> i < length t \<and> df_token (t ! i) = tok"
proof
  show "slot_of tok t = Some i" if "i < length t \<and> df_token (t ! i) = tok"
  proof (cases "slot_of tok t")
    case None
    then show ?thesis using that by (auto simp: slot_of_None)
  next
    case (Some j)
    then show ?thesis using slot_of_Some [OF Some] that assms by (auto simp: tokens_distinct_def)
  qed
qed (rule slot_of_Some)

lemma allocate_from_result:
  "allocate_from t first c = (tok, c') \<Longrightarrow>
    (tok \<noteq> 0 \<longrightarrow> token_can_be_used t tok \<and> c' = tok) \<and>
    (tok = 0 \<longrightarrow> (\<forall>k \<le> unat (first - c - 1). \<not> token_can_be_used t (c + of_nat k)))"
proof (induction t first c rule: allocate_from.induct)
  case (1 t first c)
  show ?case
  proof (cases "token_can_be_used t c")
    case True
    then have "tok = c" "c' = c" using "1.prems" by (subst (asm) allocate_from.simps; simp)+
    then show ?thesis using True by (auto simp: token_can_be_used_def)
  next
    case False
    show ?thesis
    proof (cases "c + 1 = first")
      case True
      then have "tok = 0" using "1.prems" False by (subst (asm) allocate_from.simps) simp
      moreover have "first - c - 1 = 0" using True by auto
      ultimately show ?thesis using False by simp
    next
      case neq: False
      then have "allocate_from t first (c + 1) = (tok, c')"
        using "1.prems" False by (subst (asm) allocate_from.simps) simp
      note IH = "1.IH" [OF False neq this]
      let ?x = "first - c - 1"
      have "?x \<noteq> 0" using neq by (auto simp: algebra_simps)
      then have x: "unat ?x = Suc (unat (?x - 1))" 
        using unat_minus_one [of ?x] word_pred_less [of ?x] by linarith
      have e: "first - (c + 1) - 1 = ?x - 1" by simp
      have "\<not> token_can_be_used t (c + of_nat k)" if "tok = 0" "k \<le> unat ?x" for k
      proof (cases k)
        case 0
        then show ?thesis using False by simp
      next
        case (Suc k')
        then have "k' \<le> unat (first - (c + 1) - 1)" using that(2) x unfolding e by simp
        then have "\<not> token_can_be_used t (c + 1 + of_nat k')" using IH that(1) by blast
        then show ?thesis using Suc by (simp add: algebra_simps)
      qed
      then show ?thesis using IH by blast
    qed
  qed
qed

lemma token_available:
  assumes "length t < 255"
  shows "\<exists>tok. token_can_be_used t tok"
proof (rule ccontr)
  assume no: "\<not> ?thesis"
  have "UNIV - {0} \<subseteq> df_token ` set t"
  proof
    fix x :: u8 assume "x \<in> UNIV - {0}"
    moreover have "\<not> token_can_be_used t x" using no by blast
    ultimately show "x \<in> df_token ` set t" by (auto simp: token_can_be_used_def list_all_iff)
  qed
  then have "card (UNIV - {0 :: u8}) \<le> card (df_token ` set t)" by (intro card_mono) auto
  also have "\<dots> \<le> length t" using card_image_le [of "set t" df_token] card_length [of t] by simp
  finally show False using assms by (simp add: card_Diff_singleton card_word)
qed

lemma allocate_token_ok:
  assumes "length t < 255" "allocate_token t current = (tok, c')"
  shows "token_can_be_used t tok \<and> c' = tok"
proof -
  note r = allocate_from_result [OF assms(2) [unfolded allocate_token_def Let_def]]
  have "tok \<noteq> 0"
  proof
    assume "tok = 0"
    then have no: "\<not> token_can_be_used t (current + 1 + of_nat k)" if "k \<le> 255" for k
      using r that by (simp add: unsigned_minus_1_eq_mask mask_eq_exp_minus_1)
    obtain u where u: "token_can_be_used t u" using token_available [OF assms(1)] by blast
    have "unat (u - (current + 1)) \<le> 255" using unat_less_exp [of "u - (current + 1)"] by simp
    from no [OF this] u show False by simp
  qed
  then show ?thesis using r by blast
qed

section \<open>The table as a map from tokens\<close>

type_synonym ('c, 'a) pending = "u32 \<times> 'c option \<times> 'a option"

definition pending :: "('c, 'a) deferred \<Rightarrow> u8 \<Rightarrow> ('c, 'a) pending option" where
  "pending s tok =
    (if tok = 0 then None
     else map_option (\<lambda>i. let e = df_table s ! i in (df_trigger_time e, df_callback e, df_cb_arg e))
       (slot_of tok (df_table s)))"

definition deferred_ok :: "('c, 'a) deferred \<Rightarrow> bool" where
  "deferred_ok s \<longleftrightarrow> length (df_table s) = MAX_DEFERRED_EXECUTORS \<and> tokens_distinct (df_table s) \<and>
    (\<forall>e \<in> set (df_table s). df_token e \<noteq> 0 \<longrightarrow> df_callback e \<noteq> None)"

definition has_room :: "('c, 'a) deferred \<Rightarrow> bool" where
  "has_room s \<longleftrightarrow> (\<exists>e \<in> set (df_table s). df_token e = 0)"

definition entry_view :: "('c, 'a) deferred_executor_t \<Rightarrow> ('c, 'a) pending" where
  "entry_view e = (df_trigger_time e, df_callback e, df_cb_arg e)"

lemma pending_iff:
  assumes "tokens_distinct (df_table s)"
  shows "pending s tok = Some v \<longleftrightarrow> tok \<noteq> 0 \<and>
    (\<exists>i < length (df_table s). df_token (df_table s ! i) = tok \<and> entry_view (df_table s ! i) = v)"
proof (cases "tok = 0")
  case False
  show ?thesis
  proof (cases "slot_of tok (df_table s)")
    case None
    then have "\<forall>i < length (df_table s). df_token (df_table s ! i) \<noteq> tok"
      by (simp only: slot_of_None)
    then show ?thesis using None by (auto simp: pending_def)
  next
    case (Some i)
    have "j = i" if "j < length (df_table s)" "df_token (df_table s ! j) = tok" for j
      using that Some slot_of_iff [OF assms False, of j] by simp
    then have "(\<exists>j < length (df_table s). df_token (df_table s ! j) = tok \<and>
        entry_view (df_table s ! j) = v) \<longleftrightarrow> entry_view (df_table s ! i) = v"
      using slot_of_Some [OF Some] by blast
    then show ?thesis using False Some by (simp add: pending_def entry_view_def Let_def)
  qed
qed (simp add: pending_def)

lemma option_eqI: "(\<And>v. x = Some v \<longleftrightarrow> y = Some v) \<Longrightarrow> x = y"
  by (cases x; cases y; auto)

text \<open>Overwriting one entry.\<close>

lemma pending_update:
  assumes "tokens_distinct (df_table s)" "i < length (df_table s)"
    "df_token e = 0 \<or> df_token e = df_token (df_table s ! i) \<or> slot_of (df_token e) (df_table s) = None"
  shows "tokens_distinct ((df_table s)[i := e])"
    "pending (s\<lparr>df_table := (df_table s)[i := e]\<rparr>) =
      (\<lambda>tok. if tok \<noteq> 0 \<and> tok = df_token e then Some (entry_view e)
             else if tok = df_token (df_table s ! i) then None else pending s tok)"
proof -
  have other: "df_token (df_table s ! j) \<noteq> df_token e"
    if "df_token e \<noteq> 0" "j < length (df_table s)" "j \<noteq> i" for j
    using assms that by (auto simp: tokens_distinct_def slot_of_None)
  show d: "tokens_distinct ((df_table s)[i := e])"
    using assms(1,2) other unfolding tokens_distinct_def
    by (auto simp: nth_list_update)  (metis other)+
  let ?s = "s\<lparr>df_table := (df_table s)[i := e]\<rparr>"
  show "pending ?s =
      (\<lambda>tok. if tok \<noteq> 0 \<and> tok = df_token e then Some (entry_view e)
             else if tok = df_token (df_table s ! i) then None else pending s tok)"
  proof
    fix tok
    have P: "pending ?s tok = Some v \<longleftrightarrow> tok \<noteq> 0 \<and>
        (\<exists>j < length (df_table s). df_token ((df_table s)[i := e] ! j) = tok \<and>
           entry_view ((df_table s)[i := e] ! j) = v)" for v
      using pending_iff [of ?s tok v] d by simp
    show "pending ?s tok =
        (if tok \<noteq> 0 \<and> tok = df_token e then Some (entry_view e)
         else if tok = df_token (df_table s ! i) then None else pending s tok)"
    proof (rule option_eqI)
      fix v
      have old: "pending s tok = Some v \<longleftrightarrow> tok \<noteq> 0 \<and>
          (\<exists>j < length (df_table s). df_token (df_table s ! j) = tok \<and> entry_view (df_table s ! j) = v)"
        by (rule pending_iff [OF assms(1)])
      have uniq: "j = i" if "j < length (df_table s)" "df_token (df_table s ! j) = df_token (df_table s ! i)"
        "df_token (df_table s ! i) \<noteq> 0" for j
        using assms(1,2) that by (auto simp: tokens_distinct_def)
      have same: "(\<exists>j < length (df_table s). df_token ((df_table s)[i := e] ! j) = tok \<and>
             entry_view ((df_table s)[i := e] ! j) = v) \<longleftrightarrow>
          df_token e = tok \<and> entry_view e = v \<or>
          (\<exists>j < length (df_table s). j \<noteq> i \<and> df_token (df_table s ! j) = tok \<and>
             entry_view (df_table s ! j) = v)"
        using assms(2) by (auto simp: nth_list_update)
      show "(pending ?s tok = Some v) =
        ((if tok \<noteq> 0 \<and> tok = df_token e then Some (entry_view e)
         else if tok = df_token (df_table s ! i) then None else pending s tok) = Some v)"
        unfolding P same using other uniq old assms(2) by (auto; blast)
    qed
  qed
qed

text \<open>The contract: a table of tasks with tokens, as the clients of the API rely on it.\<close>

locale token_table =
  fixes inv :: "'s \<Rightarrow> bool"
    and look :: "'s \<Rightarrow> u8 \<Rightarrow> 'v option"
    and room :: "'s \<Rightarrow> bool"
    and add :: "'x \<Rightarrow> 's \<Rightarrow> u8 \<times> 's"
    and valid :: "'x \<Rightarrow> bool"
    and content :: "'x \<Rightarrow> 'v"
    and cancel :: "u8 \<Rightarrow> 's \<Rightarrow> bool \<times> 's"
  assumes look_0: "look s 0 = None"
    and add_inv: "inv s \<Longrightarrow> inv (snd (add x s))"
    and add_ok: "inv s \<Longrightarrow> valid x \<Longrightarrow> room s \<Longrightarrow> fst (add x s) \<noteq> 0 \<and> look s (fst (add x s)) = None \<and>
      look (snd (add x s)) = (look s)(fst (add x s) \<mapsto> content x)"
    and add_refused: "inv s \<Longrightarrow> \<not> (valid x \<and> room s) \<Longrightarrow> fst (add x s) = 0 \<and> look (snd (add x s)) = look s"
    and cancel_inv: "inv s \<Longrightarrow> inv (snd (cancel tok s))"
    and cancel_result: "inv s \<Longrightarrow> fst (cancel tok s) = (look s tok \<noteq> None)"
    and cancel_look: "inv s \<Longrightarrow> look (snd (cancel tok s)) = (look s)(tok := None)"
begin

text \<open>A new task and its cancellation leave the others as they were.\<close>

lemma cancel_undoes_add:
  assumes "inv s" "valid x" "room s"
  shows "look (snd (cancel (fst (add x s)) (snd (add x s)))) = look s"
proof -
  note a = add_ok [OF assms]
  have "look (snd (cancel (fst (add x s)) (snd (add x s)))) = (look s)(fst (add x s) := None)"
    using a cancel_look [OF add_inv [OF assms(1)]] by simp
  also have "\<dots> = look s" using a by (auto simp: fun_upd_idem_iff)
  finally show ?thesis .
qed

text \<open>Adding never disturbs a task that is already there.\<close>

lemma add_keeps:
  assumes "inv s" "look s tok = Some v"
  shows "look (snd (add x s)) tok = Some v"
  using add_ok [OF assms(1)] add_refused [OF assms(1)] assms(2) by (cases "valid x \<and> room s") auto

lemma adds_keep:
  "inv s \<Longrightarrow> look s tok = Some v \<Longrightarrow> look (fold (\<lambda>x s. snd (add x s)) xs s) tok = Some v"
  by (induction xs arbitrary: s) (auto intro: add_keeps add_inv)

end

definition defer_call :: "u32 \<times> u32 \<times> 'c option \<times> 'a option \<Rightarrow> ('c, 'a) deferred \<Rightarrow> u8 \<times> ('c, 'a) deferred" where
  "defer_call = (\<lambda>(now, delay_ms, cb, arg). defer_exec_advanced now delay_ms cb arg)"

lemma defer_exec_run:
  assumes ok: "deferred_ok s" and v: "delay_ms \<noteq> 0" "cb \<noteq> None" and room: "has_room s"
  shows "\<exists>i c. i < length (df_table s) \<and> df_token (df_table s ! i) = 0 \<and>
    token_can_be_used (df_table s) c \<and>
    defer_exec_advanced now delay_ms cb arg s = (c, s\<lparr>df_current_token := c,
      df_table := (df_table s)[i := \<lparr> df_token = c, df_trigger_time = now + delay_ms,
        df_callback = cb, df_cb_arg = arg \<rparr>]\<rparr>)"
proof -
  have n: "df_table s \<noteq> []" "length (df_table s) < 255"
    using ok by (auto simp: deferred_ok_def MAX_DEFERRED_EXECUTORS_def)
  obtain i where i: "slot_of 0 (df_table s) = Some i"
    using room slot_of_None [of 0 "df_table s"] by (auto simp: has_room_def in_set_conv_nth)
  obtain c c' where a: "allocate_token (df_table s) (df_current_token s) = (c, c')" by fastforce
  have c: "token_can_be_used (df_table s) c" "c' = c" using allocate_token_ok [OF n(2) a] by auto
  then have "c \<noteq> 0" by (auto simp: token_can_be_used_def)
  then show ?thesis using slot_of_Some [OF i] a c n v i
    by (auto simp: defer_exec_advanced_def Let_def intro!: exI [of _ i] exI [of _ c])
qed

lemma defer_exec_refused:
  assumes "\<not> (delay_ms \<noteq> 0 \<and> cb \<noteq> None \<and> has_room s)"
  shows "defer_exec_advanced now delay_ms cb arg s = (0, s)"
proof -
  have "slot_of 0 (df_table s) = None" if "\<not> has_room s"
    using that unfolding slot_of_None by (auto simp: has_room_def)
  then show ?thesis using assms by (auto simp: defer_exec_advanced_def)
qed

lemma pending_cong: "df_table s = df_table s' \<Longrightarrow> pending s = pending s'"
  by (auto simp: pending_def)

lemma pending_table [simp]:
  "pending (s\<lparr>df_current_token := c, df_table := t\<rparr>) = pending (s\<lparr>df_table := t\<rparr>)"
  "pending (s\<lparr>df_log := l\<rparr>) = pending s" "pending (s\<lparr>df_last_exec := n\<rparr>) = pending s"
  by (rule pending_cong; simp)+

lemma deferred_ok_update:
  assumes "deferred_ok s" "i < length (df_table s)"
    "df_token e = 0 \<or> df_token e = df_token (df_table s ! i) \<or> slot_of (df_token e) (df_table s) = None"
    "df_token e \<noteq> 0 \<Longrightarrow> df_callback e \<noteq> None" "df_table s' = (df_table s)[i := e]"
  shows "deferred_ok s'"
proof -
  have "tokens_distinct (df_table s)" using assms(1) by (simp add: deferred_ok_def)
  from pending_update(1) [OF this assms(2,3)] have d: "tokens_distinct (df_table s')"
    by (simp only: assms(5))
  have c: "df_callback x \<noteq> None" if "x \<in> set (df_table s')" "df_token x \<noteq> 0" for x
    using that assms(1,4) set_update_subset_insert [of "df_table s" i e]
    by (auto simp: assms(5) deferred_ok_def)
  show ?thesis using d c assms(1) by (simp add: deferred_ok_def assms(5))
qed

lemma deferred_ok_distinct: "deferred_ok s \<Longrightarrow> tokens_distinct (df_table s)"
  by (simp add: deferred_ok_def)

lemma token_fresh: "token_can_be_used t c \<Longrightarrow> c \<noteq> 0 \<and> slot_of c t = None"
  by (auto simp: token_can_be_used_def slot_of_None list_all_length split: if_splits)

lemma defer_call_ok:
  assumes ok: "deferred_ok s" and v: "delay_ms \<noteq> 0" "cb \<noteq> None" and room: "has_room s"
    and run: "defer_exec_advanced now delay_ms cb arg s = (c, s')"
  shows "deferred_ok s'" "c \<noteq> 0" "pending s c = None"
    "pending s' = (pending s)(c \<mapsto> (now + delay_ms, cb, arg))"
proof -
  obtain i c1 where r: "i < length (df_table s)" "df_token (df_table s ! i) = 0"
    "token_can_be_used (df_table s) c1"
    "defer_exec_advanced now delay_ms cb arg s = (c1, s\<lparr>df_current_token := c1,
      df_table := (df_table s)[i := \<lparr> df_token = c1, df_trigger_time = now + delay_ms,
        df_callback = cb, df_cb_arg = arg \<rparr>]\<rparr>)"
    using defer_exec_run [OF ok v room] by blast
  let ?e = "\<lparr> df_token = c1, df_trigger_time = now + delay_ms, df_callback = cb, df_cb_arg = arg \<rparr>"
  have s': "c = c1" "s' = s\<lparr>df_current_token := c1, df_table := (df_table s)[i := ?e]\<rparr>"
    using run r(4) by auto
  note f = token_fresh [OF r(3)]
  have e: "df_token ?e = 0 \<or> df_token ?e = df_token (df_table s ! i) \<or> slot_of (df_token ?e) (df_table s) = None"
    using f by simp
  show "c \<noteq> 0" "pending s c = None" using f s'(1) by (simp_all add: pending_def)
  show "deferred_ok s'"
    by (rule deferred_ok_update [OF ok r(1) e]) (use v in \<open>simp_all add: s'\<close>)
  show "pending s' = (pending s)(c \<mapsto> (now + delay_ms, cb, arg))"
    using pending_update(2) [OF deferred_ok_distinct [OF ok] r(1) e] f r(2)
    by (auto simp: s' entry_view_def pending_def)
qed

lemma slot_pending: "tok \<noteq> 0 \<Longrightarrow> slot_of tok (df_table s) = None \<longleftrightarrow> pending s tok = None"
  by (simp add: pending_def)

lemma cancel_ok:
  assumes ok: "deferred_ok s" and run: "cancel_deferred_exec_advanced tok s = (r, s')"
  shows "deferred_ok s'" "r = (pending s tok \<noteq> None)" "pending s' = (pending s)(tok := None)"
proof -
  have n: "df_table s \<noteq> []" using ok by (auto simp: deferred_ok_def MAX_DEFERRED_EXECUTORS_def)
  have "deferred_ok s' \<and> r = (pending s tok \<noteq> None) \<and> pending s' = (pending s)(tok := None)"
  proof (cases "tok = 0 \<or> slot_of tok (df_table s) = None")
    case True
    then have "r = False" "s' = s" "pending s tok = None"
      using run by (auto simp: cancel_deferred_exec_advanced_def pending_def split: if_splits option.splits)
    then show ?thesis using ok by auto
  next
    case False
    then obtain i where i: "slot_of tok (df_table s) = Some i" "tok \<noteq> 0" by auto
    then have s': "r = True" "s' = s\<lparr>df_table := (df_table s)[i := free_entry]\<rparr>"
      using run n by (auto simp: cancel_deferred_exec_advanced_def)
    note t = slot_of_Some [OF i(1)]
    have e: "df_token free_entry = 0" by (simp add: free_entry_def)
    have "deferred_ok s'"
      by (rule deferred_ok_update [OF ok _ disjI1 [OF e]]) (use t e s' in auto)
    moreover have "pending s' = (pending s)(tok := None)"
      using pending_update(2) [OF deferred_ok_distinct [OF ok] conjunct1 [OF t] disjI1 [OF e]] t e
      by (auto simp: s')
    ultimately show ?thesis using s' i by (simp add: slot_pending [symmetric])
  qed
  then show "deferred_ok s'" "r = (pending s tok \<noteq> None)" "pending s' = (pending s)(tok := None)"
    by blast+
qed

lemma extend_ok:
  assumes ok: "deferred_ok s" and run: "extend_deferred_exec_advanced now tok delay_ms s = (r, s')"
  shows "deferred_ok s'" "r = (delay_ms \<noteq> 0 \<and> pending s tok \<noteq> None)"
    "pending s' = (if r then (pending s)(tok := map_option (apfst (\<lambda>_. now + delay_ms)) (pending s tok))
                   else pending s)"
proof -
  have n: "df_table s \<noteq> []" using ok by (auto simp: deferred_ok_def MAX_DEFERRED_EXECUTORS_def)
  have "deferred_ok s' \<and> r = (delay_ms \<noteq> 0 \<and> pending s tok \<noteq> None) \<and>
    pending s' = (if r then (pending s)(tok := map_option (apfst (\<lambda>_. now + delay_ms)) (pending s tok))
                   else pending s)"
  proof (cases "tok = 0 \<or> delay_ms = 0 \<or> slot_of tok (df_table s) = None")
    case True
    then have "r = False" "s' = s" "delay_ms = 0 \<or> pending s tok = None"
      using run by (auto simp: extend_deferred_exec_advanced_def pending_def split: if_splits option.splits)
    then show ?thesis using ok by auto
  next
    case False
    then obtain i where i: "slot_of tok (df_table s) = Some i" "tok \<noteq> 0" "delay_ms \<noteq> 0" by auto
    let ?e = "(df_table s ! i)\<lparr>df_trigger_time := now + delay_ms\<rparr>"
    from i have s': "r = True" "s' = s\<lparr>df_table := (df_table s)[i := ?e]\<rparr>"
      using run n by (auto simp: extend_deferred_exec_advanced_def)
    note t = slot_of_Some [OF i(1)]
    have e: "df_token ?e = df_token (df_table s ! i)" by simp
    have "df_callback (df_table s ! i) \<noteq> None" using ok t i(2) by (auto simp: deferred_ok_def)
    then have "deferred_ok s'"
      by (intro deferred_ok_update [OF ok _ disjI2 [OF disjI1 [OF e]]]) (use t s' in auto)
    moreover have "pending s tok = Some (entry_view (df_table s ! i))"
      using t i(2) pending_iff [OF deferred_ok_distinct [OF ok]] by blast
    moreover have "pending s' = (pending s)(tok \<mapsto> entry_view ?e)"
      using pending_update(2) [OF deferred_ok_distinct [OF ok] conjunct1 [OF t] disjI2 [OF disjI1 [OF e]]] t i(2)
      by (auto simp: s')
    ultimately show ?thesis using s' i by (simp add: entry_view_def)
  qed
  then show "deferred_ok s'" "r = (delay_ms \<noteq> 0 \<and> pending s tok \<noteq> None)"
    "pending s' = (if r then (pending s)(tok := map_option (apfst (\<lambda>_. now + delay_ms)) (pending s tok))
                   else pending s)"
    by blast+
qed

interpretation df: token_table deferred_ok pending has_room defer_call
  "\<lambda>(now, delay_ms, cb, arg). delay_ms \<noteq> 0 \<and> cb \<noteq> None"
  "\<lambda>(now, delay_ms, cb, arg). (now + delay_ms, cb, arg)" cancel_deferred_exec_advanced
proof (unfold_locales, goal_cases)
  case (1 s)
  then show ?case by (simp add: pending_def)
next
  case (2 s x)
  obtain now delay_ms cb arg where x: "x = (now, delay_ms, cb, arg)" by (metis prod_cases4)
  show ?case
    using defer_call_ok(1) [OF 2 _ _ _ prod.collapse [symmetric]] defer_exec_refused [of delay_ms cb s now arg] 2
    by (cases "delay_ms \<noteq> 0 \<and> cb \<noteq> None \<and> has_room s") (auto simp: x defer_call_def)
next
  case (3 s x)
  obtain now delay_ms cb arg where x: "x = (now, delay_ms, cb, arg)" by (metis prod_cases4)
  show ?case
    using defer_call_ok(2-4) [OF 3(1) _ _ _ prod.collapse [symmetric]] 3 by (auto simp: x defer_call_def)
next
  case (4 s x)
  obtain now delay_ms cb arg where x: "x = (now, delay_ms, cb, arg)" by (metis prod_cases4)
  show ?case using defer_exec_refused [of delay_ms cb s now arg] 4 by (auto simp: x defer_call_def)
next
  case (5 s tok)
  show ?case by (rule cancel_ok(1) [OF 5 prod.collapse [symmetric]])
next
  case (6 s tok)
  show ?case by (rule cancel_ok(2) [OF 6 prod.collapse [symmetric]])
next
  case (7 s tok)
  show ?case by (rule cancel_ok(3) [OF 7 prod.collapse [symmetric]])
qed

section \<open>The task\<close>

lemma run_api_ok: "deferred_ok s \<Longrightarrow> deferred_ok (run_api c s)"
proof (cases c)
  case (Defer now delay_ms cb arg)
  then show "deferred_ok s \<Longrightarrow> deferred_ok (run_api c s)"
    using df.add_inv [of s "(now, delay_ms, cb, arg)"] by (simp add: defer_call_def)
next
  case (Extend now tok delay_ms)
  then show "deferred_ok s \<Longrightarrow> deferred_ok (run_api c s)"
    using extend_ok(1) [OF _ prod.collapse [symmetric]] by simp
next
  case (Cancel tok)
  then show "deferred_ok s \<Longrightarrow> deferred_ok (run_api c s)" using df.cancel_inv by simp
qed

lemma run_apis_ok: "deferred_ok s \<Longrightarrow> deferred_ok (fold run_api cs s)"
  by (induction cs arbitrary: s) (auto intro: run_api_ok)

lemma deferred_ok_fields [simp]:
  "deferred_ok (s\<lparr>df_log := l\<rparr>) = deferred_ok s" "deferred_ok (s\<lparr>df_last_exec := n\<rparr>) = deferred_ok s"
  by (simp_all add: deferred_ok_def)

lemma run_entry_ok:
  assumes "deferred_ok s" "i < MAX_DEFERRED_EXECUTORS"
  shows "deferred_ok (run_entry prog now i s)"
proof (cases "entry_due now (df_table s ! i)")
  case True
  show ?thesis
  proof (cases "df_callback (df_table s ! i)")
    case None
    then show ?thesis using assms True by (simp add: run_entry_def)
  next
    case (Some cb)
    let ?e = "df_table s ! i"
    let ?s0 = "s\<lparr>df_log := df_log s @ [(df_trigger_time ?e, cb, df_cb_arg ?e)]\<rparr>"
    obtain calls delay_ms where p: "prog cb (df_trigger_time ?e) (df_cb_arg ?e) s = (calls, delay_ms)"
      by fastforce
    define s1 where "s1 = fold run_api calls ?s0"
    have ok: "deferred_ok s1" unfolding s1_def by (rule run_apis_ok) (use assms(1) in simp)
    then have i: "i < length (df_table s1)" using assms(2) by (simp add: deferred_ok_def)
    let ?e1 = "df_table s1 ! i"
    have free: "df_token (free_entry :: ('a, 'b) deferred_executor_t) = 0" by (simp add: free_entry_def)
    have "deferred_ok (s1\<lparr>df_table := (df_table s1)[i := free_entry]\<rparr>)"
      by (rule deferred_ok_update [OF ok i disjI1 [OF free]]) (simp_all add: free)
    moreover have "deferred_ok (s1\<lparr>df_table := (df_table s1)[i := ?e1\<lparr>df_trigger_time := t\<rparr>]\<rparr>)" for t
      by (rule deferred_ok_update [OF ok i]) (use ok i in \<open>auto simp: deferred_ok_def\<close>)
    ultimately show ?thesis
      using True Some p ok by (simp add: run_entry_def Let_def s1_def [symmetric])
  qed
qed (use assms in \<open>simp add: run_entry_def\<close>)

lemma deferred_task_ok:
  assumes "deferred_ok s"
  shows "deferred_ok (deferred_exec_advanced_task prog now s)"
proof -
  have "deferred_ok (fold (run_entry prog now) [0..<m] s')"
    if "deferred_ok s'" "m \<le> MAX_DEFERRED_EXECUTORS" for m s'
    using that by (induction m) (auto intro: run_entry_ok)
  moreover have "length (df_table s) = MAX_DEFERRED_EXECUTORS" using assms by (simp add: deferred_ok_def)
  ultimately show ?thesis using assms by (simp add: deferred_exec_advanced_task_def)
qed

text \<open>The states reached by API calls and by the task, whatever the callbacks do.\<close>

inductive deferred_reach :: "('c, 'a) callbacks \<Rightarrow> ('c, 'a) deferred \<Rightarrow> bool" for prog where
  init: "deferred_reach prog deferred_init"
| api: "deferred_reach prog s \<Longrightarrow> deferred_reach prog (run_api c s)"
| task: "deferred_reach prog s \<Longrightarrow> deferred_reach prog (deferred_exec_advanced_task prog now s)"

lemma deferred_reach_ok: "deferred_reach prog s \<Longrightarrow> deferred_ok s"
proof (induction rule: deferred_reach.induct)
  case init
  then show ?case
    by (auto simp: deferred_ok_def deferred_init_def free_entry_def tokens_distinct_def)
qed (auto intro: run_api_ok deferred_task_ok)

text \<open>With callbacks that leave the table alone, each entry is handled for itself.\<close>

definition quiet :: "('c \<Rightarrow> u32 \<Rightarrow> 'a option \<Rightarrow> u32) \<Rightarrow> ('c, 'a) callbacks" where
  "quiet ret = (\<lambda>cb t arg s. ([], ret cb t arg))"

definition entry_after ::
    "('c \<Rightarrow> u32 \<Rightarrow> 'a option \<Rightarrow> u32) \<Rightarrow> u32 \<Rightarrow> ('c, 'a) deferred_executor_t \<Rightarrow> ('c, 'a) deferred_executor_t" where
  "entry_after ret now e =
    (if entry_due now e then
       (let d = ret (the (df_callback e)) (df_trigger_time e) (df_cb_arg e)
        in if d = 0 then free_entry else e\<lparr>df_trigger_time := df_trigger_time e + d\<rparr>)
     else e)"

definition entry_call :: "('c, 'a) deferred_executor_t \<Rightarrow> u32 \<times> 'c \<times> 'a option" where
  "entry_call e = (df_trigger_time e, the (df_callback e), df_cb_arg e)"

lemma run_entry_quiet:
  assumes "df_token (df_table s ! i) \<noteq> 0 \<Longrightarrow> df_callback (df_table s ! i) \<noteq> None"
    "i < length (df_table s)"
  shows "run_entry (quiet ret) now i s =
    s\<lparr>df_table := (df_table s)[i := entry_after ret now (df_table s ! i)],
      df_log := df_log s @ map entry_call (filter (entry_due now) [df_table s ! i])\<rparr>"
  using assms
  by (auto simp: run_entry_def quiet_def entry_after_def entry_call_def entry_due_def Let_def
      word_gt_0)

lemma run_entries_quiet:
  assumes "\<And>e. e \<in> set (df_table s) \<Longrightarrow> df_token e \<noteq> 0 \<Longrightarrow> df_callback e \<noteq> None"
  shows "m \<le> length (df_table s) \<Longrightarrow> fold (run_entry (quiet ret) now) [0..<m] s =
    s\<lparr>df_table := map (entry_after ret now) (take m (df_table s)) @ drop m (df_table s),
      df_log := df_log s @ map entry_call (filter (entry_due now) (take m (df_table s)))\<rparr>"
proof (induction m)
  case (Suc m)
  let ?t = "df_table s"
  let ?s = "s\<lparr>df_table := map (entry_after ret now) (take m ?t) @ drop m ?t,
      df_log := df_log s @ map entry_call (filter (entry_due now) (take m ?t))\<rparr>"
  have m: "m < length ?t" using Suc.prems by simp
  then have d: "drop m ?t = ?t ! m # drop (Suc m) ?t" by (rule Cons_nth_drop_Suc [symmetric])
  have nth: "df_table ?s ! m = ?t ! m" using m by (simp add: nth_append)
  have "run_entry (quiet ret) now m ?s =
    ?s\<lparr>df_table := (df_table ?s)[m := entry_after ret now (?t ! m)],
      df_log := df_log ?s @ map entry_call (filter (entry_due now) [?t ! m])\<rparr>"
    using run_entry_quiet [of ?s m ret now] assms [of "?t ! m"] m unfolding nth by simp
  also have "\<dots> = s\<lparr>df_table := map (entry_after ret now) (take (Suc m) ?t) @ drop (Suc m) ?t,
      df_log := df_log s @ map entry_call (filter (entry_due now) (take (Suc m) ?t))\<rparr>"
    using m d by (simp add: take_Suc_conv_app_nth list_update_append)
  finally show ?case using Suc by simp
qed simp

section \<open>Properties\<close>

text \<open>
  C19: in every reachable state the table is a map from tokens to tasks: \<open>defer_exec\<close> succeeds
  exactly when the delay is not zero, the callback is not null and an entry is free, whatever the
  token counter has come to, and then adds its task under a token that no task had; cancelling
  removes exactly the task of the token, and extending changes only its time; both report whether
  there was such a task.
\<close>

theorem deferred_table_is_map:
  assumes "deferred_reach prog s"
  shows "(case defer_exec_advanced now delay_ms cb arg s of (tok, s') \<Rightarrow>
      if delay_ms \<noteq> 0 \<and> cb \<noteq> None \<and> has_room s
      then tok \<noteq> 0 \<and> pending s tok = None \<and> pending s' = (pending s)(tok \<mapsto> (now + delay_ms, cb, arg))
      else tok = 0 \<and> s' = s) \<and>
    (case cancel_deferred_exec_advanced tok s of (r, s') \<Rightarrow>
      r = (pending s tok \<noteq> None) \<and> pending s' = (pending s)(tok := None)) \<and>
    (case extend_deferred_exec_advanced now tok delay_ms s of (r, s') \<Rightarrow>
      r = (delay_ms \<noteq> 0 \<and> pending s tok \<noteq> None) \<and>
      pending s' = (if r then (pending s)(tok := map_option (apfst (\<lambda>_. now + delay_ms)) (pending s tok))
        else pending s))"
proof -
  note ok = deferred_reach_ok [OF assms]
  have 1: "case defer_exec_advanced now delay_ms cb arg s of (tok, s') \<Rightarrow>
      if delay_ms \<noteq> 0 \<and> cb \<noteq> None \<and> has_room s
      then tok \<noteq> 0 \<and> pending s tok = None \<and> pending s' = (pending s)(tok \<mapsto> (now + delay_ms, cb, arg))
      else tok = 0 \<and> s' = s"
  proof (cases "defer_exec_advanced now delay_ms cb arg s")
    case (Pair c s')
    show ?thesis
      using defer_call_ok(2-4) [OF ok _ _ _ Pair] defer_exec_refused [of delay_ms cb s now arg] Pair
      by (cases "delay_ms \<noteq> 0 \<and> cb \<noteq> None \<and> has_room s") simp_all
  qed
  have 2: "case cancel_deferred_exec_advanced tok s of (r, s') \<Rightarrow>
      r = (pending s tok \<noteq> None) \<and> pending s' = (pending s)(tok := None)"
    using cancel_ok(2,3) [OF ok] by (cases "cancel_deferred_exec_advanced tok s") blast
  have 3: "case extend_deferred_exec_advanced now tok delay_ms s of (r, s') \<Rightarrow>
      r = (delay_ms \<noteq> 0 \<and> pending s tok \<noteq> None) \<and>
      pending s' = (if r then (pending s)(tok := map_option (apfst (\<lambda>_. now + delay_ms)) (pending s tok))
        else pending s)"
    using extend_ok(2,3) [OF ok] by (cases "extend_deferred_exec_advanced now tok delay_ms s") blast
  from 1 2 3 show ?thesis by blast
qed

theorem deferred_table_is_map_witness:
  "fst (defer_exec_advanced 10 5 (Some ''cb'') (Some (7 :: nat))
    (deferred_init :: (string, nat) deferred)) \<noteq> 0"
proof -
  have "has_room (deferred_init :: (string, nat) deferred)"
    by (simp add: has_room_def deferred_init_def free_entry_def MAX_DEFERRED_EXECUTORS_def)
  then show ?thesis
    using deferred_table_is_map [OF deferred_reach.init, where now = 10 and delay_ms = 5
        and cb = "Some ''cb''" and arg = "Some (7 :: nat)", THEN conjunct1]
    by (simp add: case_prod_beta)
qed

text \<open>
  When at least a millisecond has passed since it last ran, the task calls each task that is
  due exactly once, in the order of the table and with its own trigger time and argument; the task
  then stays with the trigger time advanced by the delay the callback returned, or is gone if that
  was zero. Tasks that are not due are left alone, and so is everything when no millisecond has
  passed. (Callbacks that do not call the API themselves.)
\<close>

theorem deferred_task_runs_due:
  assumes "deferred_reach prog s"
  shows "deferred_exec_advanced_task (quiet ret) now s =
    (if sint (now - df_last_exec s) \<le> 0 then s
     else s\<lparr>df_last_exec := now, df_table := map (entry_after ret now) (df_table s),
       df_log := df_log s @ map entry_call (filter (entry_due now) (df_table s))\<rparr>)"
proof -
  have "e \<in> set (df_table s) \<Longrightarrow> df_token e \<noteq> 0 \<Longrightarrow> df_callback e \<noteq> None" for e
    using deferred_reach_ok [OF assms] by (auto simp: deferred_ok_def)
  from run_entries_quiet [of "s\<lparr>df_last_exec := now\<rparr>" "length (df_table s)" ret now] this
  show ?thesis by (simp add: deferred_exec_advanced_task_def TIMER_DIFF_32_def)
qed

theorem deferred_task_runs_due_witness:
  "df_log (deferred_exec_advanced_task (quiet (\<lambda>_ _ _. 0)) 20
      (run_api (Defer 10 5 (Some ''cb'') (Some (7 :: nat))) deferred_init)) = [(15, ''cb'', Some 7)]"
proof -
  let ?s = "run_api (Defer 10 5 (Some ''cb'') (Some (7 :: nat))) deferred_init"
  have r: "replicate 8 x = x # replicate 7 x" for x :: "(string, nat) deferred_executor_t"
    by (simp flip: replicate_Suc)
  have s: "?s = deferred_init\<lparr>df_current_token := 1, df_table := \<lparr> df_token = 1,
      df_trigger_time = 15, df_callback = Some ''cb'', df_cb_arg = Some 7 \<rparr> # replicate 7 free_entry\<rparr>"
    by (simp add: deferred_init_def defer_exec_advanced_def allocate_token_def allocate_from.simps
        token_can_be_used_def free_entry_def MAX_DEFERRED_EXECUTORS_def list_all_iff r)
  have "deferred_reach (quiet (\<lambda>_ _ _. 0)) ?s" by (rule deferred_reach.api [OF deferred_reach.init])
  from deferred_task_runs_due [OF this, of "\<lambda>_ _ _. 0" 20] show ?thesis
    unfolding s by (simp add: deferred_init_def entry_due_def free_entry_def entry_call_def TIMER_DIFF_32_def)
qed

end
