(* ===== verification/Wear_Leveling.thy ===== *)
theory Wear_Leveling
  imports Qmk_Prelude
begin

text \<open>
  The wear-levelling EEPROM emulation, \<open>quantum/wear_leveling/wear_leveling.c\<close>, for backing stores
  with two-byte writes, with the macros of \<open>wear_leveling_internal.h\<close> and the hash \<open>fnv_64a_buf\<close> of
  \<open>lib/fnv/hash_64a.c\<close>. The sizes are those of the RP2040 driver: 8192 bytes of backing store for
  4096 bytes of logical data.

  The backing store is reached through a record of operations, as the C code reaches it through the
  functions \<open>backing_store_...\<close> that a driver implements; its state is one field of the component's
  state. A read is a function of that state, \<open>None\<close> when it fails. A log entry, a union of eight
  bytes in C, is the list of its bytes, low byte first within a word.
\<close>

section \<open>The backing store\<close>

record 's backing_store_ops =
  bs_init :: "'s \<Rightarrow> bool \<times> 's"
  bs_unlock :: "'s \<Rightarrow> bool \<times> 's"
  bs_erase :: "'s \<Rightarrow> bool \<times> 's"
  bs_write :: "u32 \<Rightarrow> u16 \<Rightarrow> 's \<Rightarrow> bool \<times> 's"
  bs_write_bulk :: "u32 \<Rightarrow> u16 list \<Rightarrow> 's \<Rightarrow> bool \<times> 's"
  bs_lock :: "'s \<Rightarrow> bool \<times> 's"
  bs_read :: "u32 \<Rightarrow> 's \<Rightarrow> u16 option"
  bs_read_bulk :: "u32 \<Rightarrow> nat \<Rightarrow> 's \<Rightarrow> u16 list option"

definition BACKING_STORE_WRITE_SIZE :: u32 where
  "BACKING_STORE_WRITE_SIZE = 2"

definition WEAR_LEVELING_BACKING_SIZE :: u32 where
  "WEAR_LEVELING_BACKING_SIZE = 8192"

definition WEAR_LEVELING_LOGICAL_SIZE :: u32 where
  "WEAR_LEVELING_LOGICAL_SIZE = WEAR_LEVELING_BACKING_SIZE div 2"

lemma wl_sizes [simp]:
  "WEAR_LEVELING_BACKING_SIZE = 8192" "WEAR_LEVELING_LOGICAL_SIZE = 4096"
  by (simp_all add: WEAR_LEVELING_LOGICAL_SIZE_def WEAR_LEVELING_BACKING_SIZE_def)

text \<open>The weak implementations of the bulk operations, in terms of the single ones.\<close>

fun backing_store_read_bulk :: "(u32 \<Rightarrow> 's \<Rightarrow> u16 option) \<Rightarrow> u32 \<Rightarrow> nat \<Rightarrow> 's \<Rightarrow> u16 list option" where
  "backing_store_read_bulk rd address 0 s = Some []"
| "backing_store_read_bulk rd address (Suc n) s =
    (case rd address s of
      None \<Rightarrow> None
    | Some v \<Rightarrow> map_option (Cons v) (backing_store_read_bulk rd (address + BACKING_STORE_WRITE_SIZE) n s))"

fun backing_store_write_bulk ::
    "(u32 \<Rightarrow> u16 \<Rightarrow> 's \<Rightarrow> bool \<times> 's) \<Rightarrow> u32 \<Rightarrow> u16 list \<Rightarrow> 's \<Rightarrow> bool \<times> 's" where
  "backing_store_write_bulk wr address [] s = (True, s)"
| "backing_store_write_bulk wr address (v # vs) s =
    (let (r, s') = wr address v s
     in if r then backing_store_write_bulk wr (address + BACKING_STORE_WRITE_SIZE) vs s' else (False, s'))"

section \<open>The checksum\<close>

definition FNV1A_64_INIT :: u64 where
  "FNV1A_64_INIT = 0xcbf29ce484222325"

definition fnv_64a_step :: "u8 \<Rightarrow> u64 \<Rightarrow> u64" where
  "fnv_64a_step b hval0 =
    (let hval = hval0 XOR ucast b
     in hval + (push_bit 1 hval + push_bit 4 hval + push_bit 5 hval +
                push_bit 7 hval + push_bit 8 hval + push_bit 40 hval))"

definition fnv_64a_buf :: "u8 list \<Rightarrow> u64 \<Rightarrow> u64" where
  "fnv_64a_buf buf hval = fold fnv_64a_step buf hval"

section \<open>Log entries\<close>

definition LOG_ENTRY_TYPE_MULTIBYTE :: u8 where "LOG_ENTRY_TYPE_MULTIBYTE = 0"
definition LOG_ENTRY_TYPE_OPTIMIZED_64 :: u8 where "LOG_ENTRY_TYPE_OPTIMIZED_64 = 1"
definition LOG_ENTRY_TYPE_WORD_01 :: u8 where "LOG_ENTRY_TYPE_WORD_01 = 2"
definition LOG_ENTRY_MULTIBYTE_MAX_BYTES :: nat where "LOG_ENTRY_MULTIBYTE_MAX_BYTES = 5"

type_synonym write_log_entry_t = "u8 list"

definition raw16 :: "write_log_entry_t \<Rightarrow> nat \<Rightarrow> u16" where
  "raw16 e i = mk16 (e ! (2 * i)) (e ! (2 * i + 1))"

definition set_raw16 :: "nat \<Rightarrow> u16 \<Rightarrow> write_log_entry_t \<Rightarrow> write_log_entry_t" where
  "set_raw16 i v e = e[2 * i := lo8 v, 2 * i + 1 := hi8 v]"

definition LOG_ENTRY_GET_TYPE :: "write_log_entry_t \<Rightarrow> u8" where
  "LOG_ENTRY_GET_TYPE e = drop_bit 6 (e ! 0) AND 3"

definition LOG_ENTRY_MULTIBYTE_GET_ADDRESS :: "write_log_entry_t \<Rightarrow> u32" where
  "LOG_ENTRY_MULTIBYTE_GET_ADDRESS e =
    push_bit 16 (ucast (e ! 0) AND 7) OR push_bit 8 (ucast (e ! 1)) OR ucast (e ! 2)"

definition LOG_ENTRY_MULTIBYTE_GET_LENGTH :: "write_log_entry_t \<Rightarrow> u8" where
  "LOG_ENTRY_MULTIBYTE_GET_LENGTH e = drop_bit 3 (e ! 0) AND 7"

definition LOG_ENTRY_MAKE_MULTIBYTE :: "u32 \<Rightarrow> nat \<Rightarrow> write_log_entry_t" where
  "LOG_ENTRY_MAKE_MULTIBYTE address len =
    [push_bit 6 (LOG_ENTRY_TYPE_MULTIBYTE AND 3) OR push_bit 3 (of_nat len AND 7) OR
       (ucast (drop_bit 16 address) AND 7),
     ucast (drop_bit 8 address), ucast address, 0, 0, 0, 0, 0]"

definition LOG_ENTRY_OPTIMIZED_64_GET_ADDRESS :: "write_log_entry_t \<Rightarrow> u32" where
  "LOG_ENTRY_OPTIMIZED_64_GET_ADDRESS e = ucast (e ! 0 AND 63)"

definition LOG_ENTRY_OPTIMIZED_64_GET_VALUE :: "write_log_entry_t \<Rightarrow> u8" where
  "LOG_ENTRY_OPTIMIZED_64_GET_VALUE e = e ! 1"

definition LOG_ENTRY_MAKE_OPTIMIZED_64 :: "u32 \<Rightarrow> u8 \<Rightarrow> write_log_entry_t" where
  "LOG_ENTRY_MAKE_OPTIMIZED_64 address v =
    [push_bit 6 (LOG_ENTRY_TYPE_OPTIMIZED_64 AND 3) OR (ucast address AND 63), v, 0, 0, 0, 0, 0, 0]"

definition LOG_ENTRY_WORD_01_GET_ADDRESS :: "write_log_entry_t \<Rightarrow> u32" where
  "LOG_ENTRY_WORD_01_GET_ADDRESS e =
    push_bit 9 (ucast (e ! 0 AND 31)) OR push_bit 1 (ucast (e ! 1))"

definition LOG_ENTRY_WORD_01_GET_VALUE :: "write_log_entry_t \<Rightarrow> u8" where
  "LOG_ENTRY_WORD_01_GET_VALUE e = drop_bit 5 (e ! 0) AND 1"

definition LOG_ENTRY_MAKE_WORD_01 :: "u32 \<Rightarrow> u16 \<Rightarrow> write_log_entry_t" where
  "LOG_ENTRY_MAKE_WORD_01 address v =
    [push_bit 6 (LOG_ENTRY_TYPE_WORD_01 AND 3) OR push_bit 5 (if v \<noteq> 0 then 1 else 0) OR
       (ucast (drop_bit 9 address) AND 31),
     ucast (drop_bit 1 address), 0, 0, 0, 0, 0, 0]"

text \<open>Byte arrays seen as arrays of words.\<close>

fun words_of :: "u8 list \<Rightarrow> u16 list" where
  "words_of (l # h # bs) = mk16 l h # words_of bs"
| "words_of _ = []"

definition bytes_of :: "u16 list \<Rightarrow> u8 list" where
  "bytes_of ws = concat (map (\<lambda>w. [lo8 w, hi8 w]) ws)"

text \<open>The 64-bit view of four words.\<close>

definition raw64_of :: "u16 list \<Rightarrow> u64" where
  "raw64_of ws = ucast (ws ! 0) OR push_bit 16 (ucast (ws ! 1)) OR
    push_bit 32 (ucast (ws ! 2)) OR push_bit 48 (ucast (ws ! 3))"

definition raw64_words :: "u64 \<Rightarrow> u16 list" where
  "raw64_words v = [ucast v, ucast (drop_bit 16 v), ucast (drop_bit 32 v), ucast (drop_bit 48 v)]"

section \<open>State and locking\<close>

datatype wear_leveling_status_t = WEAR_LEVELING_FAILED | WEAR_LEVELING_SUCCESS | WEAR_LEVELING_CONSOLIDATED

datatype backing_store_lock_status_t = STATUS_FAILURE | STATUS_SUCCESS | STATUS_UNCHANGED

record 's wear_leveling =
  wl_cache :: "u8 list"
  wl_write_address :: u32
  wl_unlocked :: bool
  wl_store :: 's

definition wear_leveling_unlock ::
    "'s backing_store_ops \<Rightarrow> 's wear_leveling \<Rightarrow> backing_store_lock_status_t \<times> 's wear_leveling" where
  "wear_leveling_unlock ops s =
    (if wl_unlocked s then (STATUS_UNCHANGED, s)
     else let (r, st) = bs_unlock ops (wl_store s) in
       if \<not> r then (STATUS_FAILURE, s\<lparr>wl_store := st\<rparr>)
       else (STATUS_SUCCESS, s\<lparr>wl_store := st, wl_unlocked := True\<rparr>))"

definition wear_leveling_lock ::
    "'s backing_store_ops \<Rightarrow> 's wear_leveling \<Rightarrow> backing_store_lock_status_t \<times> 's wear_leveling" where
  "wear_leveling_lock ops s =
    (if \<not> wl_unlocked s then (STATUS_UNCHANGED, s)
     else let (r, st) = bs_lock ops (wl_store s) in
       if \<not> r then (STATUS_FAILURE, s\<lparr>wl_store := st\<rparr>)
       else (STATUS_SUCCESS, s\<lparr>wl_store := st, wl_unlocked := False\<rparr>))"

definition wear_leveling_clear_cache :: "'s wear_leveling \<Rightarrow> 's wear_leveling" where
  "wear_leveling_clear_cache s =
    s\<lparr>wl_cache := replicate (unat WEAR_LEVELING_LOGICAL_SIZE) 0,
      wl_write_address := WEAR_LEVELING_LOGICAL_SIZE + 8\<rparr>"

section \<open>Consolidated data\<close>

text \<open>
  The result of reading the checksum is not looked at; when that read fails the entry holds what
  was on the stack, for which the model takes zero.
\<close>

definition wear_leveling_read_consolidated ::
    "'s backing_store_ops \<Rightarrow> 's wear_leveling \<Rightarrow> wear_leveling_status_t \<times> 's wear_leveling" where
  "wear_leveling_read_consolidated ops s =
    (case bs_read_bulk ops 0 (length (wl_cache s) div 2) (wl_store s) of
      None \<Rightarrow> (WEAR_LEVELING_FAILED, wear_leveling_clear_cache s)
    | Some ws \<Rightarrow>
        (let s1 = s\<lparr>wl_cache := bytes_of ws\<rparr>;
             expected = fnv_64a_buf (wl_cache s1) FNV1A_64_INIT;
             entry = (case bs_read_bulk ops WEAR_LEVELING_LOGICAL_SIZE 4 (wl_store s1) of
                        None \<Rightarrow> 0 | Some cs \<Rightarrow> raw64_of cs)
         in (WEAR_LEVELING_SUCCESS, if entry = expected then s1 else wear_leveling_clear_cache s1)))"

definition wear_leveling_write_consolidated ::
    "'s backing_store_ops \<Rightarrow> 's wear_leveling \<Rightarrow> wear_leveling_status_t \<times> 's wear_leveling" where
  "wear_leveling_write_consolidated ops s =
    (let (lock_status, s1) = wear_leveling_unlock ops s;
         (r, st) = bs_write_bulk ops 0 (words_of (wl_cache s1)) (wl_store s1);
         s2 = s1\<lparr>wl_store := st\<rparr>;
         (status, s3) =
           (if r then
              (let (r', st') = bs_write_bulk ops WEAR_LEVELING_LOGICAL_SIZE
                 (raw64_words (fnv_64a_buf (wl_cache s2) FNV1A_64_INIT)) (wl_store s2)
               in (if r' then WEAR_LEVELING_CONSOLIDATED else WEAR_LEVELING_FAILED, s2\<lparr>wl_store := st'\<rparr>))
            else (WEAR_LEVELING_FAILED, s2))
     in (status, if lock_status = STATUS_SUCCESS then snd (wear_leveling_lock ops s3) else s3))"

definition wear_leveling_consolidate_force ::
    "'s backing_store_ops \<Rightarrow> 's wear_leveling \<Rightarrow> wear_leveling_status_t \<times> 's wear_leveling" where
  "wear_leveling_consolidate_force ops s =
    (let (ok, st) = bs_erase ops (wl_store s); s1 = s\<lparr>wl_store := st\<rparr> in
     if \<not> ok then (WEAR_LEVELING_FAILED, s1)
     else let (status, s2) = wear_leveling_write_consolidated ops s1
       in (status, s2\<lparr>wl_write_address := WEAR_LEVELING_LOGICAL_SIZE + 8\<rparr>))"

definition wear_leveling_consolidate_if_needed ::
    "'s backing_store_ops \<Rightarrow> 's wear_leveling \<Rightarrow> wear_leveling_status_t \<times> 's wear_leveling" where
  "wear_leveling_consolidate_if_needed ops s =
    (if wl_write_address s \<ge> WEAR_LEVELING_BACKING_SIZE then wear_leveling_consolidate_force ops s
     else (WEAR_LEVELING_SUCCESS, s))"

section \<open>Writing\<close>

definition wear_leveling_append_raw ::
    "'s backing_store_ops \<Rightarrow> u16 \<Rightarrow> 's wear_leveling \<Rightarrow> wear_leveling_status_t \<times> 's wear_leveling" where
  "wear_leveling_append_raw ops v s =
    (let (ok, st) = bs_write ops (wl_write_address s) v (wl_store s); s1 = s\<lparr>wl_store := st\<rparr> in
     if \<not> ok then (WEAR_LEVELING_FAILED, s1)
     else wear_leveling_consolidate_if_needed ops
       (s1\<lparr>wl_write_address := wl_write_address s1 + BACKING_STORE_WRITE_SIZE\<rparr>))"

definition wear_leveling_write_raw_multibyte ::
    "'s backing_store_ops \<Rightarrow> u32 \<Rightarrow> u8 list \<Rightarrow> 's wear_leveling \<Rightarrow>
      wear_leveling_status_t \<times> 's wear_leveling" where
  "wear_leveling_write_raw_multibyte ops address p s =
    (let len = length p; log = memcpy_at (LOG_ENTRY_MAKE_MULTIBYTE address len) 3 p;
         (status, s1) = wear_leveling_append_raw ops (raw16 log 0) s in
     if status \<noteq> WEAR_LEVELING_SUCCESS then (status, s1)
     else let (status, s2) = wear_leveling_append_raw ops (raw16 log 1) s1 in
     if status \<noteq> WEAR_LEVELING_SUCCESS then (status, s2)
     else let (status, s3) =
         (if len > 1 then wear_leveling_append_raw ops (raw16 log 2) s2 else (status, s2)) in
     if status \<noteq> WEAR_LEVELING_SUCCESS then (status, s3)
     else if len > 3 then wear_leveling_append_raw ops (raw16 log 3) s3 else (status, s3))"

text \<open>The pointer \<open>p\<close> and the count \<open>remaining\<close> are the list of the bytes still to write.\<close>

function wear_leveling_write_raw ::
    "'s backing_store_ops \<Rightarrow> u32 \<Rightarrow> u8 list \<Rightarrow> 's wear_leveling \<Rightarrow>
      wear_leveling_status_t \<times> 's wear_leveling" where
  "wear_leveling_write_raw ops address p s =
    (if p = [] then (WEAR_LEVELING_SUCCESS, s)
     else if length p \<ge> 2 \<and> address mod 2 = 0 \<and> address < 16384 \<and>
         (mk16 (p ! 0) (p ! 1) = 0 \<or> mk16 (p ! 0) (p ! 1) = 1) then
       (case wear_leveling_append_raw ops
           (raw16 (LOG_ENTRY_MAKE_WORD_01 address (mk16 (p ! 0) (p ! 1))) 0) s of
         (status, s') \<Rightarrow>
           if status \<noteq> WEAR_LEVELING_SUCCESS then (status, s')
           else wear_leveling_write_raw ops (address + 2) (drop 2 p) s')
     else if address < 64 then
       (case wear_leveling_append_raw ops (raw16 (LOG_ENTRY_MAKE_OPTIMIZED_64 address (p ! 0)) 0) s of
         (status, s') \<Rightarrow>
           if status \<noteq> WEAR_LEVELING_SUCCESS then (status, s')
           else wear_leveling_write_raw ops (address + 1) (drop 1 p) s')
     else
       (let this_length = (if length p \<ge> LOG_ENTRY_MULTIBYTE_MAX_BYTES
                           then LOG_ENTRY_MULTIBYTE_MAX_BYTES else length p)
        in case wear_leveling_write_raw_multibyte ops address (take this_length p) s of
          (status, s') \<Rightarrow>
            if status \<noteq> WEAR_LEVELING_SUCCESS then (status, s')
            else wear_leveling_write_raw ops (address + of_nat this_length) (drop this_length p) s'))"
  by pat_completeness auto
termination
  by (relation "measure (\<lambda>(ops, address, p, s). length p)")
    (auto simp: LOG_ENTRY_MULTIBYTE_MAX_BYTES_def)

declare wear_leveling_write_raw.simps [simp del]

definition wear_leveling_write ::
    "'s backing_store_ops \<Rightarrow> u32 \<Rightarrow> u8 list \<Rightarrow> 's wear_leveling \<Rightarrow>
      wear_leveling_status_t \<times> 's wear_leveling" where
  "wear_leveling_write ops address v s =
    (if address + of_nat (length v) > WEAR_LEVELING_LOGICAL_SIZE then (WEAR_LEVELING_FAILED, s)
     else if take (length v) (drop (unat address) (wl_cache s)) = v then (WEAR_LEVELING_SUCCESS, s)
     else
       (let s1 = s\<lparr>wl_cache := memcpy_at (wl_cache s) (unat address) v\<rparr>;
            (lock_status, s2) = wear_leveling_unlock ops s1 in
        if lock_status = STATUS_FAILURE then (WEAR_LEVELING_FAILED, snd (wear_leveling_lock ops s2))
        else
          (let (status, s3) = wear_leveling_write_raw ops address v s2;
               (status, s4) =
                 (case status of
                   WEAR_LEVELING_SUCCESS \<Rightarrow> wear_leveling_consolidate_if_needed ops s3
                 | _ \<Rightarrow> (status, s3))
           in if lock_status = STATUS_SUCCESS then
                (let (l, s5) = wear_leveling_lock ops s4
                 in (if l = STATUS_FAILURE then WEAR_LEVELING_FAILED else status, s5))
              else (status, s4))))"

definition wear_leveling_read ::
    "u32 \<Rightarrow> nat \<Rightarrow> 's wear_leveling \<Rightarrow> wear_leveling_status_t \<times> u8 list option" where
  "wear_leveling_read address len s =
    (if address + of_nat len > WEAR_LEVELING_LOGICAL_SIZE then (WEAR_LEVELING_FAILED, None)
     else (WEAR_LEVELING_SUCCESS, Some (take len (drop (unat address) (wl_cache s)))))"

section \<open>Playing back the log\<close>

text \<open>
  One entry, whose first word has been read; \<open>address\<close> is the address after that word. The result
  says whether playback goes on, the status, and the next address. The copy takes the bytes that the
  entry has; a corrupt length of six or seven would read past it.
\<close>

definition playback_multibyte ::
    "'s backing_store_ops \<Rightarrow> write_log_entry_t \<Rightarrow> u32 \<Rightarrow> 's wear_leveling \<Rightarrow>
      bool \<times> wear_leveling_status_t \<times> u32 \<times> 's wear_leveling" where
  "playback_multibyte ops log address s =
    (case bs_read ops address (wl_store s) of
      None \<Rightarrow> (False, WEAR_LEVELING_FAILED, address, s)
    | Some v1 \<Rightarrow>
        (let log = set_raw16 1 v1 log; address = address + BACKING_STORE_WRITE_SIZE;
             a = LOG_ENTRY_MULTIBYTE_GET_ADDRESS log; l = LOG_ENTRY_MULTIBYTE_GET_LENGTH log in
         if a + ucast l > WEAR_LEVELING_LOGICAL_SIZE then (False, WEAR_LEVELING_FAILED, address, s)
         else case (if l > 1 then bs_read ops address (wl_store s) else Some 0) of
           None \<Rightarrow> (False, WEAR_LEVELING_FAILED, address, s)
         | Some v2 \<Rightarrow>
             (let log = (if l > 1 then set_raw16 2 v2 log else log);
                  address = (if l > 1 then address + BACKING_STORE_WRITE_SIZE else address) in
              case (if l > 3 then bs_read ops address (wl_store s) else Some 0) of
                None \<Rightarrow> (False, WEAR_LEVELING_FAILED, address, s)
              | Some v3 \<Rightarrow>
                  (let log = (if l > 3 then set_raw16 3 v3 log else log);
                       address = (if l > 3 then address + BACKING_STORE_WRITE_SIZE else address)
                   in (True, WEAR_LEVELING_SUCCESS, address,
                       s\<lparr>wl_cache := memcpy_at (wl_cache s) (unat a) (take (unat l) (drop 3 log))\<rparr>)))))"

definition playback_entry ::
    "'s backing_store_ops \<Rightarrow> u16 \<Rightarrow> u32 \<Rightarrow> 's wear_leveling \<Rightarrow>
      bool \<times> wear_leveling_status_t \<times> u32 \<times> 's wear_leveling" where
  "playback_entry ops v address s =
    (let log = set_raw16 0 v (replicate 8 0) in
     if LOG_ENTRY_GET_TYPE log = LOG_ENTRY_TYPE_MULTIBYTE then playback_multibyte ops log address s
     else if LOG_ENTRY_GET_TYPE log = LOG_ENTRY_TYPE_OPTIMIZED_64 then
       (let a = LOG_ENTRY_OPTIMIZED_64_GET_ADDRESS log; x = LOG_ENTRY_OPTIMIZED_64_GET_VALUE log in
        if a \<ge> WEAR_LEVELING_LOGICAL_SIZE then (False, WEAR_LEVELING_FAILED, address, s)
        else (True, WEAR_LEVELING_SUCCESS, address, s\<lparr>wl_cache := (wl_cache s)[unat a := x]\<rparr>))
     else if LOG_ENTRY_GET_TYPE log = LOG_ENTRY_TYPE_WORD_01 then
       (let a = LOG_ENTRY_WORD_01_GET_ADDRESS log; x = LOG_ENTRY_WORD_01_GET_VALUE log in
        if a + 1 \<ge> WEAR_LEVELING_LOGICAL_SIZE then (False, WEAR_LEVELING_FAILED, address, s)
        else (True, WEAR_LEVELING_SUCCESS, address,
              s\<lparr>wl_cache := (wl_cache s)[unat a := x, unat (a + 1) := 0]\<rparr>))
     else (False, WEAR_LEVELING_FAILED, address, s))"

lemma playback_entry_address:
  assumes "playback_entry ops v address s = (go, status, address', s')" "unat address < 4294967000"
  shows "unat address \<le> unat address' \<and> unat address' \<le> unat address + 6"
proof -
  have 2: "unat (address + 2) = unat address + 2" "unat (address + 4) = unat address + 4"
    "unat (address + 6) = unat address + 6"
    using assms(2) by (simp_all add: unat_word_ariths)
  have "address' = address \<or> address' = address + 2 \<or> address' = address + 4 \<or> address' = address + 6"
    using assms(1)
    by (auto simp: playback_entry_def playback_multibyte_def Let_def BACKING_STORE_WRITE_SIZE_def
        add.assoc split: if_splits option.splits)
  then show ?thesis using 2 by auto
qed

function playback_loop ::
    "'s backing_store_ops \<Rightarrow> u32 \<Rightarrow> 's wear_leveling \<Rightarrow> wear_leveling_status_t \<times> u32 \<times> 's wear_leveling" where
  "playback_loop ops address s =
    (if address < WEAR_LEVELING_BACKING_SIZE then
       (case bs_read ops address (wl_store s) of
         None \<Rightarrow> (WEAR_LEVELING_FAILED, address, s)
       | Some v \<Rightarrow>
           if v = 0 then (WEAR_LEVELING_SUCCESS, address, s)
           else (case playback_entry ops v (address + BACKING_STORE_WRITE_SIZE) s of
             (go, status, address', s') \<Rightarrow>
               if go then playback_loop ops address' s' else (status, address', s')))
     else (WEAR_LEVELING_SUCCESS, address, s))"
  by pat_completeness auto
termination
proof (relation "measure (\<lambda>(ops, address, s). 8192 - unat address)", goal_cases)
  case (2 ops address s v x y x' y' x'' y'')
  then have a: "unat address < 8192" by (simp add: word_less_nat_alt)
  then have "unat (address + 2) = unat address + 2" by (simp add: unat_word_ariths)
  moreover have "playback_entry ops v (address + 2) s = (x, x', x'', y'')"
    using 2 by (simp add: BACKING_STORE_WRITE_SIZE_def)
  note playback_entry_address [OF this]
  ultimately have "unat address < unat x''" using a by simp
  then show ?case using a by (simp add: diff_less_mono2)
qed simp

declare playback_loop.simps [simp del]

definition wear_leveling_playback_log ::
    "'s backing_store_ops \<Rightarrow> 's wear_leveling \<Rightarrow> wear_leveling_status_t \<times> 's wear_leveling" where
  "wear_leveling_playback_log ops s =
    (let (status, address, s1) = playback_loop ops (WEAR_LEVELING_LOGICAL_SIZE + 8) s;
         s2 = s1\<lparr>wl_write_address := address\<rparr>
     in if status = WEAR_LEVELING_FAILED then wear_leveling_consolidate_force ops s2
        else wear_leveling_consolidate_if_needed ops s2)"

section \<open>Initialisation and erasure\<close>

definition wear_leveling_init ::
    "'s backing_store_ops \<Rightarrow> 's wear_leveling \<Rightarrow> wear_leveling_status_t \<times> 's wear_leveling" where
  "wear_leveling_init ops s =
    (let s1 = wear_leveling_clear_cache s; (r, st) = bs_init ops (wl_store s1);
         s2 = s1\<lparr>wl_store := st\<rparr> in
     if \<not> r then (WEAR_LEVELING_FAILED, wear_leveling_clear_cache s2)
     else let (status, s3) = wear_leveling_read_consolidated ops s2 in
     if status = WEAR_LEVELING_FAILED then (status, wear_leveling_clear_cache s3)
     else let (status, s4) = wear_leveling_playback_log ops s3 in
     if status = WEAR_LEVELING_FAILED then (status, wear_leveling_clear_cache s4) else (status, s4))"

definition wear_leveling_erase ::
    "'s backing_store_ops \<Rightarrow> 's wear_leveling \<Rightarrow> wear_leveling_status_t \<times> 's wear_leveling" where
  "wear_leveling_erase ops s =
    (let (lock_status, s1) = wear_leveling_unlock ops s in
     if lock_status = STATUS_FAILURE then (WEAR_LEVELING_FAILED, snd (wear_leveling_lock ops s1))
     else
       (let (ret, st) = bs_erase ops (wl_store s1);
            s2 = wear_leveling_clear_cache (s1\<lparr>wl_store := st\<rparr>);
            (ret, s3) =
              (if lock_status = STATUS_SUCCESS then
                 (let (l, s3) = wear_leveling_lock ops s2 in (ret \<and> l \<noteq> STATUS_FAILURE, s3))
               else (ret, s2))
        in (if ret then WEAR_LEVELING_SUCCESS else WEAR_LEVELING_FAILED, s3)))"

section \<open>Encoding and decoding\<close>

lemma and_masks:
  fixes x :: "'a::len word"
  shows "x AND 1 = take_bit 1 x" "x AND 3 = take_bit 2 x" "x AND 7 = take_bit 3 x"
    "x AND 31 = take_bit 5 x" "x AND 63 = take_bit 6 x"
  by (simp_all add: take_bit_eq_mask mask_eq_exp_minus_1)

lemma bit_above:
  fixes x :: "'a::len word"
  assumes "unat x < 2 ^ m" "m \<le> n"
  shows "\<not> bit x n"
proof
  assume "bit x n"
  then have "bit (unat x) n" by (simp add: bit_unsigned_iff bit_imp_le_length)
  moreover have "unat x < 2 ^ n" using assms power_increasing [of m n "2 :: nat"] by linarith
  ultimately show False by (simp add: bit_iff_odd)
qed

lemma bit_below: "unat x < 2 ^ m \<Longrightarrow> bit x n \<Longrightarrow> n < m" for x :: "'a::len word"
  using bit_above not_less by blast

lemmas log_bits = and_masks bit_take_bit_iff word_bits bit_simps LOG_ENTRY_TYPE_MULTIBYTE_def
  LOG_ENTRY_TYPE_OPTIMIZED_64_def LOG_ENTRY_TYPE_WORD_01_def

lemma word_even_unat: "even (unat x) \<longleftrightarrow> even x" for x :: "'a::len word"
proof -
  have "even x \<longleftrightarrow> \<not> bit x 0" by (simp add: bit_0)
  also have "\<dots> \<longleftrightarrow> \<not> bit (unat x) 0" by (simp add: bit_unsigned_iff)
  finally show ?thesis by (simp add: bit_0)
qed

text \<open>The first word of a log entry is never zero, which would end the log.\<close>

lemma multibyte_codec:
  assumes "unat a < 2 ^ 19" "n < 8"
  shows "LOG_ENTRY_GET_TYPE (LOG_ENTRY_MAKE_MULTIBYTE a n) = LOG_ENTRY_TYPE_MULTIBYTE"
    "LOG_ENTRY_MULTIBYTE_GET_ADDRESS (LOG_ENTRY_MAKE_MULTIBYTE a n) = a"
    "unat (LOG_ENTRY_MULTIBYTE_GET_LENGTH (LOG_ENTRY_MAKE_MULTIBYTE a n)) = n"
proof -
  show "LOG_ENTRY_GET_TYPE (LOG_ENTRY_MAKE_MULTIBYTE a n) = LOG_ENTRY_TYPE_MULTIBYTE"
    by (rule bit_word_eqI) (auto simp: LOG_ENTRY_GET_TYPE_def LOG_ENTRY_MAKE_MULTIBYTE_def log_bits)
  show "LOG_ENTRY_MULTIBYTE_GET_ADDRESS (LOG_ENTRY_MAKE_MULTIBYTE a n) = a"
    by (rule bit_word_eqI)
      (use bit_above [OF assms(1)] in \<open>auto simp: LOG_ENTRY_MULTIBYTE_GET_ADDRESS_def
         LOG_ENTRY_MAKE_MULTIBYTE_def log_bits\<close>)
  have "LOG_ENTRY_MULTIBYTE_GET_LENGTH (LOG_ENTRY_MAKE_MULTIBYTE a n) = take_bit 3 (of_nat n)"
    by (rule bit_word_eqI) (auto simp: LOG_ENTRY_MULTIBYTE_GET_LENGTH_def LOG_ENTRY_MAKE_MULTIBYTE_def log_bits)
  then show "unat (LOG_ENTRY_MULTIBYTE_GET_LENGTH (LOG_ENTRY_MAKE_MULTIBYTE a n)) = n"
    using assms(2) by (simp add: unsigned_take_bit_eq unsigned_of_nat take_bit_nat_eq_self)
qed

lemma optimized_64_codec:
  assumes "unat a < 64"
  shows "LOG_ENTRY_GET_TYPE (LOG_ENTRY_MAKE_OPTIMIZED_64 a v) = LOG_ENTRY_TYPE_OPTIMIZED_64"
    "LOG_ENTRY_OPTIMIZED_64_GET_ADDRESS (LOG_ENTRY_MAKE_OPTIMIZED_64 a v) = a"
    "LOG_ENTRY_OPTIMIZED_64_GET_VALUE (LOG_ENTRY_MAKE_OPTIMIZED_64 a v) = v"
proof -
  show "LOG_ENTRY_GET_TYPE (LOG_ENTRY_MAKE_OPTIMIZED_64 a v) = LOG_ENTRY_TYPE_OPTIMIZED_64"
    by (rule bit_word_eqI) (auto simp: LOG_ENTRY_GET_TYPE_def LOG_ENTRY_MAKE_OPTIMIZED_64_def log_bits)
  show "LOG_ENTRY_OPTIMIZED_64_GET_ADDRESS (LOG_ENTRY_MAKE_OPTIMIZED_64 a v) = a"
    by (rule bit_word_eqI)
      (use bit_below [of a 6] assms in \<open>fastforce simp: LOG_ENTRY_OPTIMIZED_64_GET_ADDRESS_def
         LOG_ENTRY_MAKE_OPTIMIZED_64_def log_bits\<close>)
  show "LOG_ENTRY_OPTIMIZED_64_GET_VALUE (LOG_ENTRY_MAKE_OPTIMIZED_64 a v) = v"
    by (simp add: LOG_ENTRY_OPTIMIZED_64_GET_VALUE_def LOG_ENTRY_MAKE_OPTIMIZED_64_def)
qed

lemma bit_times_2: "bit (x * 2) n \<longleftrightarrow> n \<noteq> 0 \<and> n < LENGTH('a) \<and> bit x (n - 1)" for x :: "'a::len word"
  using bit_double_iff [of x n] by (auto simp: mult.commute possible_bit_word)

lemma word_01_codec:
  assumes "unat a < 16384" "even (unat a)"
  shows "LOG_ENTRY_GET_TYPE (LOG_ENTRY_MAKE_WORD_01 a v) = LOG_ENTRY_TYPE_WORD_01"
    "LOG_ENTRY_WORD_01_GET_ADDRESS (LOG_ENTRY_MAKE_WORD_01 a v) = a"
    "LOG_ENTRY_WORD_01_GET_VALUE (LOG_ENTRY_MAKE_WORD_01 a v) = (if v = 0 then 0 else 1)"
proof -
  show "LOG_ENTRY_GET_TYPE (LOG_ENTRY_MAKE_WORD_01 a v) = LOG_ENTRY_TYPE_WORD_01"
    by (rule bit_word_eqI)
      (auto simp: LOG_ENTRY_GET_TYPE_def LOG_ENTRY_MAKE_WORD_01_def log_bits split: if_splits)
  have "\<not> bit a 0" using assms(2) by (simp only: bit_0 word_even_unat not_not)
  show "LOG_ENTRY_WORD_01_GET_ADDRESS (LOG_ENTRY_MAKE_WORD_01 a v) = a"
  proof (rule bit_word_eqI)
    fix n assume n: "n < LENGTH(32)"
    have b: "bit a n \<Longrightarrow> n < 14" using bit_below [of a 14 n] assms(1) by simp
    consider "n = 0" | m where "n = Suc m" "m < 8" | m where "n = Suc (m + 8)"
      by (metis add.commute le_Suc_ex not_less not0_implies_Suc)
    then show "bit (LOG_ENTRY_WORD_01_GET_ADDRESS (LOG_ENTRY_MAKE_WORD_01 a v)) n = bit a n"
      by cases (use n b \<open>\<not> bit a 0\<close> in \<open>auto simp: LOG_ENTRY_WORD_01_GET_ADDRESS_def
         LOG_ENTRY_MAKE_WORD_01_def log_bits bit_times_2 add.commute\<close>)
  qed
  show "LOG_ENTRY_WORD_01_GET_VALUE (LOG_ENTRY_MAKE_WORD_01 a v) = (if v = 0 then 0 else 1)"
    by (rule bit_word_eqI)
      (auto simp: LOG_ENTRY_WORD_01_GET_VALUE_def LOG_ENTRY_MAKE_WORD_01_def log_bits drop_bit_take_bit)
qed

section \<open>Properties\<close>

text \<open>
  The checksum, computed with shifts and additions, is the FNV-1a hash with the 64-bit prime
  0x100000001b3.
\<close>

theorem fnv_64a_is_fnv1a:
  "fnv_64a_buf buf hval = fold (\<lambda>b h. (h XOR ucast b) * 0x100000001b3) buf hval"
proof -
  have "fnv_64a_step b h = (h XOR ucast b) * 0x100000001b3" for b h
    by (simp add: fnv_64a_step_def Let_def push_bit_eq_mult algebra_simps)
  then show ?thesis unfolding fnv_64a_buf_def by (intro fold_cong) (simp_all add: fun_eq_iff)
qed

text \<open>
  The macros that make log entries and those that take them apart are inverse: each of the three
  kinds of entry gives back its kind, its address and its length or value, for addresses below 2^19,
  64 and 16384.
\<close>

theorem log_entry_macros:
  assumes "unat a < 2 ^ 19" "n < 8" "unat b < 64" "unat c < 16384" "even (unat c)"
  shows "LOG_ENTRY_GET_TYPE (LOG_ENTRY_MAKE_MULTIBYTE a n) = LOG_ENTRY_TYPE_MULTIBYTE \<and>
    LOG_ENTRY_MULTIBYTE_GET_ADDRESS (LOG_ENTRY_MAKE_MULTIBYTE a n) = a \<and>
    unat (LOG_ENTRY_MULTIBYTE_GET_LENGTH (LOG_ENTRY_MAKE_MULTIBYTE a n)) = n \<and>
    LOG_ENTRY_GET_TYPE (LOG_ENTRY_MAKE_OPTIMIZED_64 b v) = LOG_ENTRY_TYPE_OPTIMIZED_64 \<and>
    LOG_ENTRY_OPTIMIZED_64_GET_ADDRESS (LOG_ENTRY_MAKE_OPTIMIZED_64 b v) = b \<and>
    LOG_ENTRY_OPTIMIZED_64_GET_VALUE (LOG_ENTRY_MAKE_OPTIMIZED_64 b v) = v \<and>
    LOG_ENTRY_GET_TYPE (LOG_ENTRY_MAKE_WORD_01 c w) = LOG_ENTRY_TYPE_WORD_01 \<and>
    LOG_ENTRY_WORD_01_GET_ADDRESS (LOG_ENTRY_MAKE_WORD_01 c w) = c \<and>
    LOG_ENTRY_WORD_01_GET_VALUE (LOG_ENTRY_MAKE_WORD_01 c w) = (if w = 0 then 0 else 1)"
  using multibyte_codec [OF assms(1,2)] optimized_64_codec [OF assms(3)] word_01_codec [OF assms(4,5)]
  by simp

theorem log_entry_macros_witness:
  "LOG_ENTRY_MULTIBYTE_GET_ADDRESS (LOG_ENTRY_MAKE_MULTIBYTE 1000 5) = 1000 \<and>
   LOG_ENTRY_WORD_01_GET_ADDRESS (LOG_ENTRY_MAKE_WORD_01 4094 1) = 4094"
  using log_entry_macros [of 1000 5 63 4094 7 1] by simp

text \<open>
  The range check of reads and writes wraps: the address 2^32 - 1 with a length of one passes it,
  although it lies outside the data.
\<close>

theorem range_check_wraps:
  "fst (wear_leveling_read 0xFFFFFFFF 1 s) = WEAR_LEVELING_SUCCESS"
  by (simp add: wear_leveling_read_def)

end
