(* ===== verification/Wear_Log.thy ===== *)
theory Wear_Log
  imports Wear_Leveling
begin

text \<open>
  What the log of \<open>Wear_Leveling\<close> promises: the contract of a backing store as a locale, the log as
  a sequence of entries, and the invariant that the consolidated data with the log applied to it is
  the content of the cache. The facts of the locale are used for the RP2040 flash driver in
  \<open>Rp2040_Flash\<close>.
\<close>

section \<open>Arrays of words\<close>

lemma length_bytes_of [simp]: "length (bytes_of ws) = 2 * length ws"
  by (induction ws) (simp_all add: bytes_of_def)

lemma bytes_of_Nil [simp]: "bytes_of [] = []"
  by (simp add: bytes_of_def)

lemma bytes_of_Cons [simp]: "bytes_of (w # ws) = lo8 w # hi8 w # bytes_of ws"
  by (simp add: bytes_of_def)

lemma words_of_bytes_of [simp]: "words_of (bytes_of ws) = ws"
  by (induction ws) simp_all

lemma length_words_of [simp]: "length (words_of bs) = length bs div 2"
  by (induction bs rule: words_of.induct) simp_all

lemma bytes_of_words_of [simp]: "even (length bs) \<Longrightarrow> bytes_of (words_of bs) = bs"
  by (induction bs rule: words_of.induct) simp_all

lemma nth_bytes_of:
  "i < length ws \<Longrightarrow> bytes_of ws ! (2 * i) = lo8 (ws ! i)"
  "i < length ws \<Longrightarrow> bytes_of ws ! Suc (2 * i) = hi8 (ws ! i)"
  by (induction ws arbitrary: i) (auto simp: less_Suc_eq_0_disj)

lemma lo8_0 [simp]: "lo8 0 = 0" and hi8_0 [simp]: "hi8 0 = 0"
  by (simp_all add: lo8_def hi8_def)

lemma bytes_of_zeros [simp]: "bytes_of (replicate n 0) = replicate (2 * n) 0"
  by (induction n) simp_all

lemma words_of_zeros [simp]: "words_of (replicate (2 * n) 0) = replicate n 0"
  by (induction n) simp_all

lemma raw64_round_trip [simp]: "raw64_of (raw64_words v) = v"
proof (rule bit_word_eqI)
  fix n assume "n < LENGTH(64)"
  then show "bit (raw64_of (raw64_words v)) n = bit v n"
    by (cases "n < 48"; cases "n < 32") (auto simp: raw64_of_def raw64_words_def word_bits)
qed

lemma length_raw64_words [simp]: "length (raw64_words v) = 4"
  by (simp add: raw64_words_def)

section \<open>The log as a list of entries\<close>

datatype log_entry = Multibyte u32 "u8 list" | Optimized_64 u32 u8 | Word_01 u32 u16

fun encode_entry :: "log_entry \<Rightarrow> u16 list" where
  "encode_entry (Multibyte a bs) =
    (let log = memcpy_at (LOG_ENTRY_MAKE_MULTIBYTE a (length bs)) 3 bs
     in [raw16 log 0, raw16 log 1] @ (if length bs > 1 then [raw16 log 2] else []) @
        (if length bs > 3 then [raw16 log 3] else []))"
| "encode_entry (Optimized_64 a v) = [raw16 (LOG_ENTRY_MAKE_OPTIMIZED_64 a v) 0]"
| "encode_entry (Word_01 a v) = [raw16 (LOG_ENTRY_MAKE_WORD_01 a v) 0]"

fun entry_ok :: "log_entry \<Rightarrow> bool" where
  "entry_ok (Multibyte a bs) \<longleftrightarrow>
    0 < length bs \<and> length bs \<le> LOG_ENTRY_MULTIBYTE_MAX_BYTES \<and> unat a + length bs \<le> 4096"
| "entry_ok (Optimized_64 a v) \<longleftrightarrow> a < 64"
| "entry_ok (Word_01 a v) \<longleftrightarrow> even a \<and> unat a + 2 \<le> 4096 \<and> (v = 0 \<or> v = 1)"

text \<open>Where an entry writes, and what.\<close>

fun entry_address :: "log_entry \<Rightarrow> u32" where
  "entry_address (Multibyte a bs) = a"
| "entry_address (Optimized_64 a v) = a"
| "entry_address (Word_01 a v) = a"

fun entry_data :: "log_entry \<Rightarrow> u8 list" where
  "entry_data (Multibyte a bs) = bs"
| "entry_data (Optimized_64 a v) = [v]"
| "entry_data (Word_01 a v) = [lo8 v, hi8 v]"

definition apply_entry :: "u8 list \<Rightarrow> log_entry \<Rightarrow> u8 list" where
  "apply_entry c e = memcpy_at c (unat (entry_address e)) (entry_data e)"

lemma entry_data_length: "entry_ok e \<Longrightarrow> 0 < length (entry_data e) \<and> length (entry_data e) \<le> 5"
  by (cases e) (simp_all add: LOG_ENTRY_MULTIBYTE_MAX_BYTES_def)

lemma entry_in_range: "entry_ok e \<Longrightarrow> unat (entry_address e) + length (entry_data e) \<le> 4096"
  by (cases e) (auto simp: word_less_nat_alt)

lemma length_apply_entry [simp]: "entry_ok e \<Longrightarrow> length c = 4096 \<Longrightarrow> length (apply_entry c e) = 4096"
  using entry_in_range [of e] by (simp add: apply_entry_def)

lemma length_apply_entries [simp]:
  "list_all entry_ok es \<Longrightarrow> length c = 4096 \<Longrightarrow> length (foldl apply_entry c es) = 4096"
  by (induction es arbitrary: c) simp_all

lemma encode_entry_length: "entry_ok e \<Longrightarrow> 0 < length (encode_entry e)"
  by (cases e) (simp_all add: Let_def)

text \<open>The words of a multi-byte entry.\<close>

lemma raw16_simps [simp]:
  "raw16 (a # b # e) 0 = mk16 a b"
  "raw16 (a # b # c # d # e) (Suc 0) = mk16 c d"
  "raw16 (a # b # c # d # f # g # e) 2 = mk16 f g"
  "raw16 (a # b # c # d # f # g # h # i # e) 3 = mk16 h i"
  by (simp_all add: raw16_def eval_nat_numeral)

lemma of_nat_unat_id: "of_nat (unat x) = x" for x :: "'a::len word"
  by simp

lemma unat_ucast_u8 [simp]: "unat (ucast x :: u32) = unat x" for x :: u8
proof -
  have "unat x < 2 ^ 32" using unat_less_exp [of x] by simp
  then show ?thesis unfolding unsigned_ucast_eq by (simp add: take_bit_nat_eq_self)
qed

text \<open>Reading back an encoded entry does what the entry says.\<close>

lemma log_fields_Cons:
  "LOG_ENTRY_GET_TYPE (x # e) = drop_bit 6 x AND 3"
  "LOG_ENTRY_MULTIBYTE_GET_LENGTH (x # e) = drop_bit 3 x AND 7"
  "LOG_ENTRY_MULTIBYTE_GET_ADDRESS (x # y # z # e) =
    push_bit 16 (ucast x AND 7) OR push_bit 8 (ucast y) OR ucast z"
  by (simp_all add: LOG_ENTRY_GET_TYPE_def LOG_ENTRY_MULTIBYTE_GET_LENGTH_def
      LOG_ENTRY_MULTIBYTE_GET_ADDRESS_def)

lemma set_raw16_simps [simp]:
  "set_raw16 0 v (a # b # e) = lo8 v # hi8 v # e"
  "set_raw16 (Suc 0) v (a # b # c # d # e) = a # b # lo8 v # hi8 v # e"
  "set_raw16 2 v (a # b # c # d # f # g # e) = a # b # c # d # lo8 v # hi8 v # e"
  "set_raw16 3 v (a # b # c # d # f # g # h # i # e) = a # b # c # d # f # g # lo8 v # hi8 v # e"
  by (simp_all add: set_raw16_def eval_nat_numeral)

lemma eight_zeros: "replicate 8 0 = [0, 0, 0, 0, 0, 0, 0, 0 :: u8]"
  by (simp add: eval_nat_numeral)

lemma list_of_1_to_5:
  assumes "0 < length xs" "length xs \<le> 5"
  obtains a where "xs = [a]" | a b where "xs = [a, b]" | a b c where "xs = [a, b, c]"
    | a b c d where "xs = [a, b, c, d]" | a b c d e where "xs = [a, b, c, d, e]"
  using assms
  by (cases xs; cases "tl xs"; cases "tl (tl xs)"; cases "tl (tl (tl xs))"; cases "tl (tl (tl (tl xs)))") auto

lemma playback_multibyte_encoded:
  assumes "entry_ok (Multibyte a bs)" "encode_entry (Multibyte a bs) = v # vs"
    and rd: "\<And>i. i < length vs \<Longrightarrow> bs_read ops (address + 2 * of_nat i) (wl_store s) = Some (vs ! i)"
  shows "playback_entry ops v address s =
    (True, WEAR_LEVELING_SUCCESS, address + 2 * of_nat (length vs),
     s\<lparr>wl_cache := apply_entry (wl_cache s) (Multibyte a bs)\<rparr>)"
proof -
  obtain h0 h1 h2 where h: "LOG_ENTRY_MAKE_MULTIBYTE a (length bs) = [h0, h1, h2, 0, 0, 0, 0, 0]"
    by (simp add: LOG_ENTRY_MAKE_MULTIBYTE_def)
  have n: "0 < length bs" "length bs \<le> 5" "unat a + length bs \<le> 4096"
    using assms(1) by (auto simp: LOG_ENTRY_MULTIBYTE_MAX_BYTES_def)
  have kind: "LOG_ENTRY_GET_TYPE (h0 # e) = LOG_ENTRY_TYPE_MULTIBYTE" for e
    using multibyte_codec(1) [of a "length bs"] n unfolding h by (simp add: log_fields_Cons)
  have addr: "LOG_ENTRY_MULTIBYTE_GET_ADDRESS (h0 # h1 # h2 # e) = a" for e
    using multibyte_codec(2) [of a "length bs"] n unfolding h by (simp add: log_fields_Cons)
  have "unat (LOG_ENTRY_MULTIBYTE_GET_LENGTH (h0 # e)) = length bs" for e
    using multibyte_codec(3) [of a "length bs"] n unfolding h by (simp add: log_fields_Cons)
  then have len: "LOG_ENTRY_MULTIBYTE_GET_LENGTH (h0 # e) = of_nat (length bs)" for e
    by (metis of_nat_unat_id)
  have "unat (a + ucast (of_nat (length bs) :: u8)) = unat a + length bs"
    using n by (simp add: unat_word_ariths unat_of_nat take_bit_nat_eq_self)
  then have r: "\<not> WEAR_LEVELING_LOGICAL_SIZE < a + ucast (of_nat (length bs) :: u8)"
    using n(3) by (simp add: word_less_nat_alt)
  define log where "log = [h0, h1, h2] @ bs @ drop (3 + length bs) [h0, h1, h2, 0, 0, 0, 0, 0]"
  have enc: "v # vs = [raw16 log 0, raw16 log 1] @ (if length bs > 1 then [raw16 log 2] else []) @
        (if length bs > 3 then [raw16 log 3] else [])"
    unfolding assms(2) [symmetric] encode_entry.simps h memcpy_at_def log_def Let_def by simp
  have rd': "0 < length vs \<Longrightarrow> bs_read ops address (wl_store s) = Some (vs ! 0)"
    "1 < length vs \<Longrightarrow> bs_read ops (address + 2) (wl_store s) = Some (vs ! 1)"
    "2 < length vs \<Longrightarrow> bs_read ops (address + 4) (wl_store s) = Some (vs ! 2)"
    using rd [of 0] rd [of 1] rd [of 2] by (simp_all add: add.commute [of 4 address])
  from n(1,2) show ?thesis
    by (cases rule: list_of_1_to_5)
      (use rd' r enc in \<open>simp_all add: log_def playback_entry_def add.commute [of 4 address] playback_multibyte_def eight_zeros
         kind addr len Let_def BACKING_STORE_WRITE_SIZE_def apply_entry_def\<close>)
qed

lemma optimized_64_kind:
  "LOG_ENTRY_OPTIMIZED_64_GET_ADDRESS (x # e) = ucast (x AND 63)"
  "LOG_ENTRY_OPTIMIZED_64_GET_VALUE (x # y # e) = y"
  "LOG_ENTRY_WORD_01_GET_ADDRESS (x # y # e) = push_bit 9 (ucast (x AND 31)) OR push_bit 1 (ucast y)"
  "LOG_ENTRY_WORD_01_GET_VALUE (x # e) = drop_bit 5 x AND 1"
  by (simp_all add: LOG_ENTRY_OPTIMIZED_64_GET_ADDRESS_def LOG_ENTRY_OPTIMIZED_64_GET_VALUE_def
      LOG_ENTRY_WORD_01_GET_ADDRESS_def LOG_ENTRY_WORD_01_GET_VALUE_def)

lemma entry_types_distinct [simp]:
  "LOG_ENTRY_TYPE_OPTIMIZED_64 \<noteq> LOG_ENTRY_TYPE_MULTIBYTE"
  "LOG_ENTRY_TYPE_WORD_01 \<noteq> LOG_ENTRY_TYPE_MULTIBYTE"
  "LOG_ENTRY_TYPE_WORD_01 \<noteq> LOG_ENTRY_TYPE_OPTIMIZED_64"
  by (simp_all add: LOG_ENTRY_TYPE_OPTIMIZED_64_def LOG_ENTRY_TYPE_MULTIBYTE_def LOG_ENTRY_TYPE_WORD_01_def)

lemma playback_optimized_encoded:
  assumes "a < 64"
  shows "playback_entry ops (raw16 (LOG_ENTRY_MAKE_OPTIMIZED_64 a x) 0) address s =
    (True, WEAR_LEVELING_SUCCESS, address, s\<lparr>wl_cache := (wl_cache s)[unat a := x]\<rparr>)"
proof -
  have a: "unat a < 64" "a < 4096" using assms by (simp_all add: word_less_nat_alt)
  obtain h0 where h: "LOG_ENTRY_MAKE_OPTIMIZED_64 a x = [h0, x, 0, 0, 0, 0, 0, 0]"
    by (simp add: LOG_ENTRY_MAKE_OPTIMIZED_64_def)
  note c = optimized_64_codec [OF a(1), of x, unfolded h]
  show ?thesis using a(2) by (simp add: h playback_entry_def eight_zeros c Let_def)
qed

lemma playback_word_01_encoded:
  assumes "even a" "unat a + 2 \<le> 4096" "x = 0 \<or> x = 1"
  shows "playback_entry ops (raw16 (LOG_ENTRY_MAKE_WORD_01 a x) 0) address s =
    (True, WEAR_LEVELING_SUCCESS, address,
     s\<lparr>wl_cache := (wl_cache s)[unat a := lo8 x, Suc (unat a) := hi8 x]\<rparr>)"
proof -
  have a: "unat a < 16384" "even (unat a)" "unat (a + 1) = Suc (unat a)"
    using assms(1,2) by (simp_all add: word_even_unat unat_word_ariths)
  have r: "\<not> 4096 \<le> a + 1" using a(3) assms(2) by (simp add: word_le_nat_alt)
  obtain h0 h1 where h: "LOG_ENTRY_MAKE_WORD_01 a x = [h0, h1, 0, 0, 0, 0, 0, 0]"
    by (simp add: LOG_ENTRY_MAKE_WORD_01_def)
  note c = word_01_codec [OF a(1,2), of x, unfolded h]
  have x: "lo8 x = (if x = 0 then 0 else 1)" "hi8 x = 0"
    using assms(3) by (auto simp: lo8_def hi8_def)
  show ?thesis using r by (simp add: h playback_entry_def eight_zeros c Let_def a(3) x)
qed

lemma playback_encoded_entry:
  assumes "entry_ok e" "encode_entry e = v # vs" "length (wl_cache s) = 4096"
    and "\<And>i. i < length vs \<Longrightarrow> bs_read ops (address + 2 * of_nat i) (wl_store s) = Some (vs ! i)"
  shows "playback_entry ops v address s =
    (True, WEAR_LEVELING_SUCCESS, address + 2 * of_nat (length vs),
     s\<lparr>wl_cache := apply_entry (wl_cache s) e\<rparr>)"
proof (cases e)
  case (Multibyte a bs)
  then show ?thesis using assms playback_multibyte_encoded by blast
next
  case (Optimized_64 a x)
  then have "unat a < length (wl_cache s)" using assms by (simp add: word_less_nat_alt)
  then show ?thesis
    using assms playback_optimized_encoded [of a ops x]
    by (auto simp: Optimized_64 apply_entry_def memcpy_at_single)
next
  case (Word_01 a x)
  then have "Suc (unat a) < length (wl_cache s)" using assms by simp
  moreover have "memcpy_at c i [p, q] = c[i := p, Suc i := q]" if "Suc i < length c" for c i and p q :: u8
    by (rule nth_equalityI) (use that in \<open>auto simp: nth_memcpy_at nth_list_update less_Suc_eq nth_Cons'\<close>)
  ultimately show ?thesis
    using assms playback_word_01_encoded [of a x ops] by (auto simp: Word_01 apply_entry_def)
qed

text \<open>The first word of an entry is not the end mark of the log.\<close>

lemma encode_entry_first:
  assumes "entry_ok e" "encode_entry e = v # vs"
  shows "v \<noteq> 0"
proof
  assume "v = 0"
  have first: "raw16 (h # h1 # t) 0 \<noteq> 0"
    if "LOG_ENTRY_GET_TYPE (h # h1 # t) \<noteq> LOG_ENTRY_TYPE_MULTIBYTE \<or>
        LOG_ENTRY_MULTIBYTE_GET_LENGTH (h # h1 # t) \<noteq> 0" for h h1 :: u8 and t
    using that by (auto simp: log_fields_Cons LOG_ENTRY_TYPE_MULTIBYTE_def)
  show False
  proof (cases e)
    case (Multibyte a bs)
    obtain h0 h1 h2 where h: "LOG_ENTRY_MAKE_MULTIBYTE a (length bs) = [h0, h1, h2, 0, 0, 0, 0, 0]"
      by (simp add: LOG_ENTRY_MAKE_MULTIBYTE_def)
    have "unat (LOG_ENTRY_MULTIBYTE_GET_LENGTH (h0 # t)) = length bs" for t
      using multibyte_codec(3) [of a "length bs"] assms(1) unfolding h Multibyte
      by (simp add: log_fields_Cons LOG_ENTRY_MULTIBYTE_MAX_BYTES_def)
    moreover have "0 < length bs" using assms(1) by (simp add: Multibyte)
    ultimately have "LOG_ENTRY_MULTIBYTE_GET_LENGTH (h0 # t) \<noteq> 0" for t by (metis less_irrefl unat_0)
    moreover have "v = raw16 (h0 # h1 # h2 # bs) 0"
      using assms(2) by (simp add: Multibyte h memcpy_at_def Let_def del: raw16_simps) simp
    ultimately show False using first \<open>v = 0\<close> by metis
  next
    case (Optimized_64 a x)
    then have "unat a < 64" using assms(1) by (simp add: word_less_nat_alt)
    note c = optimized_64_codec(1) [OF this, of x]
    obtain h0 where h: "LOG_ENTRY_MAKE_OPTIMIZED_64 a x = [h0, x, 0, 0, 0, 0, 0, 0]"
      by (simp add: LOG_ENTRY_MAKE_OPTIMIZED_64_def)
    show False
      using first [of h0 x "[0, 0, 0, 0, 0, 0]"] c assms(2) \<open>v = 0\<close> unfolding Optimized_64 h by (auto simp: h)
  next
    case (Word_01 a x)
    then have "unat a < 16384" "even (unat a)" using assms(1) by (simp_all add: word_even_unat)
    note c = word_01_codec(1) [OF this, of x]
    obtain h0 h1 where h: "LOG_ENTRY_MAKE_WORD_01 a x = [h0, h1, 0, 0, 0, 0, 0, 0]"
      by (simp add: LOG_ENTRY_MAKE_WORD_01_def)
    show False
      using first [of h0 h1 "[0, 0, 0, 0, 0, 0]"] c assms(2) \<open>v = 0\<close> unfolding Word_01 h by (auto simp: h)
  qed
qed

section \<open>The contract of a backing store\<close>

definition words_at :: "(nat \<Rightarrow> 'a) \<Rightarrow> nat \<Rightarrow> nat \<Rightarrow> 'a list" where
  "words_at c i n = map c [i..<i + n]"

lemma length_words_at [simp]: "length (words_at c i n) = n"
  by (simp add: words_at_def)

lemma nth_words_at [simp]: "j < n \<Longrightarrow> words_at c i n ! j = c (i + j)"
  by (simp add: words_at_def)

lemma words_at_0 [simp]: "words_at c i 0 = []"
  by (simp add: words_at_def)

lemma words_at_Suc: "words_at c i (Suc n) = words_at c i n @ [c (i + n)]"
  by (simp add: words_at_def)

lemma words_at_cong: "(\<And>j. j < n \<Longrightarrow> c (i + j) = d (i + j)) \<Longrightarrow> words_at c i n = words_at d i n"
  by (rule nth_equalityI) simp_all

lemma words_at_eqI: "length xs = n \<Longrightarrow> (\<And>j. j < n \<Longrightarrow> c (i + j) = xs ! j) \<Longrightarrow> words_at c i n = xs"
  by (rule nth_equalityI) simp_all

text \<open>
  What the log relies on: the store has 4096 words, an erase clears them to zero, a word that is zero
  can be written, whole blocks of 64 words can be written at once, and reads return the words.
\<close>

locale backing_store =
  fixes ops :: "'s backing_store_ops"
    and cell :: "'s \<Rightarrow> nat \<Rightarrow> u16"
    and ok :: "'s \<Rightarrow> bool"
  assumes init: "ok s \<Longrightarrow> bs_init ops s = (r, s') \<Longrightarrow> r \<and> ok s' \<and> cell s' = cell s"
    and unlock: "ok s \<Longrightarrow> bs_unlock ops s = (r, s') \<Longrightarrow> r \<and> ok s' \<and> cell s' = cell s"
    and lock: "ok s \<Longrightarrow> bs_lock ops s = (r, s') \<Longrightarrow> r \<and> ok s' \<and> cell s' = cell s"
    and erase: "ok s \<Longrightarrow> bs_erase ops s = (r, s') \<Longrightarrow> r \<and> ok s' \<and> (\<forall>i < 4096. cell s' i = 0)"
    and write_word: "ok s \<Longrightarrow> i < 4096 \<Longrightarrow> cell s i = 0 \<Longrightarrow> bs_write ops (of_nat (2 * i)) v s = (r, s') \<Longrightarrow>
      r \<and> ok s' \<and> (\<forall>j < 4096. cell s' j = (if j = i then v else cell s j))"
    and write_block: "ok s \<Longrightarrow> i mod 64 = 0 \<Longrightarrow> i + length vs \<le> 4096 \<Longrightarrow>
      (\<And>j. j < length vs \<Longrightarrow> cell s (i + j) = 0) \<Longrightarrow>
      bs_write_bulk ops (of_nat (2 * i)) vs s = (r, s') \<Longrightarrow>
      r \<and> ok s' \<and> (\<forall>j < 4096. cell s' j = (if i \<le> j \<and> j < i + length vs then vs ! (j - i) else cell s j))"
    and read_word: "ok s \<Longrightarrow> i < 4096 \<Longrightarrow> bs_read ops (of_nat (2 * i)) s = Some (cell s i)"
    and read_block: "ok s \<Longrightarrow> i + n \<le> 4096 \<Longrightarrow>
      bs_read_bulk ops (of_nat (2 * i)) n s = Some (words_at (cell s) i n)"

text \<open>
  The content of the store: 2048 words of consolidated data, four of checksum, then the log, which
  ends with a zero word. Just after an erase there is no checksum, and the data count as zeros.
\<close>

definition log_store :: "(nat \<Rightarrow> u16) \<Rightarrow> u8 list \<Rightarrow> u16 list \<Rightarrow> bool" where
  "log_store c base ws \<longleftrightarrow> length base = 4096 \<and> length ws < 2044 \<and>
    words_at c 0 2048 = words_of base \<and>
    (words_at c 2048 4 = raw64_words (fnv_64a_buf base FNV1A_64_INIT) \<or> base = replicate 4096 0) \<and>
    words_at c 2052 (length ws) = ws \<and> (\<forall>i < 4096. 2052 + length ws \<le> i \<longrightarrow> c i = 0)"

lemma log_store_append:
  assumes "log_store c base ws" "length ws + 1 < 2044"
    "\<And>i. i < 4096 \<Longrightarrow> d i = (if i = 2052 + length ws then v else c i)"
  shows "log_store d base (ws @ [v])"
proof -
  have "words_at d 0 2048 = words_at c 0 2048" "words_at d 2048 4 = words_at c 2048 4"
    "words_at d 2052 (length ws) = words_at c 2052 (length ws)" "d (2052 + length ws) = v"
    using assms(2) by (auto intro: words_at_cong simp: assms(3))
  then show ?thesis using assms unfolding log_store_def by (simp add: words_at_Suc)
qed

lemma log_store_nth:
  assumes "log_store c base ws"
  shows "i < length ws \<Longrightarrow> c (2052 + i) = ws ! i"
proof -
  assume i: "i < length ws"
  have "ws ! i = words_at c 2052 (length ws) ! i" using assms by (simp add: log_store_def)
  then show "c (2052 + i) = ws ! i" using i by simp
qed

lemma log_store_end:
  assumes "log_store c base ws" "length ws \<le> i" "i < 2044"
  shows "c (2052 + i) = 0"
  using assms by (simp add: log_store_def)

definition log_at ::
    "('s \<Rightarrow> nat \<Rightarrow> u16) \<Rightarrow> ('s \<Rightarrow> bool) \<Rightarrow> u8 list \<Rightarrow> u16 list \<Rightarrow> 's wear_leveling \<Rightarrow> bool" where
  "log_at cell ok base ws s \<longleftrightarrow> ok (wl_store s) \<and> log_store (cell (wl_store s)) base ws \<and>
    length (wl_cache s) = 4096 \<and> wl_write_address s = of_nat (2 * (2052 + length ws))"

text \<open>The invariant: the log, applied to the consolidated data, gives the cache.\<close>

definition wl_ok :: "('s \<Rightarrow> nat \<Rightarrow> u16) \<Rightarrow> ('s \<Rightarrow> bool) \<Rightarrow> 's wear_leveling \<Rightarrow> bool" where
  "wl_ok cell ok s \<longleftrightarrow> (\<exists>base es. list_all entry_ok es \<and>
    log_at cell ok base (concat (map encode_entry es)) s \<and> wl_cache s = foldl apply_entry base es)"

lemma wl_okI:
  "list_all entry_ok es \<Longrightarrow> log_at cell ok base (concat (map encode_entry es)) s \<Longrightarrow>
    wl_cache s = foldl apply_entry base es \<Longrightarrow> wl_ok cell ok s"
  unfolding wl_ok_def by blast

text \<open>The words of an entry are appended one after the other.\<close>

fun append_all ::
    "'s backing_store_ops \<Rightarrow> u16 list \<Rightarrow> 's wear_leveling \<Rightarrow> wear_leveling_status_t \<times> 's wear_leveling" where
  "append_all ops [] s = (WEAR_LEVELING_SUCCESS, s)"
| "append_all ops (v # vs) s =
    (case wear_leveling_append_raw ops v s of
      (status, s') \<Rightarrow> if status \<noteq> WEAR_LEVELING_SUCCESS then (status, s') else append_all ops vs s')"

lemma append_all_single: "append_all ops [v] s = wear_leveling_append_raw ops v s"
  by (auto split: prod.splits)

lemma multibyte_append_all:
  "wear_leveling_write_raw_multibyte ops a p s = append_all ops (encode_entry (Multibyte a p)) s"
  by (auto simp: wear_leveling_write_raw_multibyte_def Let_def split: prod.splits)

text \<open>Each round of \<open>wear_leveling_write_raw\<close> logs one entry for a prefix of the data.\<close>

lemma write_raw_step:
  assumes "p \<noteq> []" "unat address + length p \<le> 4096"
  shows "\<exists>e. entry_ok e \<and> entry_address e = address \<and> length (entry_data e) \<le> length p \<and>
    entry_data e = take (length (entry_data e)) p \<and>
    wear_leveling_write_raw ops address p s =
      (case append_all ops (encode_entry e) s of (status, s') \<Rightarrow>
        if status \<noteq> WEAR_LEVELING_SUCCESS then (status, s')
        else wear_leveling_write_raw ops (address + of_nat (length (entry_data e)))
          (drop (length (entry_data e)) p) s')" (is "\<exists>e. ?P e")
proof -
  let ?word = "length p \<ge> 2 \<and> address mod 2 = 0 \<and> address < 16384 \<and>
    (mk16 (p ! 0) (p ! 1) = 0 \<or> mk16 (p ! 0) (p ! 1) = 1)"
  consider (word) ?word | (opt) "\<not> ?word" "address < 64" | (multi) "\<not> ?word" "\<not> address < 64" by blast
  then show ?thesis
  proof cases
    case word
    define e where "e = Word_01 address (mk16 (p ! 0) (p ! 1))"
    from word have "take 2 p = [p ! 0, p ! 1]" by (cases p; cases "tl p") auto
    then have d: "entry_data e = take 2 p" "length (entry_data e) = 2" by (simp_all add: e_def)
    have "unat address + 2 \<le> 4096" using word assms(2) by linarith
    moreover have "even address" using word unfolding even_iff_mod_2_eq_zero by (rule conjunct1 [OF conjunct2])
    ultimately have "entry_ok e" using word unfolding e_def entry_ok.simps by (intro conjI) simp_all
    moreover have "wear_leveling_write_raw ops address p s =
      (case append_all ops (encode_entry e) s of (status, s') \<Rightarrow>
        if status \<noteq> WEAR_LEVELING_SUCCESS then (status, s')
        else wear_leveling_write_raw ops (address + of_nat 2) (drop 2 p) s')"
      unfolding e_def of_nat_numeral encode_entry.simps append_all_single wear_leveling_write_raw.simps [of ops address p s]
      by (simp only: if_not_P [OF assms(1)] if_P [OF word])
    ultimately have "?P e" using d word unfolding d(2) by (simp only: d(1)) (simp add: e_def)
    then show ?thesis by blast
  next
    case opt
    define e where "e = Optimized_64 address (p ! 0)"
    have d: "entry_data e = take 1 p" "length (entry_data e) = 1" using assms(1) by (cases p; simp add: e_def)+
    have "entry_ok e" using opt(2) by (simp add: e_def)
    moreover have "wear_leveling_write_raw ops address p s =
      (case append_all ops (encode_entry e) s of (status, s') \<Rightarrow>
        if status \<noteq> WEAR_LEVELING_SUCCESS then (status, s')
        else wear_leveling_write_raw ops (address + of_nat 1) (drop 1 p) s')"
      unfolding e_def encode_entry.simps append_all_single of_nat_1
        wear_leveling_write_raw.simps [of ops address p s]
      by (simp only: if_not_P [OF assms(1)] if_not_P [OF opt(1)] if_P [OF opt(2)])
    moreover have "1 \<le> length p" using assms(1) by (cases p) simp_all
    ultimately have "?P e" unfolding d(2) by (simp only: d(1)) (simp add: e_def)
    then show ?thesis by blast
  next
    case multi
    define k where "k = (if length p \<ge> LOG_ENTRY_MULTIBYTE_MAX_BYTES then LOG_ENTRY_MULTIBYTE_MAX_BYTES
      else length p)"
    have k: "0 < k" "k \<le> length p" "k \<le> LOG_ENTRY_MULTIBYTE_MAX_BYTES"
      using assms(1) by (simp_all add: k_def LOG_ENTRY_MULTIBYTE_MAX_BYTES_def)
    define e where "e = Multibyte address (take k p)"
    have d: "entry_data e = take k p" "length (entry_data e) = k" using k(2) by (simp_all add: e_def)
    have "entry_ok e" using k assms(2) by (simp add: e_def)
    moreover have "wear_leveling_write_raw ops address p s =
      (case append_all ops (encode_entry e) s of (status, s') \<Rightarrow>
        if status \<noteq> WEAR_LEVELING_SUCCESS then (status, s')
        else wear_leveling_write_raw ops (address + of_nat k) (drop k p) s')"
      unfolding e_def multibyte_append_all [symmetric] wear_leveling_write_raw.simps [of ops address p s]
      by (simp only: if_not_P [OF assms(1)] if_not_P [OF multi(1)] if_not_P [OF multi(2)] Let_def
          k_def [symmetric])
    ultimately have "?P e" using k(2) unfolding d(2) by (simp only: d(1)) (simp add: e_def)
    then show ?thesis by blast
  qed
qed

context backing_store
begin

lemma unlock_same:
  assumes "ok (wl_store s)" "wear_leveling_unlock ops s = (st, s')"
  shows "st \<noteq> STATUS_FAILURE \<and> ok (wl_store s') \<and> cell (wl_store s') = cell (wl_store s) \<and>
    wl_cache s' = wl_cache s \<and> wl_write_address s' = wl_write_address s"
  using assms unlock [of "wl_store s"]
  by (auto simp: wear_leveling_unlock_def split: if_splits prod.splits)

lemma lock_same:
  assumes "ok (wl_store s)" "wear_leveling_lock ops s = (st, s')"
  shows "st \<noteq> STATUS_FAILURE \<and> ok (wl_store s') \<and> cell (wl_store s') = cell (wl_store s) \<and>
    wl_cache s' = wl_cache s \<and> wl_write_address s' = wl_write_address s"
  using assms lock [of "wl_store s"]
  by (auto simp: wear_leveling_lock_def split: if_splits prod.splits)

lemma write_consolidated:
  assumes "ok (wl_store s)" "length (wl_cache s) = 4096" "\<And>i. i < 4096 \<Longrightarrow> cell (wl_store s) i = 0"
    "wear_leveling_write_consolidated ops s = (st, s')"
  shows "st = WEAR_LEVELING_CONSOLIDATED \<and> ok (wl_store s') \<and> wl_cache s' = wl_cache s \<and>
    log_store (cell (wl_store s')) (wl_cache s) []"
proof -
  obtain l s1 where u: "wear_leveling_unlock ops s = (l, s1)" by fastforce
  note u' = unlock_same [OF assms(1) u]
  then have c1: "wl_cache s1 = wl_cache s" by simp
  have len: "length (words_of (wl_cache s1)) = 2048" using u' assms(2) by simp
  obtain r st1 where w: "bs_write_bulk ops 0 (words_of (wl_cache s1)) (wl_store s1) = (r, st1)" by fastforce
  have "r \<and> ok st1 \<and> (\<forall>j < 4096. cell st1 j = (if 0 \<le> j \<and> j < 0 + length (words_of (wl_cache s1))
      then words_of (wl_cache s1) ! (j - 0) else cell (wl_store s1) j))"
    by (rule write_block) (use w u' assms(3) len in simp_all)
  then have w': "r" "ok st1"
    "\<And>j. j < 4096 \<Longrightarrow> cell st1 j = (if j < 2048 then words_of (wl_cache s) ! j else 0)"
    using len u' assms(3) by simp_all
  let ?h = "raw64_words (fnv_64a_buf (wl_cache s) FNV1A_64_INIT)"
  obtain r' st2 where x: "bs_write_bulk ops 4096 ?h st1 = (r', st2)" by fastforce
  have "r' \<and> ok st2 \<and> (\<forall>j < 4096. cell st2 j = (if 2048 \<le> j \<and> j < 2048 + length ?h
      then ?h ! (j - 2048) else cell st1 j))"
    by (rule write_block) (use x w' in simp_all)
  then have x': "r'" "ok st2" "\<And>j. j < 4096 \<Longrightarrow> cell st2 j =
      (if j < 2048 then words_of (wl_cache s) ! j else if j < 2052 then ?h ! (j - 2048) else 0)"
    using w'(3) by simp_all
  define s2 where "s2 = s1\<lparr>wl_store := st2\<rparr>"
  have "s' = (if l = STATUS_SUCCESS then snd (wear_leveling_lock ops s2) else s2)"
    "st = WEAR_LEVELING_CONSOLIDATED"
    using assms(4) w'(1) x'(1) unfolding wear_leveling_write_consolidated_def s2_def
    by (simp_all add: u w [unfolded c1] x c1 Let_def)
  moreover have "ok (wl_store s2)" "wl_cache s2 = wl_cache s" "wl_store s2 = st2"
    using x'(2) u' by (simp_all add: s2_def)
  moreover have "words_at (cell st2) 0 2048 = words_of (wl_cache s)"
    by (rule words_at_eqI) (simp_all add: x'(3) assms(2))
  moreover have "words_at (cell st2) 2048 4 = ?h"
    by (rule words_at_eqI) (simp_all add: x'(3))
  ultimately have fin: "ok (wl_store s2)" "wl_cache s2 = wl_cache s"
    "log_store (cell (wl_store s2)) (wl_cache s) []" "st = WEAR_LEVELING_CONSOLIDATED"
    "s' = (if l = STATUS_SUCCESS then snd (wear_leveling_lock ops s2) else s2)"
    using assms(2) by (simp_all add: log_store_def x'(3))
  obtain l' s3 where l: "wear_leveling_lock ops s2 = (l', s3)" by fastforce
  show ?thesis using lock_same [OF fin(1) l] fin by (simp add: l split: if_splits)
qed

lemma consolidate_force:
  assumes "ok (wl_store s)" "length (wl_cache s) = 4096" "wear_leveling_consolidate_force ops s = (st, s')"
  shows "st = WEAR_LEVELING_CONSOLIDATED \<and> wl_cache s' = wl_cache s \<and> log_at cell ok (wl_cache s) [] s'"
proof -
  obtain r st1 where e: "bs_erase ops (wl_store s) = (r, st1)" by fastforce
  note e' = erase [OF assms(1) e]
  define s1 where "s1 = s\<lparr>wl_store := st1\<rparr>"
  obtain st2 s2 where w: "wear_leveling_write_consolidated ops s1 = (st2, s2)" by fastforce
  have "st2 = WEAR_LEVELING_CONSOLIDATED \<and> ok (wl_store s2) \<and> wl_cache s2 = wl_cache s1 \<and>
    log_store (cell (wl_store s2)) (wl_cache s1) []"
    by (rule write_consolidated [OF _ _ _ w]) (use e' assms(2) in \<open>simp_all add: s1_def\<close>)
  moreover have "st = st2" "s' = s2\<lparr>wl_write_address := 4104\<rparr>"
    using assms(3) e e' w by (auto simp: wear_leveling_consolidate_force_def s1_def Let_def)
  ultimately show ?thesis using assms(2) by (simp add: log_at_def s1_def)
qed

lemma append_raw:
  assumes "log_at cell ok base ws s" "wear_leveling_append_raw ops v s = (st, s')"
  shows "wl_cache s' = wl_cache s \<and>
    (if length ws + 1 < 2044 then st = WEAR_LEVELING_SUCCESS \<and> log_at cell ok base (ws @ [v]) s'
     else st = WEAR_LEVELING_CONSOLIDATED \<and> log_at cell ok (wl_cache s) [] s')"
proof -
  have s: "ok (wl_store s)" "log_store (cell (wl_store s)) base ws" "length (wl_cache s) = 4096"
    "wl_write_address s = of_nat (2 * (2052 + length ws))" "length ws < 2044"
    using assms(1) by (simp_all add: log_at_def log_store_def)
  let ?i = "2052 + length ws"
  obtain r st1 where w: "bs_write ops (of_nat (2 * ?i)) v (wl_store s) = (r, st1)" by fastforce
  have w': "r \<and> ok st1 \<and> (\<forall>j < 4096. cell st1 j = (if j = ?i then v else cell (wl_store s) j))"
    by (rule write_word [OF _ _ _ w]) (use s log_store_end [of _ base ws "length ws"] in simp_all)
  define s1 where "s1 = s\<lparr>wl_store := st1, wl_write_address := of_nat (2 * (2052 + length ws)) + 2\<rparr>"
  have c: "wear_leveling_consolidate_if_needed ops s1 = (st, s')"
    using assms(2) w w'
    by (simp add: wear_leveling_append_raw_def s(4) Let_def BACKING_STORE_WRITE_SIZE_def s1_def)
  have "unat (of_nat (2 * (2052 + length ws)) + 2 :: u32) = 4106 + 2 * length ws"
    using s(5) by (simp add: unat_word_ariths unat_of_nat take_bit_nat_eq_self)
  then have a: "WEAR_LEVELING_BACKING_SIZE \<le> wl_write_address s1 \<longleftrightarrow> \<not> length ws + 1 < 2044"
    unfolding wl_sizes s1_def by (simp add: word_le_nat_alt) arith
  have s1: "ok (wl_store s1)" "length (wl_cache s1) = 4096" "wl_cache s1 = wl_cache s"
    using w' s(3) by (simp_all add: s1_def)
  show ?thesis
  proof (cases "length ws + 1 < 2044")
    case True
    then have "log_store (cell (wl_store s1)) base (ws @ [v])"
      using w' by (intro log_store_append [OF s(2)]) (simp_all add: s1_def)
    moreover have "st = WEAR_LEVELING_SUCCESS" "s' = s1"
      using c a True by (simp_all add: wear_leveling_consolidate_if_needed_def)
    ultimately show ?thesis using True s1 by (simp add: log_at_def) (simp add: s1_def algebra_simps)
  next
    case False
    then have "wear_leveling_consolidate_force ops s1 = (st, s')"
      using c a by (simp add: wear_leveling_consolidate_if_needed_def)
    from consolidate_force [OF s1(1,2) this] False show ?thesis by (simp add: s1(3))
  qed
qed

lemma append_all:
  assumes "log_at cell ok base ws s" "append_all ops vs s = (st, s')"
  shows "wl_cache s' = wl_cache s \<and>
    (st = WEAR_LEVELING_SUCCESS \<and> log_at cell ok base (ws @ vs) s' \<or>
     st = WEAR_LEVELING_CONSOLIDATED \<and> log_at cell ok (wl_cache s) [] s')"
  using assms
proof (induction vs arbitrary: s ws)
  case Nil
  then show ?case by simp
next
  case (Cons v vs)
  obtain st1 s1 where a: "wear_leveling_append_raw ops v s = (st1, s1)" by fastforce
  note a' = append_raw [OF Cons.prems(1) a]
  show ?case
  proof (cases "length ws + 1 < 2044")
    case True
    then have "append_all ops vs s1 = (st, s')" using Cons.prems(2) a a' by simp
    from Cons.IH [OF _ this, of "ws @ [v]"] a' True show ?thesis by simp
  next
    case False
    then show ?thesis using Cons.prems(2) a a' by simp
  qed
qed

text \<open>Writing one entry whose data the cache already holds.\<close>

lemma write_entry:
  assumes "list_all entry_ok (es @ [e])" "log_at cell ok base (concat (map encode_entry es)) s"
    "append_all ops (encode_entry e) s = (st, s')"
  shows "wl_cache s' = wl_cache s \<and>
    (st = WEAR_LEVELING_SUCCESS \<and> log_at cell ok base (concat (map encode_entry (es @ [e]))) s' \<or>
     st = WEAR_LEVELING_CONSOLIDATED \<and> wl_ok cell ok s')"
proof -
  have "wl_ok cell ok s'" if "log_at cell ok (wl_cache s) [] s'" "wl_cache s' = wl_cache s"
    using that by (intro wl_okI [where es = "[]"]) simp_all
  then show ?thesis using append_all [OF assms(2,3)] by auto
qed

lemma write_raw:
  assumes "list_all entry_ok es" "log_at cell ok base (concat (map encode_entry es)) s"
    "unat address + length p \<le> 4096" "wl_cache s = memcpy_at (foldl apply_entry base es) (unat address) p"
    "wear_leveling_write_raw ops address p s = (st, s')"
  shows "st \<noteq> WEAR_LEVELING_FAILED \<and> wl_cache s' = wl_cache s \<and> wl_ok cell ok s'"
  using assms
proof (induction "length p" arbitrary: address p s es rule: less_induct)
  case less
  show ?case
  proof (cases "p = []")
    case True
    then have "st = WEAR_LEVELING_SUCCESS" "s' = s"
      using less.prems(5) by (simp_all add: wear_leveling_write_raw.simps [of _ _ "[]"])
    moreover have "wl_ok cell ok s" using less.prems True by (intro wl_okI [of es]) simp_all
    ultimately show ?thesis by simp
  next
    case False
    obtain e where e: "entry_ok e" "entry_address e = address" "length (entry_data e) \<le> length p"
        "entry_data e = take (length (entry_data e)) p"
      and step: "(case append_all ops (encode_entry e) s of (status, s') \<Rightarrow>
        if status \<noteq> WEAR_LEVELING_SUCCESS then (status, s')
        else wear_leveling_write_raw ops (address + of_nat (length (entry_data e)))
          (drop (length (entry_data e)) p) s') = (st, s')"
      using write_raw_step [OF False less.prems(3), of ops s] less.prems(5) by auto
    obtain st1 s1 where a: "append_all ops (encode_entry e) s = (st1, s1)" by fastforce
    have es: "list_all entry_ok (es @ [e])" using less.prems(1) e(1) by simp
    let ?k = "length (entry_data e)"
    have k: "0 < ?k" "?k \<le> 5" using entry_data_length [OF e(1)] by simp_all
    from write_entry [OF es less.prems(2) a] show ?thesis
    proof (elim conjE disjE)
      assume c: "wl_cache s1 = wl_cache s" and st: "st1 = WEAR_LEVELING_CONSOLIDATED" "wl_ok cell ok s1"
      then show ?thesis using step a by simp
    next
      assume c: "wl_cache s1 = wl_cache s" and st: "st1 = WEAR_LEVELING_SUCCESS"
        and l: "log_at cell ok base (concat (map encode_entry (es @ [e]))) s1"
      have next': "wear_leveling_write_raw ops (address + of_nat ?k) (drop ?k p) s1 = (st, s')"
        using step a st by simp
      have u: "unat (address + of_nat ?k) = unat address + ?k"
        using less.prems(3) e(3) k by (simp add: unat_word_ariths unat_of_nat take_bit_nat_eq_self)
      have len: "length (foldl apply_entry base es) = 4096"
        using less.prems(1,2) by (intro length_apply_entries) (simp_all add: log_at_def log_store_def)
      have "entry_data e @ drop ?k p = p" using e(4) by (metis append_take_drop_id)
      then have "wl_cache s1 = memcpy_at (foldl apply_entry base (es @ [e])) (unat address + ?k) (drop ?k p)"
        using memcpy_at_append [of "unat address" "entry_data e" "drop ?k p" "foldl apply_entry base es"]
          less.prems(3,4) e len c by (simp add: apply_entry_def)
      then show ?thesis
        using less.hyps [OF _ es l _ _ next'] c k e(3) less.prems(3) False by (simp add: u)
    qed
  qed
qed

end

section \<open>Reading and writing through the log\<close>

lemma wl_ok_cong:
  assumes "wl_ok cell ok s" "ok (wl_store s')" "cell (wl_store s') = cell (wl_store s)"
    "wl_cache s' = wl_cache s" "wl_write_address s' = wl_write_address s"
  shows "wl_ok cell ok s'"
  using assms(1) unfolding wl_ok_def log_at_def assms(3-5) using assms(2) by blast

lemma log_at_cong:
  assumes "log_at cell ok base ws s" "ok (wl_store s')" "cell (wl_store s') = cell (wl_store s)"
    "length (wl_cache s') = 4096" "wl_write_address s' = wl_write_address s"
  shows "log_at cell ok base ws s'"
  using assms unfolding log_at_def by simp

lemma wl_ok_facts:
  assumes "wl_ok cell ok s"
  shows "ok (wl_store s)" "length (wl_cache s) = 4096"
  using assms by (auto simp: wl_ok_def log_at_def)

context backing_store
begin

lemma not_full:
  assumes "wl_ok cell ok s"
  shows "wl_write_address s < WEAR_LEVELING_BACKING_SIZE"
proof -
  obtain n where "n < 2044" "wl_write_address s = of_nat (2 * (2052 + n))"
    using assms unfolding wl_ok_def log_at_def log_store_def by blast
  then show ?thesis
    unfolding wl_sizes by (simp add: word_less_nat_alt unat_word_ariths unat_of_nat take_bit_nat_eq_self)
qed

lemma write_ok:
  assumes "wl_ok cell ok s" "unat address + length v \<le> 4096"
    "wear_leveling_write ops address v s = (st, s')"
  shows "st \<noteq> WEAR_LEVELING_FAILED \<and> wl_ok cell ok s' \<and>
    wl_cache s' = memcpy_at (wl_cache s) (unat address) v"
proof -
  have len: "length (wl_cache s) = 4096" by (rule wl_ok_facts [OF assms(1)])
  have "unat (address + of_nat (length v)) = unat address + length v"
    using assms(2) by (simp add: unat_word_ariths unat_of_nat take_bit_nat_eq_self)
  then have r: "\<not> address + of_nat (length v) > WEAR_LEVELING_LOGICAL_SIZE"
    using assms(2) by (simp add: word_less_nat_alt)
  show ?thesis
  proof (cases "take (length v) (drop (unat address) (wl_cache s)) = v")
    case True
    then have "memcpy_at (wl_cache s) (unat address) v = wl_cache s"
      using memcpy_at_self [of "unat address" "length v" "wl_cache s"] assms(2) len by simp
    moreover have "st = WEAR_LEVELING_SUCCESS" "s' = s"
      using assms(3) True r by (simp_all add: wear_leveling_write_def)
    ultimately show ?thesis using assms(1) by simp
  next
    case False
    define C where "C = memcpy_at (wl_cache s) (unat address) v"
    have lenC: "length C = 4096" using assms(2) len by (simp add: C_def)
    obtain base es where es: "list_all entry_ok es" "log_at cell ok base (concat (map encode_entry es)) s"
      "wl_cache s = foldl apply_entry base es"
      using assms(1) unfolding wl_ok_def by blast
    obtain l s2 where u: "wear_leveling_unlock ops (s\<lparr>wl_cache := C\<rparr>) = (l, s2)" by fastforce
    have u': "l \<noteq> STATUS_FAILURE" "ok (wl_store s2)" "cell (wl_store s2) = cell (wl_store s)"
      "wl_cache s2 = C" "wl_write_address s2 = wl_write_address s"
      using unlock_same [OF _ u] wl_ok_facts(1) [OF assms(1)] by simp_all
    obtain st3 s3 where w: "wear_leveling_write_raw ops address v s2 = (st3, s3)" by fastforce
    have w': "st3 \<noteq> WEAR_LEVELING_FAILED" "wl_cache s3 = C" "wl_ok cell ok s3"
      using write_raw [OF es(1) log_at_cong [OF es(2)] assms(2) _ w] u' lenC
      by (simp_all add: C_def es(3))
    obtain l' s5 where k: "wear_leveling_lock ops s3 = (l', s5)" by fastforce
    note k' = lock_same [OF wl_ok_facts(1) [OF w'(3)] k]
    have "wear_leveling_consolidate_if_needed ops s3 = (WEAR_LEVELING_SUCCESS, s3)"
      using not_full [OF w'(3)] unfolding wear_leveling_consolidate_if_needed_def
      by (simp only: if_not_P not_le)
    then have "st = st3" "s' = (if l = STATUS_SUCCESS then s5 else s3)"
      using assms(3) False r u [unfolded C_def] u'(1) w w'(1) k k' unfolding wear_leveling_write_def
      by (cases st3; simp split: if_splits)+
    moreover have "wl_ok cell ok s5" by (rule wl_ok_cong [OF w'(3)]) (use k' in simp_all)
    ultimately show ?thesis using w' k' by (simp add: C_def)
  qed
qed

section \<open>Starting up\<close>

lemma playback_end:
  assumes "log_store (cell (wl_store s)) base ws" "ok (wl_store s)"
  shows "playback_loop ops (of_nat (2 * (2052 + length ws))) s =
    (WEAR_LEVELING_SUCCESS, of_nat (2 * (2052 + length ws)), s)"
proof -
  have "length ws < 2044" using assms(1) by (simp add: log_store_def)
  then have "bs_read ops (of_nat (2 * (2052 + length ws))) (wl_store s) = Some 0"
    using read_word [OF assms(2), of "2052 + length ws"] log_store_end [OF assms(1), of "length ws"] by simp
  then show ?thesis by (subst playback_loop.simps) (simp del: of_nat_mult of_nat_add)
qed

lemma playback_entries:
  assumes "log_store (cell (wl_store s)) base (pre @ concat (map encode_entry es) @ post)" "ok (wl_store s)"
    "list_all entry_ok es" "length (wl_cache s) = 4096"
  shows "playback_loop ops (of_nat (2 * (2052 + length pre))) s =
    playback_loop ops (of_nat (2 * (2052 + length (pre @ concat (map encode_entry es)))))
      (s\<lparr>wl_cache := foldl apply_entry (wl_cache s) es\<rparr>)"
  using assms
proof (induction es arbitrary: pre s)
  case (Cons e es)
  obtain v vs where v: "encode_entry e = v # vs"
    using encode_entry_length [of e] Cons.prems(3) by (cases "encode_entry e") auto
  let ?ws = "pre @ concat (map encode_entry (e # es)) @ post"
  let ?a = "of_nat (2 * (2052 + length pre)) :: u32"
  have n: "length pre + Suc (length vs) < 2044" using Cons.prems(1) by (simp add: log_store_def v)
  have rd: "bs_read ops (of_nat (2 * (2052 + (length pre + i)))) (wl_store s) = Some ((v # vs) ! i)"
    if "i < Suc (length vs)" for i
    using read_word [OF Cons.prems(2), of "2052 + (length pre + i)"] n that
      log_store_nth [OF Cons.prems(1), of "length pre + i"]
      nth_append_left [of i "v # vs" "concat (map encode_entry es) @ post"]
    by (simp add: v nth_append)
  have "v \<noteq> 0" using encode_entry_first [OF _ v] Cons.prems(3) by simp
  moreover have "?a < WEAR_LEVELING_BACKING_SIZE"
    unfolding wl_sizes using n
    by (simp add: word_less_nat_alt unat_word_ariths unat_of_nat take_bit_nat_eq_self)
  moreover have "playback_entry ops v (?a + 2) s =
    (True, WEAR_LEVELING_SUCCESS, ?a + 2 + 2 * of_nat (length vs),
     s\<lparr>wl_cache := apply_entry (wl_cache s) e\<rparr>)"
  proof (rule playback_encoded_entry [OF _ v Cons.prems(4)])
    show "entry_ok e" using Cons.prems(3) by simp
    show "bs_read ops (?a + 2 + 2 * of_nat i) (wl_store s) = Some (vs ! i)" if "i < length vs" for i
      using rd [of "Suc i"] that by (simp add: algebra_simps)
  qed
  ultimately have "playback_loop ops ?a s =
    playback_loop ops (?a + 2 + 2 * of_nat (length vs)) (s\<lparr>wl_cache := apply_entry (wl_cache s) e\<rparr>)"
    using rd [of 0]
    by (subst playback_loop.simps) (simp add: BACKING_STORE_WRITE_SIZE_def del: of_nat_mult of_nat_add)
  also have "?a + 2 + 2 * of_nat (length vs) = of_nat (2 * (2052 + length (pre @ encode_entry e)))"
    by (simp add: v algebra_simps)
  also have "playback_loop ops \<dots> (s\<lparr>wl_cache := apply_entry (wl_cache s) e\<rparr>) =
    playback_loop ops (of_nat (2 * (2052 + length ((pre @ encode_entry e) @ concat (map encode_entry es)))))
      (s\<lparr>wl_cache := foldl apply_entry (wl_cache s) (e # es)\<rparr>)"
    using Cons.IH [of "s\<lparr>wl_cache := apply_entry (wl_cache s) e\<rparr>" "pre @ encode_entry e"] Cons.prems
    by simp
  finally show ?case by simp
qed simp

lemma read_consolidated:
  assumes "ok (wl_store s)" "log_store (cell (wl_store s)) base ws" "length (wl_cache s) = 4096"
    "wear_leveling_read_consolidated ops s = (st, s')"
  shows "st = WEAR_LEVELING_SUCCESS \<and> wl_store s' = wl_store s \<and> wl_cache s' = base"
proof -
  have base: "length base = 4096" "words_at (cell (wl_store s)) 0 2048 = words_of base"
    "words_at (cell (wl_store s)) 2048 4 = raw64_words (fnv_64a_buf base FNV1A_64_INIT) \<or> base = replicate 4096 0"
    using assms(2) by (simp_all add: log_store_def)
  have "bs_read_bulk ops 0 2048 (wl_store s) = Some (words_of base)"
    using read_block [OF assms(1), of 0 2048] base(2) by simp
  moreover have "bs_read_bulk ops 4096 4 (wl_store s) = Some (words_at (cell (wl_store s)) 2048 4)"
    using read_block [OF assms(1), of 2048 4] by simp
  ultimately show ?thesis
    using assms(3,4) base(1,3)
    by (auto simp: wear_leveling_read_consolidated_def wear_leveling_clear_cache_def Let_def split: if_splits)
qed

lemma init_reads:
  assumes "ok (wl_store s)" "log_store (cell (wl_store s)) base ws"
  obtains s3 where "ok (wl_store s3)" "cell (wl_store s3) = cell (wl_store s)" "wl_cache s3 = base"
    "wear_leveling_init ops s =
      (case wear_leveling_playback_log ops s3 of (status, s4) \<Rightarrow>
        if status = WEAR_LEVELING_FAILED then (status, wear_leveling_clear_cache s4) else (status, s4))"
proof -
  obtain r st where i: "bs_init ops (wl_store s) = (r, st)" by fastforce
  note i' = init [OF assms(1) i]
  define s2 where "s2 = (wear_leveling_clear_cache s)\<lparr>wl_store := st\<rparr>"
  obtain st3 s3 where c: "wear_leveling_read_consolidated ops s2 = (st3, s3)" by fastforce
  have s2: "wl_store s2 = st" "length (wl_cache s2) = 4096"
    by (simp_all add: s2_def wear_leveling_clear_cache_def)
  have c': "st3 = WEAR_LEVELING_SUCCESS \<and> wl_store s3 = wl_store s2 \<and> wl_cache s3 = base"
    by (rule read_consolidated [OF _ _ _ c]) (use s2 i' assms(2) in simp_all)
  have e: "wear_leveling_init ops s =
      (case wear_leveling_playback_log ops s3 of (status, s4) \<Rightarrow>
        if status = WEAR_LEVELING_FAILED then (status, wear_leveling_clear_cache s4) else (status, s4))"
    using i i' c c' by (simp add: wear_leveling_init_def Let_def s2_def wear_leveling_clear_cache_def)
  have "ok (wl_store s3)" "cell (wl_store s3) = cell (wl_store s)" "wl_cache s3 = base"
    using c' i' s2 by simp_all
  then show ?thesis by (rule that [OF _ _ _ e])
qed

lemma init_restores:
  assumes "wl_ok cell ok s" "wl_store s0 = wl_store s" "wear_leveling_init ops s0 = (st, s')"
  shows "st = WEAR_LEVELING_SUCCESS \<and> wl_cache s' = wl_cache s \<and>
    wl_write_address s' = wl_write_address s \<and> wl_ok cell ok s'"
proof -
  obtain base es where es: "list_all entry_ok es" "log_at cell ok base (concat (map encode_entry es)) s"
    "wl_cache s = foldl apply_entry base es"
    using assms(1) unfolding wl_ok_def by blast
  let ?ws = "concat (map encode_entry es)"
  have l: "ok (wl_store s0)" "log_store (cell (wl_store s0)) base ?ws"
    using es(2) assms(2) by (simp_all add: log_at_def)
  then have len: "length base = 4096" "length ?ws < 2044" by (simp_all add: log_store_def)
  obtain s3 where s3: "ok (wl_store s3)" "cell (wl_store s3) = cell (wl_store s0)" "wl_cache s3 = base"
    and e: "wear_leveling_init ops s0 = (case wear_leveling_playback_log ops s3 of (status, s4) \<Rightarrow>
        if status = WEAR_LEVELING_FAILED then (status, wear_leveling_clear_cache s4) else (status, s4))"
    by (rule init_reads [OF l])
  define s4 where "s4 = s3\<lparr>wl_cache := foldl apply_entry base es\<rparr>"
  have s4': "cell (wl_store s4) = cell (wl_store s0)" "ok (wl_store s4)" using s3 by (simp_all add: s4_def)
  have "playback_loop ops (of_nat (2 * (2052 + length ([] :: u16 list)))) s3 =
    playback_loop ops (of_nat (2 * (2052 + length ([] @ ?ws)))) s4"
    using playback_entries [of s3 base "[]" es "[]"] l(2) s3(1-3) es(1) len(1) by (simp add: s4_def)
  also have "\<dots> = (WEAR_LEVELING_SUCCESS, of_nat (2 * (2052 + length ?ws)), s4)"
    using playback_end [of s4 base ?ws] l(2) s4' by simp
  finally have p: "playback_loop ops 4104 s3 = (WEAR_LEVELING_SUCCESS, of_nat (2 * (2052 + length ?ws)), s4)"
    by simp
  define s5 where "s5 = s4\<lparr>wl_write_address := of_nat (2 * (2052 + length ?ws))\<rparr>"
  have ok5: "wl_ok cell ok s5"
    by (rule wl_okI [OF es(1), of _ _ base]) (use l(2) s4' len es(1) in \<open>simp_all add: log_at_def s5_def s4_def\<close>)
  have "wear_leveling_playback_log ops s3 = wear_leveling_consolidate_if_needed ops s5"
    using p by (simp add: wear_leveling_playback_log_def s5_def Let_def)
  also have "\<dots> = (WEAR_LEVELING_SUCCESS, s5)"
    using not_full [OF ok5] unfolding wear_leveling_consolidate_if_needed_def by (simp only: if_not_P not_le)
  finally have "st = WEAR_LEVELING_SUCCESS" "s' = s5" using e assms(3) by simp_all
  then show ?thesis using ok5 es(2,3) by (simp add: s5_def s4_def log_at_def)
qed

text \<open>An erased store is a valid log of nothing.\<close>

lemma erased_log:
  assumes "\<And>i. i < 4096 \<Longrightarrow> c i = 0"
  shows "log_store c (replicate 4096 0) []"
proof -
  have "words_of (replicate 4096 0) = replicate 2048 0" using words_of_zeros [of 2048] by simp
  moreover have "words_at c 0 2048 = replicate 2048 0" by (rule words_at_eqI) (simp_all add: assms)
  ultimately show ?thesis by (simp add: log_store_def assms)
qed

lemma erased_ok:
  assumes "ok (wl_store s)" "\<And>i. i < 4096 \<Longrightarrow> cell (wl_store s) i = 0"
  shows "wl_ok cell ok (wear_leveling_clear_cache s)"
  by (rule wl_okI [where es = "[]" and base = "replicate 4096 0"])
    (use assms erased_log [of "cell (wl_store s)"] in
      \<open>simp_all add: log_at_def wear_leveling_clear_cache_def\<close>)

lemma erase_ok:
  assumes "ok (wl_store s)" "wear_leveling_erase ops s = (st, s')"
  shows "st = WEAR_LEVELING_SUCCESS \<and> wl_cache s' = replicate 4096 0 \<and> wl_ok cell ok s'"
proof -
  obtain l s1 where u: "wear_leveling_unlock ops s = (l, s1)" by fastforce
  note u' = unlock_same [OF assms(1) u]
  obtain r st2 where e: "bs_erase ops (wl_store s1) = (r, st2)" by fastforce
  have e': "r" "ok st2" "\<And>i. i < 4096 \<Longrightarrow> cell st2 i = 0"
    using erase [OF _ e] u' by simp_all
  define s2 where "s2 = wear_leveling_clear_cache (s1\<lparr>wl_store := st2\<rparr>)"
  have ok2: "wl_ok cell ok s2" unfolding s2_def by (rule erased_ok) (use e' in simp_all)
  obtain l' s3 where k: "wear_leveling_lock ops s2 = (l', s3)" by fastforce
  note k' = lock_same [OF wl_ok_facts(1) [OF ok2] k]
  have "st = WEAR_LEVELING_SUCCESS" "s' = (if l = STATUS_SUCCESS then s3 else s2)"
    using assms(2) u u' e e'(1) k k' by (simp_all add: wear_leveling_erase_def Let_def s2_def split: if_splits)
  moreover have "wl_ok cell ok s3" by (rule wl_ok_cong [OF ok2]) (use k' in simp_all)
  moreover have "wl_cache s2 = replicate 4096 0" by (simp add: s2_def wear_leveling_clear_cache_def)
  ultimately show ?thesis using ok2 k' by simp
qed

end

section \<open>Losing power inside a multi-byte entry\<close>

text \<open>
  When only the first word of a multi-byte entry has reached the store, its address has lost its low
  byte and its data are zeros.
\<close>

lemma low_byte_cleared:
  assumes "LOG_ENTRY_MULTIBYTE_GET_ADDRESS (h0 # h1 # h2 # e) = a"
  shows "unat (LOG_ENTRY_MULTIBYTE_GET_ADDRESS (h0 # h1 # 0 # e)) = 256 * (unat a div 256)"
proof -
  have "LOG_ENTRY_MULTIBYTE_GET_ADDRESS (h0 # h1 # 0 # e) = push_bit 8 (drop_bit 8 a)"
    unfolding assms [symmetric] by (rule bit_word_eqI) (auto simp: log_fields_Cons log_bits)
  moreover have "unat (push_bit 8 (drop_bit 8 a)) = 256 * (unat a div 256)"
  proof -
    have "unat a div 256 * 256 < 2 ^ 32"
      using unat_less_exp [of a] div_mult_mod_eq [of "unat a" 256] by simp
    then show ?thesis
      by (simp add: push_bit_eq_mult unat_word_ariths unat_drop_bit mult.commute)
  qed
  ultimately show ?thesis by simp
qed

lemma playback_torn_entry:
  assumes "entry_ok (Multibyte a bs)" "encode_entry (Multibyte a bs) = v # vs"
    and rd: "\<And>i. i < 3 \<Longrightarrow> bs_read ops (address + 2 * of_nat i) (wl_store s) = Some 0"
  shows "\<exists>k \<le> 3. playback_entry ops v address s =
    (True, WEAR_LEVELING_SUCCESS, address + 2 * of_nat k,
     s\<lparr>wl_cache := memcpy_at (wl_cache s) (256 * (unat a div 256)) (replicate (length bs) 0)\<rparr>)"
proof -
  obtain h0 h1 h2 where h: "LOG_ENTRY_MAKE_MULTIBYTE a (length bs) = [h0, h1, h2, 0, 0, 0, 0, 0]"
    by (simp add: LOG_ENTRY_MAKE_MULTIBYTE_def)
  have n: "0 < length bs" "length bs \<le> 5" "unat a + length bs \<le> 4096"
    using assms(1) by (auto simp: LOG_ENTRY_MULTIBYTE_MAX_BYTES_def)
  have kind: "LOG_ENTRY_GET_TYPE (h0 # e) = LOG_ENTRY_TYPE_MULTIBYTE" for e
    using multibyte_codec(1) [of a "length bs"] n unfolding h by (simp add: log_fields_Cons)
  have addr: "unat (LOG_ENTRY_MULTIBYTE_GET_ADDRESS (h0 # h1 # 0 # e)) = 256 * (unat a div 256)" for e
    by (rule low_byte_cleared [of _ _ h2])
      (use multibyte_codec(2) [of a "length bs"] n in \<open>simp add: h log_fields_Cons\<close>)
  have "unat (LOG_ENTRY_MULTIBYTE_GET_LENGTH (h0 # e)) = length bs" for e
    using multibyte_codec(3) [of a "length bs"] n unfolding h by (simp add: log_fields_Cons)
  then have len: "LOG_ENTRY_MULTIBYTE_GET_LENGTH (h0 # e) = of_nat (length bs)" for e
    by (metis of_nat_unat_id)
  have "256 * (unat a div 256) + length bs \<le> 4096" using n(3) mult_div_mod_eq [of 256 "unat a"] by linarith
  then have r: "\<not> 4096 < LOG_ENTRY_MULTIBYTE_GET_ADDRESS (h0 # h1 # 0 # e) + ucast (of_nat (length bs) :: u8)" for e
  proof -
    assume *: "256 * (unat a div 256) + length bs \<le> 4096"
    have "unat (of_nat (length bs) :: u8) = length bs"
      using n(2) by (simp add: unat_of_nat take_bit_nat_eq_self)
    then have "unat (LOG_ENTRY_MULTIBYTE_GET_ADDRESS (h0 # h1 # 0 # e) + ucast (of_nat (length bs) :: u8)) =
        256 * (unat a div 256) + length bs"
      using * by (simp add: unat_word_ariths addr)
    then show ?thesis using * by (simp add: word_less_nat_alt)
  qed
  have v: "v = mk16 h0 h1" using assms(2) by (auto simp: h memcpy_at_def Let_def)
  have rd': "bs_read ops address (wl_store s) = Some 0" "bs_read ops (address + 2) (wl_store s) = Some 0"
    "bs_read ops (address + 4) (wl_store s) = Some 0"
    using rd [of 0] rd [of 1] rd [of 2] by (simp_all add: add.commute [of 4 address])
  define k where "k = (if length bs > 3 then 3 else if length bs > 1 then 2 else 1 :: nat)"
  have "playback_entry ops v address s =
    (True, WEAR_LEVELING_SUCCESS, address + 2 * of_nat k,
     s\<lparr>wl_cache := memcpy_at (wl_cache s) (256 * (unat a div 256)) (replicate (length bs) 0)\<rparr>)"
    using n(1,2)
    by (cases rule: list_of_1_to_5)
      (use rd' r in \<open>simp_all add: v playback_entry_def playback_multibyte_def eight_zeros
         kind addr len Let_def BACKING_STORE_WRITE_SIZE_def k_def add.commute [of 4 address]\<close>)
  then show ?thesis by (intro exI [of _ k]) (simp add: k_def)
qed

context backing_store
begin

lemma init_torn:
  assumes "ok (wl_store s)" "list_all entry_ok es"
    and store: "log_store (cell (wl_store s)) base (concat (map encode_entry es) @ [v])"
    and room: "length (concat (map encode_entry es)) + 5 < 2044"
    and e: "entry_ok (Multibyte a bs)" "encode_entry (Multibyte a bs) = v # vs"
    and run: "wear_leveling_init ops s = (st, s')"
  shows "st = WEAR_LEVELING_SUCCESS \<and> wl_cache s' =
    memcpy_at (foldl apply_entry base es) (256 * (unat a div 256)) (replicate (length bs) 0)"
proof -
  let ?ws = "concat (map encode_entry es)"
  let ?n = "2052 + length ?ws"
  let ?c = "memcpy_at (foldl apply_entry base es) (256 * (unat a div 256)) (replicate (length bs) 0)"
  have len: "length base = 4096" using store by (simp add: log_store_def)
  obtain s3 where s3: "ok (wl_store s3)" "cell (wl_store s3) = cell (wl_store s)" "wl_cache s3 = base"
    and i: "wear_leveling_init ops s = (case wear_leveling_playback_log ops s3 of (status, s4) \<Rightarrow>
        if status = WEAR_LEVELING_FAILED then (status, wear_leveling_clear_cache s4) else (status, s4))"
    by (rule init_reads [OF assms(1) store])
  define s4 where "s4 = s3\<lparr>wl_cache := foldl apply_entry base es\<rparr>"
  have s4: "ok (wl_store s4)" "cell (wl_store s4) = cell (wl_store s)" using s3 by (simp_all add: s4_def)
  let ?a = "of_nat (2 * ?n) :: u32"
  have rd: "bs_read ops (of_nat (2 * (?n + j))) (wl_store s4) = Some (if j = 0 then v else 0)" if "j < 5" for j
  proof -
    have "cell (wl_store s) (2052 + (length ?ws + j)) = (if j = 0 then v else 0)"
      using log_store_nth [OF store, of "length ?ws"] log_store_end [OF store, of "length ?ws + j"] room that
      by auto
    then show ?thesis using read_word [OF s4(1), of "?n + j"] room that s4(2) by (simp add: add.assoc)
  qed
  have lt: "of_nat (2 * (?n + j)) < WEAR_LEVELING_BACKING_SIZE" if "j < 5" for j
    unfolding wl_sizes using room that
    by (simp add: word_less_nat_alt unat_word_ariths unat_of_nat take_bit_nat_eq_self)
  have "\<exists>k \<le> 3. playback_entry ops v (?a + 2) s4 =
    (True, WEAR_LEVELING_SUCCESS, ?a + 2 + 2 * of_nat k, s4\<lparr>wl_cache := ?c\<rparr>)"
    using playback_torn_entry [OF e, of ops "?a + 2" s4] rd [of "Suc _"]
    by (simp add: s4_def algebra_simps)
  then obtain k where k: "k \<le> 3" "playback_entry ops v (?a + 2) s4 =
    (True, WEAR_LEVELING_SUCCESS, of_nat (2 * (?n + Suc k)), s4\<lparr>wl_cache := ?c\<rparr>)"
    by (auto simp: algebra_simps)
  have "v \<noteq> 0" by (rule encode_entry_first [OF e])
  then have "playback_loop ops ?a s4 = playback_loop ops (of_nat (2 * (?n + Suc k))) (s4\<lparr>wl_cache := ?c\<rparr>)"
    using rd [of 0] lt [of 0] k(2)
    by (subst playback_loop.simps) (simp add: BACKING_STORE_WRITE_SIZE_def del: of_nat_mult of_nat_add)
  also have "\<dots> = (WEAR_LEVELING_SUCCESS, of_nat (2 * (?n + Suc k)), s4\<lparr>wl_cache := ?c\<rparr>)"
    using rd [of "Suc k"] k(1)
    by (subst playback_loop.simps) (simp del: of_nat_mult of_nat_add)
  finally have "playback_loop ops (of_nat (2 * (2052 + length ([] :: u16 list)))) s3 =
      (WEAR_LEVELING_SUCCESS, of_nat (2 * (?n + Suc k)), s4\<lparr>wl_cache := ?c\<rparr>)"
    using playback_entries [of s3 base "[]" es "[v]"] store s3(1-3) assms(2) len by (simp add: s4_def)
  moreover have "\<not> of_nat (2 * (?n + Suc k)) \<ge> WEAR_LEVELING_BACKING_SIZE"
    using lt [of "Suc k"] k(1) by (simp only: not_le)
  moreover define w :: u32 where "w = of_nat (2 * (?n + Suc k))"
  ultimately have "wear_leveling_playback_log ops s3 =
      (WEAR_LEVELING_SUCCESS, s4\<lparr>wl_cache := ?c, wl_write_address := w\<rparr>)"
    unfolding w_def [symmetric]
    by (simp add: wear_leveling_playback_log_def wear_leveling_consolidate_if_needed_def)
  then show ?thesis using run i by auto
qed

end

end
