(* ===== verification/Rp2040_Flash.thy ===== *)
theory Rp2040_Flash
  imports Wear_Log
begin

text \<open>
  The backing store on the flash of the RP2040,
  \<open>platforms/chibios/drivers/wear_leveling/wear_leveling_rp2040_flash.c\<close>, and the EEPROM driver on
  top of it, \<open>drivers/eeprom/eeprom_wear_leveling.c\<close>.

  The flash chip and the SDK's \<open>flash_range_erase\<close> are a parameter: the bytes that the memory-mapped
  window shows, the effect of one serial command, from chip select to chip select, and the effect of an
  erase. \<open>rp2040_flash\<close> states what the driver relies on: an erase sets bytes to 255, and a page
  program that follows a write enable clears bits, within one page of 256 bytes. Polling the status
  register, the FIFO of the serial interface, the boot ROM calls that leave and enter the
  memory-mapped mode and the interrupt mask are not modelled: a command is one step.
\<close>

section \<open>The flash chip\<close>

record 'f flash_chip =
  fc_byte :: "'f \<Rightarrow> u32 \<Rightarrow> u8"
  fc_command :: "u8 list \<Rightarrow> 'f \<Rightarrow> 'f"
  fc_range_erase :: "u32 \<Rightarrow> u32 \<Rightarrow> 'f \<Rightarrow> 'f"

definition address_bytes :: "nat \<Rightarrow> u8 list" where
  "address_bytes a = [of_nat (a div 65536), of_nat (a div 256), of_nat a]"

definition nor_flash :: "'f flash_chip \<Rightarrow> bool" where
  "nor_flash chip \<longleftrightarrow>
    (\<forall>f a d x. a < 2 ^ 24 \<longrightarrow> d \<noteq> [] \<longrightarrow> a mod 256 + length d \<le> 256 \<longrightarrow>
      fc_byte chip (fc_command chip (2 # address_bytes a @ d) (fc_command chip [6] f)) x =
        (if a \<le> unat x \<and> unat x < a + length d then fc_byte chip f x AND d ! (unat x - a)
         else fc_byte chip f x)) \<and>
    (\<forall>f a n x. 4096 dvd unat a \<longrightarrow> 4096 dvd unat n \<longrightarrow> unat a + unat n \<le> 2 ^ 24 \<longrightarrow>
      fc_byte chip (fc_range_erase chip a n f) x =
        (if unat a \<le> unat x \<and> unat x < unat a + unat n then 255 else fc_byte chip f x))"

section \<open>The driver\<close>

definition WEAR_LEVELING_RP2040_FLASH_BULK_COUNT :: nat where
  "WEAR_LEVELING_RP2040_FLASH_BULK_COUNT = 64"

definition FLASHCMD_PAGE_PROGRAM :: u8 where "FLASHCMD_PAGE_PROGRAM = 2"
definition FLASHCMD_WRITE_ENABLE :: u8 where "FLASHCMD_WRITE_ENABLE = 6"

text \<open>The flash size is that of the board; the emulated EEPROM is at the end of the flash.\<close>

definition WEAR_LEVELING_RP2040_FLASH_BASE :: "u32 \<Rightarrow> u32" where
  "WEAR_LEVELING_RP2040_FLASH_BASE flash_size = flash_size - WEAR_LEVELING_BACKING_SIZE"

text \<open>The bytes that a call sends after it has asserted the chip select.\<close>

definition flash_put_cmd_addr :: "u8 \<Rightarrow> u32 \<Rightarrow> u8 list" where
  "flash_put_cmd_addr cmd addr =
    (let addr = addr OR push_bit 24 (ucast cmd)
     in map (\<lambda>i. ucast (drop_bit 24 (push_bit (8 * i) addr))) [0..<4])"

definition flash_enable_write :: "'f flash_chip \<Rightarrow> 'f \<Rightarrow> 'f" where
  "flash_enable_write chip f = fc_command chip [FLASHCMD_WRITE_ENABLE] f"

definition program_batch :: "'f flash_chip \<Rightarrow> u32 \<Rightarrow> u16 list \<Rightarrow> 'f \<Rightarrow> 'f" where
  "program_batch chip flash_address batch f =
    fc_command chip (flash_put_cmd_addr FLASHCMD_PAGE_PROGRAM flash_address @ bytes_of (map NOT batch))
      (flash_enable_write chip f)"

function pico_program_bulk :: "'f flash_chip \<Rightarrow> u32 \<Rightarrow> u16 list \<Rightarrow> 'f \<Rightarrow> 'f" where
  "pico_program_bulk chip flash_address values f =
    (if values = [] then f
     else let batch = take WEAR_LEVELING_RP2040_FLASH_BULK_COUNT values
       in pico_program_bulk chip (flash_address + of_nat (2 * length batch)) (drop (length batch) values)
            (program_batch chip flash_address batch f))"
  by pat_completeness auto
termination
  by (relation "measure (\<lambda>(chip, a, vs, f). length vs)")
    (auto simp: WEAR_LEVELING_RP2040_FLASH_BULK_COUNT_def)

declare pico_program_bulk.simps [simp del]

definition rp2040_init :: "'f \<Rightarrow> bool \<times> 'f" where "rp2040_init f = (True, f)"
definition rp2040_unlock :: "'f \<Rightarrow> bool \<times> 'f" where "rp2040_unlock f = (True, f)"
definition rp2040_lock :: "'f \<Rightarrow> bool \<times> 'f" where "rp2040_lock f = (True, f)"

definition rp2040_erase :: "'f flash_chip \<Rightarrow> u32 \<Rightarrow> 'f \<Rightarrow> bool \<times> 'f" where
  "rp2040_erase chip sz f =
    (True, fc_range_erase chip (WEAR_LEVELING_RP2040_FLASH_BASE sz) WEAR_LEVELING_BACKING_SIZE f)"

definition rp2040_write_bulk :: "'f flash_chip \<Rightarrow> u32 \<Rightarrow> u32 \<Rightarrow> u16 list \<Rightarrow> 'f \<Rightarrow> bool \<times> 'f" where
  "rp2040_write_bulk chip sz address values f =
    (True, pico_program_bulk chip (WEAR_LEVELING_RP2040_FLASH_BASE sz + address) values f)"

definition rp2040_write :: "'f flash_chip \<Rightarrow> u32 \<Rightarrow> u32 \<Rightarrow> u16 \<Rightarrow> 'f \<Rightarrow> bool \<times> 'f" where
  "rp2040_write chip sz address v f = rp2040_write_bulk chip sz address [v] f"

definition flash_word :: "'f flash_chip \<Rightarrow> u32 \<Rightarrow> 'f \<Rightarrow> u16" where
  "flash_word chip offset f = mk16 (fc_byte chip f offset) (fc_byte chip f (offset + 1))"

definition rp2040_read_bulk :: "'f flash_chip \<Rightarrow> u32 \<Rightarrow> u32 \<Rightarrow> nat \<Rightarrow> 'f \<Rightarrow> u16 list option" where
  "rp2040_read_bulk chip sz address item_count f =
    Some (map (\<lambda>i. NOT (flash_word chip (WEAR_LEVELING_RP2040_FLASH_BASE sz + address + of_nat (2 * i)) f))
      [0..<item_count])"

definition rp2040_read :: "'f flash_chip \<Rightarrow> u32 \<Rightarrow> u32 \<Rightarrow> 'f \<Rightarrow> u16 option" where
  "rp2040_read chip sz address f = map_option hd (rp2040_read_bulk chip sz address 1 f)"

definition rp2040_ops :: "'f flash_chip \<Rightarrow> u32 \<Rightarrow> 'f backing_store_ops" where
  "rp2040_ops chip sz =
    \<lparr> bs_init = rp2040_init, bs_unlock = rp2040_unlock, bs_erase = rp2040_erase chip sz,
      bs_write = rp2040_write chip sz, bs_write_bulk = rp2040_write_bulk chip sz, bs_lock = rp2040_lock,
      bs_read = rp2040_read chip sz, bs_read_bulk = rp2040_read_bulk chip sz \<rparr>"

lemma rp2040_ops_simps [simp]:
  "bs_init (rp2040_ops chip sz) = rp2040_init" "bs_unlock (rp2040_ops chip sz) = rp2040_unlock"
  "bs_erase (rp2040_ops chip sz) = rp2040_erase chip sz" "bs_write (rp2040_ops chip sz) = rp2040_write chip sz"
  "bs_write_bulk (rp2040_ops chip sz) = rp2040_write_bulk chip sz" "bs_lock (rp2040_ops chip sz) = rp2040_lock"
  "bs_read (rp2040_ops chip sz) = rp2040_read chip sz" "bs_read_bulk (rp2040_ops chip sz) = rp2040_read_bulk chip sz"
  by (simp_all add: rp2040_ops_def)

section \<open>The driver keeps the contract\<close>

text \<open>The flash has a whole number of sectors, fits in 24-bit addresses and has room for the EEPROM.\<close>

definition rp2040_flash :: "'f flash_chip \<Rightarrow> u32 \<Rightarrow> bool" where
  "rp2040_flash chip sz \<longleftrightarrow> nor_flash chip \<and> 4096 dvd unat sz \<and> 8192 \<le> unat sz \<and> unat sz \<le> 2 ^ 24"

definition flash_cell :: "'f flash_chip \<Rightarrow> u32 \<Rightarrow> 'f \<Rightarrow> nat \<Rightarrow> u16" where
  "flash_cell chip sz f i = NOT (flash_word chip (WEAR_LEVELING_RP2040_FLASH_BASE sz + of_nat (2 * i)) f)"

lemma flash_base:
  assumes "rp2040_flash chip sz"
  shows "4096 dvd unat (WEAR_LEVELING_RP2040_FLASH_BASE sz)"
    "unat (WEAR_LEVELING_RP2040_FLASH_BASE sz) + 8192 \<le> 2 ^ 24"
proof -
  have "unat (sz - 8192) = unat sz - 8192"
    using unat_sub [of 8192 sz] assms by (simp add: rp2040_flash_def word_le_nat_alt)
  then show "4096 dvd unat (WEAR_LEVELING_RP2040_FLASH_BASE sz)"
    "unat (WEAR_LEVELING_RP2040_FLASH_BASE sz) + 8192 \<le> 2 ^ 24"
    using assms by (auto simp: rp2040_flash_def WEAR_LEVELING_RP2040_FLASH_BASE_def intro!: dvd_diff_nat)
qed

lemma flash_put_cmd_addr_bytes:
  assumes "unat a < 2 ^ 24"
  shows "flash_put_cmd_addr cmd a = cmd # address_bytes (unat a)"
proof -
  have h: "\<not> bit a n" if "24 \<le> n" for n using bit_above [OF assms that] .
  have b: "of_nat (unat a div 2 ^ k) = (ucast (drop_bit k a) :: u8)" for k
    by (simp add: unat_drop_bit [symmetric])
  have b': "of_nat (unat a div 65536) = (ucast (drop_bit 16 a) :: u8)"
    "of_nat (unat a div 256) = (ucast (drop_bit 8 a) :: u8)" "of_nat (unat a) = (ucast a :: u8)"
    using b [of 16] b [of 8] b [of 0] by simp_all
  have l: "[0..<4] = [0, 1, 2, 3 :: nat]" by (simp add: upt_rec)
  have "ucast (drop_bit 24 (push_bit 0 (a OR push_bit 24 (ucast cmd)))) = cmd"
    by (rule bit_word_eqI) (use h in \<open>auto simp: word_bits\<close>)
  moreover have "ucast (drop_bit 24 (push_bit 8 (a OR push_bit 24 (ucast cmd)))) = (ucast (drop_bit 16 a) :: u8)"
    by (rule bit_word_eqI) (auto simp: word_bits)
  moreover have "ucast (drop_bit 24 (push_bit 16 (a OR push_bit 24 (ucast cmd)))) = (ucast (drop_bit 8 a) :: u8)"
    by (rule bit_word_eqI) (auto simp: word_bits)
  moreover have "ucast (drop_bit 24 (push_bit 24 (a OR push_bit 24 (ucast cmd)))) = (ucast a :: u8)"
    by (rule bit_word_eqI) (auto simp: word_bits)
  ultimately show ?thesis by (simp add: flash_put_cmd_addr_def address_bytes_def b' Let_def l)
qed

lemma mk16_and_not: "mk16 (p AND lo8 (NOT v)) (q AND hi8 (NOT v)) = mk16 p q AND NOT v"
  by (rule bit_word_eqI) (auto simp: mk16_def lo8_def hi8_def word_bits)

lemma nor_program:
  assumes "nor_flash chip" "a < 2 ^ 24" "d \<noteq> []" "a mod 256 + length d \<le> 256"
  shows "fc_byte chip (fc_command chip (2 # address_bytes a @ d) (fc_command chip [6] f)) x =
    (if a \<le> unat x \<and> unat x < a + length d then fc_byte chip f x AND d ! (unat x - a)
     else fc_byte chip f x)"
  using assms unfolding nor_flash_def by blast

lemma nor_erase:
  assumes "nor_flash chip" "4096 dvd unat a" "4096 dvd unat n" "unat a + unat n \<le> 2 ^ 24"
  shows "fc_byte chip (fc_range_erase chip a n f) x =
    (if unat a \<le> unat x \<and> unat x < unat a + unat n then 255 else fc_byte chip f x)"
  using assms unfolding nor_flash_def by blast

text \<open>One batch within a page adds its words to the cells it covers.\<close>

lemma program_batch_cell:
  assumes chip: "rp2040_flash chip sz"
    and vs: "vs \<noteq> []" "length vs \<le> 128" "(2 * i) mod 256 + 2 * length vs \<le> 256" "i + length vs \<le> 4096"
    and j: "j < 4096"
  shows "flash_cell chip sz
      (program_batch chip (WEAR_LEVELING_RP2040_FLASH_BASE sz + of_nat (2 * i)) vs f) j =
    (if i \<le> j \<and> j < i + length vs then flash_cell chip sz f j OR vs ! (j - i) else flash_cell chip sz f j)"
proof -
  let ?b = "WEAR_LEVELING_RP2040_FLASH_BASE sz"
  let ?B = "unat ?b"
  let ?d = "bytes_of (map NOT vs)"
  note base = flash_base [OF chip]
  have u: "unat (?b + of_nat k) = ?B + k" if "k < 8192" for k
    using that base(2) by (simp add: unat_word_ariths unat_of_nat take_bit_nat_eq_self)
  have p: "(?B + 2 * i) mod 256 = (2 * i) mod 256"
  proof -
    have "256 dvd ?B" by (rule dvd_trans [OF _ base(1)]) simp
    then show ?thesis by (simp add: mod_add_left_eq [symmetric, of ?B] dvd_imp_mod_0)
  qed
  have i: "2 * i < 8192" using vs(1,4) by (cases vs) simp_all
  have ui: "unat (?b + of_nat (2 * i)) = ?B + 2 * i" by (rule u [OF i])
  have lt: "?B + 2 * i < 2 ^ 24" using base(2) i by simp
  have byte: "fc_byte chip (program_batch chip (?b + of_nat (2 * i)) vs f) x =
      (if ?B + 2 * i \<le> unat x \<and> unat x < ?B + 2 * i + 2 * length vs
       then fc_byte chip f x AND ?d ! (unat x - (?B + 2 * i)) else fc_byte chip f x)" for x
  proof -
    have "program_batch chip (?b + of_nat (2 * i)) vs f =
      fc_command chip (2 # address_bytes (?B + 2 * i) @ ?d) (fc_command chip [6] f)"
      using flash_put_cmd_addr_bytes [of "?b + of_nat (2 * i)" 2] ui lt
      by (simp add: program_batch_def flash_enable_write_def FLASHCMD_PAGE_PROGRAM_def FLASHCMD_WRITE_ENABLE_def)
    moreover have "nor_flash chip" "?d \<noteq> []" "(?B + 2 * i) mod 256 + length ?d \<le> 256"
      using chip vs p by (cases vs; simp add: rp2040_flash_def)+
    ultimately show ?thesis using nor_program [of chip "?B + 2 * i" ?d f x] lt by simp
  qed
  have jj: "2 * j < 8192" "2 * j + 1 < 8192" using j by simp_all
  have u1: "?b + of_nat (2 * j) + 1 = ?b + of_nat (2 * j + 1)" by (simp add: add.assoc)
  show ?thesis
  proof (cases "i \<le> j \<and> j < i + length vs")
    case True
    then obtain k where k: "j = i + k" "k < length vs" by (metis le_Suc_ex nat_add_left_cancel_less)
    have "?d ! (2 * k) = lo8 (NOT (vs ! k))" "?d ! Suc (2 * k) = hi8 (NOT (vs ! k))"
      using nth_bytes_of [of k "map NOT vs"] k by simp_all
    then have "flash_word chip (?b + of_nat (2 * j)) (program_batch chip (?b + of_nat (2 * i)) vs f) =
      flash_word chip (?b + of_nat (2 * j)) f AND NOT (vs ! k)"
      unfolding flash_word_def byte u1 u [OF jj(1)] u [OF jj(2)] using k
      by (simp add: mk16_and_not)
    then show ?thesis using True k by (simp add: flash_cell_def bit.de_Morgan_conj)
  next
    case False
    then have n: "\<not> (?B + 2 * i \<le> ?B + 2 * j \<and> ?B + 2 * j < ?B + 2 * i + 2 * length vs)"
      "\<not> (?B + 2 * i \<le> ?B + (2 * j + 1) \<and> ?B + (2 * j + 1) < ?B + 2 * i + 2 * length vs)" by presburger+
    show ?thesis
      unfolding flash_cell_def flash_word_def byte u1 u [OF jj(1)] u [OF jj(2)]
      by (simp only: if_not_P [OF n(1)] if_not_P [OF n(2)] if_not_P [OF False])
  qed
qed

lemma pico_program_bulk_cell:
  assumes "rp2040_flash chip sz" "i mod 64 = 0" "i + length vs \<le> 4096" "j < 4096"
  shows "flash_cell chip sz
      (pico_program_bulk chip (WEAR_LEVELING_RP2040_FLASH_BASE sz + of_nat (2 * i)) vs f) j =
    (if i \<le> j \<and> j < i + length vs then flash_cell chip sz f j OR vs ! (j - i) else flash_cell chip sz f j)"
  using assms(2-)
proof (induction "length vs" arbitrary: i vs f rule: less_induct)
  case less
  show ?case
  proof (cases "vs = []")
    case False
    let ?batch = "take 64 vs"
    let ?k = "length ?batch"
    let ?b = "WEAR_LEVELING_RP2040_FLASH_BASE sz"
    define f1 where "f1 = program_batch chip (?b + of_nat (2 * i)) ?batch f"
    have step: "pico_program_bulk chip (?b + of_nat (2 * i)) vs f =
      pico_program_bulk chip (?b + of_nat (2 * (i + ?k))) (drop ?k vs) f1"
      unfolding pico_program_bulk.simps [of _ _ vs] f1_def
      using False by (simp add: WEAR_LEVELING_RP2040_FLASH_BULK_COUNT_def Let_def algebra_simps)
    have m: "(2 * i) mod 256 \<in> {0, 128}"
    proof -
      obtain q where q: "i = 64 * q" using less.prems(1) by (auto simp: mod_eq_0_iff_dvd)
      have "(2 * i) mod 256 = 128 * (q mod 2)" using mult_mod_right [of 128 q 2] by (simp add: q)
      then show ?thesis by (cases "even q") (auto simp: odd_iff_mod_2_eq_one)
    qed
    have f1: "flash_cell chip sz f1 j =
      (if i \<le> j \<and> j < i + ?k then flash_cell chip sz f j OR ?batch ! (j - i) else flash_cell chip sz f j)"
      unfolding f1_def by (rule program_batch_cell [OF assms(1)]) (use False less.prems m in auto)
    show ?thesis
    proof (cases "length vs \<le> 64")
      case True
      then have "drop ?k vs = []" by simp
      then show ?thesis unfolding step using f1 True by (simp add: pico_program_bulk.simps [of _ _ "[]"])
    next
      case big: False
      have "flash_cell chip sz (pico_program_bulk chip (?b + of_nat (2 * (i + ?k))) (drop ?k vs) f1) j =
        (if i + ?k \<le> j \<and> j < i + ?k + length (drop ?k vs)
         then flash_cell chip sz f1 j OR drop ?k vs ! (j - (i + ?k)) else flash_cell chip sz f1 j)"
        by (rule less.hyps) (use big less.prems in auto)
      then show ?thesis unfolding step using f1 big by (auto simp: algebra_simps)
    qed
  qed (auto simp: pico_program_bulk.simps)
qed

lemma rp2040_read_cell:
  "rp2040_read_bulk chip sz (of_nat (2 * i)) n f = Some (words_at (flash_cell chip sz f) i n)"
  "rp2040_read chip sz (of_nat (2 * i)) f = Some (flash_cell chip sz f i)"
proof -
  have a: "WEAR_LEVELING_RP2040_FLASH_BASE sz + of_nat (2 * i) + of_nat (2 * k) =
      WEAR_LEVELING_RP2040_FLASH_BASE sz + of_nat (2 * (i + k))" for k
    by (simp add: algebra_simps)
  show "rp2040_read_bulk chip sz (of_nat (2 * i)) n f = Some (words_at (flash_cell chip sz f) i n)"
    unfolding rp2040_read_bulk_def a by (auto intro!: nth_equalityI simp: flash_cell_def)
  show "rp2040_read chip sz (of_nat (2 * i)) f = Some (flash_cell chip sz f i)"
    unfolding rp2040_read_def rp2040_read_bulk_def a by (simp add: flash_cell_def)
qed

lemma rp2040_backing_store:
  assumes "rp2040_flash chip sz"
  shows "backing_store (rp2040_ops chip sz) (flash_cell chip sz) (\<lambda>f. True)"
proof (unfold_locales, goal_cases)
  case (4 s r s')
  let ?b = "WEAR_LEVELING_RP2040_FLASH_BASE sz"
  note base = flash_base [OF assms]
  have u: "unat (?b + of_nat k) = unat ?b + k" if "k < 8192" for k
    using that base(2) by (simp add: unat_word_ariths unat_of_nat take_bit_nat_eq_self)
  have s': "r" "s' = fc_range_erase chip ?b 8192 s" using 4 by (simp_all add: rp2040_erase_def)
  have byte: "fc_byte chip s' (?b + of_nat k) = 255" if "k < 8192" for k
    unfolding s'(2) using assms base nor_erase [of chip ?b 8192 s "?b + of_nat k"] u [OF that] that
    by (simp add: rp2040_flash_def)
  have "flash_cell chip sz s' i = 0" if "i < 4096" for i
  proof -
    have e: "?b + of_nat (2 * i) + 1 = ?b + of_nat (2 * i + 1)" by (simp add: add.assoc)
    have "2 * i < 8192" "2 * i + 1 < 8192" using that by simp_all
    then have "flash_word chip (?b + of_nat (2 * i)) s' = mk16 255 255"
      unfolding flash_word_def e by (simp only: byte)
    moreover have "NOT (mk16 255 255) = 0" by (simp add: mk16_def)
    ultimately show ?thesis unfolding flash_cell_def by simp
  qed
  then show ?case using s'(1) by simp
next
  case (5 s i v r s')
  have "i mod 128 < 128" by simp
  then have "2 * i mod 256 + 2 \<le> (256 :: nat)" using mult_mod_right [of 2 i 128] by simp
  then have "flash_cell chip sz s' j = (if j = i then v else flash_cell chip sz s j)" if "j < 4096" for j
    using program_batch_cell [OF assms, of "[v]" i j s] 5 that
    by (auto simp: rp2040_write_def rp2040_write_bulk_def pico_program_bulk.simps [of _ _ "[v]"]
        pico_program_bulk.simps [of _ _ "[]"] WEAR_LEVELING_RP2040_FLASH_BULK_COUNT_def Let_def)
  then show ?case using 5 by (auto simp: rp2040_write_def rp2040_write_bulk_def)
next
  case (6 s i vs r s')
  have "flash_cell chip sz s' j = (if i \<le> j \<and> j < i + length vs then vs ! (j - i) else flash_cell chip sz s j)"
    if "j < 4096" for j
  proof -
    have "flash_cell chip sz s j = 0" if "i \<le> j" "j < i + length vs"
      using 6(4) [of "j - i"] that by simp
    then show ?thesis
      using pico_program_bulk_cell [OF assms 6(2,3) that, of s] 6(5)
      by (auto simp: rp2040_write_bulk_def)
  qed
  then show ?case using 6 by (auto simp: rp2040_write_bulk_def)
qed (auto simp: rp2040_init_def rp2040_unlock_def rp2040_lock_def rp2040_read_cell simp del: of_nat_mult)

section \<open>A flash chip\<close>

text \<open>
  A chip with the documented behaviour: the write-enable latch and the bytes.
\<close>

definition nor_command :: "u8 list \<Rightarrow> bool \<times> (u32 \<Rightarrow> u8) \<Rightarrow> bool \<times> (u32 \<Rightarrow> u8)" where
  "nor_command c f =
    (case f of (wel, m) \<Rightarrow>
      if c = [6] then (True, m)
      else if wel \<and> 4 \<le> length c \<and> c ! 0 = 2 then
        (let a = unat (c ! 1) * 65536 + unat (c ! 2) * 256 + unat (c ! 3); d = drop 4 c
         in (False, \<lambda>x. if a \<le> unat x \<and> unat x < a + length d then m x AND d ! (unat x - a) else m x))
      else f)"

definition nor_range_erase :: "u32 \<Rightarrow> u32 \<Rightarrow> bool \<times> (u32 \<Rightarrow> u8) \<Rightarrow> bool \<times> (u32 \<Rightarrow> u8)" where
  "nor_range_erase a n f =
    (False, \<lambda>x. if unat a \<le> unat x \<and> unat x < unat a + unat n then 255 else snd f x)"

definition nor_chip :: "(bool \<times> (u32 \<Rightarrow> u8)) flash_chip" where
  "nor_chip = \<lparr> fc_byte = snd, fc_command = nor_command, fc_range_erase = nor_range_erase \<rparr>"

lemma address_bytes_value:
  assumes "a < 2 ^ 24"
  shows "unat (of_nat (a div 65536) :: u8) * 65536 + unat (of_nat (a div 256) :: u8) * 256 +
    unat (of_nat a :: u8) = a"
proof -
  have u: "unat (of_nat k :: u8) = k mod 256" for k by (simp add: unat_of_nat take_bit_eq_mod)
  have "a div 65536 mod 256 * 65536 + a div 256 mod 256 * 256 + a mod 256 = a"
    using assms mod_mult2_eq [of a 256 256] div_mult_mod_eq [of a 65536] by simp
  then show ?thesis unfolding u .
qed

lemma nor_command_program:
  assumes "a < 2 ^ 24"
  shows "snd (nor_command (2 # address_bytes a @ d) (nor_command [6] f)) x =
    (if a \<le> unat x \<and> unat x < a + length d then snd f x AND d ! (unat x - a) else snd f x)"
proof -
  let ?c = "2 # address_bytes a @ d"
  have "?c ! 0 = 2" "unat (?c ! 1) * 65536 + unat (?c ! 2) * 256 + unat (?c ! 3) = a" "drop 4 ?c = d"
    "4 \<le> length ?c" "?c \<noteq> [6]"
    using address_bytes_value [OF assms] by (simp_all add: address_bytes_def)
  then show ?thesis
    by (simp add: nor_command_def [of ?c] nor_command_def [of "[6]"] Let_def case_prod_beta del: nth_Cons_numeral)
qed

lemma nor_chip_ok: "rp2040_flash nor_chip 2097152"
proof -
  have "nor_flash nor_chip"
    unfolding nor_flash_def nor_chip_def flash_chip.simps nor_command_program
    by (simp add: nor_command_program nor_range_erase_def del: power_numeral)
  then show ?thesis by (simp add: rp2040_flash_def)
qed

interpretation flash: backing_store "rp2040_ops nor_chip 2097152" "flash_cell nor_chip 2097152" "\<lambda>f. True"
  by (rule rp2040_backing_store [OF nor_chip_ok])

section \<open>Reachable states\<close>

text \<open>
  The states that the firmware reaches from a first start on an erased flash by writes, erasures and
  restarts; a restart keeps only the flash.
\<close>

inductive wl_reach :: "'f flash_chip \<Rightarrow> u32 \<Rightarrow> 'f wear_leveling \<Rightarrow> bool" for chip sz where
  first: "(\<And>i. i < 8192 \<Longrightarrow>
      fc_byte chip (wl_store s) (WEAR_LEVELING_RP2040_FLASH_BASE sz + of_nat i) = 255) \<Longrightarrow>
    wear_leveling_init (rp2040_ops chip sz) s = (st, s') \<Longrightarrow> wl_reach chip sz s'"
| write_data: "wl_reach chip sz s \<Longrightarrow> unat address + length v \<le> 4096 \<Longrightarrow>
    wear_leveling_write (rp2040_ops chip sz) address v s = (st, s') \<Longrightarrow> wl_reach chip sz s'"
| erase: "wl_reach chip sz s \<Longrightarrow> wear_leveling_erase (rp2040_ops chip sz) s = (st, s') \<Longrightarrow> wl_reach chip sz s'"
| restart: "wl_reach chip sz s \<Longrightarrow> wl_store s0 = wl_store s \<Longrightarrow>
    wear_leveling_init (rp2040_ops chip sz) s0 = (st, s') \<Longrightarrow> wl_reach chip sz s'"

lemma erased_cells:
  assumes "\<And>i. i < 8192 \<Longrightarrow> fc_byte chip f (WEAR_LEVELING_RP2040_FLASH_BASE sz + of_nat i) = 255" "i < 4096"
  shows "flash_cell chip sz f i = 0"
proof -
  have e: "WEAR_LEVELING_RP2040_FLASH_BASE sz + of_nat (2 * i) + 1 =
      WEAR_LEVELING_RP2040_FLASH_BASE sz + of_nat (2 * i + 1)" by (simp add: add.assoc)
  have "2 * i < 8192" "2 * i + 1 < 8192" using assms(2) by simp_all
  then have "flash_word chip (WEAR_LEVELING_RP2040_FLASH_BASE sz + of_nat (2 * i)) f = mk16 255 255"
    unfolding flash_word_def e by (simp only: assms(1))
  moreover have "NOT (mk16 255 255) = 0" by (simp add: mk16_def)
  ultimately show ?thesis unfolding flash_cell_def by simp
qed

text \<open>The facts of the contract for the driver, for every chip.\<close>

lemmas rp2040_facts =
  backing_store.write_ok [OF rp2040_backing_store]
  backing_store.erase_ok [OF rp2040_backing_store]
  backing_store.init_restores [OF rp2040_backing_store]

lemma first_start:
  assumes "rp2040_flash chip sz"
    "\<And>i. i < 8192 \<Longrightarrow> fc_byte chip (wl_store s) (WEAR_LEVELING_RP2040_FLASH_BASE sz + of_nat i) = 255"
    "wear_leveling_init (rp2040_ops chip sz) s = (st, s')"
  shows "st = WEAR_LEVELING_SUCCESS \<and> wl_cache s' = replicate 4096 0 \<and> wl_write_address s' = 4104 \<and>
    wl_ok (flash_cell chip sz) (\<lambda>f. True) s'"
proof -
  note store = rp2040_backing_store [OF assms(1)]
  have "wl_ok (flash_cell chip sz) (\<lambda>f. True) (wear_leveling_clear_cache s)"
    by (rule backing_store.erased_ok [OF store TrueI erased_cells]) (simp_all add: assms(2))
  from backing_store.init_restores [OF store this _ assms(3)] show ?thesis
    by (simp add: wear_leveling_clear_cache_def)
qed

lemma wl_reach_ok:
  assumes "rp2040_flash chip sz" "wl_reach chip sz s"
  shows "wl_ok (flash_cell chip sz) (\<lambda>f. True) s"
  using assms(2)
proof induction
  case (first s st s')
  then show ?case using first_start [OF assms(1)] by blast
next
  case (write_data s address v st s')
  then show ?case using rp2040_facts(1) [OF assms(1)] by blast
next
  case (erase s st s')
  then show ?case using rp2040_facts(2) [OF assms(1) TrueI] by blast
next
  case (restart s s0 st s')
  then show ?case using rp2040_facts(3) [OF assms(1)] by blast
qed

text \<open>The state after a reset: the flash is all that is left.\<close>

definition reset_state :: "'f wear_leveling \<Rightarrow> 'f wear_leveling" where
  "reset_state s = \<lparr> wl_cache = [], wl_write_address = 0, wl_unlocked = False, wl_store = wl_store s \<rparr>"

lemma reset_state_store [simp]: "wl_store (reset_state s) = wl_store s"
  by (simp add: reset_state_def)

section \<open>Properties\<close>

text \<open>
  C8: what has been written survives a reset. From any state the firmware reaches on a NOR flash, a
  write within the 4096 bytes does not fail, and after a restart that keeps only the flash the
  initialisation succeeds and every read within range returns the data as they were, with the written
  bytes in their place; this covers the case in which the write filled the log and consolidated it.
\<close>

theorem wl_write_survives_reset:
  assumes "rp2040_flash chip sz" "wl_reach chip sz s" "unat address + length v \<le> 4096"
    and "wear_leveling_write (rp2040_ops chip sz) address v s = (st, s1)"
    and "wear_leveling_init (rp2040_ops chip sz) (reset_state s1) = (st', s2)"
    and "unat a + n \<le> 4096"
  shows "st \<noteq> WEAR_LEVELING_FAILED \<and> st' = WEAR_LEVELING_SUCCESS \<and>
    wear_leveling_read a n s2 =
      (WEAR_LEVELING_SUCCESS, Some (take n (drop (unat a) (memcpy_at (wl_cache s) (unat address) v))))"
proof -
  have w: "st \<noteq> WEAR_LEVELING_FAILED \<and> wl_ok (flash_cell chip sz) (\<lambda>f. True) s1 \<and>
      wl_cache s1 = memcpy_at (wl_cache s) (unat address) v"
    by (rule rp2040_facts(1) [OF assms(1) wl_reach_ok [OF assms(1,2)] assms(3,4)])
  then have i: "st' = WEAR_LEVELING_SUCCESS \<and> wl_cache s2 = wl_cache s1"
    using rp2040_facts(3) [OF assms(1) _ reset_state_store assms(5)] by blast
  have "unat (a + of_nat n) = unat a + n"
    using assms(6) by (simp add: unat_word_ariths unat_of_nat take_bit_nat_eq_self)
  then have "\<not> a + of_nat n > WEAR_LEVELING_LOGICAL_SIZE"
    using assms(6) by (simp add: word_less_nat_alt)
  then show ?thesis using w i by (simp add: wear_leveling_read_def)
qed

definition erased_flash :: "(bool \<times> (u32 \<Rightarrow> u8)) wear_leveling" where
  "erased_flash = \<lparr> wl_cache = [], wl_write_address = 0, wl_unlocked = False, wl_store = (False, \<lambda>x. 255) \<rparr>"

lemma erased_flash_start:
  defines "r \<equiv> wear_leveling_init (rp2040_ops nor_chip 2097152) erased_flash"
  shows "wl_reach nor_chip 2097152 (snd r)" "wl_cache (snd r) = replicate 4096 0"
    "wl_write_address (snd r) = 4104"
proof -
  have e: "fc_byte nor_chip (wl_store erased_flash) x = 255" for x
    by (simp add: nor_chip_def erased_flash_def)
  show "wl_reach nor_chip 2097152 (snd r)"
    unfolding r_def by (rule wl_reach.first [OF e prod.collapse [symmetric]])
  show "wl_cache (snd r) = replicate 4096 0" "wl_write_address (snd r) = 4104"
    using first_start [OF nor_chip_ok e prod.collapse [symmetric]] unfolding r_def by blast+
qed

theorem wl_write_survives_reset_witness:
  "let ops = rp2040_ops nor_chip 2097152;
       s1 = snd (wear_leveling_write ops 100 [1, 2, 3] (snd (wear_leveling_init ops erased_flash)));
       s2 = snd (wear_leveling_init ops (reset_state s1))
   in wear_leveling_read 100 3 s2 = (WEAR_LEVELING_SUCCESS, Some [1, 2, 3])"
proof -
  have r: "take 3 (drop 100 (memcpy_at (replicate 4096 (0 :: u8)) 100 [1, 2, 3])) = [1, 2, 3]"
    by (simp add: memcpy_at_def)
  show ?thesis
    using wl_write_survives_reset [OF nor_chip_ok erased_flash_start(1), of 100 "[1, 2, 3]" _ _ _ _ 100 3,
        OF _ prod.collapse [symmetric] prod.collapse [symmetric]] r
    unfolding erased_flash_start(2) Let_def by simp
qed

text \<open>
  Erasing leaves all zeros, and so does a restart after it; a range that lies outside the 4096
  bytes is refused by read and write, which leave the state alone, as long as the sum of address and
  length does not exceed 32 bits.
\<close>

theorem wl_erase_and_range:
  assumes "rp2040_flash chip sz" "wl_reach chip sz s" "4096 < unat a + length v" "unat a + length v < 2 ^ 32"
  shows "(case wear_leveling_erase (rp2040_ops chip sz) s of (st, s1) \<Rightarrow>
      st = WEAR_LEVELING_SUCCESS \<and> wl_cache s1 = replicate 4096 0 \<and>
      wl_cache (snd (wear_leveling_init (rp2040_ops chip sz) (reset_state s1))) = replicate 4096 0) \<and>
    wear_leveling_read a (length v) s = (WEAR_LEVELING_FAILED, None) \<and>
    wear_leveling_write (rp2040_ops chip sz) a v s = (WEAR_LEVELING_FAILED, s)"
proof -
  obtain st s1 where e: "wear_leveling_erase (rp2040_ops chip sz) s = (st, s1)" by fastforce
  note e' = rp2040_facts(2) [OF assms(1) TrueI e]
  then have i: "wl_cache (snd (wear_leveling_init (rp2040_ops chip sz) (reset_state s1))) = replicate 4096 0"
    using rp2040_facts(3) [OF assms(1) _ reset_state_store prod.collapse [symmetric], of s1] by simp
  have "unat (a + of_nat (length v)) = unat a + length v"
    using assms(4) by (simp add: unat_word_ariths unat_of_nat take_bit_nat_eq_self)
  then have r: "a + of_nat (length v) > WEAR_LEVELING_LOGICAL_SIZE"
    using assms(3) by (simp add: word_less_nat_alt)
  then have "wear_leveling_read a (length v) s = (WEAR_LEVELING_FAILED, None)"
    "wear_leveling_write (rp2040_ops chip sz) a v s = (WEAR_LEVELING_FAILED, s)"
    unfolding wear_leveling_read_def wear_leveling_write_def by (simp_all only: if_True)
  then show ?thesis using e e' i by simp
qed

theorem wl_erase_and_range_witness:
  "wear_leveling_read 4095 2 (snd (wear_leveling_init (rp2040_ops nor_chip 2097152) erased_flash)) =
    (WEAR_LEVELING_FAILED, None)"
proof -
  have "length [0, 0 :: u8] = 2" by simp
  note wl_erase_and_range [OF nor_chip_ok erased_flash_start(1), of 4095 "[0, 0]", unfolded this]
  then show ?thesis by simp
qed

text \<open>
  C30: losing power inside a multi-byte entry damages other data. If only the first word of the entry
  reaches the flash, the next start takes the missing words for zeros: it succeeds, and zeros as many
  bytes as the entry had, not at its address but at the start of the block of 256 bytes in which its
  address lies.
\<close>

theorem torn_entry_zeroes_other_data:
  assumes "rp2040_flash chip sz" "wl_reach chip sz s" "unat (wl_write_address s) + 10 < 8192"
    and "0 < length bs" "length bs \<le> LOG_ENTRY_MULTIBYTE_MAX_BYTES" "unat a + length bs \<le> 4096"
    and "wear_leveling_append_raw (rp2040_ops chip sz)
      (raw16 (memcpy_at (LOG_ENTRY_MAKE_MULTIBYTE a (length bs)) 3 bs) 0) s = (st, s1)"
    and "wear_leveling_init (rp2040_ops chip sz) (reset_state s1) = (st', s2)"
  shows "st' = WEAR_LEVELING_SUCCESS \<and>
    wl_cache s2 = memcpy_at (wl_cache s) (256 * (unat a div 256)) (replicate (length bs) 0)"
proof -
  note store = rp2040_backing_store [OF assms(1)]
  obtain base es where es: "list_all entry_ok es" "wl_cache s = foldl apply_entry base es"
    and l: "log_at (flash_cell chip sz) (\<lambda>f. True) base (concat (map encode_entry es)) s"
    using wl_reach_ok [OF assms(1,2)] unfolding wl_ok_def by blast
  let ?ws = "concat (map encode_entry es)"
  have "length ?ws < 2044" "wl_write_address s = of_nat (2 * (2052 + length ?ws))"
    using l by (simp_all add: log_at_def log_store_def)
  then have "unat (wl_write_address s) = 2 * (2052 + length ?ws)"
    by (simp add: unat_word_ariths unat_of_nat take_bit_nat_eq_self)
  then have room: "length ?ws + 5 < 2044" using assms(3) by simp
  let ?e = "Multibyte a bs"
  obtain v vs where v: "encode_entry ?e = v # vs"
    "v = raw16 (memcpy_at (LOG_ENTRY_MAKE_MULTIBYTE a (length bs)) 3 bs) 0"
    by (simp add: Let_def)
  have "log_at (flash_cell chip sz) (\<lambda>f. True) base (?ws @ [v]) s1"
    using backing_store.append_raw [OF store l assms(7)] room v(2) by simp
  then have "log_store (flash_cell chip sz (wl_store (reset_state s1))) base (?ws @ [v])"
    by (simp add: log_at_def)
  from backing_store.init_torn [OF store TrueI es(1) this room _ v(1) assms(8)] assms(4-6)
  show ?thesis by (simp add: es(2))
qed

theorem torn_entry_zeroes_other_data_witness:
  "let ops = rp2040_ops nor_chip 2097152;
       s1 = snd (wear_leveling_append_raw ops (raw16 (memcpy_at (LOG_ENTRY_MAKE_MULTIBYTE 100 3) 3 [7, 8, 9]) 0)
              (snd (wear_leveling_init ops erased_flash)))
   in wl_cache (snd (wear_leveling_init ops (reset_state s1))) = memcpy_at (replicate 4096 0) 0 [0, 0, 0]"
proof -
  have "unat (wl_write_address (snd (wear_leveling_init (rp2040_ops nor_chip 2097152) erased_flash))) + 10 < 8192"
    unfolding erased_flash_start(3) by simp
  note torn = torn_entry_zeroes_other_data [OF nor_chip_ok erased_flash_start(1) this, of "[7, 8, 9]" 100,
      OF _ _ _ prod.collapse [symmetric] prod.collapse [symmetric]]
  have "length [7, 8, 9 :: u8] = 3" "replicate 3 (0 :: u8) = [0, 0, 0]" by (simp_all add: numeral_3_eq_3)
  note torn [unfolded erased_flash_start(2) this]
  then show ?thesis unfolding Let_def by (simp add: LOG_ENTRY_MULTIBYTE_MAX_BYTES_def)
qed

end
