(* ===== verification/Eeprom.thy ===== *)
theory Eeprom
  imports Rp2040_Flash
begin

text \<open>
  The EEPROM driver on top of the wear-levelling store, \<open>drivers/eeprom/eeprom_wear_leveling.c\<close> and
  \<open>drivers/eeprom/eeprom_driver.c\<close>, and the configuration kept in it, \<open>quantum/eeconfig.c\<close>, without
  VIA and without keyboard or user data blocks, as the board is configured. The default layer that
  \<open>eeconfig_init_quantum\<close> sets in RAM is a result of the operation.
\<close>

section \<open>The EEPROM driver\<close>

definition eeprom_driver_init :: "'s backing_store_ops \<Rightarrow> 's wear_leveling \<Rightarrow> 's wear_leveling" where
  "eeprom_driver_init ops s = snd (wear_leveling_init ops s)"

definition eeprom_driver_erase :: "'s backing_store_ops \<Rightarrow> 's wear_leveling \<Rightarrow> 's wear_leveling" where
  "eeprom_driver_erase ops s = snd (wear_leveling_erase ops s)"

definition eeprom_driver_format :: "'s backing_store_ops \<Rightarrow> bool \<Rightarrow> 's wear_leveling \<Rightarrow> 's wear_leveling" where
  "eeprom_driver_format ops erase s = eeprom_driver_erase ops s"

text \<open>The buffer keeps its content \<open>buf\<close> when the read is refused.\<close>

definition eeprom_read_block :: "u8 list \<Rightarrow> u32 \<Rightarrow> 's wear_leveling \<Rightarrow> u8 list" where
  "eeprom_read_block buf addr s =
    (case wear_leveling_read addr (length buf) s of (_, None) \<Rightarrow> buf | (_, Some v) \<Rightarrow> v)"

definition eeprom_write_block ::
    "'s backing_store_ops \<Rightarrow> u8 list \<Rightarrow> u32 \<Rightarrow> 's wear_leveling \<Rightarrow> 's wear_leveling" where
  "eeprom_write_block ops buf addr s = snd (wear_leveling_write ops addr buf s)"

text \<open>The targets are little-endian.\<close>

definition dword_bytes :: "u32 \<Rightarrow> u8 list" where
  "dword_bytes v = [ucast v, ucast (drop_bit 8 v), ucast (drop_bit 16 v), ucast (drop_bit 24 v)]"

definition mk32 :: "u8 list \<Rightarrow> u32" where
  "mk32 b = ucast (b ! 0) OR push_bit 8 (ucast (b ! 1)) OR push_bit 16 (ucast (b ! 2)) OR
    push_bit 24 (ucast (b ! 3))"

definition eeprom_read_byte :: "u32 \<Rightarrow> 's wear_leveling \<Rightarrow> u8" where
  "eeprom_read_byte addr s = hd (eeprom_read_block [0] addr s)"

definition eeprom_read_word :: "u32 \<Rightarrow> 's wear_leveling \<Rightarrow> u16" where
  "eeprom_read_word addr s = (let b = eeprom_read_block [0, 0] addr s in mk16 (b ! 0) (b ! 1))"

definition eeprom_read_dword :: "u32 \<Rightarrow> 's wear_leveling \<Rightarrow> u32" where
  "eeprom_read_dword addr s = mk32 (eeprom_read_block [0, 0, 0, 0] addr s)"

definition eeprom_write_byte ::
    "'s backing_store_ops \<Rightarrow> u32 \<Rightarrow> u8 \<Rightarrow> 's wear_leveling \<Rightarrow> 's wear_leveling" where
  "eeprom_write_byte ops addr v s = eeprom_write_block ops [v] addr s"

definition eeprom_write_word ::
    "'s backing_store_ops \<Rightarrow> u32 \<Rightarrow> u16 \<Rightarrow> 's wear_leveling \<Rightarrow> 's wear_leveling" where
  "eeprom_write_word ops addr v s = eeprom_write_block ops [lo8 v, hi8 v] addr s"

definition eeprom_write_dword ::
    "'s backing_store_ops \<Rightarrow> u32 \<Rightarrow> u32 \<Rightarrow> 's wear_leveling \<Rightarrow> 's wear_leveling" where
  "eeprom_write_dword ops addr v s = eeprom_write_block ops (dword_bytes v) addr s"

text \<open>The buffer of \<open>eeprom_update_block\<close> is not initialised; zeros stand for its content.\<close>

definition eeprom_update_block ::
    "'s backing_store_ops \<Rightarrow> u8 list \<Rightarrow> u32 \<Rightarrow> 's wear_leveling \<Rightarrow> 's wear_leveling" where
  "eeprom_update_block ops buf addr s =
    (if buf \<noteq> eeprom_read_block (replicate (length buf) 0) addr s then eeprom_write_block ops buf addr s else s)"

definition eeprom_update_byte ::
    "'s backing_store_ops \<Rightarrow> u32 \<Rightarrow> u8 \<Rightarrow> 's wear_leveling \<Rightarrow> 's wear_leveling" where
  "eeprom_update_byte ops addr v s =
    (if eeprom_read_byte addr s \<noteq> v then eeprom_write_byte ops addr v s else s)"

definition eeprom_update_word ::
    "'s backing_store_ops \<Rightarrow> u32 \<Rightarrow> u16 \<Rightarrow> 's wear_leveling \<Rightarrow> 's wear_leveling" where
  "eeprom_update_word ops addr v s =
    (if eeprom_read_word addr s \<noteq> v then eeprom_write_word ops addr v s else s)"

definition eeprom_update_dword ::
    "'s backing_store_ops \<Rightarrow> u32 \<Rightarrow> u32 \<Rightarrow> 's wear_leveling \<Rightarrow> 's wear_leveling" where
  "eeprom_update_dword ops addr v s =
    (if eeprom_read_dword addr s \<noteq> v then eeprom_write_dword ops addr v s else s)"

definition eeprom_write_qword ::
    "'s backing_store_ops \<Rightarrow> u32 \<Rightarrow> u64 \<Rightarrow> 's wear_leveling \<Rightarrow> 's wear_leveling" where
  "eeprom_write_qword ops addr v s = eeprom_update_block ops (bytes_of (raw64_words v)) addr s"

section \<open>The configuration\<close>

text \<open>The offsets in the packed structure \<open>eeprom_core_t\<close>.\<close>

definition EECONFIG_MAGIC :: u32 where "EECONFIG_MAGIC = 0"
definition EECONFIG_DEBUG :: u32 where "EECONFIG_DEBUG = 2"
definition EECONFIG_DEFAULT_LAYER :: u32 where "EECONFIG_DEFAULT_LAYER = 3"
definition EECONFIG_KEYMAP :: u32 where "EECONFIG_KEYMAP = 4"
definition EECONFIG_BACKLIGHT :: u32 where "EECONFIG_BACKLIGHT = 6"
definition EECONFIG_AUDIO :: u32 where "EECONFIG_AUDIO = 7"
definition EECONFIG_RGBLIGHT :: u32 where "EECONFIG_RGBLIGHT = 8"
definition EECONFIG_UNICODEMODE :: u32 where "EECONFIG_UNICODEMODE = 12"
definition EECONFIG_STENOMODE :: u32 where "EECONFIG_STENOMODE = 13"
definition EECONFIG_HANDEDNESS :: u32 where "EECONFIG_HANDEDNESS = 14"
definition EECONFIG_KEYBOARD :: u32 where "EECONFIG_KEYBOARD = 15"
definition EECONFIG_USER :: u32 where "EECONFIG_USER = 19"
definition EECONFIG_RGB_MATRIX :: u32 where "EECONFIG_RGB_MATRIX = 23"
definition EECONFIG_HAPTIC :: u32 where "EECONFIG_HAPTIC = 31"
definition EECONFIG_RGBLIGHT_EXTENDED :: u32 where "EECONFIG_RGBLIGHT_EXTENDED = 35"

lemmas eeconfig_addresses =
  EECONFIG_MAGIC_def EECONFIG_DEBUG_def EECONFIG_DEFAULT_LAYER_def EECONFIG_KEYMAP_def
  EECONFIG_BACKLIGHT_def EECONFIG_AUDIO_def EECONFIG_RGBLIGHT_def EECONFIG_UNICODEMODE_def
  EECONFIG_STENOMODE_def EECONFIG_HANDEDNESS_def EECONFIG_KEYBOARD_def EECONFIG_USER_def
  EECONFIG_RGB_MATRIX_def EECONFIG_HAPTIC_def EECONFIG_RGBLIGHT_EXTENDED_def

definition EECONFIG_MAGIC_NUMBER :: u16 where "EECONFIG_MAGIC_NUMBER = 0xFEE5"
definition EECONFIG_MAGIC_NUMBER_OFF :: u16 where "EECONFIG_MAGIC_NUMBER_OFF = 0xFFFF"

definition eeconfig_read_debug :: "'s wear_leveling \<Rightarrow> u8" where
  "eeconfig_read_debug s = eeprom_read_byte EECONFIG_DEBUG s"
definition eeconfig_update_debug :: "'s backing_store_ops \<Rightarrow> u8 \<Rightarrow> 's wear_leveling \<Rightarrow> 's wear_leveling" where
  "eeconfig_update_debug ops v s = eeprom_update_byte ops EECONFIG_DEBUG v s"

definition eeconfig_read_default_layer :: "'s wear_leveling \<Rightarrow> u16" where
  "eeconfig_read_default_layer s = ucast (eeprom_read_byte EECONFIG_DEFAULT_LAYER s)"
definition eeconfig_update_default_layer ::
    "'s backing_store_ops \<Rightarrow> u16 \<Rightarrow> 's wear_leveling \<Rightarrow> 's wear_leveling" where
  "eeconfig_update_default_layer ops state s = eeprom_update_byte ops EECONFIG_DEFAULT_LAYER (ucast state) s"

definition eeconfig_read_keymap :: "'s wear_leveling \<Rightarrow> u16" where
  "eeconfig_read_keymap s = eeprom_read_word EECONFIG_KEYMAP s"
definition eeconfig_update_keymap :: "'s backing_store_ops \<Rightarrow> u16 \<Rightarrow> 's wear_leveling \<Rightarrow> 's wear_leveling" where
  "eeconfig_update_keymap ops v s = eeprom_update_word ops EECONFIG_KEYMAP v s"

definition eeconfig_read_audio :: "'s wear_leveling \<Rightarrow> u8" where
  "eeconfig_read_audio s = eeprom_read_byte EECONFIG_AUDIO s"
definition eeconfig_update_audio :: "'s backing_store_ops \<Rightarrow> u8 \<Rightarrow> 's wear_leveling \<Rightarrow> 's wear_leveling" where
  "eeconfig_update_audio ops v s = eeprom_update_byte ops EECONFIG_AUDIO v s"

definition eeconfig_read_kb :: "'s wear_leveling \<Rightarrow> u32" where
  "eeconfig_read_kb s = eeprom_read_dword EECONFIG_KEYBOARD s"
definition eeconfig_update_kb :: "'s backing_store_ops \<Rightarrow> u32 \<Rightarrow> 's wear_leveling \<Rightarrow> 's wear_leveling" where
  "eeconfig_update_kb ops v s = eeprom_update_dword ops EECONFIG_KEYBOARD v s"

definition eeconfig_read_user :: "'s wear_leveling \<Rightarrow> u32" where
  "eeconfig_read_user s = eeprom_read_dword EECONFIG_USER s"
definition eeconfig_update_user :: "'s backing_store_ops \<Rightarrow> u32 \<Rightarrow> 's wear_leveling \<Rightarrow> 's wear_leveling" where
  "eeconfig_update_user ops v s = eeprom_update_dword ops EECONFIG_USER v s"

definition eeconfig_read_haptic :: "'s wear_leveling \<Rightarrow> u32" where
  "eeconfig_read_haptic s = eeprom_read_dword EECONFIG_HAPTIC s"
definition eeconfig_update_haptic :: "'s backing_store_ops \<Rightarrow> u32 \<Rightarrow> 's wear_leveling \<Rightarrow> 's wear_leveling" where
  "eeconfig_update_haptic ops v s = eeprom_update_dword ops EECONFIG_HAPTIC v s"

definition eeconfig_read_handedness :: "'s wear_leveling \<Rightarrow> bool" where
  "eeconfig_read_handedness s \<longleftrightarrow> eeprom_read_byte EECONFIG_HANDEDNESS s \<noteq> 0"
definition eeconfig_update_handedness ::
    "'s backing_store_ops \<Rightarrow> bool \<Rightarrow> 's wear_leveling \<Rightarrow> 's wear_leveling" where
  "eeconfig_update_handedness ops v s = eeprom_update_byte ops EECONFIG_HANDEDNESS (if v then 1 else 0) s"

definition eeconfig_enable :: "'s backing_store_ops \<Rightarrow> 's wear_leveling \<Rightarrow> 's wear_leveling" where
  "eeconfig_enable ops s = eeprom_update_word ops EECONFIG_MAGIC EECONFIG_MAGIC_NUMBER s"

definition eeconfig_disable :: "'s backing_store_ops \<Rightarrow> 's wear_leveling \<Rightarrow> 's wear_leveling" where
  "eeconfig_disable ops s =
    eeprom_update_word ops EECONFIG_MAGIC EECONFIG_MAGIC_NUMBER_OFF (eeprom_driver_format ops False s)"

definition eeconfig_is_enabled :: "'s wear_leveling \<Rightarrow> bool" where
  "eeconfig_is_enabled s \<longleftrightarrow> eeprom_read_word EECONFIG_MAGIC s = EECONFIG_MAGIC_NUMBER"

definition eeconfig_is_disabled :: "'s wear_leveling \<Rightarrow> bool" where
  "eeconfig_is_disabled s \<longleftrightarrow> eeprom_read_word EECONFIG_MAGIC s = EECONFIG_MAGIC_NUMBER_OFF"

definition eeconfig_init_user :: "'s backing_store_ops \<Rightarrow> 's wear_leveling \<Rightarrow> 's wear_leveling" where
  "eeconfig_init_user ops s = eeconfig_update_user ops 0 s"

definition eeconfig_init_kb :: "'s backing_store_ops \<Rightarrow> 's wear_leveling \<Rightarrow> 's wear_leveling" where
  "eeconfig_init_kb ops s = eeconfig_init_user ops (eeconfig_update_kb ops 0 s)"

definition eeconfig_init_quantum :: "'s backing_store_ops \<Rightarrow> 's wear_leveling \<Rightarrow> u16 \<times> 's wear_leveling" where
  "eeconfig_init_quantum ops s =
    (let s = eeprom_driver_format ops False s;
         s = eeprom_update_word ops EECONFIG_MAGIC EECONFIG_MAGIC_NUMBER s;
         s = eeprom_update_byte ops EECONFIG_DEBUG 0 s;
         default_layer_state = push_bit 0 1;
         s = eeconfig_update_default_layer ops default_layer_state s;
         s = eeprom_update_word ops EECONFIG_KEYMAP 0x1400 s;
         s = eeprom_update_byte ops EECONFIG_BACKLIGHT 0 s;
         s = eeprom_update_byte ops EECONFIG_AUDIO 0 s;
         s = eeprom_update_dword ops EECONFIG_RGBLIGHT 0 s;
         s = eeprom_update_byte ops EECONFIG_RGBLIGHT_EXTENDED 0 s;
         s = eeprom_update_byte ops EECONFIG_UNICODEMODE 0 s;
         s = eeprom_update_byte ops EECONFIG_STENOMODE 0 s;
         s = eeprom_write_qword ops EECONFIG_RGB_MATRIX 0 s;
         s = eeprom_update_dword ops EECONFIG_HAPTIC 0 s
     in (default_layer_state, eeconfig_init_kb ops s))"

definition eeconfig_init :: "'s backing_store_ops \<Rightarrow> 's wear_leveling \<Rightarrow> u16 \<times> 's wear_leveling" where
  "eeconfig_init ops s = eeconfig_init_quantum ops s"

section \<open>The driver as an array of bytes\<close>

lemma take_drop_memcpy_other:
  "unat a + n \<le> unat b \<or> unat b + length xs \<le> unat a \<Longrightarrow> unat b + length xs \<le> length c \<Longrightarrow>
    unat a + n \<le> length c \<Longrightarrow>
    take n (drop (unat a) (memcpy_at c (unat b) xs)) = take n (drop (unat a) c)"
  by (rule nth_equalityI) (auto simp: nth_memcpy_at)

lemma take_1_drop: "i < length c \<Longrightarrow> take (Suc 0) (drop i c) = [c ! i]"
  by (simp add: take_Suc_conv_app_nth)

lemma mk32_dword_bytes [simp]: "mk32 (dword_bytes v) = v"
proof (rule bit_word_eqI)
  fix n assume "n < LENGTH(32)"
  then show "bit (mk32 (dword_bytes v)) n = bit v n"
    by (cases "n < 24"; cases "n < 16") (auto simp: mk32_def dword_bytes_def word_bits)
qed

lemma length_dword_bytes [simp]: "length (dword_bytes v) = 4"
  by (simp add: dword_bytes_def)

lemma dword_bytes_mk32: "length b = 4 \<Longrightarrow> dword_bytes (mk32 b) = b"
proof -
  assume "length b = 4"
  then obtain p q r t where b: "b = [p, q, r, t]"
    by (auto simp: eval_nat_numeral length_Suc_conv)
  have "ucast (mk32 b) = p" "ucast (drop_bit 8 (mk32 b)) = q" "ucast (drop_bit 16 (mk32 b)) = r"
    "ucast (drop_bit 24 (mk32 b)) = t"
    by (rule bit_word_eqI, auto simp: b mk32_def word_bits)+
  then show ?thesis by (simp add: dword_bytes_def b)
qed

text \<open>\<open>holds c s\<close>: the state is reachable and the EEPROM has the content \<open>c\<close>.\<close>

definition holds :: "'f flash_chip \<Rightarrow> u32 \<Rightarrow> u8 list \<Rightarrow> 'f wear_leveling \<Rightarrow> bool" where
  "holds chip sz c s \<longleftrightarrow> wl_reach chip sz s \<and> wl_cache s = c \<and> length c = 4096"

lemma holds_reach:
  "rp2040_flash chip sz \<Longrightarrow> wl_reach chip sz s \<Longrightarrow> holds chip sz (wl_cache s) s"
  using wl_ok_facts(2) [OF wl_reach_ok] by (auto simp: holds_def)

lemma in_range:
  fixes a :: u32
  assumes "unat a + n \<le> 4096"
  shows "\<not> a + of_nat n > WEAR_LEVELING_LOGICAL_SIZE"
proof -
  have "unat (a + of_nat n) = unat a + n"
    using assms by (simp add: unat_word_ariths unat_of_nat take_bit_nat_eq_self)
  then show ?thesis using assms by (simp add: word_less_nat_alt)
qed

lemma read_block_holds:
  assumes "holds chip sz c s" "unat a + length buf \<le> 4096"
  shows "eeprom_read_block buf a s = take (length buf) (drop (unat a) c)"
  using assms in_range [OF assms(2)]
  by (simp add: eeprom_read_block_def wear_leveling_read_def holds_def)

lemma read_byte_holds:
  assumes "holds chip sz c s" "unat a < 4096"
  shows "eeprom_read_byte a s = c ! unat a"
  using read_block_holds [of chip sz c s a "[0]"] assms
  by (simp add: eeprom_read_byte_def take_1_drop holds_def)

lemma take_2_drop: "Suc i < length c \<Longrightarrow> take (Suc (Suc 0)) (drop i c) = [c ! i, c ! Suc i]"
  by (simp add: take_Suc_conv_app_nth)

lemma read_word_holds:
  assumes "holds chip sz c s" "unat a + 2 \<le> 4096"
  shows "eeprom_read_word a s = mk16 (c ! unat a) (c ! Suc (unat a))"
  using read_block_holds [of chip sz c s a "[0, 0]"] assms
  by (simp add: eeprom_read_word_def take_2_drop holds_def Let_def)

lemma read_dword_holds:
  assumes "holds chip sz c s" "unat a + 4 \<le> 4096"
  shows "eeprom_read_dword a s = mk32 (take 4 (drop (unat a) c))"
proof -
  have l: "length [0, 0, 0, 0 :: u8] = 4" by simp
  show ?thesis
    unfolding eeprom_read_dword_def read_block_holds [OF assms(1), of a "[0, 0, 0, 0]", unfolded l, OF assms(2)] ..
qed

lemma write_block_holds:
  assumes "rp2040_flash chip sz" "holds chip sz c s" "unat a + length buf \<le> 4096"
  shows "holds chip sz (memcpy_at c (unat a) buf) (eeprom_write_block (rp2040_ops chip sz) buf a s)"
proof -
  let ?r = "wear_leveling_write (rp2040_ops chip sz) a buf s"
  have s: "wl_reach chip sz s" "wl_cache s = c" "length c = 4096" using assms(2) by (simp_all add: holds_def)
  have "wl_cache (snd ?r) = memcpy_at c (unat a) buf"
    using rp2040_facts(1) [OF assms(1) wl_reach_ok [OF assms(1) s(1)] assms(3) prod.collapse [symmetric]]
    by (simp add: s(2))
  moreover have "wl_reach chip sz (snd ?r)"
    by (rule wl_reach.write_data [OF s(1) assms(3) prod.collapse [symmetric]])
  ultimately show ?thesis using s(3) assms(3) by (simp add: holds_def eeprom_write_block_def)
qed

text \<open>An update leaves the same content as a write, whether it writes or not.\<close>

lemma memcpy_same:
  assumes "take (length xs) (drop a c) = xs" "a + length xs \<le> length c"
  shows "memcpy_at c a xs = c"
  using memcpy_at_self [of a "length xs" c] assms by simp

lemma update_block_holds:
  assumes "rp2040_flash chip sz" "holds chip sz c s" "unat a + length buf \<le> 4096"
  shows "holds chip sz (memcpy_at c (unat a) buf) (eeprom_update_block (rp2040_ops chip sz) buf a s)"
  using write_block_holds [OF assms] read_block_holds [OF assms(2), of a "replicate (length buf) 0"]
    memcpy_same [of buf "unat a" c] assms(2,3)
  by (auto simp: eeprom_update_block_def holds_def)

lemma update_byte_holds:
  assumes "rp2040_flash chip sz" "holds chip sz c s" "unat a < 4096"
  shows "holds chip sz (memcpy_at c (unat a) [v]) (eeprom_update_byte (rp2040_ops chip sz) a v s)"
proof (cases "eeprom_read_byte a s = v")
  case True
  then have "take (length [v]) (drop (unat a) c) = [v]"
    using read_byte_holds [OF assms(2,3)] assms(2,3) by (simp add: take_1_drop holds_def)
  then have "memcpy_at c (unat a) [v] = c"
    using memcpy_same [of "[v]"] assms(2,3) by (simp add: holds_def)
  then show ?thesis using True assms(2) by (simp add: eeprom_update_byte_def)
next
  case False
  then show ?thesis
    using write_block_holds [OF assms(1,2), of a "[v]"] assms(3)
    by (simp add: eeprom_update_byte_def eeprom_write_byte_def)
qed

lemma update_word_holds:
  assumes "rp2040_flash chip sz" "holds chip sz c s" "unat a + 2 \<le> 4096"
  shows "holds chip sz (memcpy_at c (unat a) [lo8 v, hi8 v]) (eeprom_update_word (rp2040_ops chip sz) a v s)"
proof (cases "eeprom_read_word a s = v")
  case True
  then have "v = mk16 (c ! unat a) (c ! Suc (unat a))"
    using read_word_holds [OF assms(2,3)] by simp
  then have "take (length [lo8 v, hi8 v]) (drop (unat a) c) = [lo8 v, hi8 v]"
    using assms(2,3) by (simp add: take_2_drop holds_def)
  then have "memcpy_at c (unat a) [lo8 v, hi8 v] = c"
    using memcpy_same [of "[lo8 v, hi8 v]"] assms(2,3) by (simp add: holds_def)
  then show ?thesis using True assms(2) by (simp add: eeprom_update_word_def)
next
  case False
  then show ?thesis
    using write_block_holds [OF assms(1,2), of a "[lo8 v, hi8 v]"] assms(3)
    by (simp add: eeprom_update_word_def eeprom_write_word_def)
qed

lemma update_dword_holds:
  assumes "rp2040_flash chip sz" "holds chip sz c s" "unat a + 4 \<le> 4096"
  shows "holds chip sz (memcpy_at c (unat a) (dword_bytes v)) (eeprom_update_dword (rp2040_ops chip sz) a v s)"
proof (cases "eeprom_read_dword a s = v")
  case True
  then have "dword_bytes v = take (length (dword_bytes v)) (drop (unat a) c)"
    using read_dword_holds [OF assms(2,3)] dword_bytes_mk32 [of "take 4 (drop (unat a) c)"] assms(2,3)
    by (simp add: holds_def)
  then have "memcpy_at c (unat a) (dword_bytes v) = c"
    using memcpy_same [of "dword_bytes v"] assms(2,3) by (simp add: holds_def)
  then show ?thesis using True assms(2) by (simp add: eeprom_update_dword_def)
next
  case False
  then show ?thesis
    using write_block_holds [OF assms(1,2), of a "dword_bytes v"] assms(3)
    by (simp add: eeprom_update_dword_def eeprom_write_dword_def)
qed

lemma format_holds:
  assumes "rp2040_flash chip sz" "holds chip sz c s"
  shows "holds chip sz (replicate 4096 0) (eeprom_driver_format (rp2040_ops chip sz) e s)"
proof -
  have "wl_reach chip sz s" using assms(2) by (simp add: holds_def)
  then show ?thesis
    using rp2040_facts(2) [OF assms(1) TrueI prod.collapse [symmetric], of s]
      wl_reach.erase [OF _ prod.collapse [symmetric], of chip sz s]
    by (simp add: holds_def eeprom_driver_format_def eeprom_driver_erase_def)
qed

lemma start_holds:
  assumes "rp2040_flash chip sz" "holds chip sz c s" "wl_store s0 = wl_store s"
  shows "holds chip sz c (eeprom_driver_init (rp2040_ops chip sz) s0)"
proof -
  have r: "wl_reach chip sz s" "wl_cache s = c" "length c = 4096" using assms(2) by (simp_all add: holds_def)
  show ?thesis
    using rp2040_facts(3) [OF assms(1) wl_reach_ok [OF assms(1) r(1)] assms(3) prod.collapse [symmetric]]
      wl_reach.restart [OF r(1) assms(3) prod.collapse [symmetric]] r
    by (simp add: holds_def eeprom_driver_init_def)
qed

lemma restart_holds:
  assumes "rp2040_flash chip sz" "holds chip sz c s"
  shows "holds chip sz c (eeprom_driver_init (rp2040_ops chip sz) (reset_state s))"
  using start_holds [OF assms reset_state_store] .

section \<open>Properties\<close>

text \<open>Reading a field of a content.\<close>

lemmas field_holds =
  update_byte_holds update_word_holds update_dword_holds update_block_holds

lemmas field_reads =
  read_byte_holds read_word_holds read_dword_holds

lemma nth_memcpy_word:
  assumes "Suc a < length c" "i < length c"
  shows "memcpy_at c a [x, y] ! i = (if i = a then x else if i = Suc a then y else c ! i)"
  using assms by (auto simp: nth_memcpy_at nth_Cons' less_Suc_eq)

lemma take_memcpy_same:
  "a + length xs \<le> length c \<Longrightarrow> n = length xs \<Longrightarrow> take n (drop a (memcpy_at c a xs)) = xs"
  by simp

lemma take_memcpy_other:
  assumes "a + n \<le> b \<or> b + length xs \<le> a" "b + length xs \<le> length c" "a + n \<le> length c"
  shows "take n (drop a (memcpy_at c b xs)) = take n (drop a c)"
  using assms by (intro nth_equalityI) (auto simp: nth_memcpy_at)

lemma nth_memcpy_single: "a < length c \<Longrightarrow> i < length c \<Longrightarrow> memcpy_at c a [x] ! i = (if i = a then x else c ! i)"
  by (auto simp: nth_memcpy_at)

lemma nth_memcpy_other:
  "i < a \<or> a + length xs \<le> i \<Longrightarrow> a + length xs \<le> length c \<Longrightarrow> i < length c \<Longrightarrow> memcpy_at c a xs ! i = c ! i"
  by (auto simp: nth_memcpy_at)

lemmas field_simps_eeprom = eeconfig_addresses nth_memcpy_single nth_memcpy_word nth_memcpy_other
  take_memcpy_same take_memcpy_other

text \<open>
  C29: the fields of the configuration do not overlap and survive a restart. From any state that the
  firmware reaches, after the fields have been updated one after the other and the board restarted,
  each field reads as the value it was given, the default layer as its low eight bits, and whether the
  configuration is marked valid has not changed.
\<close>

theorem eeconfig_fields_survive:
  assumes "rp2040_flash chip sz" "wl_reach chip sz s"
  shows "let ops = rp2040_ops chip sz;
      s1 = eeconfig_update_haptic ops p (eeconfig_update_user ops u (eeconfig_update_kb ops k
            (eeconfig_update_handedness ops h (eeconfig_update_audio ops a (eeconfig_update_keymap ops m
              (eeconfig_update_default_layer ops l (eeconfig_update_debug ops d s)))))));
      s2 = eeprom_driver_init ops (reset_state s1)
    in eeconfig_read_debug s2 = d \<and> eeconfig_read_default_layer s2 = l AND 255 \<and>
      eeconfig_read_keymap s2 = m \<and> eeconfig_read_audio s2 = a \<and> eeconfig_read_handedness s2 = h \<and>
      eeconfig_read_kb s2 = k \<and> eeconfig_read_user s2 = u \<and> eeconfig_read_haptic s2 = p \<and>
      eeconfig_is_enabled s2 = eeconfig_is_enabled s"
proof -
  define c where "c = wl_cache s"
  have h: "holds chip sz c s" unfolding c_def by (rule holds_reach [OF assms])
  have len: "length c = 4096" using h by (simp add: holds_def)
  let ?ops = "rp2040_ops chip sz"
  define s2 where "s2 = eeprom_driver_init ?ops (reset_state (eeconfig_update_haptic ?ops p
    (eeconfig_update_user ?ops u (eeconfig_update_kb ?ops k (eeconfig_update_handedness ?ops h
      (eeconfig_update_audio ?ops a (eeconfig_update_keymap ?ops m (eeconfig_update_default_layer ?ops l
        (eeconfig_update_debug ?ops d s)))))))))"
  define c2 where "c2 = memcpy_at (memcpy_at (memcpy_at (memcpy_at (memcpy_at (memcpy_at (memcpy_at
    (memcpy_at c (unat EECONFIG_DEBUG) [d]) (unat EECONFIG_DEFAULT_LAYER) [ucast l])
      (unat EECONFIG_KEYMAP) [lo8 m, hi8 m]) (unat EECONFIG_AUDIO) [a])
      (unat EECONFIG_HANDEDNESS) [if h then 1 else 0]) (unat EECONFIG_KEYBOARD) (dword_bytes k))
      (unat EECONFIG_USER) (dword_bytes u)) (unat EECONFIG_HAPTIC) (dword_bytes p)"
  have h2: "holds chip sz c2 s2"
    unfolding s2_def c2_def eeconfig_update_haptic_def eeconfig_update_user_def eeconfig_update_kb_def
      eeconfig_update_handedness_def eeconfig_update_audio_def eeconfig_update_keymap_def
      eeconfig_update_default_layer_def eeconfig_update_debug_def
    by (intro restart_holds field_holds assms(1) h; simp add: eeconfig_addresses)
  have "c2 ! 2 = d" "c2 ! 3 = ucast l" "c2 ! 4 = lo8 m" "c2 ! 5 = hi8 m" "c2 ! 7 = a"
    "c2 ! 14 = (if h then 1 else 0)" "c2 ! 0 = c ! 0" "c2 ! 1 = c ! 1"
    by (simp_all add: c2_def field_simps_eeprom len)
  moreover have "take 4 (drop 15 c2) = dword_bytes k" "take 4 (drop 19 c2) = dword_bytes u"
    "take 4 (drop 31 c2) = dword_bytes p"
    by (simp_all add: c2_def field_simps_eeprom len)
  moreover have "ucast (ucast l :: u8) = (l AND 255 :: u16)"
  proof -
    have "l AND 255 = take_bit 8 l" by (simp add: take_bit_eq_mask mask_eq_exp_minus_1)
    then show ?thesis by (simp only:) (rule bit_word_eqI, auto simp: word_bits)
  qed
  ultimately show ?thesis
    unfolding Let_def s2_def [symmetric] eeconfig_read_debug_def eeconfig_read_default_layer_def
      eeconfig_read_keymap_def eeconfig_read_audio_def eeconfig_read_handedness_def eeconfig_read_kb_def
      eeconfig_read_user_def eeconfig_read_haptic_def eeconfig_is_enabled_def
    using field_reads [OF h2] field_reads [OF h]
    by (simp add: eeconfig_addresses)
qed

theorem eeconfig_fields_survive_witness:
  "let ops = rp2040_ops nor_chip 2097152; s = snd (wear_leveling_init ops erased_flash);
      s1 = eeconfig_update_haptic ops 1 (eeconfig_update_user ops 2 (eeconfig_update_kb ops 3
            (eeconfig_update_handedness ops True (eeconfig_update_audio ops 4 (eeconfig_update_keymap ops 5
              (eeconfig_update_default_layer ops 0x102 (eeconfig_update_debug ops 6 s)))))))
    in eeconfig_read_default_layer (eeprom_driver_init ops (reset_state s1)) = 2"
  using eeconfig_fields_survive [OF nor_chip_ok erased_flash_start(1), where p = 1 and u = 2 and k = 3 and h = True
      and a = 4 and m = 5 and l = "0x102" and d = 6]
  unfolding Let_def by simp

text \<open>The content after \<open>eeconfig_init\<close> and after \<open>eeconfig_disable\<close>.\<close>

definition default_content :: "u8 list" where
  "default_content = memcpy_at (memcpy_at (memcpy_at (memcpy_at (replicate 4096 0)
      (unat EECONFIG_MAGIC) [lo8 EECONFIG_MAGIC_NUMBER, hi8 EECONFIG_MAGIC_NUMBER])
      (unat EECONFIG_DEBUG) [0]) (unat EECONFIG_DEFAULT_LAYER) [1]) (unat EECONFIG_KEYMAP) [lo8 0x1400, hi8 0x1400]"

definition disabled_content :: "u8 list" where
  "disabled_content = memcpy_at (replicate 4096 0) (unat EECONFIG_MAGIC)
    [lo8 EECONFIG_MAGIC_NUMBER_OFF, hi8 EECONFIG_MAGIC_NUMBER_OFF]"

lemma default_content:
  "default_content ! 0 = lo8 EECONFIG_MAGIC_NUMBER" "default_content ! 1 = hi8 EECONFIG_MAGIC_NUMBER"
  "default_content ! 2 = 0" "default_content ! 3 = 1" "default_content ! 4 = lo8 0x1400" "default_content ! 5 = hi8 0x1400"
  "6 \<le> i \<Longrightarrow> i + n \<le> 4096 \<Longrightarrow> take n (drop i default_content) = replicate n 0"
proof -
  show "default_content ! 0 = lo8 EECONFIG_MAGIC_NUMBER" "default_content ! 1 = hi8 EECONFIG_MAGIC_NUMBER"
    "default_content ! 2 = 0" "default_content ! 3 = 1" "default_content ! 4 = lo8 0x1400" "default_content ! 5 = hi8 0x1400"
    by (simp_all add: default_content_def field_simps_eeprom)
  show "6 \<le> i \<Longrightarrow> i + n \<le> 4096 \<Longrightarrow> take n (drop i default_content) = replicate n 0"
    unfolding default_content_def by (simp add: eeconfig_addresses take_memcpy_other)
qed

lemma disabled_content:
  "disabled_content ! 0 = lo8 EECONFIG_MAGIC_NUMBER_OFF" "disabled_content ! 1 = hi8 EECONFIG_MAGIC_NUMBER_OFF"
  "disabled_content ! 4 = 0" "disabled_content ! 5 = 0"
  by (simp_all add: disabled_content_def field_simps_eeprom)

lemma zero_bytes: "mk32 (replicate 4 0) = 0" "dword_bytes 0 = replicate 4 0" "raw64_words 0 = replicate 4 0"
  by (simp_all add: mk32_def dword_bytes_def raw64_words_def eval_nat_numeral)

lemma init_holds:
  assumes "rp2040_flash chip sz" "holds chip sz c s"
  shows "fst (eeconfig_init (rp2040_ops chip sz) s) = 1"
    "holds chip sz default_content (snd (eeconfig_init (rp2040_ops chip sz) s))"
proof -
  let ?ops = "rp2040_ops chip sz"
  define s1 where "s1 = eeprom_update_word ?ops EECONFIG_KEYMAP 0x1400
    (eeprom_update_byte ?ops EECONFIG_DEFAULT_LAYER 1 (eeprom_update_byte ?ops EECONFIG_DEBUG 0
      (eeprom_update_word ?ops EECONFIG_MAGIC EECONFIG_MAGIC_NUMBER (eeprom_driver_format ?ops False s))))"
  have h1: "holds chip sz default_content s1"
    unfolding s1_def default_content_def
    by (intro field_holds assms(1) format_holds [OF _ assms(2)]; simp add: eeconfig_addresses)
  note z = default_content(7)
  have zb: "eeprom_update_byte ?ops a 0 s1 = s1" if "6 \<le> unat a" "unat a < 4096" for a
  proof -
    have "[default_content ! unat a] = [0]"
      using z [of "unat a" 1] that take_1_drop [of "unat a" default_content] h1 by (simp add: holds_def)
    then show ?thesis using field_reads(1) [OF h1 that(2)] by (simp add: eeprom_update_byte_def)
  qed
  have zd: "eeprom_update_dword ?ops a 0 s1 = s1" if "6 \<le> unat a" "unat a + 4 \<le> 4096" for a
    using field_reads(3) [OF h1 that(2)] z [OF that] by (simp add: eeprom_update_dword_def zero_bytes(1))
  have zq: "eeprom_write_qword ?ops 23 0 s1 = s1"
    using read_block_holds [OF h1, of 23 "replicate 8 0"] z [of 23 8]
    by (simp add: eeprom_write_qword_def eeprom_update_block_def zero_bytes(3))
  have "eeconfig_init ?ops s = (1, s1)"
    unfolding eeconfig_init_def eeconfig_init_quantum_def eeconfig_update_default_layer_def
      eeconfig_init_kb_def eeconfig_init_user_def eeconfig_update_kb_def eeconfig_update_user_def Let_def
      push_bit_0_id id_apply unsigned_1 s1_def [symmetric]
    by (simp add: zb zd zq eeconfig_addresses)
  then show "fst (eeconfig_init ?ops s) = 1" "holds chip sz default_content (snd (eeconfig_init ?ops s))"
    using h1 by simp_all
qed

lemma disable_holds:
  "rp2040_flash chip sz \<Longrightarrow> holds chip sz c s \<Longrightarrow>
    holds chip sz disabled_content (eeconfig_disable (rp2040_ops chip sz) s)"
  unfolding disabled_content_def eeconfig_disable_def
  by (intro field_holds format_holds; simp add: eeconfig_addresses)

text \<open>
  \<open>eeconfig_init\<close> brings the configuration to its defaults whatever it was before, and they
  survive a restart: the configuration is marked valid, layer 0 is the default layer, in RAM as in the
  EEPROM, one-shot keys and autocorrect are on (0x1400), and the other fields are zero;
  \<open>eeconfig_disable\<close> erases the configuration and marks it as disabled.
\<close>

theorem eeconfig_init_defaults:
  assumes "rp2040_flash chip sz" "wl_reach chip sz s"
  shows "let ops = rp2040_ops chip sz; (layer, s1) = eeconfig_init ops s;
      s2 = eeprom_driver_init ops (reset_state s1);
      s3 = eeprom_driver_init ops (reset_state (eeconfig_disable ops s))
    in layer = 1 \<and> eeconfig_is_enabled s2 \<and> \<not> eeconfig_is_disabled s2 \<and>
      eeconfig_read_default_layer s2 = layer \<and> eeconfig_read_keymap s2 = 0x1400 \<and>
      eeconfig_read_debug s2 = 0 \<and> eeconfig_read_audio s2 = 0 \<and> \<not> eeconfig_read_handedness s2 \<and>
      eeconfig_read_kb s2 = 0 \<and> eeconfig_read_user s2 = 0 \<and> eeconfig_read_haptic s2 = 0 \<and>
      eeconfig_is_disabled s3 \<and> \<not> eeconfig_is_enabled s3 \<and> eeconfig_read_keymap s3 = 0"
proof -
  let ?ops = "rp2040_ops chip sz"
  have h: "holds chip sz (wl_cache s) s" by (rule holds_reach [OF assms])
  define s2 where "s2 = eeprom_driver_init ?ops (reset_state (snd (eeconfig_init ?ops s)))"
  define s3 where "s3 = eeprom_driver_init ?ops (reset_state (eeconfig_disable ?ops s))"
  have h2: "holds chip sz default_content s2"
    unfolding s2_def by (rule restart_holds [OF assms(1) init_holds(2) [OF assms(1) h]])
  have h3: "holds chip sz disabled_content s3"
    unfolding s3_def by (rule restart_holds [OF assms(1) disable_holds [OF assms(1) h]])
  have "take 4 (drop i default_content) = replicate 4 0" if "6 \<le> i" "i < 4000" for i
    using that by (intro default_content(7)) simp_all
  moreover have "default_content ! i = 0" if "6 \<le> i" "i < 4000" for i
    using default_content(7) [of i 1] that take_1_drop [of i default_content] h2 by (simp add: holds_def)
  ultimately show ?thesis
    unfolding Let_def case_prod_beta s2_def [symmetric] s3_def [symmetric] eeconfig_read_debug_def
      eeconfig_read_default_layer_def eeconfig_read_keymap_def eeconfig_read_audio_def
      eeconfig_read_handedness_def eeconfig_read_kb_def eeconfig_read_user_def eeconfig_read_haptic_def
      eeconfig_is_enabled_def eeconfig_is_disabled_def
    using field_reads [OF h2] field_reads [OF h3] init_holds(1) [OF assms(1) h]
    by (simp add: eeconfig_addresses default_content(1-6) default_content(2) [unfolded One_nat_def] disabled_content
        disabled_content(2) [unfolded One_nat_def] zero_bytes(1) EECONFIG_MAGIC_NUMBER_def EECONFIG_MAGIC_NUMBER_OFF_def)
qed

theorem eeconfig_init_defaults_witness:
  "let ops = rp2040_ops nor_chip 2097152; s = snd (wear_leveling_init ops erased_flash)
   in eeconfig_is_enabled (eeprom_driver_init ops (reset_state (snd (eeconfig_init ops s))))"
  using eeconfig_init_defaults [OF nor_chip_ok erased_flash_start(1)]
  unfolding Let_def case_prod_beta by blast

end
