(* ===== verification/Epd.thy ===== *)
theory Epd
  imports Qmk_Prelude "HOL-Library.Monad_Syntax"
begin

text \<open>
  The e-paper driver of the board, \<open>keyboards/hernian/danopad01/epd_ws1in54_V2.c\<close>: the byte
  sequences it sends over SPI, the control sequencer engine that runs one element of a sequence per
  call of \<open>epd_task\<close>, and the idle timer that puts the panel to sleep.

  The panel is a parameter: \<open>busy trace clock\<close> is the level of its BUSY pin when the events of
  \<open>trace\<close> have happened and \<open>clock\<close> milliseconds have passed; \<open>timer_read32\<close> is the clock as a
  32-bit word. The loop that waits for BUSY may
  never end, so that sending returns an option; \<open>None\<close> is not returning, or passing a null image
  to \<open>spi_transmit\<close>. Debug prints are left out; the elements that only print are kept.
\<close>

section \<open>Pins, SPI and the clock\<close>

datatype epd_pin = EPD_BUSY_PIN | EPD_CS_PIN | EPD_DC_PIN | EPD_RST_PIN

datatype epd_event =
    Spi_init
  | Spi_start epd_pin bool nat nat
  | Pin_input epd_pin
  | Pin_output epd_pin
  | Pin_write epd_pin bool
  | Spi_transmit "u8 list"

record epd_io =
  io_clock :: nat
  io_trace :: "epd_event list"

type_synonym epd_panel = "epd_event list \<Rightarrow> nat \<Rightarrow> bool"

definition io_emit :: "epd_event list \<Rightarrow> epd_io \<Rightarrow> epd_io" where
  "io_emit es io = io\<lparr>io_trace := io_trace io @ es\<rparr>"

definition epd_busy :: "epd_panel \<Rightarrow> epd_io \<Rightarrow> bool" where
  "epd_busy busy io = busy (io_trace io) (io_clock io)"

definition epd_gpio_config :: "epd_io \<Rightarrow> epd_io" where
  "epd_gpio_config = io_emit
    [Spi_init, Spi_start EPD_CS_PIN False 0 6, Pin_input EPD_BUSY_PIN, Pin_output EPD_RST_PIN,
     Pin_output EPD_DC_PIN, Pin_write EPD_RST_PIN True, Pin_write EPD_DC_PIN True]"

text \<open>The loop \<open>while (gpio_read_pin(EPD_BUSY_PIN)) wait_ms(1)\<close>.\<close>

partial_function (option) epd_wait_ready :: "epd_panel \<Rightarrow> epd_io \<Rightarrow> epd_io option" where
  "epd_wait_ready busy io =
    (if epd_busy busy io then epd_wait_ready busy (io\<lparr>io_clock := io_clock io + 1\<rparr>) else Some io)"

definition epd_send_command :: "epd_panel \<Rightarrow> u8 \<Rightarrow> epd_io \<Rightarrow> epd_io option" where
  "epd_send_command busy cmd io = do {
    io \<leftarrow> epd_wait_ready busy io;
    Some (io_emit [Pin_write EPD_DC_PIN False, Spi_transmit [cmd]] io)
  }"

definition epd_send_data :: "u8 \<Rightarrow> epd_io \<Rightarrow> epd_io option" where
  "epd_send_data data io = Some (io_emit [Pin_write EPD_DC_PIN True, Spi_transmit [data]] io)"

definition epd_send_data_block :: "u8 list \<Rightarrow> epd_io \<Rightarrow> epd_io option" where
  "epd_send_data_block block io = Some (io_emit [Pin_write EPD_DC_PIN True, Spi_transmit block] io)"

section \<open>Commands of the panel\<close>

definition WF_FULL_1IN54 :: "u8 list" where
  "WF_FULL_1IN54 =
    [0x80, 0x48, 0x40, 0, 0, 0, 0, 0, 0, 0, 0, 0,
     0x40, 0x48, 0x80, 0, 0, 0, 0, 0, 0, 0, 0, 0,
     0x80, 0x48, 0x40, 0, 0, 0, 0, 0, 0, 0, 0, 0,
     0x40, 0x48, 0x80, 0, 0, 0, 0, 0, 0, 0, 0, 0,
     0, 0, 0, 0, 0, 0, 0, 0, 0, 0, 0, 0,
     0x0A, 0, 0, 0, 0, 0, 0,
     8, 1, 0, 8, 1, 0, 2,
     0x0A, 0, 0, 0, 0, 0, 0]
    @ replicate 63 0 @
    [0x22, 0x22, 0x22, 0x22, 0x22, 0x22, 0, 0, 0,
     0x22, 0x17, 0x41, 0, 0x32, 0x20]"

definition WF_PARTIAL_1IN54_0 :: "u8 list" where
  "WF_PARTIAL_1IN54_0 =
    [0, 0x40, 0, 0, 0, 0, 0, 0, 0, 0, 0, 0,
     0x80, 0x80, 0, 0, 0, 0, 0, 0, 0, 0, 0, 0,
     0x40, 0x40, 0, 0, 0, 0, 0, 0, 0, 0, 0, 0,
     0, 0x80, 0, 0, 0, 0, 0, 0, 0, 0, 0, 0,
     0, 0, 0, 0, 0, 0, 0, 0, 0, 0, 0, 0,
     0x0F, 0, 0, 0, 0, 0, 0,
     1, 1, 0, 0, 0, 0, 0]
    @ replicate 70 0 @
    [0x22, 0x22, 0x22, 0x22, 0x22, 0x22, 0, 0, 0,
     0x02, 0x17, 0x41, 0xB0, 0x32, 0x28]"

definition epd_set_lut :: "epd_panel \<Rightarrow> u8 list \<Rightarrow> epd_io \<Rightarrow> epd_io option" where
  "epd_set_lut busy lut io = do {
    io \<leftarrow> epd_send_command busy 0x32 io;
    io \<leftarrow> epd_send_data_block (take 153 lut) io;
    io \<leftarrow> epd_send_command busy 0x3F io;
    io \<leftarrow> epd_send_data (lut ! 153) io;
    io \<leftarrow> epd_send_command busy 0x03 io;
    io \<leftarrow> epd_send_data (lut ! 154) io;
    io \<leftarrow> epd_send_command busy 0x04 io;
    io \<leftarrow> epd_send_data (lut ! 155) io;
    io \<leftarrow> epd_send_data (lut ! 156) io;
    io \<leftarrow> epd_send_data (lut ! 157) io;
    io \<leftarrow> epd_send_command busy 0x2C io;
    epd_send_data (lut ! 158) io
  }"

definition epd_set_windows :: "epd_panel \<Rightarrow> u32 \<Rightarrow> u32 \<Rightarrow> u32 \<Rightarrow> u32 \<Rightarrow> epd_io \<Rightarrow> epd_io option" where
  "epd_set_windows busy x_start y_start x_end y_end io = do {
    io \<leftarrow> epd_send_command busy 0x44 io;
    io \<leftarrow> epd_send_data (ucast (drop_bit 3 x_start)) io;
    io \<leftarrow> epd_send_data (ucast (drop_bit 3 x_end)) io;
    io \<leftarrow> epd_send_command busy 0x45 io;
    io \<leftarrow> epd_send_data (ucast y_start) io;
    io \<leftarrow> epd_send_data (ucast (drop_bit 8 y_start)) io;
    io \<leftarrow> epd_send_data (ucast y_end) io;
    epd_send_data (ucast (drop_bit 8 y_end)) io
  }"

definition epd_set_cursor :: "epd_panel \<Rightarrow> u32 \<Rightarrow> u32 \<Rightarrow> epd_io \<Rightarrow> epd_io option" where
  "epd_set_cursor busy x_start y_start io = do {
    io \<leftarrow> epd_send_command busy 0x4E io;
    io \<leftarrow> epd_send_data (ucast x_start) io;
    io \<leftarrow> epd_send_command busy 0x4F io;
    io \<leftarrow> epd_send_data (ucast y_start) io;
    epd_send_data (ucast (drop_bit 8 y_start)) io
  }"

section \<open>The state of the driver\<close>

datatype hw_reset_phase_t =
    HW_RESET_PHASE_OUTSET | HW_RESET_PHASE_HIGH_PRE | HW_RESET_PHASE_LOW
  | HW_RESET_PHASE_HIGH_POST | HW_RESET_PHASE_COMPL

datatype idle_timer_phase_t = IDLE_TIMER_PHASE_FREE | IDLE_TIMER_PHARE_START | IDLE_TIMER_PHARE_EXPIRED

text \<open>
  The functions that the sequences point to, the three sequences, and a pointer to an element of
  one. An image is the array the pointer names, \<open>None\<close> for NULL.
\<close>

datatype cseq_func =
    seqelem_delay_init_async | seqelem_delay_init_wait
  | seqelem_hw_reset_async | seqelem_hw_reset_wait
  | seqelem_sw_reset_async | seqelem_sw_reset_wait
  | seqelem_init_async | seqelem_init_wait
  | seqelem_set_ult_full | seqelem_set_ult_partial | seqelem_prepare_partial
  | seqelem_send_image_base | seqelem_send_image
  | seqelem_turn_on_display_async | seqelem_turn_on_display_wait
  | seqelem_turn_on_display_partial_async | seqelem_turn_on_display_partial_wait
  | seqelem_deep_sleep_async | seqelem_deep_sleep_wait

datatype cseq_elem = CSEQ_TYPE_END | CSEQ_TYPE_FUNC_BV cseq_func | SEQELEM_DPRINT string

datatype cseq_name = seq_init | seq_show_image_partial | seq_deep_sleep

type_synonym epd_image = "u8 list"

record epd_state =
  seq_next :: "cseq_name option"
  pelem_cur :: "(cseq_name \<times> nat) option"
  image_next :: "epd_image option"
  image_cur :: "epd_image option"
  tim_seq_start :: u32
  delay_tim_start :: u32
  delay_ms_delay :: u32
  hw_reset_phase :: hw_reset_phase_t
  tim_start_turn_on_display :: u32
  idle_timer_phase :: idle_timer_phase_t
  tim_idle_start :: u32
  epd_io :: epd_io

definition epd_boot :: "nat \<Rightarrow> epd_state" where
  "epd_boot clock = \<lparr> seq_next = None, pelem_cur = None, image_next = None, image_cur = None,
    tim_seq_start = 0, delay_tim_start = 0, delay_ms_delay = 0,
    hw_reset_phase = HW_RESET_PHASE_OUTSET, tim_start_turn_on_display = 0,
    idle_timer_phase = IDLE_TIMER_PHASE_FREE, tim_idle_start = 0,
    epd_io = \<lparr> io_clock = clock, io_trace = [] \<rparr> \<rparr>"

abbreviation timer_read32 :: "epd_state \<Rightarrow> u32" where
  "timer_read32 s \<equiv> of_nat (io_clock (epd_io s))"

definition cseq_start :: "cseq_name \<Rightarrow> epd_image option \<Rightarrow> epd_state \<Rightarrow> epd_state" where
  "cseq_start q img s = s\<lparr>seq_next := Some q, image_next := img\<rparr>"

definition delay_async :: "u32 \<Rightarrow> epd_state \<Rightarrow> epd_state" where
  "delay_async ms s = s\<lparr>delay_ms_delay := ms, delay_tim_start := timer_read32 s\<rparr>"

definition delay_wait :: "epd_state \<Rightarrow> bool" where
  "delay_wait s \<longleftrightarrow> \<not> timer_elapsed32 (timer_read32 s) (delay_tim_start s) < delay_ms_delay s"

definition HW_RESET_MS_HIGH_PRE :: u32 where "HW_RESET_MS_HIGH_PRE = 10"
definition HW_RESET_MS_LOW :: u32 where "HW_RESET_MS_LOW = 2"
definition HW_RESET_MS_HIGH_POST :: u32 where "HW_RESET_MS_HIGH_POST = 10"
definition DEEP_SLEEP_MS_DELAY :: u32 where "DEEP_SLEEP_MS_DELAY = 100"
definition ENTER_DEEP_SLEEP_AFTER_MS :: u32 where "ENTER_DEEP_SLEEP_AFTER_MS = 3000"
definition EPD_WIDTH :: u32 where "EPD_WIDTH = 200"
definition EPD_HEIGHT :: u32 where "EPD_HEIGHT = 200"
definition COUNT_BYTES_IN_IMAGE :: nat where "COUNT_BYTES_IN_IMAGE = 200 * 25"

section \<open>The elements of the sequences\<close>

definition write_pin :: "epd_pin \<Rightarrow> bool \<Rightarrow> epd_state \<Rightarrow> epd_state" where
  "write_pin p v s = s\<lparr>epd_io := io_emit [Pin_write p v] (epd_io s)\<rparr>"

text \<open>Running a function that only sends.\<close>

definition epd_send :: "(epd_io \<Rightarrow> epd_io option) \<Rightarrow> epd_state \<Rightarrow> (bool \<times> epd_state) option" where
  "epd_send f s = do { io \<leftarrow> f (epd_io s); Some (True, s\<lparr>epd_io := io\<rparr>) }"

definition hw_reset_async :: "epd_panel \<Rightarrow> epd_state \<Rightarrow> epd_state" where
  "hw_reset_async busy s =
    (if hw_reset_phase s \<noteq> HW_RESET_PHASE_OUTSET \<and> \<not> epd_busy busy (epd_io s) then s
     else delay_async HW_RESET_MS_HIGH_PRE
       (write_pin EPD_RST_PIN True (s\<lparr>hw_reset_phase := HW_RESET_PHASE_HIGH_PRE\<rparr>)))"

definition hw_reset_wait :: "epd_state \<Rightarrow> bool \<times> epd_state" where
  "hw_reset_wait s =
    (case hw_reset_phase s of
      HW_RESET_PHASE_OUTSET \<Rightarrow> (True, s)
    | HW_RESET_PHASE_HIGH_PRE \<Rightarrow>
        if \<not> delay_wait s then (False, s)
        else (False, delay_async HW_RESET_MS_LOW
          (write_pin EPD_RST_PIN False (s\<lparr>hw_reset_phase := HW_RESET_PHASE_LOW\<rparr>)))
    | HW_RESET_PHASE_LOW \<Rightarrow>
        if \<not> delay_wait s then (False, s)
        else (False, delay_async HW_RESET_MS_HIGH_POST
          (write_pin EPD_RST_PIN True (s\<lparr>hw_reset_phase := HW_RESET_PHASE_HIGH_POST\<rparr>)))
    | HW_RESET_PHASE_HIGH_POST \<Rightarrow>
        if \<not> delay_wait s then (False, s)
        else (True, s\<lparr>hw_reset_phase := HW_RESET_PHASE_COMPL\<rparr>)
    | HW_RESET_PHASE_COMPL \<Rightarrow> (True, s))"

definition init_commands :: "epd_panel \<Rightarrow> epd_io \<Rightarrow> epd_io option" where
  "init_commands busy io = do {
    io \<leftarrow> epd_send_command busy 0x01 io;
    io \<leftarrow> epd_send_data 0xC7 io;
    io \<leftarrow> epd_send_data 0x00 io;
    io \<leftarrow> epd_send_data 0x00 io;
    io \<leftarrow> epd_send_command busy 0x11 io;
    io \<leftarrow> epd_send_data 0x03 io;
    io \<leftarrow> epd_send_command busy 0x3C io;
    io \<leftarrow> epd_send_data 0x01 io;
    io \<leftarrow> epd_send_command busy 0x18 io;
    io \<leftarrow> epd_send_data 0x80 io;
    io \<leftarrow> epd_send_command busy 0x22 io;
    io \<leftarrow> epd_send_data 0xB1 io;
    epd_send_command busy 0x20 io
  }"

definition prepare_partial :: "epd_panel \<Rightarrow> epd_io \<Rightarrow> epd_io option" where
  "prepare_partial busy io = do {
    io \<leftarrow> epd_send_command busy 0x37 io;
    io \<leftarrow> epd_send_data 0x00 io;
    io \<leftarrow> epd_send_data 0x00 io;
    io \<leftarrow> epd_send_data 0x00 io;
    io \<leftarrow> epd_send_data 0x00 io;
    io \<leftarrow> epd_send_data 0x00 io;
    io \<leftarrow> epd_send_data 0x40 io;
    io \<leftarrow> epd_send_data 0x00 io;
    io \<leftarrow> epd_send_data 0x00 io;
    io \<leftarrow> epd_send_data 0x00 io;
    io \<leftarrow> epd_send_data 0x00 io;
    io \<leftarrow> epd_send_command busy 0x3C io;
    epd_send_data 0x80 io
  }"

definition send_image_base :: "epd_panel \<Rightarrow> epd_image option \<Rightarrow> epd_io \<Rightarrow> epd_io option" where
  "send_image_base busy ptr io = do {
    io \<leftarrow> epd_set_windows busy 0 0 (EPD_WIDTH - 1) (EPD_HEIGHT - 1) io;
    io \<leftarrow> epd_set_cursor busy 0 0 io;
    io \<leftarrow> epd_send_command busy 0x24 io;
    img \<leftarrow> ptr;
    io \<leftarrow> epd_send_data_block (take COUNT_BYTES_IN_IMAGE img) io;
    io \<leftarrow> epd_send_command busy 0x26 io;
    epd_send_data_block (take COUNT_BYTES_IN_IMAGE img) io
  }"

definition send_image :: "epd_panel \<Rightarrow> epd_image option \<Rightarrow> epd_io \<Rightarrow> epd_io option" where
  "send_image busy ptr io = do {
    io \<leftarrow> epd_set_windows busy 0 0 (EPD_WIDTH - 1) (EPD_HEIGHT - 1) io;
    io \<leftarrow> epd_set_cursor busy 0 0 io;
    io \<leftarrow> epd_send_command busy 0x24 io;
    img \<leftarrow> ptr;
    epd_send_data_block (take COUNT_BYTES_IN_IMAGE img) io
  }"

text \<open>\<open>mode\<close> is the byte after command 0x22: 0xF7 for a full refresh, 0xCF for a partial one.\<close>

definition turn_on_display :: "epd_panel \<Rightarrow> u8 \<Rightarrow> epd_io \<Rightarrow> epd_io option" where
  "turn_on_display busy mode io = do {
    io \<leftarrow> epd_send_command busy 0x22 io;
    io \<leftarrow> epd_send_data mode io;
    epd_send_command busy 0x20 io
  }"

definition deep_sleep_commands :: "epd_panel \<Rightarrow> epd_io \<Rightarrow> epd_io option" where
  "deep_sleep_commands busy io = do {
    io \<leftarrow> epd_send_command busy 0x10 io;
    epd_send_data 0x01 io
  }"


definition run_seqelem :: "epd_panel \<Rightarrow> cseq_func \<Rightarrow> epd_state \<Rightarrow> (bool \<times> epd_state) option" where
  "run_seqelem busy e s =
    (case e of
      seqelem_delay_init_async \<Rightarrow> Some (True, delay_async 3000 s)
    | seqelem_delay_init_wait \<Rightarrow> Some (delay_wait s, s)
    | seqelem_hw_reset_async \<Rightarrow> Some (True, hw_reset_async busy s)
    | seqelem_hw_reset_wait \<Rightarrow> Some (hw_reset_wait s)
    | seqelem_sw_reset_async \<Rightarrow> epd_send (epd_send_command busy 0x12) s
    | seqelem_sw_reset_wait \<Rightarrow> Some (\<not> epd_busy busy (epd_io s), s)
    | seqelem_init_async \<Rightarrow> epd_send (init_commands busy) s
    | seqelem_init_wait \<Rightarrow> Some (\<not> epd_busy busy (epd_io s), s)
    | seqelem_set_ult_full \<Rightarrow> epd_send (epd_set_lut busy WF_FULL_1IN54) s
    | seqelem_set_ult_partial \<Rightarrow> epd_send (epd_set_lut busy WF_PARTIAL_1IN54_0) s
    | seqelem_prepare_partial \<Rightarrow> epd_send (prepare_partial busy) s
    | seqelem_send_image_base \<Rightarrow> epd_send (send_image_base busy (image_cur s)) s
    | seqelem_send_image \<Rightarrow> epd_send (send_image busy (image_cur s)) s
    | seqelem_turn_on_display_async \<Rightarrow>
        epd_send (turn_on_display busy 0xF7) (s\<lparr>tim_start_turn_on_display := timer_read32 s\<rparr>)
    | seqelem_turn_on_display_wait \<Rightarrow> Some (\<not> epd_busy busy (epd_io s), s)
    | seqelem_turn_on_display_partial_async \<Rightarrow>
        epd_send (turn_on_display busy 0xCF) (s\<lparr>tim_start_turn_on_display := timer_read32 s\<rparr>)
    | seqelem_turn_on_display_partial_wait \<Rightarrow> Some (\<not> epd_busy busy (epd_io s), s)
    | seqelem_deep_sleep_async \<Rightarrow> do {
        (r, s) \<leftarrow> epd_send (deep_sleep_commands busy) s;
        Some (True, delay_async DEEP_SLEEP_MS_DELAY (s\<lparr>hw_reset_phase := HW_RESET_PHASE_OUTSET\<rparr>))
      }
    | seqelem_deep_sleep_wait \<Rightarrow> Some (delay_wait s, s))"

section \<open>The sequences and the engine\<close>

fun cseq_elems :: "cseq_name \<Rightarrow> cseq_elem list" where
  "cseq_elems seq_init =
    [SEQELEM_DPRINT ''seq_init start'',
     CSEQ_TYPE_FUNC_BV seqelem_delay_init_async,
     CSEQ_TYPE_FUNC_BV seqelem_delay_init_wait,
     CSEQ_TYPE_FUNC_BV seqelem_hw_reset_async,
     CSEQ_TYPE_FUNC_BV seqelem_hw_reset_wait,
     CSEQ_TYPE_FUNC_BV seqelem_sw_reset_async,
     CSEQ_TYPE_FUNC_BV seqelem_sw_reset_wait,
     CSEQ_TYPE_FUNC_BV seqelem_init_async,
     CSEQ_TYPE_FUNC_BV seqelem_init_wait,
     CSEQ_TYPE_FUNC_BV seqelem_set_ult_full,
     CSEQ_TYPE_FUNC_BV seqelem_send_image_base,
     CSEQ_TYPE_FUNC_BV seqelem_turn_on_display_async,
     CSEQ_TYPE_FUNC_BV seqelem_turn_on_display_wait,
     CSEQ_TYPE_FUNC_BV seqelem_set_ult_partial,
     CSEQ_TYPE_FUNC_BV seqelem_prepare_partial,
     SEQELEM_DPRINT ''seq_init end'',
     CSEQ_TYPE_END]"
| "cseq_elems seq_show_image_partial =
    [SEQELEM_DPRINT ''seq_show_image_partial start'',
     CSEQ_TYPE_FUNC_BV seqelem_hw_reset_async,
     CSEQ_TYPE_FUNC_BV seqelem_hw_reset_wait,
     CSEQ_TYPE_FUNC_BV seqelem_send_image,
     CSEQ_TYPE_FUNC_BV seqelem_turn_on_display_partial_async,
     CSEQ_TYPE_FUNC_BV seqelem_turn_on_display_partial_wait,
     SEQELEM_DPRINT ''seq_show_image_partial end'',
     CSEQ_TYPE_END]"
| "cseq_elems seq_deep_sleep =
    [SEQELEM_DPRINT ''seq_deep_sleep start'',
     CSEQ_TYPE_FUNC_BV seqelem_deep_sleep_async,
     CSEQ_TYPE_FUNC_BV seqelem_deep_sleep_wait,
     SEQELEM_DPRINT ''seq_deep_sleep end'',
     CSEQ_TYPE_END]"

text \<open>The first \<open>if\<close> of the engine: with no current element, the pending sequence starts.\<close>

definition cseq_fetch :: "epd_state \<Rightarrow> epd_state" where
  "cseq_fetch s =
    (case (pelem_cur s, seq_next s) of
      (None, Some q) \<Rightarrow>
        s\<lparr>pelem_cur := Some (q, 0), seq_next := None, image_cur := image_next s, image_next := None,
          tim_seq_start := timer_read32 s\<rparr>
    | _ \<Rightarrow> s)"

definition cseq_engine_task :: "epd_panel \<Rightarrow> epd_state \<Rightarrow> epd_state option" where
  "cseq_engine_task busy s =
    (let s = cseq_fetch s in
     case pelem_cur s of
       None \<Rightarrow> Some s
     | Some (q, i) \<Rightarrow>
         (case cseq_elems q ! i of
           CSEQ_TYPE_END \<Rightarrow> Some (s\<lparr>pelem_cur := None\<rparr>)
         | CSEQ_TYPE_FUNC_BV f \<Rightarrow> do {
             (r, s) \<leftarrow> run_seqelem busy f s;
             Some (if r then s\<lparr>pelem_cur := Some (q, i + 1)\<rparr> else s)
           }
         | SEQELEM_DPRINT msg \<Rightarrow> Some (s\<lparr>pelem_cur := Some (q, i + 1)\<rparr>)))"

definition epd_display_image_partial :: "epd_image \<Rightarrow> epd_state \<Rightarrow> epd_state" where
  "epd_display_image_partial img s =
    cseq_start seq_show_image_partial (Some img) (s\<lparr>idle_timer_phase := IDLE_TIMER_PHASE_FREE\<rparr>)"

definition epd_task_init :: "epd_image \<Rightarrow> epd_state \<Rightarrow> epd_state" where
  "epd_task_init img s =
    cseq_start seq_init (Some img)
      (s\<lparr>idle_timer_phase := IDLE_TIMER_PHASE_FREE, epd_io := epd_gpio_config (epd_io s)\<rparr>)"

definition epd_idle_timer :: "epd_panel \<Rightarrow> epd_state \<Rightarrow> epd_state" where
  "epd_idle_timer busy s =
    (if pelem_cur s = None \<and> \<not> epd_busy busy (epd_io s) then
       (case idle_timer_phase s of
         IDLE_TIMER_PHASE_FREE \<Rightarrow>
           s\<lparr>idle_timer_phase := IDLE_TIMER_PHARE_START, tim_idle_start := timer_read32 s\<rparr>
       | IDLE_TIMER_PHARE_START \<Rightarrow>
           if timer_elapsed32 (timer_read32 s) (tim_idle_start s) < ENTER_DEEP_SLEEP_AFTER_MS then s
           else cseq_start seq_deep_sleep None (s\<lparr>idle_timer_phase := IDLE_TIMER_PHARE_EXPIRED\<rparr>)
       | IDLE_TIMER_PHARE_EXPIRED \<Rightarrow> s)
     else s)"

definition epd_task :: "epd_panel \<Rightarrow> epd_state \<Rightarrow> epd_state option" where
  "epd_task busy s = do {
    s \<leftarrow> cseq_engine_task busy s;
    Some (epd_idle_timer busy s)
  }"

text \<open>The clock moves on by \<open>d\<close> milliseconds between two calls.\<close>

definition epd_elapse :: "nat \<Rightarrow> epd_state \<Rightarrow> epd_state" where
  "epd_elapse d s = s\<lparr>epd_io := (epd_io s)\<lparr>io_clock := io_clock (epd_io s) + d\<rparr>\<rparr>"

section \<open>What the functions send\<close>

definition cmd_trace :: "u8 \<Rightarrow> epd_event list" where
  "cmd_trace c = [Pin_write EPD_DC_PIN False, Spi_transmit [c]]"

definition data_trace :: "u8 list \<Rightarrow> epd_event list" where
  "data_trace ds = [Pin_write EPD_DC_PIN True, Spi_transmit ds]"

definition lut_trace :: "u8 list \<Rightarrow> epd_event list" where
  "lut_trace lut =
    cmd_trace 0x32 @ data_trace (take 153 lut) @
    cmd_trace 0x3F @ data_trace [lut ! 153] @
    cmd_trace 0x03 @ data_trace [lut ! 154] @
    cmd_trace 0x04 @ data_trace [lut ! 155] @ data_trace [lut ! 156] @ data_trace [lut ! 157] @
    cmd_trace 0x2C @ data_trace [lut ! 158]"

text \<open>The window covers columns 0 to 199 in bytes of eight, and rows 0 to 199.\<close>

definition frame_trace :: "epd_event list" where
  "frame_trace =
    cmd_trace 0x44 @ data_trace [0] @ data_trace [24] @
    cmd_trace 0x45 @ data_trace [0] @ data_trace [0] @ data_trace [199] @ data_trace [0] @
    cmd_trace 0x4E @ data_trace [0] @ cmd_trace 0x4F @ data_trace [0] @ data_trace [0]"

definition image_trace :: "u8 \<Rightarrow> epd_image option \<Rightarrow> epd_event list" where
  "image_trace c img =
    cmd_trace c @ (case img of None \<Rightarrow> [] | Some bs \<Rightarrow> data_trace (take COUNT_BYTES_IN_IMAGE bs))"

definition display_trace :: "u8 \<Rightarrow> epd_event list" where
  "display_trace mode = cmd_trace 0x22 @ data_trace [mode] @ cmd_trace 0x20"

definition reset_trace :: "epd_event list" where
  "reset_trace = [Pin_write EPD_RST_PIN True, Pin_write EPD_RST_PIN False, Pin_write EPD_RST_PIN True]"

text \<open>The events of one element; \<open>reset\<close> says whether the hardware reset is not skipped.\<close>

fun elem_trace :: "bool \<Rightarrow> epd_image option \<Rightarrow> cseq_func \<Rightarrow> epd_event list" where
  "elem_trace reset img seqelem_hw_reset_async = (if reset then take 1 reset_trace else [])"
| "elem_trace reset img seqelem_hw_reset_wait = (if reset then drop 1 reset_trace else [])"
| "elem_trace reset img seqelem_sw_reset_async = cmd_trace 0x12"
| "elem_trace reset img seqelem_init_async =
    cmd_trace 0x01 @ data_trace [0xC7] @ data_trace [0] @ data_trace [0] @
    cmd_trace 0x11 @ data_trace [0x03] @ cmd_trace 0x3C @ data_trace [0x01] @
    cmd_trace 0x18 @ data_trace [0x80] @ cmd_trace 0x22 @ data_trace [0xB1] @ cmd_trace 0x20"
| "elem_trace reset img seqelem_set_ult_full = lut_trace WF_FULL_1IN54"
| "elem_trace reset img seqelem_set_ult_partial = lut_trace WF_PARTIAL_1IN54_0"
| "elem_trace reset img seqelem_prepare_partial =
    cmd_trace 0x37 @ concat (map (\<lambda>d. data_trace [d]) [0, 0, 0, 0, 0, 0x40, 0, 0, 0, 0]) @
    cmd_trace 0x3C @ data_trace [0x80]"
| "elem_trace reset img seqelem_send_image_base =
    frame_trace @ image_trace 0x24 img @ image_trace 0x26 img"
| "elem_trace reset img seqelem_send_image = frame_trace @ image_trace 0x24 img"
| "elem_trace reset img seqelem_turn_on_display_async = display_trace 0xF7"
| "elem_trace reset img seqelem_turn_on_display_partial_async = display_trace 0xCF"
| "elem_trace reset img seqelem_deep_sleep_async = cmd_trace 0x10 @ data_trace [0x01]"
| "elem_trace reset img _ = []"

text \<open>Sending appends events, and leaves the clock where the waits for BUSY took it.\<close>

definition emits :: "(epd_io \<Rightarrow> epd_io option) \<Rightarrow> epd_event list \<Rightarrow> bool" where
  "emits f tr \<longleftrightarrow> (\<forall>io io'. f io = Some io' \<longrightarrow>
     io_trace io' = io_trace io @ tr \<and> io_clock io \<le> io_clock io')"

named_theorems epd_emits

lemma epd_wait_ready_run:
  "epd_wait_ready busy io = Some io' \<Longrightarrow>
    io_trace io' = io_trace io \<and> io_clock io \<le> io_clock io' \<and> \<not> epd_busy busy io'"
  by (rule epd_wait_ready.raw_induct [of "\<lambda>busy io io'.
      io_trace io' = io_trace io \<and> io_clock io \<le> io_clock io' \<and> \<not> epd_busy busy io'"])
    (fastforce split: if_splits)+

lemma epd_send_command_emits [epd_emits]: "emits (epd_send_command busy c) (cmd_trace c)"
  by (auto simp: emits_def epd_send_command_def cmd_trace_def io_emit_def bind_eq_Some_conv dest: epd_wait_ready_run)

lemma epd_send_data_emits [epd_emits]:
  "emits (epd_send_data d) (data_trace [d])" "emits (epd_send_data_block ds) (data_trace ds)"
  by (auto simp: emits_def epd_send_data_def epd_send_data_block_def data_trace_def io_emit_def)

lemma emits_bind [epd_emits]:
  assumes "emits f tr" "emits g tr'"
  shows "emits (\<lambda>io. f io \<bind> g) (tr @ tr')"
  using assms by (fastforce simp: emits_def bind_eq_Some_conv)

lemma commands_emit [epd_emits]:
  "emits (epd_set_lut busy lut) (lut_trace lut)"
  "emits (init_commands busy) (elem_trace reset img seqelem_init_async)"
  "emits (prepare_partial busy) (elem_trace reset img seqelem_prepare_partial)"
  "emits (turn_on_display busy mode) (display_trace mode)"
  "emits (deep_sleep_commands busy) (elem_trace reset img seqelem_deep_sleep_async)"
  unfolding epd_set_lut_def [abs_def] init_commands_def [abs_def] prepare_partial_def [abs_def]
    turn_on_display_def [abs_def] deep_sleep_commands_def [abs_def] lut_trace_def display_trace_def
    elem_trace.simps list.map concat.simps append_Nil2 append_assoc
  by (rule epd_send_command_emits epd_send_data_emits emits_bind)+

lemma image_commands_emit_Some:
  "emits (send_image_base busy (Some bs)) (elem_trace reset (Some bs) seqelem_send_image_base)"
  "emits (send_image busy (Some bs)) (elem_trace reset (Some bs) seqelem_send_image)"
proof -
  have w: "emits (epd_set_windows busy 0 0 (EPD_WIDTH - 1) (EPD_HEIGHT - 1))
      (cmd_trace 0x44 @ data_trace [0] @ data_trace [24] @
       cmd_trace 0x45 @ data_trace [0] @ data_trace [0] @ data_trace [199] @ data_trace [0])"
    unfolding epd_set_windows_def [abs_def] EPD_WIDTH_def EPD_HEIGHT_def
    by (simp, (rule epd_send_command_emits epd_send_data_emits emits_bind)+)
  have c: "emits (epd_set_cursor busy 0 0)
      (cmd_trace 0x4E @ data_trace [0] @ cmd_trace 0x4F @ data_trace [0] @ data_trace [0])"
    unfolding epd_set_cursor_def [abs_def]
    by (simp, (rule epd_send_command_emits epd_send_data_emits emits_bind)+)
  have f: "emits (\<lambda>io. epd_set_windows busy 0 0 (EPD_WIDTH - 1) (EPD_HEIGHT - 1) io \<bind>
      (\<lambda>io. epd_set_cursor busy 0 0 io \<bind> g)) (frame_trace @ tr)" if "emits g tr" for g tr
    using emits_bind [OF w emits_bind [OF c that]] by (simp add: frame_trace_def)
  show "emits (send_image_base busy (Some bs)) (elem_trace reset (Some bs) seqelem_send_image_base)"
    unfolding send_image_base_def [abs_def] elem_trace.simps image_trace_def option.case
      bind.bind_lunit append_assoc
    by (rule f epd_send_command_emits epd_send_data_emits emits_bind)+
  show "emits (send_image busy (Some bs)) (elem_trace reset (Some bs) seqelem_send_image)"
    unfolding send_image_def [abs_def] elem_trace.simps image_trace_def option.case
      bind.bind_lunit append_assoc
    by (rule f epd_send_command_emits epd_send_data_emits emits_bind)+
qed

lemma image_commands_emit [epd_emits]:
  "emits (send_image_base busy img) (elem_trace reset img seqelem_send_image_base)"
  "emits (send_image busy img) (elem_trace reset img seqelem_send_image)"
  by (cases img; simp only: image_commands_emit_Some;
      auto simp: emits_def send_image_base_def send_image_def bind_eq_Some_conv)+

definition epd_trace :: "epd_state \<Rightarrow> epd_event list" where
  "epd_trace s = io_trace (epd_io s)"

definition epd_clock :: "epd_state \<Rightarrow> nat" where
  "epd_clock s = io_clock (epd_io s)"

text \<open>The fields an element leaves alone.\<close>

definition same_engine :: "epd_state \<Rightarrow> epd_state \<Rightarrow> bool" where
  "same_engine s s' \<longleftrightarrow> seq_next s' = seq_next s \<and> pelem_cur s' = pelem_cur s \<and>
    image_next s' = image_next s \<and> image_cur s' = image_cur s \<and>
    idle_timer_phase s' = idle_timer_phase s \<and> tim_idle_start s' = tim_idle_start s \<and>
    epd_clock s \<le> epd_clock s'"

lemma epd_send_run:
  assumes "epd_send f s = Some (r, s')" "emits f tr"
  shows "r" "epd_trace s' = epd_trace s @ tr" "same_engine s s'" "hw_reset_phase s' = hw_reset_phase s"
  using assms by (auto simp: epd_send_def emits_def bind_eq_Some_conv epd_trace_def epd_clock_def
      same_engine_def)

lemma elements_emit:
  "emits (epd_send_command busy 0x12) (elem_trace reset img seqelem_sw_reset_async)"
  "emits (epd_set_lut busy WF_FULL_1IN54) (elem_trace reset img seqelem_set_ult_full)"
  "emits (epd_set_lut busy WF_PARTIAL_1IN54_0) (elem_trace reset img seqelem_set_ult_partial)"
  "emits (turn_on_display busy 0xF7) (elem_trace reset img seqelem_turn_on_display_async)"
  "emits (turn_on_display busy 0xCF) (elem_trace reset img seqelem_turn_on_display_partial_async)"
  unfolding elem_trace.simps by (rule epd_send_command_emits commands_emit)+

text \<open>The events, the fields and the reset phase after an element.\<close>

definition elem_done :: "bool \<Rightarrow> cseq_func \<Rightarrow> bool \<Rightarrow> epd_state \<Rightarrow> epd_state \<Rightarrow> bool" where
  "elem_done reset e r s s' \<longleftrightarrow>
    epd_trace s' = epd_trace s @ (if r then elem_trace reset (image_cur s) e else []) \<and>
    same_engine s s' \<and>
    hw_reset_phase s' =
      (if e = seqelem_deep_sleep_async then HW_RESET_PHASE_OUTSET else hw_reset_phase s)"

lemma elem_done_send:
  assumes "epd_send f s = Some (r, s')" "emits f (elem_trace reset (image_cur s) e)"
    "e \<noteq> seqelem_deep_sleep_async"
  shows "elem_done reset e r s s'"
  using epd_send_run [OF assms(1,2)] assms(3) by (simp add: elem_done_def)

lemma elem_done_display:
  assumes "epd_send f (s\<lparr>tim_start_turn_on_display := t\<rparr>) = Some (r, s')"
    "emits f (elem_trace reset (image_cur s) e)" "e \<noteq> seqelem_deep_sleep_async"
  shows "elem_done reset e r s s'"
  using epd_send_run [OF assms(1,2)] assms(3)
  by (simp add: elem_done_def same_engine_def epd_trace_def epd_clock_def)

lemma elem_done_deep_sleep:
  assumes "run_seqelem busy seqelem_deep_sleep_async s = Some (r, s')"
  shows "elem_done reset seqelem_deep_sleep_async r s s'"
proof -
  obtain r1 s1 where 1: "epd_send (deep_sleep_commands busy) s = Some (r1, s1)"
    "r" "s' = delay_async DEEP_SLEEP_MS_DELAY (s1\<lparr>hw_reset_phase := HW_RESET_PHASE_OUTSET\<rparr>)"
    using assms by (auto simp: run_seqelem_def bind_eq_Some_conv)
  show ?thesis using epd_send_run [OF 1(1) commands_emit(5)] 1(2,3)
    by (simp add: elem_done_def same_engine_def epd_trace_def epd_clock_def delay_async_def)
qed

lemma elem_done_quiet [simp]:
  assumes "elem_trace reset (image_cur s) e = []" "e \<noteq> seqelem_deep_sleep_async"
  shows "elem_done reset e r s s" "elem_done reset e r s (delay_async d s)"
  using assms
  by (auto simp: elem_done_def same_engine_def epd_trace_def epd_clock_def delay_async_def)

lemma elem_done_sends:
  "run_seqelem busy seqelem_sw_reset_async s = Some (r, s') \<Longrightarrow> elem_done reset seqelem_sw_reset_async r s s'"
  "run_seqelem busy seqelem_init_async s = Some (r, s') \<Longrightarrow> elem_done reset seqelem_init_async r s s'"
  "run_seqelem busy seqelem_set_ult_full s = Some (r, s') \<Longrightarrow> elem_done reset seqelem_set_ult_full r s s'"
  "run_seqelem busy seqelem_set_ult_partial s = Some (r, s') \<Longrightarrow> elem_done reset seqelem_set_ult_partial r s s'"
  "run_seqelem busy seqelem_prepare_partial s = Some (r, s') \<Longrightarrow> elem_done reset seqelem_prepare_partial r s s'"
  "run_seqelem busy seqelem_send_image_base s = Some (r, s') \<Longrightarrow> elem_done reset seqelem_send_image_base r s s'"
  "run_seqelem busy seqelem_send_image s = Some (r, s') \<Longrightarrow> elem_done reset seqelem_send_image r s s'"
  by (simp only: run_seqelem_def cseq_func.case,
      erule elem_done_send, rule elements_emit commands_emit image_commands_emit, simp)+

lemma elem_done_displays:
  "run_seqelem busy seqelem_turn_on_display_async s = Some (r, s') \<Longrightarrow> elem_done reset seqelem_turn_on_display_async r s s'"
  "run_seqelem busy seqelem_turn_on_display_partial_async s = Some (r, s') \<Longrightarrow> elem_done reset seqelem_turn_on_display_partial_async r s s'"
  by (simp only: run_seqelem_def cseq_func.case, erule elem_done_display, rule elements_emit, simp)+

lemma elem_done_waits:
  "run_seqelem busy seqelem_delay_init_async s = Some (r, s') \<Longrightarrow> elem_done reset seqelem_delay_init_async r s s'"
  "run_seqelem busy seqelem_delay_init_wait s = Some (r, s') \<Longrightarrow> elem_done reset seqelem_delay_init_wait r s s'"
  "run_seqelem busy seqelem_sw_reset_wait s = Some (r, s') \<Longrightarrow> elem_done reset seqelem_sw_reset_wait r s s'"
  "run_seqelem busy seqelem_init_wait s = Some (r, s') \<Longrightarrow> elem_done reset seqelem_init_wait r s s'"
  "run_seqelem busy seqelem_turn_on_display_wait s = Some (r, s') \<Longrightarrow> elem_done reset seqelem_turn_on_display_wait r s s'"
  "run_seqelem busy seqelem_turn_on_display_partial_wait s = Some (r, s') \<Longrightarrow> elem_done reset seqelem_turn_on_display_partial_wait r s s'"
  "run_seqelem busy seqelem_deep_sleep_wait s = Some (r, s') \<Longrightarrow> elem_done reset seqelem_deep_sleep_wait r s s'"
  by (clarsimp simp: run_seqelem_def)+

lemma run_seqelem_done:
  assumes "run_seqelem busy e s = Some (r, s')" "e \<noteq> seqelem_hw_reset_async" "e \<noteq> seqelem_hw_reset_wait"
  shows "elem_done reset e r s s'"
  using assms elem_done_sends elem_done_displays elem_done_waits elem_done_deep_sleep
  by (cases e) (simp_all only: simp_thms)

section \<open>A sequence is sent as a whole\<close>

fun elem_events :: "bool \<Rightarrow> epd_image option \<Rightarrow> cseq_elem \<Rightarrow> epd_event list" where
  "elem_events reset img (CSEQ_TYPE_FUNC_BV f) = elem_trace reset img f"
| "elem_events reset img _ = []"

text \<open>All the events of a sequence, and those of a sequence in progress.\<close>

definition session_trace :: "cseq_name \<times> epd_image option \<times> bool \<Rightarrow> epd_event list" where
  "session_trace = (\<lambda>(q, img, reset). concat (map (elem_events reset img) (cseq_elems q)))"

fun reset_progress :: "hw_reset_phase_t \<Rightarrow> epd_event list" where
  "reset_progress HW_RESET_PHASE_LOW = [Pin_write EPD_RST_PIN False]"
| "reset_progress HW_RESET_PHASE_HIGH_POST = [Pin_write EPD_RST_PIN False, Pin_write EPD_RST_PIN True]"
| "reset_progress _ = []"

definition at_reset_wait :: "cseq_name \<Rightarrow> nat \<Rightarrow> bool" where
  "at_reset_wait q i \<longleftrightarrow> cseq_elems q ! i = CSEQ_TYPE_FUNC_BV seqelem_hw_reset_wait"

definition progress_trace :: "bool \<Rightarrow> epd_state \<Rightarrow> epd_event list" where
  "progress_trace reset s =
    (case pelem_cur s of
      None \<Rightarrow> []
    | Some (q, i) \<Rightarrow>
        concat (map (elem_events reset (image_cur s)) (take i (cseq_elems q))) @
        (if at_reset_wait q i then reset_progress (hw_reset_phase s) else []))"

definition reset_settled :: "epd_state \<Rightarrow> bool" where
  "reset_settled s \<longleftrightarrow>
    hw_reset_phase s = HW_RESET_PHASE_OUTSET \<or> hw_reset_phase s = HW_RESET_PHASE_COMPL"

definition cseq_ok :: "bool \<Rightarrow> epd_state \<Rightarrow> bool" where
  "cseq_ok reset s \<longleftrightarrow>
    (\<forall>q. seq_next s = Some q \<and> q \<noteq> seq_deep_sleep \<longrightarrow> image_next s \<noteq> None) \<and>
    (case pelem_cur s of
      None \<Rightarrow> reset_settled s
    | Some (q, i) \<Rightarrow>
        i < length (cseq_elems q) \<and> (q \<noteq> seq_deep_sleep \<longrightarrow> image_cur s \<noteq> None) \<and>
        (if at_reset_wait q i
         then (if reset then \<not> reset_settled s else hw_reset_phase s = HW_RESET_PHASE_COMPL)
         else reset_settled s))"

text \<open>Facts about the three sequences, by looking at each element.\<close>

lemma cseq_length:
  "length (cseq_elems seq_init) = 17" "length (cseq_elems seq_show_image_partial) = 8"
  "length (cseq_elems seq_deep_sleep) = 5"
  by simp_all

lemma cseq_end:
  "i < length (cseq_elems q) \<Longrightarrow> cseq_elems q ! i = CSEQ_TYPE_END \<longleftrightarrow> Suc i = length (cseq_elems q)"
  by (cases q) (auto simp: less_Suc_eq numeral_eq_Suc nth_Cons')

lemma cseq_reset_wait:
  "Suc i < length (cseq_elems q) \<Longrightarrow>
    at_reset_wait q (Suc i) \<longleftrightarrow> cseq_elems q ! i = CSEQ_TYPE_FUNC_BV seqelem_hw_reset_async"
  by (cases q) (auto simp: at_reset_wait_def less_Suc_eq numeral_eq_Suc)

lemma cseq_before_reset:
  "i < length (cseq_elems q) \<Longrightarrow> cseq_elems q ! i = CSEQ_TYPE_FUNC_BV seqelem_hw_reset_async \<Longrightarrow>
    concat (map (elem_events reset img) (take i (cseq_elems q))) =
    concat (map (elem_events reset' img) (take i (cseq_elems q)))"
  by (cases q) (auto simp: less_Suc_eq numeral_eq_Suc)

lemma cseq_first: "\<not> at_reset_wait q 0" "0 < length (cseq_elems q)" "cseq_elems q \<noteq> []"
  by (cases q; simp add: at_reset_wait_def)+

lemma cseq_fetch_ok:
  assumes "cseq_ok reset s"
  shows "cseq_ok reset (cseq_fetch s)" "progress_trace reset (cseq_fetch s) = progress_trace reset s"
    "epd_trace (cseq_fetch s) = epd_trace s" "epd_clock (cseq_fetch s) = epd_clock s"
  using assms
  by (auto simp: cseq_fetch_def cseq_ok_def progress_trace_def epd_trace_def epd_clock_def
      cseq_first reset_settled_def split: option.splits)

lemma cseq_engine_fetched:
  "cseq_engine_task busy s = cseq_engine_task busy (cseq_fetch s)"
proof -
  have "cseq_fetch (cseq_fetch s) = cseq_fetch s"
    by (simp add: cseq_fetch_def split: option.splits)
  then show ?thesis by (simp add: cseq_engine_task_def)
qed

lemma progress_next:
  assumes "pelem_cur s' = Some (q, Suc i)" "image_cur s' = image_cur s"
    "Suc i < length (cseq_elems q)" "\<not> at_reset_wait q (Suc i)"
  shows "progress_trace reset s' =
    concat (map (elem_events reset (image_cur s)) (take i (cseq_elems q))) @
    elem_events reset (image_cur s) (cseq_elems q ! i)"
  using assms by (simp add: progress_trace_def take_Suc_conv_app_nth)

text \<open>What one call of the engine does while a sequence runs.\<close>

definition engine_step :: "bool \<Rightarrow> bool \<Rightarrow> epd_state \<Rightarrow> epd_state \<Rightarrow> bool" where
  "engine_step reset reset' s s' \<longleftrightarrow>
    seq_next s' = seq_next s \<and> image_next s' = image_next s \<and> image_cur s' = image_cur s \<and>
    idle_timer_phase s' = idle_timer_phase s \<and> tim_idle_start s' = tim_idle_start s \<and>
    epd_clock s \<le> epd_clock s' \<and> cseq_ok reset' s' \<and>
    (case pelem_cur s of
      None \<Rightarrow> s' = s
    | Some (q, i) \<Rightarrow>
        (case pelem_cur s' of
          None \<Rightarrow> epd_trace s' = epd_trace s \<and>
            progress_trace reset s = session_trace (q, image_cur s, reset)
        | Some (q', i') \<Rightarrow> q' = q \<and>
            (\<forall>base. epd_trace s = base @ progress_trace reset s \<longrightarrow>
               epd_trace s' = base @ progress_trace reset' s')))"

lemma engine_step_elem:
  assumes ok: "cseq_ok reset s" and p: "pelem_cur s = Some (q, i)"
    and e: "cseq_elems q ! i = CSEQ_TYPE_FUNC_BV f"
    and f: "f \<noteq> seqelem_hw_reset_async" "f \<noteq> seqelem_hw_reset_wait"
    and run: "run_seqelem busy f s = Some (r, s1)"
  shows "engine_step reset reset s (if r then s1\<lparr>pelem_cur := Some (q, i + 1)\<rparr> else s1)"
proof -
  have i: "i < length (cseq_elems q)" using ok p by (simp add: cseq_ok_def)
  then have i': "Suc i < length (cseq_elems q)" using cseq_end [OF i] e by auto
  have w: "\<not> at_reset_wait q i" "\<not> at_reset_wait q (Suc i)"
    using f e cseq_reset_wait [OF i'] by (auto simp: at_reset_wait_def)
  have d: "elem_done reset f r s s1" by (rule run_seqelem_done [OF run f])
  then have same: "same_engine s s1" and tr: "epd_trace s1 = epd_trace s @ (if r then elem_trace reset (image_cur s) f else [])"
    by (simp_all add: elem_done_def)
  have settled: "reset_settled s1"
    using ok p w d by (auto simp: cseq_ok_def elem_done_def reset_settled_def)
  show ?thesis
  proof (cases r)
    case True
    let ?s = "s1\<lparr>pelem_cur := Some (q, i + 1)\<rparr>"
    have "progress_trace reset ?s = progress_trace reset s @ elem_trace reset (image_cur s) f"
      using progress_next [of ?s q i s reset] same i' w e p
      by (simp add: same_engine_def progress_trace_def)
    then show ?thesis using True same tr ok p settled i' w
      by (auto simp: engine_step_def same_engine_def cseq_ok_def epd_trace_def epd_clock_def reset_settled_def)
  next
    case False
    then show ?thesis using same tr ok p settled w
      by (auto simp: engine_step_def same_engine_def cseq_ok_def progress_trace_def)
  qed
qed

lemma engine_step_reset_async:
  assumes ok: "cseq_ok reset s" and p: "pelem_cur s = Some (q, i)"
    and e: "cseq_elems q ! i = CSEQ_TYPE_FUNC_BV seqelem_hw_reset_async"
  shows "\<exists>reset'. engine_step reset reset' s ((hw_reset_async busy s)\<lparr>pelem_cur := Some (q, i + 1)\<rparr>)"
proof -
  let ?s = "(hw_reset_async busy s)\<lparr>pelem_cur := Some (q, i + 1)\<rparr>"
  define reset' where "reset' \<longleftrightarrow> \<not> (hw_reset_phase s \<noteq> HW_RESET_PHASE_OUTSET \<and> \<not> epd_busy busy (epd_io s))"
  have i: "i < length (cseq_elems q)" using ok p by (simp add: cseq_ok_def)
  then have i': "Suc i < length (cseq_elems q)" using cseq_end [OF i] e by auto
  have w: "\<not> at_reset_wait q i" "at_reset_wait q (Suc i)"
    using e cseq_reset_wait [OF i'] by (auto simp: at_reset_wait_def)
  have settled: "reset_settled s" using ok p w by (simp add: cseq_ok_def)
  have ok': "cseq_ok reset' ?s"
    using ok p w i' settled
    by (auto simp: cseq_ok_def hw_reset_async_def reset'_def delay_async_def write_pin_def reset_settled_def)
  have b: "concat (map (elem_events reset (image_cur s)) (take i (cseq_elems q))) =
      concat (map (elem_events reset' (image_cur s)) (take i (cseq_elems q)))"
    by (rule cseq_before_reset [OF i e])
  have "epd_trace ?s = base @ progress_trace reset' ?s" if "epd_trace s = base @ progress_trace reset s" for base
    using that p w e i b settled
    by (auto simp: progress_trace_def hw_reset_async_def reset'_def delay_async_def write_pin_def
        take_Suc_conv_app_nth epd_trace_def io_emit_def reset_trace_def reset_settled_def)
  with ok' p have "engine_step reset reset' s ?s"
    by (auto simp: engine_step_def hw_reset_async_def delay_async_def write_pin_def epd_clock_def io_emit_def)
  then show ?thesis by blast
qed

lemma engine_step_reset_wait:
  assumes ok: "cseq_ok reset s" and p: "pelem_cur s = Some (q, i)"
    and e: "cseq_elems q ! i = CSEQ_TYPE_FUNC_BV seqelem_hw_reset_wait"
    and run: "hw_reset_wait s = (r, s1)"
  shows "engine_step reset reset s (if r then s1\<lparr>pelem_cur := Some (q, i + 1)\<rparr> else s1)"
proof -
  have i: "i < length (cseq_elems q)" using ok p by (simp add: cseq_ok_def)
  then have i': "Suc i < length (cseq_elems q)" using cseq_end [OF i] e by auto
  have w: "at_reset_wait q i" "\<not> at_reset_wait q (Suc i)"
    using e cseq_reset_wait [OF i'] by (auto simp: at_reset_wait_def)
  have s: "if reset then \<not> reset_settled s else hw_reset_phase s = HW_RESET_PHASE_COMPL"
    using ok p w by (simp add: cseq_ok_def)
  have img: "q \<noteq> seq_deep_sleep \<longrightarrow> image_cur s \<noteq> None" "\<forall>q. seq_next s = Some q \<and> q \<noteq> seq_deep_sleep \<longrightarrow> image_next s \<noteq> None"
    using ok p by (simp_all add: cseq_ok_def)
  note defs = engine_step_def cseq_ok_def hw_reset_wait_def delay_async_def write_pin_def
    epd_clock_def io_emit_def progress_trace_def epd_trace_def reset_settled_def
    take_Suc_conv_app_nth reset_trace_def
  show ?thesis
  proof (cases "hw_reset_phase s")
    case HW_RESET_PHASE_OUTSET
    then show ?thesis using s by (simp add: reset_settled_def split: if_splits)
  next
    case HW_RESET_PHASE_HIGH_PRE
    then show ?thesis using run i i' w s img e p by (auto simp: defs split: if_splits)
  next
    case HW_RESET_PHASE_LOW
    then show ?thesis using run i i' w s img e p by (auto simp: defs split: if_splits)
  next
    case HW_RESET_PHASE_HIGH_POST
    then show ?thesis using run i i' w s img e p by (auto simp: defs split: if_splits)
  next
    case HW_RESET_PHASE_COMPL
    then show ?thesis using run i i' w s img e p by (auto simp: defs split: if_splits)
  qed
qed

lemma engine_step_end:
  assumes ok: "cseq_ok reset s" and p: "pelem_cur s = Some (q, i)"
    and e: "cseq_elems q ! i = CSEQ_TYPE_END"
  shows "engine_step reset reset s (s\<lparr>pelem_cur := None\<rparr>)"
proof -
  have i: "i < length (cseq_elems q)" using ok p by (simp add: cseq_ok_def)
  then have "Suc i = length (cseq_elems q)" using cseq_end [OF i] e by auto
  define es where "es = take i (cseq_elems q)"
  have "cseq_elems q = es @ [CSEQ_TYPE_END]"
    using \<open>Suc i = _\<close> take_Suc_conv_app_nth [OF i] e by (simp add: es_def)
  then have "concat (map g (cseq_elems q)) = concat (map g es)"
    if "g CSEQ_TYPE_END = []" for g :: "cseq_elem \<Rightarrow> epd_event list"
    using that by simp
  moreover have "\<not> at_reset_wait q i" using e by (simp add: at_reset_wait_def)
  ultimately show ?thesis using ok p
    by (auto simp: engine_step_def cseq_ok_def progress_trace_def session_trace_def epd_trace_def
        epd_clock_def reset_settled_def es_def)
qed

lemma engine_step_dprint:
  assumes ok: "cseq_ok reset s" and p: "pelem_cur s = Some (q, i)"
    and e: "cseq_elems q ! i = SEQELEM_DPRINT msg"
  shows "engine_step reset reset s (s\<lparr>pelem_cur := Some (q, i + 1)\<rparr>)"
proof -
  have i: "i < length (cseq_elems q)" using ok p by (simp add: cseq_ok_def)
  then have i': "Suc i < length (cseq_elems q)" using cseq_end [OF i] e by auto
  then have "\<not> at_reset_wait q i" "\<not> at_reset_wait q (Suc i)"
    using e cseq_reset_wait [OF i'] by (auto simp: at_reset_wait_def)
  then show ?thesis using ok p e i i'
    by (auto simp: engine_step_def cseq_ok_def progress_trace_def epd_trace_def epd_clock_def
        reset_settled_def take_Suc_conv_app_nth)
qed

lemma cseq_engine_step:
  assumes ok: "cseq_ok reset s" and run: "cseq_engine_task busy s = Some s'"
  shows "\<exists>reset'. engine_step reset reset' (cseq_fetch s) s'"
proof -
  let ?s = "cseq_fetch s"
  have ok1: "cseq_ok reset ?s" by (rule cseq_fetch_ok [OF ok])
  show ?thesis
  proof (cases "pelem_cur ?s")
    case None
    then have "s' = ?s" using run by (simp add: cseq_engine_task_def)
    then show ?thesis using ok1 None by (auto simp: engine_step_def)
  next
    case (Some p)
    then obtain q i where p: "pelem_cur ?s = Some (q, i)" by (cases p) auto
    show ?thesis
    proof (cases "cseq_elems q ! i")
      case CSEQ_TYPE_END
      then have "s' = ?s\<lparr>pelem_cur := None\<rparr>" using run p by (simp add: cseq_engine_task_def)
      then show ?thesis using engine_step_end [OF ok1 p CSEQ_TYPE_END] by blast
    next
      case (SEQELEM_DPRINT msg)
      then have "s' = ?s\<lparr>pelem_cur := Some (q, i + 1)\<rparr>" using run p by (simp add: cseq_engine_task_def)
      then show ?thesis using engine_step_dprint [OF ok1 p SEQELEM_DPRINT] by blast
    next
      case (CSEQ_TYPE_FUNC_BV f)
      then obtain r s1 where r: "run_seqelem busy f ?s = Some (r, s1)"
        "s' = (if r then s1\<lparr>pelem_cur := Some (q, i + 1)\<rparr> else s1)"
        using run p by (auto simp: cseq_engine_task_def bind_eq_Some_conv)
      consider "f = seqelem_hw_reset_async" | "f = seqelem_hw_reset_wait"
        | "f \<noteq> seqelem_hw_reset_async" "f \<noteq> seqelem_hw_reset_wait" by blast
      then show ?thesis
      proof cases
        case 1
        then show ?thesis using r engine_step_reset_async [OF ok1 p, of busy] CSEQ_TYPE_FUNC_BV
          by (auto simp: run_seqelem_def)
      next
        case 2
        then show ?thesis using r engine_step_reset_wait [OF ok1 p] CSEQ_TYPE_FUNC_BV
          by (auto simp: run_seqelem_def)
      next
        case 3
        then show ?thesis using r engine_step_elem [OF ok1 p CSEQ_TYPE_FUNC_BV] by blast
      qed
    qed
  qed
qed

section \<open>The states of the driver\<close>

text \<open>
  The board starts the driver once and then calls \<open>epd_task\<close> and asks for images in any order.
  \<open>req\<close> is the time of the last request.
\<close>

inductive epd_reach :: "epd_panel \<Rightarrow> epd_state \<Rightarrow> nat \<Rightarrow> bool" for busy where
  boot: "epd_reach busy (epd_task_init img (epd_boot t)) t"
| elapse: "epd_reach busy s req \<Longrightarrow> epd_reach busy (epd_elapse d s) req"
| task: "epd_reach busy s req \<Longrightarrow> epd_task busy s = Some s' \<Longrightarrow> epd_reach busy s' req"
| request: "epd_reach busy s req \<Longrightarrow> epd_reach busy (epd_display_image_partial img s) (epd_clock s)"

definition gpio_trace :: "epd_event list" where
  "gpio_trace = io_trace (epd_gpio_config \<lparr> io_clock = 0, io_trace = [] \<rparr>)"

definition sessions_ok :: "epd_state \<Rightarrow> bool" where
  "sessions_ok s \<longleftrightarrow> (\<exists>reset sessions. cseq_ok reset s \<and>
     epd_trace s = gpio_trace @ concat (map session_trace sessions) @ progress_trace reset s)"

lemma epd_task_engine:
  assumes "epd_task busy s = Some s'"
  obtains s1 where "cseq_engine_task busy s = Some s1" "s' = epd_idle_timer busy s1"
  using assms by (auto simp: epd_task_def bind_eq_Some_conv)

lemma idle_timer_same:
  "epd_trace (epd_idle_timer busy s) = epd_trace s" "epd_clock (epd_idle_timer busy s) = epd_clock s"
  "progress_trace reset (epd_idle_timer busy s) = progress_trace reset s"
  "pelem_cur (epd_idle_timer busy s) = pelem_cur s" "image_cur (epd_idle_timer busy s) = image_cur s"
  "cseq_ok reset s \<Longrightarrow> cseq_ok reset (epd_idle_timer busy s)"
  by (auto simp: epd_idle_timer_def cseq_start_def epd_trace_def epd_clock_def progress_trace_def
      cseq_ok_def reset_settled_def split: idle_timer_phase_t.splits)

lemma sessions_ok_task:
  assumes "sessions_ok s" "epd_task busy s = Some s'"
  shows "sessions_ok s'"
proof -
  obtain reset sessions where s: "cseq_ok reset s"
    "epd_trace s = gpio_trace @ concat (map session_trace sessions) @ progress_trace reset s"
    using assms(1) by (auto simp: sessions_ok_def)
  obtain s1 where s1: "cseq_engine_task busy s = Some s1" "s' = epd_idle_timer busy s1"
    by (rule epd_task_engine [OF assms(2)])
  obtain reset' where e: "engine_step reset reset' (cseq_fetch s) s1"
    using cseq_engine_step [OF s(1) s1(1)] by blast
  have tr: "epd_trace (cseq_fetch s) = gpio_trace @ concat (map session_trace sessions) @
      progress_trace reset (cseq_fetch s)"
    using s cseq_fetch_ok [OF s(1)] by simp
  have ok: "cseq_ok reset' s1" using e by (simp add: engine_step_def)
  have "\<exists>reset sessions. cseq_ok reset s1 \<and>
      epd_trace s1 = gpio_trace @ concat (map session_trace sessions) @ progress_trace reset s1"
  proof (cases "pelem_cur (cseq_fetch s)")
    case None
    then show ?thesis using e tr cseq_fetch_ok(1) [OF s(1)] unfolding engine_step_def by auto
  next
    case (Some p)
    then obtain q i where p: "pelem_cur (cseq_fetch s) = Some (q, i)" by (cases p) auto
    show ?thesis
    proof (cases "pelem_cur s1")
      case None
      then have "epd_trace s1 = gpio_trace @
          concat (map session_trace (sessions @ [(q, image_cur (cseq_fetch s), reset)]))"
        using e tr p by (simp add: engine_step_def)
      moreover have "progress_trace reset' s1 = []" using None by (simp add: progress_trace_def)
      ultimately show ?thesis using ok append_Nil2 by metis
    next
      case (Some p')
      then have "epd_trace s1 = gpio_trace @ concat (map session_trace sessions) @ progress_trace reset' s1"
        using e tr p by (auto simp: engine_step_def)
      then show ?thesis using ok by blast
    qed
  qed
  then show ?thesis unfolding s1(2) sessions_ok_def idle_timer_same using idle_timer_same(6) by blast
qed

lemma epd_reach_sessions: "epd_reach busy s req \<Longrightarrow> sessions_ok s"
proof (induction rule: epd_reach.induct)
  case (boot img t)
  have "cseq_ok False (epd_task_init img (epd_boot t)) \<and>
      epd_trace (epd_task_init img (epd_boot t)) =
      gpio_trace @ concat (map session_trace []) @ progress_trace False (epd_task_init img (epd_boot t))"
    by (simp add: cseq_ok_def epd_task_init_def epd_boot_def cseq_start_def reset_settled_def
        progress_trace_def epd_trace_def gpio_trace_def epd_gpio_config_def io_emit_def)
  then show ?case unfolding sessions_ok_def by blast
next
  case (elapse s req d)
  have "cseq_ok reset (epd_elapse d s) = cseq_ok reset s"
    "progress_trace reset (epd_elapse d s) = progress_trace reset s" for reset
    by (simp_all add: epd_elapse_def cseq_ok_def reset_settled_def progress_trace_def
        split: option.splits)
  then show ?case using elapse.IH by (simp add: sessions_ok_def epd_elapse_def epd_trace_def)
next
  case (task s req s')
  then show ?case by (blast intro: sessions_ok_task)
next
  case (request s req img)
  have "cseq_ok reset s \<Longrightarrow> cseq_ok reset (epd_display_image_partial img s)"
    "progress_trace reset (epd_display_image_partial img s) = progress_trace reset s" for reset
    by (auto simp: epd_display_image_partial_def cseq_start_def cseq_ok_def reset_settled_def
        progress_trace_def split: option.splits)
  then show ?case using request.IH
    by (auto simp: sessions_ok_def epd_display_image_partial_def cseq_start_def epd_trace_def)
qed

text \<open>What the idle timer knows.\<close>

definition idle_ok :: "epd_state \<Rightarrow> nat \<Rightarrow> bool" where
  "idle_ok s req \<longleftrightarrow> req \<le> epd_clock s \<and>
    (idle_timer_phase s = IDLE_TIMER_PHARE_START \<longrightarrow>
       (\<exists>t. req \<le> t \<and> t \<le> epd_clock s \<and> tim_idle_start s = of_nat t) \<and>
       (seq_next s \<noteq> None \<longrightarrow> pelem_cur s = None)) \<and>
    (seq_next s = Some seq_deep_sleep \<longrightarrow>
       idle_timer_phase s = IDLE_TIMER_PHARE_EXPIRED \<and> req + 3000 \<le> epd_clock s)"

lemma elapsed_le:
  assumes "t \<le> c" "\<not> timer_elapsed32 (of_nat c) (of_nat t) < n"
  shows "t + unat n \<le> c"
proof -
  have "of_nat c - of_nat t = (of_nat (c - t) :: u32)" using assms(1) by simp
  then have "unat n \<le> unat (of_nat (c - t) :: u32)"
    using assms(2) by (simp add: timer_elapsed32_def TIMER_DIFF_32_def word_less_nat_alt not_less)
  also have "\<dots> \<le> c - t" by (simp add: unsigned_of_nat take_bit_nat_less_eq_self)
  finally show ?thesis using assms(1) by simp
qed

lemma idle_ok_fetch:
  assumes "idle_ok s req"
  shows "idle_timer_phase (cseq_fetch s) = IDLE_TIMER_PHARE_START \<Longrightarrow> seq_next (cseq_fetch s) = None"
    "seq_next (cseq_fetch s) = Some seq_deep_sleep \<Longrightarrow>
      idle_timer_phase (cseq_fetch s) = IDLE_TIMER_PHARE_EXPIRED \<and> req + 3000 \<le> epd_clock s"
    "idle_timer_phase (cseq_fetch s) = idle_timer_phase s" "tim_idle_start (cseq_fetch s) = tim_idle_start s"
    "epd_clock (cseq_fetch s) = epd_clock s"
  using assms
  by (auto simp: idle_ok_def cseq_fetch_def epd_clock_def split: option.splits)

lemma idle_ok_task:
  assumes s: "idle_ok s req" and ok: "cseq_ok reset s" and run: "epd_task busy s = Some s'"
  shows "idle_ok s' req" "idle_timer_phase s \<noteq> IDLE_TIMER_PHARE_EXPIRED \<Longrightarrow>
      idle_timer_phase s' = IDLE_TIMER_PHARE_EXPIRED \<Longrightarrow> seq_next (cseq_fetch s) = None"
proof -
  obtain s1 where s1: "cseq_engine_task busy s = Some s1" "s' = epd_idle_timer busy s1"
    by (rule epd_task_engine [OF run])
  note f = idle_ok_fetch [OF s]
  obtain reset' where "engine_step reset reset' (cseq_fetch s) s1"
    using cseq_engine_step [OF ok s1(1)] by blast
  then have "seq_next s1 = seq_next (cseq_fetch s) \<and>
      idle_timer_phase s1 = idle_timer_phase (cseq_fetch s) \<and>
      tim_idle_start s1 = tim_idle_start (cseq_fetch s) \<and> epd_clock (cseq_fetch s) \<le> epd_clock s1"
    unfolding engine_step_def by blast
  then have e: "seq_next s1 = seq_next (cseq_fetch s)"
    "idle_timer_phase s1 = idle_timer_phase s" "tim_idle_start s1 = tim_idle_start s"
    "epd_clock s \<le> epd_clock s1"
    unfolding f(3-5) by blast+
  have req: "req \<le> epd_clock s1" using s e by (simp add: idle_ok_def)
  have start: "\<exists>t. req \<le> t \<and> t \<le> epd_clock s1 \<and> tim_idle_start s1 = of_nat t"
    if h: "idle_timer_phase s1 = IDLE_TIMER_PHARE_START"
  proof -
    obtain t where "req \<le> t" "t \<le> epd_clock s" "tim_idle_start s = of_nat t"
      using s e(2) h by (auto simp: idle_ok_def)
    then show ?thesis using e(3,4) by (intro exI [of _ t]) simp
  qed
  have late: "req + 3000 \<le> epd_clock s1"
    if h: "idle_timer_phase s1 = IDLE_TIMER_PHARE_START"
      "\<not> timer_elapsed32 (timer_read32 s1) (tim_idle_start s1) < ENTER_DEEP_SLEEP_AFTER_MS"
  proof -
    obtain t where "req \<le> t" "t \<le> epd_clock s1" "tim_idle_start s1 = of_nat t"
      using start h(1) by blast
    then show ?thesis
      using elapsed_le [of t "epd_clock s1" ENTER_DEEP_SLEEP_AFTER_MS] h(2)
      by (simp add: epd_clock_def ENTER_DEEP_SLEEP_AFTER_MS_def)
  qed
  have deep: "idle_timer_phase s1 = IDLE_TIMER_PHARE_EXPIRED \<and> req + 3000 \<le> epd_clock s1"
    if "seq_next s1 = Some seq_deep_sleep" using f(2,3) e that by simp
  have none: "idle_timer_phase s1 = IDLE_TIMER_PHARE_START \<Longrightarrow> seq_next s1 = None"
    using f(1,3) e by simp
  show "idle_ok s' req"
  proof (cases "idle_timer_phase s1")
    case IDLE_TIMER_PHASE_FREE
    then show ?thesis using deep req
      by (simp add: idle_ok_def s1(2) epd_idle_timer_def epd_clock_def) blast
  next
    case IDLE_TIMER_PHARE_START
    then show ?thesis using none req start late
      by (simp add: idle_ok_def s1(2) epd_idle_timer_def epd_clock_def cseq_start_def)
  next
    case IDLE_TIMER_PHARE_EXPIRED
    then show ?thesis using deep req
      by (simp add: idle_ok_def s1(2) epd_idle_timer_def)
  qed
  show "seq_next (cseq_fetch s) = None"
    if "idle_timer_phase s \<noteq> IDLE_TIMER_PHARE_EXPIRED" "idle_timer_phase s' = IDLE_TIMER_PHARE_EXPIRED"
  proof -
    have "idle_timer_phase s1 = IDLE_TIMER_PHARE_START"
      using that e(2) by (cases "idle_timer_phase s1") (simp_all add: s1(2) epd_idle_timer_def split: if_splits)
    then show ?thesis using none e(1) by simp
  qed
qed

lemma epd_reach_idle: "epd_reach busy s req \<Longrightarrow> idle_ok s req"
proof (induction rule: epd_reach.induct)
  case (task s req s')
  from epd_reach_sessions [OF task.hyps(1)] obtain reset where "cseq_ok reset s"
    by (auto simp: sessions_ok_def)
  then show ?case using idle_ok_task task by blast
next
  case (elapse s req d)
  then show ?case by (fastforce simp: idle_ok_def epd_elapse_def epd_clock_def)
qed (simp_all add: idle_ok_def epd_task_init_def epd_boot_def cseq_start_def epd_clock_def
    epd_gpio_config_def io_emit_def epd_display_image_partial_def)

section \<open>The driver always returns when the panel does not hang\<close>

text \<open>
  What the panel makes of the events: a command is a byte sent with the DC pin low, command 0x10 with a mode
  other than 0 puts the panel into deep sleep, and only a rising edge of the RST pin wakes it. It may have been
  asleep when the board started.
\<close>

record panel_view =
  pv_data :: bool
  pv_cmd :: "u8 list"
  pv_rst :: bool
  pv_asleep :: bool

fun panel_see :: "epd_event \<Rightarrow> panel_view \<Rightarrow> panel_view" where
  "panel_see (Pin_write EPD_DC_PIN b) v = v\<lparr>pv_data := b\<rparr>"
| "panel_see (Pin_write EPD_RST_PIN b) v =
    (if b \<and> \<not> pv_rst v then v\<lparr>pv_rst := True, pv_asleep := False, pv_cmd := []\<rparr> else v\<lparr>pv_rst := b\<rparr>)"
| "panel_see (Spi_transmit ds) v =
    (if \<not> pv_data v then v\<lparr>pv_cmd := ds\<rparr>
     else if pv_cmd v = [0x10] \<and> ds \<noteq> [0] then v\<lparr>pv_asleep := True\<rparr> else v)"
| "panel_see _ v = v"

definition panel_saw :: "epd_event list \<Rightarrow> panel_view" where
  "panel_saw tr = fold panel_see tr \<lparr> pv_data = True, pv_cmd = [], pv_rst = True, pv_asleep = True \<rparr>"

text \<open>
  A panel that is neither asleep nor held in reset releases its BUSY pin again. In deep sleep it need not: to the
  driver a high BUSY pin is the sign of deep sleep, out of which only the hardware reset leads.
\<close>

definition panel_recovers :: "epd_panel \<Rightarrow> bool" where
  "panel_recovers busy \<longleftrightarrow>
    (\<forall>tr t. \<not> pv_asleep (panel_saw tr) \<and> pv_rst (panel_saw tr) \<longrightarrow> (\<exists>k. \<not> busy tr (t + k)))"

definition awake :: "epd_io \<Rightarrow> bool" where
  "awake io \<longleftrightarrow> (let v = panel_saw (io_trace io) in \<not> pv_asleep v \<and> pv_rst v \<and> pv_cmd v \<noteq> [0x10])"

text \<open>From a panel that is awake a command returns, and leaves the panel awake.\<close>

definition returns :: "(epd_io \<Rightarrow> epd_io option) \<Rightarrow> bool" where
  "returns f \<longleftrightarrow> (\<forall>io. awake io \<longrightarrow> (\<exists>io'. f io = Some io' \<and> awake io'))"

lemma panel_saw_append: "panel_saw (tr @ es) = fold panel_see es (panel_saw tr)"
  by (simp add: panel_saw_def)

lemma epd_wait_ready_low: "\<not> epd_busy busy io \<Longrightarrow> epd_wait_ready busy io = Some io"
  by (subst epd_wait_ready.simps) simp

lemma epd_wait_ready_returns:
  "\<not> busy (io_trace io) (io_clock io + k) \<Longrightarrow> \<exists>io'. epd_wait_ready busy io = Some io'"
proof (induction k arbitrary: io)
  case 0
  then show ?case by (subst epd_wait_ready.simps) (simp add: epd_busy_def)
next
  case (Suc k)
  from Suc.IH [of "io\<lparr>io_clock := io_clock io + 1\<rparr>"] Suc.prems
  show ?case by (subst epd_wait_ready.simps) simp
qed

lemma returns_bind: "returns f \<Longrightarrow> returns g \<Longrightarrow> returns (\<lambda>io. f io \<bind> g)"
  unfolding returns_def by (metis bind.bind_lunit)

lemma command_returns:
  assumes "panel_recovers busy" "awake io"
  shows "\<exists>io'. epd_send_command busy c io = Some io' \<and>
    panel_saw (io_trace io') = (panel_saw (io_trace io))\<lparr>pv_data := False, pv_cmd := [c]\<rparr>"
proof -
  obtain k where "\<not> busy (io_trace io) (io_clock io + k)"
    using assms unfolding panel_recovers_def awake_def Let_def by blast
  then obtain io1 where io1: "epd_wait_ready busy io = Some io1" using epd_wait_ready_returns by blast
  from epd_wait_ready_run [OF io1] have "io_trace io1 = io_trace io" by simp
  with io1 show ?thesis by (simp add: epd_send_command_def io_emit_def panel_saw_append)
qed

lemma epd_send_returns:
  "panel_recovers busy \<Longrightarrow> c \<noteq> 0x10 \<Longrightarrow> returns (epd_send_command busy c)"
  "returns (epd_send_data d)" "returns (epd_send_data_block ds)"
proof -
  show "returns (epd_send_command busy c)" if "panel_recovers busy" "c \<noteq> 0x10"
    unfolding returns_def
  proof (intro allI impI)
    fix io assume "awake io"
    with command_returns [OF that(1) this, of c] that(2)
    show "\<exists>io'. epd_send_command busy c io = Some io' \<and> awake io'" by (auto simp: awake_def Let_def)
  qed
qed (simp_all add: returns_def epd_send_data_def epd_send_data_block_def io_emit_def awake_def Let_def panel_saw_append)

lemma commands_return:
  assumes "panel_recovers busy"
  shows "returns (epd_set_lut busy lut)" "returns (init_commands busy)"
    "returns (prepare_partial busy)" "returns (turn_on_display busy mode)"
    "returns (epd_set_windows busy x y x' y')" "returns (epd_set_cursor busy x y)"
  unfolding epd_set_lut_def [abs_def] init_commands_def [abs_def] prepare_partial_def [abs_def]
    turn_on_display_def [abs_def] epd_set_windows_def [abs_def] epd_set_cursor_def [abs_def]
  by ((rule epd_send_returns(1) [OF assms] epd_send_returns(2,3) returns_bind | simp)+)

lemma image_commands_return:
  assumes "panel_recovers busy"
  shows "returns (send_image_base busy (Some bs))" "returns (send_image busy (Some bs))"
  unfolding send_image_base_def [abs_def] send_image_def [abs_def] bind.bind_lunit
  by ((rule epd_send_returns(1) [OF assms] epd_send_returns(2,3) commands_return(5,6) [OF assms] returns_bind | simp)+)

lemma deep_sleep_returns:
  assumes "panel_recovers busy" "awake io"
  shows "\<exists>io'. deep_sleep_commands busy io = Some io' \<and> pv_rst (panel_saw (io_trace io'))
    \<and> pv_asleep (panel_saw (io_trace io'))"
proof -
  obtain io1 where io1: "epd_send_command busy 0x10 io = Some io1"
    "panel_saw (io_trace io1) = (panel_saw (io_trace io))\<lparr>pv_data := False, pv_cmd := [0x10]\<rparr>"
    using command_returns [OF assms] by blast
  then show ?thesis using assms(2)
    by (simp add: deep_sleep_commands_def epd_send_data_def io_emit_def panel_saw_append awake_def Let_def)
qed

text \<open>
  A sleeping panel is woken before anything is sent to it. \<open>deep_ok\<close> says that the sleep sequence is asked for
  once only; \<open>sleep_ok\<close> describes the states with a sleeping panel: between sequences, after the sleep command,
  and in the other sequences up to the end of the low phase of the hardware reset.
\<close>

definition deep_ok :: "epd_state \<Rightarrow> bool" where
  "deep_ok s \<longleftrightarrow> seq_next s \<noteq> Some seq_deep_sleep \<and>
    (idle_timer_phase s = IDLE_TIMER_PHARE_EXPIRED \<or> seq_next s \<noteq> None)"

definition before_reset :: "cseq_name \<Rightarrow> nat \<Rightarrow> bool" where
  "before_reset q i \<longleftrightarrow> i \<le> (if q = seq_init then 3 else 1)"

definition sleep_ok :: "epd_state \<Rightarrow> bool" where
  "sleep_ok s \<longleftrightarrow> (case pelem_cur s of
      None \<Rightarrow> hw_reset_phase s = HW_RESET_PHASE_OUTSET \<and> deep_ok s
    | Some (q, i) \<Rightarrow>
        if q = seq_deep_sleep then 2 \<le> i \<and> hw_reset_phase s = HW_RESET_PHASE_OUTSET
        else if at_reset_wait q i then hw_reset_phase s \<in> {HW_RESET_PHASE_HIGH_PRE, HW_RESET_PHASE_LOW}
        else hw_reset_phase s = HW_RESET_PHASE_OUTSET \<and> before_reset q i)"

definition power_ok :: "epd_state \<Rightarrow> bool" where
  "power_ok s \<longleftrightarrow> (let v = panel_saw (epd_trace s) in
    (pv_rst v \<longleftrightarrow> hw_reset_phase s \<noteq> HW_RESET_PHASE_LOW) \<and>
    (if pv_asleep v then sleep_ok s else pv_cmd v \<noteq> [0x10]) \<and>
    (\<forall>i. pelem_cur s = Some (seq_deep_sleep, i) \<longrightarrow> deep_ok s))"

lemma power_ok_update:
  assumes "power_ok s" "epd_trace s' = epd_trace s" "hw_reset_phase s' = hw_reset_phase s"
    and "sleep_ok s \<Longrightarrow> sleep_ok s'"
    and "\<And>i. pelem_cur s' = Some (seq_deep_sleep, i) \<Longrightarrow> deep_ok s'"
  shows "power_ok s'"
  using assms by (auto simp: power_ok_def Let_def)

lemma power_ok_fetch:
  assumes "power_ok s" "idle_ok s req"
  shows "power_ok (cseq_fetch s)"
proof (rule power_ok_update [OF assms(1)])
  show "epd_trace (cseq_fetch s) = epd_trace s" "hw_reset_phase (cseq_fetch s) = hw_reset_phase s"
    by (auto simp: cseq_fetch_def epd_trace_def split: option.splits)
  show "sleep_ok (cseq_fetch s)" if "sleep_ok s"
    using that cseq_first(1) by (auto simp: sleep_ok_def cseq_fetch_def deep_ok_def before_reset_def split: option.splits)
  show "deep_ok (cseq_fetch s)" if "pelem_cur (cseq_fetch s) = Some (seq_deep_sleep, i)" for i
    using that assms by (auto simp: power_ok_def Let_def cseq_fetch_def deep_ok_def idle_ok_def split: option.splits)
qed

text \<open>Which elements run before the reset, and in the sleep sequence.\<close>

lemma elements_before_reset:
  assumes "i < length (cseq_elems q)" "q \<noteq> seq_deep_sleep" "before_reset q i"
  shows "cseq_elems q ! i = CSEQ_TYPE_FUNC_BV seqelem_hw_reset_async \<or>
    (cseq_elems q ! i \<in> {CSEQ_TYPE_FUNC_BV seqelem_delay_init_async, CSEQ_TYPE_FUNC_BV seqelem_delay_init_wait} \<or>
     (\<exists>msg. cseq_elems q ! i = SEQELEM_DPRINT msg)) \<and> before_reset q (Suc i) \<and> \<not> at_reset_wait q (Suc i)"
  using assms by (cases q) (auto simp: before_reset_def at_reset_wait_def less_Suc_eq numeral_eq_Suc le_Suc_eq)

lemma elements_of_sleep:
  assumes "i < length (cseq_elems q)"
  shows "cseq_elems q ! i = CSEQ_TYPE_FUNC_BV seqelem_deep_sleep_async \<longleftrightarrow> q = seq_deep_sleep \<and> i = 1"
    "cseq_elems q ! i = CSEQ_TYPE_FUNC_BV seqelem_deep_sleep_wait \<longleftrightarrow> q = seq_deep_sleep \<and> i = 2"
    "q = seq_deep_sleep \<Longrightarrow> cseq_elems q ! i = CSEQ_TYPE_FUNC_BV f \<Longrightarrow> f = seqelem_deep_sleep_async \<or> f = seqelem_deep_sleep_wait"
  using assms by (cases q; auto simp: less_Suc_eq numeral_eq_Suc)+

lemma power_ok_awake:
  "awake (epd_io s) \<Longrightarrow> hw_reset_phase s \<noteq> HW_RESET_PHASE_LOW \<Longrightarrow> (\<And>i. pelem_cur s \<noteq> Some (seq_deep_sleep, i)) \<Longrightarrow>
    power_ok s"
  by (simp add: power_ok_def awake_def Let_def epd_trace_def)

text \<open>An element that sends is run with the panel awake.\<close>

definition quiet_elem :: "cseq_func \<Rightarrow> bool" where
  "quiet_elem f \<longleftrightarrow> f \<in> {seqelem_delay_init_async, seqelem_delay_init_wait, seqelem_hw_reset_async, seqelem_hw_reset_wait,
    seqelem_deep_sleep_wait}"

lemma awake_at_elem:
  assumes "cseq_ok reset s" "power_ok s" "pelem_cur s = Some (q, i)" "cseq_elems q ! i = CSEQ_TYPE_FUNC_BV f" "\<not> quiet_elem f"
  shows "\<not> sleep_ok s" "awake (epd_io s)" "hw_reset_phase s \<noteq> HW_RESET_PHASE_LOW"
proof -
  have i: "i < length (cseq_elems q)" using assms(1,3) by (simp add: cseq_ok_def)
  have w: "\<not> at_reset_wait q i" using assms(4,5) by (auto simp: at_reset_wait_def quiet_elem_def)
  show sleep: "\<not> sleep_ok s"
    using elements_before_reset [OF i] elements_of_sleep [OF i] assms(3-5) w
    by (auto simp: sleep_ok_def quiet_elem_def)
  show "hw_reset_phase s \<noteq> HW_RESET_PHASE_LOW"
    using assms(1,3) w by (auto simp: cseq_ok_def reset_settled_def)
  then show "awake (epd_io s)" using assms(2) sleep
    by (auto simp: power_ok_def awake_def Let_def epd_trace_def split: if_splits)
qed

lemma power_ok_next:
  assumes "power_ok s" "pelem_cur s = Some (q, i)" "sleep_ok s \<Longrightarrow> sleep_ok (s\<lparr>pelem_cur := Some (q, Suc i)\<rparr>)"
  shows "power_ok (s\<lparr>pelem_cur := Some (q, Suc i)\<rparr>)"
  by (rule power_ok_update [OF assms(1)]) (use assms in \<open>auto simp: epd_trace_def power_ok_def Let_def deep_ok_def\<close>)

lemma power_ok_delay: "power_ok (delay_async d s) = power_ok s" "sleep_ok (delay_async d s) = sleep_ok s"
  by (auto simp: power_ok_def sleep_ok_def deep_ok_def delay_async_def epd_trace_def Let_def split: option.split)

lemma sending_elem_returns:
  assumes "panel_recovers busy" "awake (epd_io s)" "\<not> quiet_elem f" "f \<noteq> seqelem_deep_sleep_async"
    and "f = seqelem_send_image_base \<or> f = seqelem_send_image \<Longrightarrow> image_cur s \<noteq> None"
  shows "\<exists>r s'. run_seqelem busy f s = Some (r, s') \<and> awake (epd_io s') \<and> hw_reset_phase s' = hw_reset_phase s \<and>
    pelem_cur s' = pelem_cur s"
proof -
  have send: "\<exists>r s'. epd_send g t = Some (r, s') \<and> awake (epd_io s') \<and> hw_reset_phase s' = hw_reset_phase s \<and>
      pelem_cur s' = pelem_cur s"
    if "returns g" "epd_io t = epd_io s" "hw_reset_phase t = hw_reset_phase s" "pelem_cur t = pelem_cur s" for g t
    using that assms(2) unfolding returns_def epd_send_def by fastforce
  note R = commands_return [OF assms(1)] image_commands_return [OF assms(1)] epd_send_returns(1) [OF assms(1)]
  show ?thesis using assms(2-5) by (cases f) (auto simp: run_seqelem_def quiet_elem_def intro!: send R)
qed

lemma power_ok_reset_async:
  assumes "cseq_ok reset s" "power_ok s" "pelem_cur s = Some (q, i)"
    and "cseq_elems q ! i = CSEQ_TYPE_FUNC_BV seqelem_hw_reset_async"
  shows "power_ok ((hw_reset_async busy s)\<lparr>pelem_cur := Some (q, Suc i)\<rparr>)"
proof -
  have i: "i < length (cseq_elems q)" using assms(1,3) by (simp add: cseq_ok_def)
  then have w: "\<not> at_reset_wait q i" "at_reset_wait q (Suc i)"
    using assms(4) cseq_reset_wait [of i q] cseq_end [OF i] by (auto simp: at_reset_wait_def)
  have q: "q \<noteq> seq_deep_sleep" using elements_of_sleep(3) [OF i _ assms(4)] by auto
  have settled: "reset_settled s" using assms(1,3) w by (simp add: cseq_ok_def)
  show ?thesis
    using assms(2,3) w q settled
    by (auto simp: power_ok_def Let_def hw_reset_async_def delay_async_def write_pin_def io_emit_def epd_trace_def
        panel_saw_append sleep_ok_def reset_settled_def)
qed

lemma power_ok_reset_wait:
  assumes "cseq_ok reset s" "power_ok s" "pelem_cur s = Some (q, i)"
    and "cseq_elems q ! i = CSEQ_TYPE_FUNC_BV seqelem_hw_reset_wait" "hw_reset_wait s = (r, s1)"
  shows "power_ok (if r then s1\<lparr>pelem_cur := Some (q, Suc i)\<rparr> else s1)"
proof -
  have i: "i < length (cseq_elems q)" using assms(1,3) by (simp add: cseq_ok_def)
  have w: "at_reset_wait q i" using assms(4) by (simp add: at_reset_wait_def)
  have q: "q \<noteq> seq_deep_sleep" using elements_of_sleep(3) [OF i _ assms(4)] by auto
  have "hw_reset_phase s \<noteq> HW_RESET_PHASE_OUTSET"
    using assms(1,3) w by (auto simp: cseq_ok_def reset_settled_def split: if_splits)
  then show ?thesis
    using assms(2,3,5) w q
    by (cases "hw_reset_phase s")
      (auto simp: power_ok_def Let_def hw_reset_wait_def delay_async_def write_pin_def io_emit_def epd_trace_def
        panel_saw_append sleep_ok_def split: if_splits)
qed

lemma power_ok_deep_sleep:
  assumes "panel_recovers busy" "awake (epd_io s)" "deep_ok s" "pelem_cur s = Some (seq_deep_sleep, 1)"
  shows "\<exists>s'. run_seqelem busy seqelem_deep_sleep_async s = Some (True, s') \<and>
    power_ok (s'\<lparr>pelem_cur := Some (seq_deep_sleep, 2)\<rparr>)"
proof -
  obtain io where io: "deep_sleep_commands busy (epd_io s) = Some io" "pv_rst (panel_saw (io_trace io))"
    "pv_asleep (panel_saw (io_trace io))" using deep_sleep_returns [OF assms(1,2)] by blast
  then show ?thesis using assms(3)
    by (simp add: run_seqelem_def epd_send_def power_ok_def Let_def delay_async_def epd_trace_def sleep_ok_def deep_ok_def)
qed

lemma engine_power:
  assumes "panel_recovers busy" "cseq_ok reset s" "power_ok s" "cseq_fetch s = s"
  shows "\<exists>s'. cseq_engine_task busy s = Some s' \<and> power_ok s'"
proof (cases "pelem_cur s")
  case None
  then show ?thesis using assms(3,4) by (simp add: cseq_engine_task_def)
next
  case (Some p)
  then obtain q i where p: "pelem_cur s = Some (q, i)" by (cases p) auto
  then have i: "i < length (cseq_elems q)" and img: "q \<noteq> seq_deep_sleep \<Longrightarrow> image_cur s \<noteq> None"
    using assms(2) by (auto simp: cseq_ok_def)
  note before = elements_before_reset [OF i] and sleep = elements_of_sleep [OF i]
  have deep: "q = seq_deep_sleep \<Longrightarrow> deep_ok s" using assms(3) p by (auto simp: power_ok_def Let_def)
  show ?thesis
  proof (cases "cseq_elems q ! i")
    case CSEQ_TYPE_END
    have "sleep_ok s \<Longrightarrow> sleep_ok (s\<lparr>pelem_cur := None\<rparr>)"
      using p before CSEQ_TYPE_END deep by (auto simp: sleep_ok_def at_reset_wait_def deep_ok_def split: if_splits)
    then have "power_ok (s\<lparr>pelem_cur := None\<rparr>)"
      by (intro power_ok_update [OF assms(3)]) (simp_all add: epd_trace_def)
    then show ?thesis using p CSEQ_TYPE_END assms(4) by (simp add: cseq_engine_task_def)
  next
    case (SEQELEM_DPRINT msg)
    have "sleep_ok s \<Longrightarrow> sleep_ok (s\<lparr>pelem_cur := Some (q, Suc i)\<rparr>)"
      using p before SEQELEM_DPRINT by (auto simp: sleep_ok_def at_reset_wait_def split: if_splits)
    then show ?thesis using p SEQELEM_DPRINT assms(4) power_ok_next [OF assms(3) p] by (simp add: cseq_engine_task_def)
  next
    case (CSEQ_TYPE_FUNC_BV f)
    have run: "\<exists>s'. cseq_engine_task busy s = Some s' \<and> power_ok s'"
      if "run_seqelem busy f s = Some (r, s1)" "power_ok (if r then s1\<lparr>pelem_cur := Some (q, Suc i)\<rparr> else s1)" for r s1
      using that p CSEQ_TYPE_FUNC_BV assms(4) by (cases r) (simp_all add: cseq_engine_task_def)
    show ?thesis
    proof (cases "quiet_elem f")
      case False
      note aw = awake_at_elem [OF assms(2,3) p CSEQ_TYPE_FUNC_BV False]
      show ?thesis
      proof (cases "f = seqelem_deep_sleep_async")
        case True
        then have "q = seq_deep_sleep" "i = 1" using sleep(1) CSEQ_TYPE_FUNC_BV by auto
        then show ?thesis using power_ok_deep_sleep [OF assms(1) aw(2) deep] p True run
          by (auto simp: numeral_2_eq_2)
      next
        case other: False
        then have q: "q \<noteq> seq_deep_sleep" using sleep(3) CSEQ_TYPE_FUNC_BV False by (auto simp: quiet_elem_def)
        then obtain r s1 where r: "run_seqelem busy f s = Some (r, s1)" "awake (epd_io s1)"
          "hw_reset_phase s1 = hw_reset_phase s" "pelem_cur s1 = pelem_cur s"
          using sending_elem_returns [OF assms(1) aw(2) False other] img by blast
        then show ?thesis using aw(3) q p by (intro run [OF r(1)] power_ok_awake) (auto split: if_splits)
      qed
    next
      case True
      have step: "f = seqelem_delay_init_async \<or> f = seqelem_delay_init_wait \<or> f = seqelem_deep_sleep_wait \<Longrightarrow>
          sleep_ok s \<Longrightarrow> sleep_ok (s\<lparr>pelem_cur := Some (q, Suc i)\<rparr>)"
        using p before sleep CSEQ_TYPE_FUNC_BV by (auto simp: sleep_ok_def at_reset_wait_def split: if_splits)
      note next_ok = power_ok_next [OF assms(3) p step]
      consider "f = seqelem_delay_init_async" | "f = seqelem_delay_init_wait \<or> f = seqelem_deep_sleep_wait"
        | "f = seqelem_hw_reset_async" | "f = seqelem_hw_reset_wait"
        using True by (auto simp: quiet_elem_def)
      then show ?thesis
      proof cases
        case 1
        have "(delay_async 3000 s)\<lparr>pelem_cur := x\<rparr> = delay_async 3000 (s\<lparr>pelem_cur := x\<rparr>)" for x
          by (simp add: delay_async_def)
        then show ?thesis using 1 next_ok by (intro run [of True "delay_async 3000 s"]) (simp_all add: run_seqelem_def power_ok_delay)
      next
        case 2
        then show ?thesis using next_ok assms(3) by (intro run [of "delay_wait s" s]) (auto simp: run_seqelem_def)
      next
        case 3
        then show ?thesis using power_ok_reset_async [OF assms(2,3) p] CSEQ_TYPE_FUNC_BV
          by (intro run [of True "hw_reset_async busy s"]) (simp_all add: run_seqelem_def)
      next
        case 4
        then show ?thesis using power_ok_reset_wait [OF assms(2,3) p, of "fst (hw_reset_wait s)" "snd (hw_reset_wait s)"]
            CSEQ_TYPE_FUNC_BV
          by (intro run [of "fst (hw_reset_wait s)" "snd (hw_reset_wait s)"]) (simp_all add: run_seqelem_def)
      qed
    qed
  qed
qed

lemma task_power:
  assumes "panel_recovers busy" "cseq_ok reset s" "power_ok s" "idle_ok s req"
  shows "\<exists>s'. epd_task busy s = Some s' \<and> power_ok s'"
proof -
  have f: "cseq_fetch (cseq_fetch s) = cseq_fetch s" by (simp add: cseq_fetch_def split: option.splits)
  obtain s1 where s1: "cseq_engine_task busy s = Some s1" "power_ok s1"
    using engine_power [OF assms(1) cseq_fetch_ok(1) [OF assms(2)] power_ok_fetch [OF assms(3,4)] f]
    unfolding cseq_engine_fetched [symmetric] by blast
  obtain reset' where "engine_step reset reset' (cseq_fetch s) s1" using cseq_engine_step [OF assms(2) s1(1)] by blast
  then have "seq_next s1 = seq_next (cseq_fetch s)" "idle_timer_phase s1 = idle_timer_phase (cseq_fetch s)"
    by (simp_all add: engine_step_def)
  then have start: "idle_timer_phase s1 = IDLE_TIMER_PHARE_START \<Longrightarrow> seq_next s1 = None"
    using idle_ok_fetch(1) [OF assms(4)] by simp
  have "power_ok (epd_idle_timer busy s1)"
  proof (rule power_ok_update [OF s1(2)])
    show "sleep_ok (epd_idle_timer busy s1)" if "sleep_ok s1"
      using that start
      by (auto simp: epd_idle_timer_def sleep_ok_def deep_ok_def cseq_start_def split: option.splits idle_timer_phase_t.splits)
    show "deep_ok (epd_idle_timer busy s1)" if "pelem_cur (epd_idle_timer busy s1) = Some (seq_deep_sleep, i)" for i
    proof -
      have p: "pelem_cur s1 = Some (seq_deep_sleep, i)" using that by (simp add: idle_timer_same(4))
      then have "epd_idle_timer busy s1 = s1" by (simp add: epd_idle_timer_def)
      then show ?thesis using s1(2) p by (simp add: power_ok_def Let_def)
    qed
    show "hw_reset_phase (epd_idle_timer busy s1) = hw_reset_phase s1"
      by (simp add: epd_idle_timer_def cseq_start_def split: idle_timer_phase_t.split)
  qed (rule idle_timer_same(1))
  then show ?thesis using s1(1) by (simp add: epd_task_def)
qed

lemma epd_reach_power: "epd_reach busy s req \<Longrightarrow> panel_recovers busy \<Longrightarrow> power_ok s"
proof (induction rule: epd_reach.induct)
  case (boot img t)
  let ?s = "epd_task_init img (epd_boot t)"
  have "panel_saw (epd_trace ?s) = \<lparr> pv_data = True, pv_cmd = [], pv_rst = True, pv_asleep = True \<rparr>"
    by (simp add: epd_trace_def epd_task_init_def epd_boot_def cseq_start_def epd_gpio_config_def io_emit_def panel_saw_def)
  moreover have "hw_reset_phase ?s = HW_RESET_PHASE_OUTSET" "pelem_cur ?s = None" "seq_next ?s = Some seq_init"
    by (simp_all add: epd_task_init_def epd_boot_def cseq_start_def)
  ultimately show ?case by (simp add: power_ok_def sleep_ok_def deep_ok_def)
next
  case (elapse s req d)
  note s = elapse.IH [OF elapse.prems]
  show ?case
    by (rule power_ok_update [OF s])
      (use s in \<open>auto simp: epd_elapse_def epd_trace_def sleep_ok_def deep_ok_def power_ok_def Let_def
        split: option.splits\<close>)
next
  case (task s req s')
  obtain reset where "cseq_ok reset s" using epd_reach_sessions [OF task.hyps(1)] by (auto simp: sessions_ok_def)
  from task_power [OF task.prems this task.IH [OF task.prems] epd_reach_idle [OF task.hyps(1)]] task.hyps(2)
  show ?case by auto
next
  case (request s req img)
  show ?case
    by (rule power_ok_update [OF request.IH [OF request.prems]])
      (auto simp: epd_display_image_partial_def cseq_start_def epd_trace_def sleep_ok_def deep_ok_def split: option.splits)
qed

lemma task_returns:
  assumes "panel_recovers busy" "epd_reach busy s req"
  shows "\<exists>s'. epd_task busy s = Some s'"
proof -
  obtain reset where "cseq_ok reset s" using epd_reach_sessions [OF assms(2)] by (auto simp: sessions_ok_def)
  from task_power [OF assms(1) this epd_reach_power [OF assms(2,1)] epd_reach_idle [OF assms(2)]]
  show ?thesis by blast
qed

section \<open>Properties\<close>

text \<open>
  C14: whatever the panel does and in whatever order images are asked for, the events the driver has
  sent are the pin set-up, a series of complete sequences, and a prefix of the one in progress: the
  commands of two updates never interleave, and a request never cuts an update short.
\<close>

theorem epd_updates_are_whole:
  assumes "epd_reach busy s req"
  shows "\<exists>reset sessions. epd_trace s =
    gpio_trace @ concat (map session_trace sessions) @ progress_trace reset s"
  using epd_reach_sessions [OF assms] by (auto simp: sessions_ok_def)

theorem epd_updates_are_whole_witness:
  "\<exists>reset sessions. epd_trace (epd_display_image_partial [1] (epd_task_init [0] (epd_boot 0))) =
    gpio_trace @ concat (map session_trace sessions) @
    progress_trace reset (epd_display_image_partial [1] (epd_task_init [0] (epd_boot 0)))"
  by (rule epd_updates_are_whole [OF epd_reach.request [OF epd_reach.boot]])

text \<open>
  C28: every call of \<open>epd_task\<close> returns, in every state the driver reaches, with any panel that releases its BUSY
  pin again as long as it is neither in deep sleep nor held in reset. A panel in deep sleep may keep BUSY high
  until the next hardware reset, and it may have been asleep when the board started; since such panels are among
  those the theorem speaks of, the driver never waits for BUSY before it has reset a sleeping panel. In particular
  it never sends a null image.
\<close>

theorem epd_task_returns:
  assumes "panel_recovers busy" "epd_reach busy s req"
  shows "\<exists>s'. epd_task busy s = Some s'"
  by (rule task_returns [OF assms])

text \<open>A panel that is busy while it sleeps, and during the first 700 milliseconds.\<close>

theorem epd_task_returns_witness:
  "\<exists>s'. epd_task (\<lambda>tr t. pv_asleep (panel_saw tr) \<or> t < 700) (epd_elapse 3 (epd_task_init [0] (epd_boot 0))) = Some s'"
proof (rule epd_task_returns)
  have "\<exists>k. \<not> t + k < 700" for t :: nat by (rule exI [of _ 700]) simp
  then show "panel_recovers (\<lambda>tr t. pv_asleep (panel_saw tr) \<or> t < 700)" by (simp add: panel_recovers_def)
  show "epd_reach (\<lambda>tr t. pv_asleep (panel_saw tr) \<or> t < 700) (epd_elapse 3 (epd_task_init [0] (epd_boot 0))) 0"
    by (rule epd_reach.elapse [OF epd_reach.boot])
qed

text \<open>
  C23: the driver asks for deep sleep only when the last request is at least three seconds old, and
  a request that waits for the engine is never replaced by the sleep sequence: after a call of
  \<open>epd_task\<close> it still waits, or it has started with its own image.
\<close>

theorem epd_sleep_waits_for_requests:
  assumes "epd_reach busy s req" "epd_task busy s = Some s'"
  shows "(seq_next s' \<noteq> Some seq_deep_sleep \<or> req + 3000 \<le> epd_clock s') \<and>
    (seq_next s = None \<or>
     seq_next s' = seq_next s \<and> image_next s' = image_next s \<or>
     map_option fst (pelem_cur s') = seq_next s \<and> image_cur s' = image_next s)"
proof -
  obtain reset where ok: "cseq_ok reset s"
    using epd_reach_sessions [OF assms(1)] by (auto simp: sessions_ok_def)
  have idle: "idle_ok s req" by (rule epd_reach_idle [OF assms(1)])
  note t = idle_ok_task [OF idle ok assms(2)]
  obtain s1 where s1: "cseq_engine_task busy s = Some s1" "s' = epd_idle_timer busy s1"
    by (rule epd_task_engine [OF assms(2)])
  obtain reset' where e: "engine_step reset reset' (cseq_fetch s) s1"
    using cseq_engine_step [OF ok s1(1)] by blast
  have "seq_next s' = seq_next s \<and> image_next s' = image_next s \<or>
     map_option fst (pelem_cur s') = seq_next s \<and> image_cur s' = image_next s"
    if q: "seq_next s = Some q" for q
  proof (cases "pelem_cur s")
    case None
    obtain msg where "cseq_elems q ! 0 = SEQELEM_DPRINT msg" by (cases q) auto
    then have "pelem_cur s1 = Some (q, 1) \<and> image_cur s1 = image_next s"
      using s1(1) q None by (auto simp: cseq_engine_task_def cseq_fetch_def)
    then show ?thesis using q by (simp add: s1(2) idle_timer_same)
  next
    case (Some p)
    then have "cseq_fetch s = s" by (simp add: cseq_fetch_def)
    then have "seq_next s1 = seq_next s" "image_next s1 = image_next s"
      "idle_timer_phase s1 = idle_timer_phase s"
      using e by (simp_all add: engine_step_def)
    then show ?thesis using t(2) q \<open>cseq_fetch s = s\<close>
      by (auto simp: s1(2) epd_idle_timer_def cseq_start_def split: idle_timer_phase_t.splits)
  qed
  then show ?thesis using t(1) by (auto simp: idle_ok_def)
qed

theorem epd_sleep_waits_for_requests_witness:
  "\<exists>s'. epd_task (\<lambda>_ _. False) (epd_task_init [0] (epd_boot 7)) = Some s' \<and> image_cur s' = Some [0]"
proof -
  obtain s' where s': "epd_task (\<lambda>_ _. False) (epd_task_init [0] (epd_boot 7)) = Some s'"
    using task_returns [OF _ epd_reach.boot, of "\<lambda>_ _. False"] by (auto simp: panel_recovers_def)
  have "seq_next s' = None"
    using s' by (auto simp: epd_task_def bind_eq_Some_conv cseq_engine_task_def cseq_fetch_def
        epd_task_init_def epd_boot_def cseq_start_def epd_idle_timer_def)
  with epd_sleep_waits_for_requests [OF epd_reach.boot s'] s'
  show ?thesis by (auto simp: epd_task_init_def epd_boot_def cseq_start_def)
qed

end
