(* ===== verification/Danopad01.thy ===== *)
theory Danopad01
  imports Epd
begin

text \<open>
  The board's own code, \<open>keyboards/hernian/danopad01/danopad01.c\<close>: the key with keycode 0x14 shows
  a selection image while it is held, and the next image of the list when it is released.

  The images are data of the build (\<open>generated/\<close>): \<open>img_list\<close>, with five images, and
  \<open>img_epaper_200x200_selectmode\<close> are parameters. \<open>keyboard_post_init_user\<close>,
  \<open>housekeeping_task_user\<close> and \<open>process_record_user\<close> are the weak defaults, which do nothing and
  return true.
\<close>

section \<open>State and handlers\<close>

record danopad =
  idx_img :: int
  debug_enable :: bool
  debug_matrix :: bool
  epd :: epd_state

definition danopad_boot :: "nat \<Rightarrow> danopad" where
  "danopad_boot t = \<lparr> idx_img = 0, debug_enable = False, debug_matrix = False, epd = epd_boot t \<rparr>"

definition COUNT_IMG_LIST :: "epd_image list \<Rightarrow> int" where
  "COUNT_IMG_LIST img_list = int (length img_list)"

definition keyboard_post_init_kb :: "epd_image list \<Rightarrow> danopad \<Rightarrow> danopad" where
  "keyboard_post_init_kb img_list s =
    s\<lparr>debug_enable := True, debug_matrix := True,
      epd := epd_task_init (img_list ! nat (idx_img s)) (epd s)\<rparr>"

definition housekeeping_task_kb :: "epd_panel \<Rightarrow> danopad \<Rightarrow> danopad option" where
  "housekeeping_task_kb busy s = do {
    e \<leftarrow> epd_task busy (epd s);
    Some (s\<lparr>epd := e\<rparr>)
  }"

definition process_record_kb ::
    "epd_image list \<Rightarrow> epd_image \<Rightarrow> u16 \<Rightarrow> bool \<Rightarrow> danopad \<Rightarrow> bool \<times> danopad" where
  "process_record_kb img_list selectmode keycode pressed s =
    (True,
     if pressed then
       (if keycode = 0x14 then s\<lparr>epd := epd_display_image_partial selectmode (epd s)\<rparr> else s)
     else if keycode = 0x14 then
       (let idx = (if idx_img s + 1 \<ge> COUNT_IMG_LIST img_list then 0 else idx_img s + 1)
        in s\<lparr>idx_img := idx, epd := epd_display_image_partial (img_list ! nat idx) (epd s)\<rparr>)
     else s)"

section \<open>The running board\<close>

text \<open>
  What the main loop does after the initialisation, in any order: time passes, the housekeeping
  task runs, records of keys arrive, and the debug output is switched. \<open>ks\<close> counts the releases of the image key.
\<close>

inductive board ::
    "epd_panel \<Rightarrow> epd_image list \<Rightarrow> epd_image \<Rightarrow> danopad \<Rightarrow> nat \<Rightarrow> bool" for busy img_list selectmode where
  boot: "board busy img_list selectmode (keyboard_post_init_kb img_list (danopad_boot t)) 0"
| elapse: "board busy img_list selectmode s ks \<Longrightarrow>
    board busy img_list selectmode (s\<lparr>epd := epd_elapse d (epd s)\<rparr>) ks"
| housekeeping: "board busy img_list selectmode s ks \<Longrightarrow> housekeeping_task_kb busy s = Some s' \<Longrightarrow>
    board busy img_list selectmode s' ks"
| record_key: "board busy img_list selectmode s ks \<Longrightarrow>
    process_record_kb img_list selectmode keycode pressed s = (r, s') \<Longrightarrow>
    board busy img_list selectmode s' (if keycode = 0x14 \<and> \<not> pressed then ks + 1 else ks)"
| debug: "board busy img_list selectmode s ks \<Longrightarrow> board busy img_list selectmode (s\<lparr>debug_enable := b\<rparr>) ks"

lemma board_epd_reach: "board busy img_list selectmode s ks \<Longrightarrow> \<exists>req. epd_reach busy (epd s) req"
proof (induction rule: board.induct)
  case (boot t)
  then show ?case
    using epd_reach.boot by (auto simp: keyboard_post_init_kb_def danopad_boot_def)
next
  case (elapse s ks d)
  then show ?case by (auto intro: epd_reach.elapse)
next
  case (housekeeping s ks s')
  then show ?case
    by (auto simp: housekeeping_task_kb_def bind_eq_Some_conv) (blast intro: epd_reach.task)
next
  case (record_key s ks keycode pressed r s')
  then show ?case
    by (auto simp: process_record_kb_def Let_def split: if_splits) (blast intro: epd_reach.request)+
next
  case (debug s ks b)
  then show ?case by simp
qed

lemma last_image:
  assumes "img_list \<noteq> []"
  shows "COUNT_IMG_LIST img_list \<le> int (ks mod length img_list) + 1 \<longleftrightarrow>
    Suc (ks mod length img_list) = length img_list"
proof -
  have "ks mod length img_list < length img_list" using assms by simp
  then show ?thesis by (auto simp: COUNT_IMG_LIST_def)
qed

lemma board_idx:
  "board busy img_list selectmode s ks \<Longrightarrow> img_list \<noteq> [] \<Longrightarrow>
    idx_img s = int (ks mod length img_list)"
proof (induction rule: board.induct)
  case (record_key s ks keycode pressed r s')
  then have idx: "idx_img s = int (ks mod length img_list)" by simp
  note last_image [OF record_key.prems, of ks]
  then show ?case using record_key.hyps(2) record_key.prems idx
    by (auto simp: process_record_kb_def Let_def mod_Suc split: if_splits)
qed (auto simp: keyboard_post_init_kb_def danopad_boot_def housekeeping_task_kb_def bind_eq_Some_conv)

section \<open>Properties\<close>

text \<open>
  In every state the board reaches, the image index is the number of releases of the image key
  modulo the number of images, so it never runs past the list; a release asks the driver for the
  image after the current one, a press for the selection image, and other keys leave the display
  alone.
\<close>

theorem image_key_cycles:
  assumes "board busy img_list selectmode s ks" "img_list \<noteq> []"
  shows "idx_img s = int (ks mod length img_list) \<and>
    snd (process_record_kb img_list selectmode 0x14 False s) =
      s\<lparr>idx_img := int (Suc ks mod length img_list),
        epd := epd_display_image_partial (img_list ! (Suc ks mod length img_list)) (epd s)\<rparr> \<and>
    snd (process_record_kb img_list selectmode 0x14 True s) =
      s\<lparr>epd := epd_display_image_partial selectmode (epd s)\<rparr> \<and>
    (keycode = 0x14 \<or> snd (process_record_kb img_list selectmode keycode pressed s) = s)"
proof -
  note last_image [OF assms(2), of ks]
  moreover have "nat (int n + 1) = Suc n" for n by simp
  ultimately show ?thesis using board_idx [OF assms]
    by (auto simp: process_record_kb_def Let_def mod_Suc)
qed

theorem image_key_cycles_witness:
  "idx_img (snd (process_record_kb [[1], [2], [3], [4], [5]] [9] 0x14 False
      (keyboard_post_init_kb [[1], [2], [3], [4], [5]] (danopad_boot 0)))) = 1"
proof -
  have "board (\<lambda>_ _. False) [[1], [2], [3], [4], [5]] [9]
      (keyboard_post_init_kb [[1], [2], [3], [4], [5]] (danopad_boot 0)) 0"
    by (rule board.boot)
  from image_key_cycles [OF this] show ?thesis by simp
qed

end
