(* ===== verification/Mousekey.thy ===== *)
theory Mousekey
  imports Action_Util "HOL-Library.Signed_Division"
begin

text \<open>
  The mouse keys: \<open>quantum/mousekey.c\<close> in its default accelerated mode, the way the board compiles it
  (neither inertia, kinetic, combined nor three-speed mode, no overlap reset), with
  \<open>register_mouse\<close> and the mouse part of \<open>clear_keyboard_but_mods_and_keys\<close> of \<open>quantum/action.c\<close>.

  The component is driven by the events \<open>RegisterMouse\<close>, \<open>MousekeyClear\<close> and \<open>MousekeySend\<close> that the
  actions emit, and by the task that the keyboard task calls. An \<open>int8_t\<close> is an 8-bit word read by
  \<open>sint\<close>; an \<open>int\<close> has 32 bits and no operation here leaves its range. The reports passed to the
  host driver are recorded in \<open>mouse_sent\<close>.
\<close>

section \<open>Reports and settings\<close>

type_synonym s8 = "8 word"

record report_mouse =
  mouse_buttons :: u8
  mouse_x :: s8
  mouse_y :: s8
  mouse_v :: s8
  mouse_h :: s8

definition no_movement :: "report_mouse \<Rightarrow> report_mouse" where
  "no_movement r = r\<lparr>mouse_x := 0, mouse_y := 0, mouse_v := 0, mouse_h := 0\<rparr>"

abbreviation report_mouse_zero :: report_mouse where
  "report_mouse_zero \<equiv> \<lparr>mouse_buttons = 0, mouse_x = 0, mouse_y = 0, mouse_v = 0, mouse_h = 0\<rparr>"

definition has_mouse_report_changed :: "report_mouse \<Rightarrow> report_mouse \<Rightarrow> bool" where
  "has_mouse_report_changed new old \<longleftrightarrow>
    mouse_buttons new \<noteq> mouse_buttons old \<or>
    mouse_x new \<noteq> 0 \<and> mouse_x new \<noteq> mouse_x old \<or>
    mouse_y new \<noteq> 0 \<and> mouse_y new \<noteq> mouse_y old \<or>
    mouse_h new \<noteq> 0 \<and> mouse_h new \<noteq> mouse_h old \<or>
    mouse_v new \<noteq> 0 \<and> mouse_v new \<noteq> mouse_v old"

definition should_mousekey_report_send :: "report_mouse \<Rightarrow> bool" where
  "should_mousekey_report_send r \<longleftrightarrow> mouse_x r \<noteq> 0 \<or> mouse_y r \<noteq> 0 \<or> mouse_v r \<noteq> 0 \<or> mouse_h r \<noteq> 0"

abbreviation (input) MOUSEKEY_MOVE_DELTA :: nat where "MOUSEKEY_MOVE_DELTA \<equiv> 8"
abbreviation (input) MOUSEKEY_MOVE_MAX :: nat where "MOUSEKEY_MOVE_MAX \<equiv> 127"
abbreviation (input) MOUSEKEY_WHEEL_DELTA :: nat where "MOUSEKEY_WHEEL_DELTA \<equiv> 1"
abbreviation (input) MOUSEKEY_WHEEL_MAX :: nat where "MOUSEKEY_WHEEL_MAX \<equiv> 127"

text \<open>The variables \<open>mk_delay\<close> to \<open>mk_wheel_time_to_max\<close>, which a keymap may change.\<close>

record mousekey_settings =
  mk_delay :: u8
  mk_interval :: u8
  mk_max_speed :: u8
  mk_time_to_max :: u8
  mk_wheel_delay :: u8
  mk_wheel_interval :: u8
  mk_wheel_max_speed :: u8
  mk_wheel_time_to_max :: u8

definition mousekey_defaults :: mousekey_settings where
  "mousekey_defaults =
    \<lparr>mk_delay = 10 div 10, mk_interval = 20, mk_max_speed = 10, mk_time_to_max = 30,
     mk_wheel_delay = 10 div 10, mk_wheel_interval = 80, mk_wheel_max_speed = 8,
     mk_wheel_time_to_max = 40\<rparr>"

record mousekey =
  mouse_report :: report_mouse
  mousekey_accel :: u8
  mousekey_repeat :: u8
  mousekey_wheel_repeat :: u8
  last_timer_c :: u16
  last_timer_w :: u16
  mouse_sent :: "report_mouse list"

definition mousekey_init :: mousekey where
  "mousekey_init =
    \<lparr>mouse_report = report_mouse_zero, mousekey_accel = 0, mousekey_repeat = 0,
     mousekey_wheel_repeat = 0, last_timer_c = 0, last_timer_w = 0, mouse_sent = []\<rparr>"

section \<open>Speed\<close>

definition move_unit :: "mousekey_settings \<Rightarrow> mousekey \<Rightarrow> u8" where
  "move_unit k s =
    (let unit :: u16 =
       of_nat (if bit (mousekey_accel s) 0 then (MOUSEKEY_MOVE_DELTA * unat (mk_max_speed k)) div 4
        else if bit (mousekey_accel s) 1 then (MOUSEKEY_MOVE_DELTA * unat (mk_max_speed k)) div 2
        else if bit (mousekey_accel s) 2 then MOUSEKEY_MOVE_DELTA * unat (mk_max_speed k)
        else if mousekey_repeat s = 0 then MOUSEKEY_MOVE_DELTA
        else if mousekey_repeat s \<ge> mk_time_to_max k then MOUSEKEY_MOVE_DELTA * unat (mk_max_speed k)
        else (MOUSEKEY_MOVE_DELTA * unat (mk_max_speed k) * unat (mousekey_repeat s))
          div unat (mk_time_to_max k))
     in if unat unit > MOUSEKEY_MOVE_MAX then of_nat MOUSEKEY_MOVE_MAX
        else if unit = 0 then 1 else ucast unit)"

definition wheel_unit :: "mousekey_settings \<Rightarrow> mousekey \<Rightarrow> u8" where
  "wheel_unit k s =
    (let unit :: u16 =
       of_nat (if bit (mousekey_accel s) 0 then (MOUSEKEY_WHEEL_DELTA * unat (mk_wheel_max_speed k)) div 4
        else if bit (mousekey_accel s) 1 then (MOUSEKEY_WHEEL_DELTA * unat (mk_wheel_max_speed k)) div 2
        else if bit (mousekey_accel s) 2 then MOUSEKEY_WHEEL_DELTA * unat (mk_wheel_max_speed k)
        else if mousekey_wheel_repeat s = 0 then MOUSEKEY_WHEEL_DELTA
        else if mousekey_wheel_repeat s \<ge> mk_wheel_time_to_max k
          then MOUSEKEY_WHEEL_DELTA * unat (mk_wheel_max_speed k)
        else (MOUSEKEY_WHEEL_DELTA * unat (mk_wheel_max_speed k) * unat (mousekey_wheel_repeat s))
          div unat (mk_wheel_time_to_max k))
     in if unat unit > MOUSEKEY_WHEEL_MAX then of_nat MOUSEKEY_WHEEL_MAX
        else if unit = 0 then 1 else ucast unit)"

definition times_inv_sqrt2 :: "s8 \<Rightarrow> s8" where
  "times_inv_sqrt2 x =
    (let n :: 16 word = word_of_int (sint x * 181)
     in word_of_int (if sint n < 0 then (sint n - 256 sdiv 2) sdiv 256 else (sint n + 256 sdiv 2) sdiv 256))"

text \<open>\<open>unit * ((x > 0) ? 1 : -1)\<close> and the block that slows a diagonal move down.\<close>

definition directed :: "u8 \<Rightarrow> s8 \<Rightarrow> s8" where
  "directed u x = word_of_int (uint u * (if sint x > 0 then 1 else - 1))"

definition diagonal_move :: "s8 \<times> s8 \<Rightarrow> s8 \<times> s8" where
  "diagonal_move = (\<lambda>(a, b).
    if a \<noteq> 0 \<and> b \<noteq> 0 then
      (let a = times_inv_sqrt2 a; a = (if a = 0 then 1 else a);
           b = times_inv_sqrt2 b; b = (if b = 0 then 1 else b)
       in (a, b))
    else (a, b))"

section \<open>Operations\<close>

definition mousekey_send :: "u32 \<Rightarrow> mousekey \<Rightarrow> mousekey" where
  "mousekey_send now s =
    (let r = mouse_report s; time = timer_read now;
         s = (if mouse_x r \<noteq> 0 \<or> mouse_y r \<noteq> 0 then s\<lparr>last_timer_c := time\<rparr> else s);
         s = (if mouse_v r \<noteq> 0 \<or> mouse_h r \<noteq> 0 then s\<lparr>last_timer_w := time\<rparr> else s)
     in s\<lparr>mouse_sent := mouse_sent s @ [r]\<rparr>)"

definition mousekey_clear :: "mousekey \<Rightarrow> mousekey" where
  "mousekey_clear s =
    s\<lparr>mouse_report := report_mouse_zero, mousekey_repeat := 0, mousekey_wheel_repeat := 0,
      mousekey_accel := 0\<rparr>"

definition move_cursor :: "mousekey_settings \<Rightarrow> u32 \<Rightarrow> report_mouse \<Rightarrow> mousekey \<Rightarrow> mousekey" where
  "move_cursor k now tmpmr s =
    (if (mouse_x tmpmr \<noteq> 0 \<or> mouse_y tmpmr \<noteq> 0) \<and>
        unat (timer_elapsed now (last_timer_c s)) >
          (if mousekey_repeat s \<noteq> 0 then unat (mk_interval k) else unat (mk_delay k) * 10)
     then
       let s = (if mousekey_repeat s \<noteq> 255 then s\<lparr>mousekey_repeat := mousekey_repeat s + 1\<rparr> else s);
           (x, y) = diagonal_move
             (if mouse_x tmpmr \<noteq> 0 then directed (move_unit k s) (mouse_x tmpmr) else 0,
              if mouse_y tmpmr \<noteq> 0 then directed (move_unit k s) (mouse_y tmpmr) else 0)
       in s\<lparr>mouse_report := (mouse_report s)\<lparr>mouse_x := x, mouse_y := y\<rparr>\<rparr>
     else s)"

definition move_wheel :: "mousekey_settings \<Rightarrow> u32 \<Rightarrow> report_mouse \<Rightarrow> mousekey \<Rightarrow> mousekey" where
  "move_wheel k now tmpmr s =
    (if (mouse_v tmpmr \<noteq> 0 \<or> mouse_h tmpmr \<noteq> 0) \<and>
        unat (timer_elapsed now (last_timer_w s)) >
          (if mousekey_wheel_repeat s \<noteq> 0 then unat (mk_wheel_interval k) else unat (mk_wheel_delay k) * 10)
     then
       let s = (if mousekey_wheel_repeat s \<noteq> 255
                then s\<lparr>mousekey_wheel_repeat := mousekey_wheel_repeat s + 1\<rparr> else s);
           (v, h) = diagonal_move
             (if mouse_v tmpmr \<noteq> 0 then directed (wheel_unit k s) (mouse_v tmpmr) else 0,
              if mouse_h tmpmr \<noteq> 0 then directed (wheel_unit k s) (mouse_h tmpmr) else 0)
       in s\<lparr>mouse_report := (mouse_report s)\<lparr>mouse_v := v, mouse_h := h\<rparr>\<rparr>
     else s)"

definition mousekey_task :: "mousekey_settings \<Rightarrow> u32 \<Rightarrow> mousekey \<Rightarrow> mousekey" where
  "mousekey_task k now s =
    (let tmpmr = mouse_report s;
         s = s\<lparr>mouse_report := no_movement tmpmr\<rparr>;
         s = move_cursor k now tmpmr s;
         s = move_wheel k now tmpmr s;
         s = (if has_mouse_report_changed (mouse_report s) tmpmr \<or>
                 should_mousekey_report_send (mouse_report s)
              then mousekey_send now s else s)
     in s\<lparr>mouse_report := tmpmr\<rparr>)"

abbreviation (input) MS_UP :: u8 where "MS_UP \<equiv> 0xCD"
abbreviation (input) MS_DOWN :: u8 where "MS_DOWN \<equiv> 0xCE"
abbreviation (input) MS_LEFT :: u8 where "MS_LEFT \<equiv> 0xCF"
abbreviation (input) MS_RGHT :: u8 where "MS_RGHT \<equiv> 0xD0"
abbreviation (input) MS_BTN1 :: u8 where "MS_BTN1 \<equiv> 0xD1"
abbreviation (input) MS_BTN8 :: u8 where "MS_BTN8 \<equiv> 0xD8"
abbreviation (input) MS_WHLU :: u8 where "MS_WHLU \<equiv> 0xD9"
abbreviation (input) MS_WHLD :: u8 where "MS_WHLD \<equiv> 0xDA"
abbreviation (input) MS_WHLL :: u8 where "MS_WHLL \<equiv> 0xDB"
abbreviation (input) MS_WHLR :: u8 where "MS_WHLR \<equiv> 0xDC"
abbreviation (input) MS_ACL0 :: u8 where "MS_ACL0 \<equiv> 0xDD"
abbreviation (input) MS_ACL1 :: u8 where "MS_ACL1 \<equiv> 0xDE"
abbreviation (input) MS_ACL2 :: u8 where "MS_ACL2 \<equiv> 0xDF"

definition IS_MOUSEKEY_BUTTON :: "u8 \<Rightarrow> bool" where
  "IS_MOUSEKEY_BUTTON code \<longleftrightarrow> code \<ge> MS_BTN1 \<and> code \<le> MS_BTN8"

abbreviation on_report :: "(report_mouse \<Rightarrow> report_mouse) \<Rightarrow> mousekey \<Rightarrow> mousekey" where
  "on_report f s \<equiv> s\<lparr>mouse_report := f (mouse_report s)\<rparr>"

definition mousekey_on :: "mousekey_settings \<Rightarrow> u8 \<Rightarrow> mousekey \<Rightarrow> mousekey" where
  "mousekey_on k code s =
    (if code = MS_UP then on_report (mouse_y_update (\<lambda>_. word_of_int (uint (move_unit k s) * - 1))) s
     else if code = MS_DOWN then on_report (mouse_y_update (\<lambda>_. move_unit k s)) s
     else if code = MS_LEFT then on_report (mouse_x_update (\<lambda>_. word_of_int (uint (move_unit k s) * - 1))) s
     else if code = MS_RGHT then on_report (mouse_x_update (\<lambda>_. move_unit k s)) s
     else if code = MS_WHLU then on_report (mouse_v_update (\<lambda>_. wheel_unit k s)) s
     else if code = MS_WHLD then on_report (mouse_v_update (\<lambda>_. word_of_int (uint (wheel_unit k s) * - 1))) s
     else if code = MS_WHLL then on_report (mouse_h_update (\<lambda>_. word_of_int (uint (wheel_unit k s) * - 1))) s
     else if code = MS_WHLR then on_report (mouse_h_update (\<lambda>_. wheel_unit k s)) s
     else if IS_MOUSEKEY_BUTTON code then
       on_report (mouse_buttons_update (\<lambda>b. b OR push_bit (unat (code - MS_BTN1)) 1)) s
     else if code = MS_ACL0 then s\<lparr>mousekey_accel := mousekey_accel s OR push_bit 0 1\<rparr>
     else if code = MS_ACL1 then s\<lparr>mousekey_accel := mousekey_accel s OR push_bit 1 1\<rparr>
     else if code = MS_ACL2 then s\<lparr>mousekey_accel := mousekey_accel s OR push_bit 2 1\<rparr>
     else s)"

text \<open>The end of \<open>mousekey_off\<close>: what does not move does not repeat.\<close>

definition reset_repeats :: "mousekey \<Rightarrow> mousekey" where
  "reset_repeats s =
    (let s = (if mouse_x (mouse_report s) = 0 \<and> mouse_y (mouse_report s) = 0
              then s\<lparr>mousekey_repeat := 0\<rparr> else s)
     in if mouse_v (mouse_report s) = 0 \<and> mouse_h (mouse_report s) = 0
        then s\<lparr>mousekey_wheel_repeat := 0\<rparr> else s)"

definition mousekey_off :: "u8 \<Rightarrow> mousekey \<Rightarrow> mousekey" where
  "mousekey_off code s =
    (let r = mouse_report s in
     reset_repeats
      (if code = MS_UP \<and> sint (mouse_y r) < 0 then on_report (mouse_y_update (\<lambda>_. 0)) s
       else if code = MS_DOWN \<and> sint (mouse_y r) > 0 then on_report (mouse_y_update (\<lambda>_. 0)) s
       else if code = MS_LEFT \<and> sint (mouse_x r) < 0 then on_report (mouse_x_update (\<lambda>_. 0)) s
       else if code = MS_RGHT \<and> sint (mouse_x r) > 0 then on_report (mouse_x_update (\<lambda>_. 0)) s
       else if code = MS_WHLU \<and> sint (mouse_v r) > 0 then on_report (mouse_v_update (\<lambda>_. 0)) s
       else if code = MS_WHLD \<and> sint (mouse_v r) < 0 then on_report (mouse_v_update (\<lambda>_. 0)) s
       else if code = MS_WHLL \<and> sint (mouse_h r) < 0 then on_report (mouse_h_update (\<lambda>_. 0)) s
       else if code = MS_WHLR \<and> sint (mouse_h r) > 0 then on_report (mouse_h_update (\<lambda>_. 0)) s
       else if IS_MOUSEKEY_BUTTON code then
       on_report (mouse_buttons_update (\<lambda>b. b AND NOT (push_bit (unat (code - MS_BTN1)) 1))) s
       else if code = MS_ACL0 then s\<lparr>mousekey_accel := mousekey_accel s AND NOT (push_bit 0 1)\<rparr>
       else if code = MS_ACL1 then s\<lparr>mousekey_accel := mousekey_accel s AND NOT (push_bit 1 1)\<rparr>
       else if code = MS_ACL2 then s\<lparr>mousekey_accel := mousekey_accel s AND NOT (push_bit 2 1)\<rparr>
       else s))"

definition register_mouse :: "mousekey_settings \<Rightarrow> u32 \<Rightarrow> u8 \<Rightarrow> bool \<Rightarrow> mousekey \<Rightarrow> mousekey" where
  "register_mouse k now mouse_keycode pressed s =
    mousekey_send now (if pressed then mousekey_on k mouse_keycode s else mousekey_off mouse_keycode s)"

text \<open>What the calls that the actions record do to the mouse keys at time \<open>now\<close>.\<close>

fun mouse_event :: "mousekey_settings \<Rightarrow> u32 \<Rightarrow> out_event \<Rightarrow> mousekey \<Rightarrow> mousekey" where
  "mouse_event k now (RegisterMouse c down) s = register_mouse k now c down s"
| "mouse_event k now MousekeyClear s = mousekey_clear s"
| "mouse_event k now MousekeySend s = mousekey_send now s"
| "mouse_event k now _ s = s"

text \<open>
  The runs of the mouse keys. \<open>H\<close> collects the mouse keycodes that have been registered and not
  unregistered since; \<open>clear_keyboard\<close> does not release them.
\<close>

inductive mouse_run :: "mousekey_settings \<Rightarrow> u8 set \<Rightarrow> mousekey \<Rightarrow> bool" for k where
  init: "mouse_run k {} mousekey_init"
| press: "mouse_run k H s \<Longrightarrow> mouse_run k (insert c H) (mouse_event k now (RegisterMouse c True) s)"
| release: "mouse_run k H s \<Longrightarrow> mouse_run k (H - {c}) (mouse_event k now (RegisterMouse c False) s)"
| clear: "mouse_run k H s \<Longrightarrow>
    mouse_run k H (mouse_event k now MousekeySend (mouse_event k now MousekeyClear s))"
| task: "mouse_run k H s \<Longrightarrow> mouse_run k H (mousekey_task k now s)"


section \<open>Lemmas on the speed\<close>

lemma sint_int8 [simp]: "- 128 \<le> i \<Longrightarrow> i < 128 \<Longrightarrow> sint (word_of_int i :: s8) = i"
  by (simp add: sint_sbintrunc' signed_take_bit_int_eq_self)

lemma sint_int16: "- 32768 \<le> i \<Longrightarrow> i < 32768 \<Longrightarrow> sint (word_of_int i :: 16 word) = i"
  by (simp add: sint_sbintrunc' signed_take_bit_int_eq_self)

lemma sint_int8_range: "- 128 \<le> sint x" "sint x < 128" for x :: s8
  using sint_range_size [of x] by (simp_all add: word_size)

lemma sint_small_byte: "unat x < 128 \<Longrightarrow> sint x = int (unat x)" for x :: s8
proof -
  assume "unat x < 128"
  then have "- 128 \<le> int (unat x)" "int (unat x) < 128" by linarith+
  then have "- 128 \<le> uint x \<and> uint x < 128" by (simp only: uint_nat)
  then have "sint x = uint x" by (simp add: sint_uint signed_take_bit_int_eq_self)
  then show ?thesis by (simp only: uint_nat)
qed

lemma sint_zero [simp]: "sint x = 0 \<longleftrightarrow> x = 0" for x :: s8
  by (rule signed_eq_0_iff)

text \<open>The speed without its conversions: a ramp between 1 and 127.\<close>

definition clamp_speed :: "nat \<Rightarrow> nat" where
  "clamp_speed n = (if n > 127 then 127 else if n = 0 then 1 else n)"

definition ramp :: "nat \<Rightarrow> nat \<Rightarrow> nat \<Rightarrow> nat \<Rightarrow> nat" where
  "ramp delta steady n r = (if r = 0 then delta else if n \<le> r then delta * steady else (delta * steady * r) div n)"

lemma clamp_speed_range: "1 \<le> clamp_speed n" "clamp_speed n \<le> 127"
  by (simp_all add: clamp_speed_def)

lemma clamp_speed_mono: "m \<le> n \<Longrightarrow> clamp_speed m \<le> clamp_speed n"
  by (auto simp: clamp_speed_def)

lemma ramp_mono:
  assumes "0 < r" "r \<le> r'"
  shows "ramp delta steady n r \<le> ramp delta steady n r'"
proof (cases "n \<le> r'")
  case True
  have "(delta * steady * r) div n \<le> delta * steady" if "r < n"
    using div_le_mono [of "delta * steady * r" "delta * steady * n" n] that by simp
  then show ?thesis using assms True by (auto simp: ramp_def)
qed (use assms in \<open>auto simp: ramp_def intro: div_le_mono mult_le_mono2\<close>)

lemma unat_clamped:
  "unat (if unat u > 127 then of_nat 127 else if u = 0 then 1 else ucast u :: u8) = clamp_speed (unat u)"
  for u :: u16
proof (cases "unat u > 127")
  case False
  then have "unat (ucast u :: u8) = unat u" by (simp add: unsigned_ucast_eq take_bit_nat_eq_self)
  then show ?thesis using False by (simp add: clamp_speed_def unat_eq_0_word)
qed (simp add: clamp_speed_def)

lemma unit_as_speed:
  assumes "n < 65536"
  shows "unat (let unit :: u16 = of_nat n
     in if unat unit > 127 then of_nat 127 else if unit = 0 then 1 else ucast unit :: u8) = clamp_speed n"
proof -
  have "unat (of_nat n :: u16) = n" using assms by (simp add: unat_of_nat)
  then show ?thesis unfolding Let_def unat_clamped by (rule arg_cong)
qed

lemma ramp_bound: "delta * steady * 1 < 65536 \<Longrightarrow> delta < 65536 \<Longrightarrow> ramp delta steady n r < 65536"
  using div_le_mono [of "delta * steady * r" "delta * steady * n" n]
  by (cases "n = 0") (auto simp: ramp_def not_le)

definition held_speed :: "nat \<Rightarrow> nat \<Rightarrow> nat \<Rightarrow> u8 \<Rightarrow> nat \<Rightarrow> nat" where
  "held_speed delta steady n accel r = clamp_speed
    (if bit accel 0 then (delta * steady) div 4 else if bit accel 1 then (delta * steady) div 2
     else if bit accel 2 then delta * steady else ramp delta steady n r)"

lemma unat_move_unit:
  "unat (move_unit k s) = held_speed MOUSEKEY_MOVE_DELTA (unat (mk_max_speed k))
    (unat (mk_time_to_max k)) (mousekey_accel s) (unat (mousekey_repeat s))"
proof -
  define m where "m = unat (mk_max_speed k)"
  have m: "m < 256" using unsigned_less [of "mk_max_speed k"] by (simp add: m_def)
  define n where "n = (if bit (mousekey_accel s) 0 then (8 * m) div 4
     else if bit (mousekey_accel s) 1 then (8 * m) div 2 else if bit (mousekey_accel s) 2 then 8 * m
     else ramp 8 m (unat (mk_time_to_max k)) (unat (mousekey_repeat s)))"
  have "n < 65536" using m by (auto simp: n_def intro: ramp_bound)
  moreover have "move_unit k s = (let unit :: u16 = of_nat n
     in if unat unit > 127 then of_nat 127 else if unit = 0 then 1 else ucast unit)"
    unfolding move_unit_def m_def [symmetric]
    by (simp add: n_def ramp_def word_le_nat_alt unat_eq_0_word cong: if_cong)
  ultimately show ?thesis by (simp add: unit_as_speed held_speed_def n_def m_def)
qed

lemma unat_wheel_unit:
  "unat (wheel_unit k s) = held_speed MOUSEKEY_WHEEL_DELTA (unat (mk_wheel_max_speed k))
    (unat (mk_wheel_time_to_max k)) (mousekey_accel s) (unat (mousekey_wheel_repeat s))"
proof -
  define m where "m = unat (mk_wheel_max_speed k)"
  have m: "m < 256" using unsigned_less [of "mk_wheel_max_speed k"] by (simp add: m_def)
  define n where "n = (if bit (mousekey_accel s) 0 then (1 * m) div 4
     else if bit (mousekey_accel s) 1 then (1 * m) div 2 else if bit (mousekey_accel s) 2 then 1 * m
     else ramp 1 m (unat (mk_wheel_time_to_max k)) (unat (mousekey_wheel_repeat s)))"
  have "n < 65536" using m by (auto simp: n_def intro: ramp_bound)
  moreover have "wheel_unit k s = (let unit :: u16 = of_nat n
     in if unat unit > 127 then of_nat 127 else if unit = 0 then 1 else ucast unit)"
    unfolding wheel_unit_def m_def [symmetric]
    by (simp add: n_def ramp_def word_le_nat_alt unat_eq_0_word cong: if_cong)
  ultimately show ?thesis by (simp add: unit_as_speed held_speed_def n_def m_def)
qed

lemma unit_ranges [simp]:
  "1 \<le> unat (move_unit k s)" "unat (move_unit k s) \<le> 127"
  "1 \<le> unat (wheel_unit k s)" "unat (wheel_unit k s) \<le> 127"
  by (simp_all only: unat_move_unit unat_wheel_unit held_speed_def clamp_speed_range)

text \<open>From the first repeat on the speed grows with the repeats, up to the steady speed.\<close>

lemma held_speed_mono:
  "0 < r \<Longrightarrow> r \<le> r' \<Longrightarrow> held_speed delta steady n accel r \<le> held_speed delta steady n accel r'"
  by (auto simp: held_speed_def intro: clamp_speed_mono ramp_mono)

lemma sint_times_inv_sqrt2:
  "sint (times_inv_sqrt2 x) = sgn (sint x) * ((\<bar>sint x\<bar> * 181 + 128) div 256)"
proof -
  define i where "i = sint x"
  have i: "- 128 \<le> i" "i < 128" unfolding i_def by (rule sint_int8_range)+
  have n: "sint (word_of_int (i * 181) :: 16 word) = i * 181" using i by (intro sint_int16) auto
  have q: "0 \<le> (\<bar>i\<bar> * 181 + 128) div 256" "(\<bar>i\<bar> * 181 + 128) div 256 < 128"
    using i by (auto simp: abs_if)
  have d: "(if i * 181 < 0 then (i * 181 - 256 sdiv 2) sdiv 256 else (i * 181 + 256 sdiv 2) sdiv 256)
      = sgn i * ((\<bar>i\<bar> * 181 + 128) div 256)"
    by (auto simp: signed_divide_int_def sgn_if abs_if)
  have "- 128 \<le> sgn i * ((\<bar>i\<bar> * 181 + 128) div 256) \<and> sgn i * ((\<bar>i\<bar> * 181 + 128) div 256) < 128"
    using q by (auto simp: sgn_if)
  then have "sint (word_of_int (sgn i * ((\<bar>i\<bar> * 181 + 128) div 256)) :: s8)
      = sgn i * ((\<bar>i\<bar> * 181 + 128) div 256)"
    by (intro sint_int8) auto
  then show ?thesis
    unfolding times_inv_sqrt2_def Let_def i_def [symmetric] n d .
qed

text \<open>The result is never 0 for a move that is not 0: the assignments of 1 that follow never happen.\<close>

lemma times_inv_sqrt2_sign:
  "sgn (sint (times_inv_sqrt2 x)) = sgn (sint x)" "\<bar>sint (times_inv_sqrt2 x)\<bar> \<le> \<bar>sint x\<bar>"
  "times_inv_sqrt2 x = 0 \<longleftrightarrow> x = 0"
proof -
  define a where "a = \<bar>sint x\<bar>"
  have a: "0 \<le> a" "a = 0 \<longleftrightarrow> sint x = 0" by (simp_all add: a_def)
  have r: "sint (times_inv_sqrt2 x) = sgn (sint x) * ((a * 181 + 128) div 256)"
    by (simp add: sint_times_inv_sqrt2 a_def)
  have p: "0 < (a * 181 + 128) div 256" if "0 < a" using that by (simp add: pos_imp_zdiv_pos_iff)
  have le: "(a * 181 + 128) div 256 \<le> a"
  proof (cases "a = 0")
    case False
    then have "a * 181 + 128 < (a + 1) * 256" using a by simp
    then have "(a * 181 + 128) div 256 < a + 1" by (simp add: div_less_iff_less_mult)
    then show ?thesis by simp
  qed simp
  show s: "sgn (sint (times_inv_sqrt2 x)) = sgn (sint x)"
  proof (cases "a = 0")
    case False
    then have "sgn ((a * 181 + 128) div 256) = 1" using p a(1) by (simp add: sgn_if)
    then show ?thesis by (simp add: r sgn_mult)
  next
    case True
    then have "sint x = 0" using a(2) by blast
    then show ?thesis unfolding r by (simp only: sgn_0 mult_zero_left)
  qed
  show "\<bar>sint (times_inv_sqrt2 x)\<bar> \<le> \<bar>sint x\<bar>"
    using le a(1) p unfolding r abs_mult a_def [symmetric]
    by (cases "a = 0") (auto simp: abs_if sgn_if)
  show "times_inv_sqrt2 x = 0 \<longleftrightarrow> x = 0"
    using arg_cong [OF s, of "\<lambda>z. z = 0"] by (simp only: sgn_0_0 sint_zero)
qed

lemma directed_sign:
  assumes "1 \<le> unat u" "unat u \<le> 127" "x \<noteq> 0"
  shows "sint (directed u x) = sgn (sint x) * int (unat u)"
proof -
  define m where "m = int (unat u)"
  have m: "0 \<le> m" "m \<le> 127" using assms unfolding m_def by linarith+
  have u: "uint u = m" by (simp add: m_def)
  have "sint x \<noteq> 0" using assms(3) by simp
  then have "directed u x = word_of_int (sgn (sint x) * m)"
    unfolding directed_def u by (simp add: sgn_if)
  moreover have "- 128 \<le> sgn (sint x) * m" "sgn (sint x) * m < 128" using m by (auto simp: sgn_if)
  ultimately show ?thesis by (simp only: sint_int8 m_def)
qed

lemma diagonal_move_simp:
  "diagonal_move (a, b) = (if a \<noteq> 0 \<and> b \<noteq> 0 then (times_inv_sqrt2 a, times_inv_sqrt2 b) else (a, b))"
  by (simp add: diagonal_move_def Let_def times_inv_sqrt2_sign)


section \<open>What the task reports\<close>

text \<open>
  The movement that the user should see: \<open>u\<close> along one axis, and \<open>u\<close> divided by the square root of 2
  (181/256, rounded to the nearest) along each axis of a diagonal.
\<close>

definition movement :: "nat \<Rightarrow> int \<times> int \<Rightarrow> int \<times> int" where
  "movement u = (\<lambda>(a, b).
    (let v = (if a \<noteq> 0 \<and> b \<noteq> 0 then (int u * 181 + 128) div 256 else int u) in (sgn a * v, sgn b * v)))"

definition bump :: "nat \<Rightarrow> nat" where
  "bump n = min 255 (Suc n)"

text \<open>When the task moves the pointer or the wheel, for a held movement \<open>r\<close>.\<close>

definition cursor_due :: "mousekey_settings \<Rightarrow> u32 \<Rightarrow> report_mouse \<Rightarrow> mousekey \<Rightarrow> bool" where
  "cursor_due k now r s \<longleftrightarrow> (mouse_x r \<noteq> 0 \<or> mouse_y r \<noteq> 0) \<and>
    unat (timer_elapsed now (last_timer_c s)) >
      (if mousekey_repeat s \<noteq> 0 then unat (mk_interval k) else unat (mk_delay k) * 10)"

definition wheel_due :: "mousekey_settings \<Rightarrow> u32 \<Rightarrow> report_mouse \<Rightarrow> mousekey \<Rightarrow> bool" where
  "wheel_due k now r s \<longleftrightarrow> (mouse_v r \<noteq> 0 \<or> mouse_h r \<noteq> 0) \<and>
    unat (timer_elapsed now (last_timer_w s)) >
      (if mousekey_wheel_repeat s \<noteq> 0 then unat (mk_wheel_interval k) else unat (mk_wheel_delay k) * 10)"

lemma unat_bump: "unat (if r = 255 then r else r + 1) = bump (unat r)" for r :: u8
proof (cases "r = 255")
  case False
  then have "unat r \<noteq> unat (255 :: u8)" by (simp only: word_unat_eq_iff not_False_eq_True)
  moreover have "unat r < 256" by (rule order_less_le_trans [OF unat_less_exp]) simp
  ultimately have r: "unat r < 255" by simp
  then have "unat (r + 1) = Suc (unat r)" by (simp add: unat_word_ariths)
  then show ?thesis using False r by (simp add: bump_def)
qed (simp add: bump_def)

definition moved :: "u8 \<Rightarrow> s8 \<times> s8 \<Rightarrow> s8 \<times> s8" where
  "moved u = (\<lambda>(x, y).
    diagonal_move (if x \<noteq> 0 then directed u x else 0, if y \<noteq> 0 then directed u y else 0))"

lemma moved_movement:
  assumes "1 \<le> unat u" "unat u \<le> 127" "moved u (x, y) = (a, b)"
  shows "(sint a, sint b) = movement (unat u) (sint x, sint y)"
proof -
  have d: "sint (directed u z) = sgn (sint z) * int (unat u)" if "z \<noteq> 0" for z
    using directed_sign [OF assms(1,2) that] .
  have nz: "directed u z \<noteq> 0" if "z \<noteq> 0" for z
  proof -
    have "sgn (sint z) \<noteq> 0" using that by (simp add: sgn_0_0)
    moreover have "int (unat u) \<noteq> 0" using assms(1) by linarith
    ultimately have "sint (directed u z) \<noteq> 0" unfolding d [OF that] by (simp only: mult_eq_0_iff disj_not1 simp_thms)
    then show ?thesis by (simp only: sint_zero not_False_eq_True)
  qed
  have t: "sint (times_inv_sqrt2 (directed u z)) = sgn (sint z) * ((int (unat u) * 181 + 128) div 256)"
    if "z \<noteq> 0" for z
  proof -
    have "\<bar>sgn (sint z) * int (unat u)\<bar> = int (unat u)"
      using that by (simp add: abs_mult abs_sgn_eq)
    moreover have "sgn (int (unat u)) = 1" using assms(1) by (intro sgn_pos) linarith
    then have "sgn (sgn (sint z) * int (unat u)) = sgn (sint z)" unfolding sgn_mult by simp
    ultimately show ?thesis unfolding sint_times_inv_sqrt2 d [OF that] by (simp only:)
  qed
  show ?thesis
    using assms(3) d [of x] d [of y] t [of x] t [of y] nz [of x] nz [of y]
    by (auto simp: moved_def diagonal_move_simp movement_def Let_def split: if_splits)
qed

definition bumped :: "bool \<Rightarrow> u8 \<Rightarrow> u8" where
  "bumped due n = (if due \<and> n \<noteq> 255 then n + 1 else n)"

lemma bumped_False [simp]: "bumped False n = n"
  by (simp add: bumped_def)

lemma bump_fields:
  "(if mousekey_repeat s \<noteq> 255 then s\<lparr>mousekey_repeat := mousekey_repeat s + 1\<rparr> else s)
    = s\<lparr>mousekey_repeat := if mousekey_repeat s = 255 then 255 else mousekey_repeat s + 1\<rparr>"
  "(if mousekey_wheel_repeat s \<noteq> 255 then s\<lparr>mousekey_wheel_repeat := mousekey_wheel_repeat s + 1\<rparr> else s)
    = s\<lparr>mousekey_wheel_repeat := if mousekey_wheel_repeat s = 255 then 255 else mousekey_wheel_repeat s + 1\<rparr>"
  by (cases s; simp)+

lemma move_cursor_moved:
  "move_cursor k now r s =
    (if cursor_due k now r s
     then let n = bumped True (mousekey_repeat s);
              p = moved (move_unit k (s\<lparr>mousekey_repeat := n\<rparr>)) (mouse_x r, mouse_y r)
       in s\<lparr>mousekey_repeat := n, mouse_report := (mouse_report s)\<lparr>mouse_x := fst p, mouse_y := snd p\<rparr>\<rparr>
     else s)"
  unfolding move_cursor_def Let_def bump_fields cursor_due_def
  by (simp add: moved_def case_prod_beta bumped_def cong: if_cong)

lemma move_wheel_moved:
  "move_wheel k now r s =
    (if wheel_due k now r s
     then let n = bumped True (mousekey_wheel_repeat s);
              p = moved (wheel_unit k (s\<lparr>mousekey_wheel_repeat := n\<rparr>)) (mouse_v r, mouse_h r)
       in s\<lparr>mousekey_wheel_repeat := n, mouse_report := (mouse_report s)\<lparr>mouse_v := fst p, mouse_h := snd p\<rparr>\<rparr>
     else s)"
  unfolding move_wheel_def Let_def bump_fields wheel_due_def
  by (simp add: moved_def case_prod_beta bumped_def cong: if_cong)

lemma moved_eq_0:
  assumes "1 \<le> unat u" "unat u \<le> 127"
  shows "fst (moved u (x, y)) = 0 \<longleftrightarrow> x = 0" "snd (moved u (x, y)) = 0 \<longleftrightarrow> y = 0"
proof -
  obtain a b where p: "moved u (x, y) = (a, b)" by fastforce
  define m where "m = int (unat u)"
  have m: "0 < m" using assms(1) unfolding m_def by linarith
  then have "0 < (m * 181 + 128) div 256" by (simp add: pos_imp_zdiv_pos_iff)
  then have "sint a = 0 \<longleftrightarrow> sint x = 0" "sint b = 0 \<longleftrightarrow> sint y = 0"
    using moved_movement [OF assms p] m unfolding movement_def m_def [symmetric]
    by (auto simp: Let_def sgn_0_0 split: if_splits)
  then show "fst (moved u (x, y)) = 0 \<longleftrightarrow> x = 0" "snd (moved u (x, y)) = 0 \<longleftrightarrow> y = 0"
    by (simp_all add: p)
qed

lemmas moved_units_eq_0 [simp] =
  moved_eq_0 [OF unit_ranges(1,2)] moved_eq_0 [OF unit_ranges(3,4)]

lemma units_read_counters [simp]:
  "move_unit k (s\<lparr>mouse_report := r\<rparr>) = move_unit k s"
  "move_unit k (s\<lparr>mouse_report := r, mousekey_repeat := n\<rparr>) = move_unit k (s\<lparr>mousekey_repeat := n\<rparr>)"
  "wheel_unit k (s\<lparr>mouse_report := r\<rparr>) = wheel_unit k s"
  "wheel_unit k (s\<lparr>mousekey_repeat := n\<rparr>) = wheel_unit k s"
  "wheel_unit k (s\<lparr>mouse_report := r, mousekey_wheel_repeat := n\<rparr>) = wheel_unit k (s\<lparr>mousekey_wheel_repeat := n\<rparr>)"
  "wheel_unit k (s\<lparr>mousekey_repeat := m, mousekey_wheel_repeat := n\<rparr>)
    = wheel_unit k (s\<lparr>mousekey_wheel_repeat := n\<rparr>)"
  "wheel_unit k (s\<lparr>mouse_report := r, mousekey_repeat := m, mousekey_wheel_repeat := n\<rparr>)
    = wheel_unit k (s\<lparr>mousekey_wheel_repeat := n\<rparr>)"
  by (simp_all add: move_unit_def wheel_unit_def)

lemma due_reads [simp]:
  "cursor_due k now r (s\<lparr>mouse_report := q\<rparr>) = cursor_due k now r s"
  "wheel_due k now r (s\<lparr>mouse_report := q\<rparr>) = wheel_due k now r s"
  "wheel_due k now r (s\<lparr>mousekey_repeat := n\<rparr>) = wheel_due k now r s"
  by (simp_all add: cursor_due_def wheel_due_def)

lemma report_fields:
  "r\<lparr>mouse_x := a, mouse_y := b, mouse_v := c, mouse_h := d\<rparr> =
    \<lparr>mouse_buttons = mouse_buttons r, mouse_x = a, mouse_y = b, mouse_v = c, mouse_h = d\<rparr>"
  by (cases r) simp

lemma due_moves:
  "cursor_due k now r s \<Longrightarrow> mouse_x r \<noteq> 0 \<or> mouse_y r \<noteq> 0"
  "wheel_due k now r s \<Longrightarrow> mouse_v r \<noteq> 0 \<or> mouse_h r \<noteq> 0"
  by (simp_all add: cursor_due_def wheel_due_def)

definition task_report :: "mousekey_settings \<Rightarrow> u32 \<Rightarrow> mousekey \<Rightarrow> report_mouse" where
  "task_report k now s =
    (let r = mouse_report s;
         p = (if cursor_due k now (mouse_report s) s
              then moved (move_unit k (s\<lparr>mousekey_repeat := bumped True (mousekey_repeat s)\<rparr>)) (mouse_x r, mouse_y r)
              else (0, 0));
         q = (if wheel_due k now (mouse_report s) s
              then moved (wheel_unit k (s\<lparr>mousekey_wheel_repeat := bumped True (mousekey_wheel_repeat s)\<rparr>))
                (mouse_v r, mouse_h r)
              else (0, 0))
     in \<lparr>mouse_buttons = mouse_buttons r, mouse_x = fst p, mouse_y = snd p, mouse_v = fst q, mouse_h = snd q\<rparr>)"

lemma task_report_sent:
  "should_mousekey_report_send (task_report k now s) \<longleftrightarrow> cursor_due k now (mouse_report s) s \<or> wheel_due k now (mouse_report s) s"
  "mouse_x (task_report k now s) \<noteq> 0 \<or> mouse_y (task_report k now s) \<noteq> 0 \<longleftrightarrow> cursor_due k now (mouse_report s) s"
  "mouse_v (task_report k now s) \<noteq> 0 \<or> mouse_h (task_report k now s) \<noteq> 0 \<longleftrightarrow> wheel_due k now (mouse_report s) s"
  using due_moves [of k now "mouse_report s" s]
  by (auto simp: should_mousekey_report_send_def task_report_def Let_def)

lemma mousekey_task_result:
  "mousekey_task k now s =
    (let c = cursor_due k now (mouse_report s) s; w = wheel_due k now (mouse_report s) s in
      s\<lparr>mousekey_repeat := bumped c (mousekey_repeat s),
        mousekey_wheel_repeat := bumped w (mousekey_wheel_repeat s),
        last_timer_c := (if c then timer_read now else last_timer_c s),
        last_timer_w := (if w then timer_read now else last_timer_w s),
        mouse_sent := mouse_sent s @ (if c \<or> w then [task_report k now s] else [])\<rparr>)"
proof -
  let ?r = "mouse_report s"
  define s1 where "s1 = move_wheel k now ?r (move_cursor k now ?r (s\<lparr>mouse_report := no_movement ?r\<rparr>))"
  let ?c = "cursor_due k now (mouse_report s) s" and ?w = "wheel_due k now (mouse_report s) s"
  have s1: "s1 = s\<lparr>mouse_report := task_report k now s, mousekey_repeat := bumped ?c (mousekey_repeat s),
      mousekey_wheel_repeat := bumped ?w (mousekey_wheel_repeat s)\<rparr>"
    unfolding s1_def
    by (intro mousekey.equality; cases ?c; cases ?w; simp add: move_cursor_moved move_wheel_moved
        task_report_def no_movement_def Let_def report_fields)
  have "\<not> has_mouse_report_changed (task_report k now s) ?r" if "\<not> ?c" "\<not> ?w"
    using that task_report_sent [of k now s]
    by (auto simp: has_mouse_report_changed_def task_report_def Let_def)
  then have "mousekey_task k now s = (if ?c \<or> ?w then mousekey_send now s1 else s1)\<lparr>mouse_report := ?r\<rparr>"
    unfolding mousekey_task_def Let_def s1_def [symmetric]
    using task_report_sent(1) [of k now s] by (auto simp: s1)
  then show ?thesis
    using task_report_sent(2,3) [of k now s]
    by (intro mousekey.equality; cases ?c; cases ?w; simp add: s1 mousekey_send_def Let_def)
qed

lemma unat_bumped: "unat (bumped True n) = bump (unat n)"
  unfolding unat_bump [symmetric] by (simp add: bumped_def)

lemma task_report_movement:
  defines "u \<equiv> \<lambda>k s. held_speed MOUSEKEY_MOVE_DELTA (unat (mk_max_speed k)) (unat (mk_time_to_max k))
      (mousekey_accel s) (bump (unat (mousekey_repeat s)))"
    and "v \<equiv> \<lambda>k s. held_speed MOUSEKEY_WHEEL_DELTA (unat (mk_wheel_max_speed k))
      (unat (mk_wheel_time_to_max k)) (mousekey_accel s) (bump (unat (mousekey_wheel_repeat s)))"
  shows "(sint (mouse_x (task_report k now s)), sint (mouse_y (task_report k now s))) =
      (if cursor_due k now (mouse_report s) s
       then movement (u k s) (sint (mouse_x (mouse_report s)), sint (mouse_y (mouse_report s))) else (0, 0))"
    "(sint (mouse_v (task_report k now s)), sint (mouse_h (task_report k now s))) =
      (if wheel_due k now (mouse_report s) s
       then movement (v k s) (sint (mouse_v (mouse_report s)), sint (mouse_h (mouse_report s))) else (0, 0))"
  unfolding u_def v_def task_report_def Let_def
  using moved_movement [OF unit_ranges(1,2) surjective_pairing]
    moved_movement [OF unit_ranges(3,4) surjective_pairing]
  by (simp_all add: unat_move_unit unat_wheel_unit unat_bumped)

text \<open>
  C38: the task of the mouse keys sends a report exactly when a held movement of the pointer or of the wheel is
  due, that is, when more than the interval has passed since the last one, or more than the initial delay before
  the first repeat. The report carries the held buttons and the held directions. The speed is that of the number
  of repeats, or of the held acceleration key, and lies between 1 and 127; a diagonal is slowed down to 181/256
  along each axis and keeps its direction. What is held stays as it is, and when nothing is due nothing changes.
\<close>

theorem mousekey_task_moves:
  "let s' = mousekey_task k now s; r = mouse_report s;
     c = cursor_due k now r s; w = wheel_due k now r s;
     u = held_speed 8 (unat (mk_max_speed k)) (unat (mk_time_to_max k)) (mousekey_accel s)
       (bump (unat (mousekey_repeat s)));
     v = held_speed 1 (unat (mk_wheel_max_speed k)) (unat (mk_wheel_time_to_max k)) (mousekey_accel s)
       (bump (unat (mousekey_wheel_repeat s)))
   in mouse_report s' = r \<and> mousekey_accel s' = mousekey_accel s \<and>
     u \<in> {1..127} \<and> v \<in> {1..127} \<and>
     (if c \<or> w then
       \<exists>q. mouse_sent s' = mouse_sent s @ [q] \<and> mouse_buttons q = mouse_buttons r \<and>
         (sint (mouse_x q), sint (mouse_y q)) =
           (if c then movement u (sint (mouse_x r), sint (mouse_y r)) else (0, 0)) \<and>
         (sint (mouse_v q), sint (mouse_h q)) =
           (if w then movement v (sint (mouse_v r), sint (mouse_h r)) else (0, 0)) \<and>
         last_timer_c s' = (if c then timer_read now else last_timer_c s) \<and>
         last_timer_w s' = (if w then timer_read now else last_timer_w s)
      else s' = s)"
proof -
  have b: "mouse_buttons (task_report k now s) = mouse_buttons (mouse_report s)"
    by (simp add: task_report_def Let_def)
  have r: "held_speed d m n a i \<in> {1..127}" for d m n a i
    by (simp add: held_speed_def clamp_speed_range [simplified])
  have e: "s\<lparr>mousekey_repeat := mousekey_repeat s, mousekey_wheel_repeat := mousekey_wheel_repeat s,
      last_timer_c := last_timer_c s, last_timer_w := last_timer_w s, mouse_sent := mouse_sent s\<rparr> = s"
    by simp
  show ?thesis
    using task_report_movement [of k now s] b r
    unfolding Let_def mousekey_task_result by (auto simp: e)
qed

text \<open>The held movements repeated at the times \<open>ts\<close>.\<close>

definition mousekey_tasks :: "mousekey_settings \<Rightarrow> u32 list \<Rightarrow> mousekey \<Rightarrow> mousekey" where
  "mousekey_tasks k ts s = fold (mousekey_task k) ts s"

lemma bump_u8: "unat n \<le> bump (unat n)" "bump (unat n) \<le> 255" "0 < bump m" for n :: u8
proof -
  have "unat n < 256" by (rule order_less_le_trans [OF unat_less_exp]) simp
  then show "unat n \<le> bump (unat n)" "bump (unat n) \<le> 255" "0 < bump m" by (simp_all add: bump_def)
qed

definition held_right :: "mousekey \<Rightarrow> bool" where
  "held_right s \<longleftrightarrow> 0 < sint (mouse_x (mouse_report s)) \<and> mouse_y (mouse_report s) = 0 \<and>
    mouse_v (mouse_report s) = 0 \<and> mouse_h (mouse_report s) = 0"

lemma held_right_step:
  assumes "held_right s" and "s' = mousekey_task k now s"
  shows "held_right s'" "mousekey_accel s' = mousekey_accel s"
    "mousekey_repeat s' = mousekey_repeat s \<and> mouse_sent s' = mouse_sent s \<or>
     unat (mousekey_repeat s') = bump (unat (mousekey_repeat s)) \<and>
     map (\<lambda>r. sint (mouse_x r)) (mouse_sent s') = map (\<lambda>r. sint (mouse_x r)) (mouse_sent s) @
       [int (held_speed 8 (unat (mk_max_speed k)) (unat (mk_time_to_max k)) (mousekey_accel s)
         (unat (mousekey_repeat s')))]"
proof -
  have w: "\<not> wheel_due k now (mouse_report s) s" using assms(1) by (simp add: held_right_def wheel_due_def)
  show "held_right s'" "mousekey_accel s' = mousekey_accel s"
    using assms(1) by (simp_all add: assms(2) mousekey_task_result Let_def held_right_def)
  show "mousekey_repeat s' = mousekey_repeat s \<and> mouse_sent s' = mouse_sent s \<or>
     unat (mousekey_repeat s') = bump (unat (mousekey_repeat s)) \<and>
     map (\<lambda>r. sint (mouse_x r)) (mouse_sent s') = map (\<lambda>r. sint (mouse_x r)) (mouse_sent s) @
       [int (held_speed 8 (unat (mk_max_speed k)) (unat (mk_time_to_max k)) (mousekey_accel s)
         (unat (mousekey_repeat s')))]"
    using assms(1) w task_report_movement(1) [of k now s]
    by (cases "cursor_due k now (mouse_report s) s")
      (simp_all add: assms(2) mousekey_task_result Let_def held_right_def movement_def unat_bumped)
qed

lemma held_right_speeds:
  assumes "held_right s" "0 < unat (mousekey_repeat s)"
  shows "\<exists>ns. map (\<lambda>r. sint (mouse_x r)) (mouse_sent (mousekey_tasks k ts s)) =
      map (\<lambda>r. sint (mouse_x r)) (mouse_sent s) @
        map (\<lambda>n. int (held_speed 8 (unat (mk_max_speed k)) (unat (mk_time_to_max k)) (mousekey_accel s) n)) ns \<and>
    sorted ns \<and> (\<forall>n\<in>set ns. unat (mousekey_repeat s) \<le> n)"
  using assms
proof (induction ts arbitrary: s)
  case Nil
  then show ?case by (intro exI [of _ "[]"]) (simp add: mousekey_tasks_def)
next
  case (Cons t ts)
  define s' where "s' = mousekey_task k t s"
  note step = held_right_step [OF Cons.prems(1) s'_def]
  have up: "unat (mousekey_repeat s) \<le> unat (mousekey_repeat s')" using step(3) bump_u8(1) by auto
  then have "0 < unat (mousekey_repeat s')" using Cons.prems(2) by simp
  from Cons.IH [OF step(1) this] obtain ns where ns:
    "map (\<lambda>r. sint (mouse_x r)) (mouse_sent (mousekey_tasks k ts s')) = map (\<lambda>r. sint (mouse_x r)) (mouse_sent s') @
      map (\<lambda>n. int (held_speed 8 (unat (mk_max_speed k)) (unat (mk_time_to_max k)) (mousekey_accel s) n)) ns"
    "sorted ns" "\<forall>n\<in>set ns. unat (mousekey_repeat s') \<le> n"
    unfolding step(2) by blast
  have run: "mousekey_tasks k (t # ts) s = mousekey_tasks k ts s'" by (simp add: mousekey_tasks_def s'_def)
  from step(3) show ?case
  proof
    assume e: "mousekey_repeat s' = mousekey_repeat s \<and> mouse_sent s' = mouse_sent s"
    show ?thesis using ns unfolding run by (simp only: e) blast
  next
    assume "unat (mousekey_repeat s') = bump (unat (mousekey_repeat s)) \<and>
     map (\<lambda>r. sint (mouse_x r)) (mouse_sent s') = map (\<lambda>r. sint (mouse_x r)) (mouse_sent s) @
       [int (held_speed 8 (unat (mk_max_speed k)) (unat (mk_time_to_max k)) (mousekey_accel s)
         (unat (mousekey_repeat s')))]"
    then show ?thesis using ns up order_trans [OF up]
      by (intro exI [of _ "unat (mousekey_repeat s') # ns"]) (auto simp: run)
  qed
qed

text \<open>
  While the key that moves the pointer to the right is held and has repeated once, the task sends moves to
  the right only, none slower than the one before it and all between 1 and 127, at whatever times it runs; once
  the repeats have reached the configured number, all are at the configured steady speed, cut off at 127.
\<close>

theorem mousekey_speeds_up:
  assumes "0 < sint (mouse_x (mouse_report s))" "mouse_y (mouse_report s) = 0"
    "mouse_v (mouse_report s) = 0" "mouse_h (mouse_report s) = 0"
    "mousekey_repeat s \<noteq> 0" "mousekey_accel s = 0"
  shows "\<exists>speeds. map (\<lambda>r. sint (mouse_x r)) (mouse_sent (mousekey_tasks k ts s)) =
      map (\<lambda>r. sint (mouse_x r)) (mouse_sent s) @ speeds \<and>
    sorted speeds \<and> set speeds \<subseteq> {1..127} \<and>
    (mk_time_to_max k \<le> mousekey_repeat s \<longrightarrow>
      set speeds \<subseteq> {max 1 (min 127 (8 * int (unat (mk_max_speed k))))})"
proof -
  define f where "f = (\<lambda>n. int (held_speed 8 (unat (mk_max_speed k)) (unat (mk_time_to_max k)) (mousekey_accel s) n))"
  have h: "held_right s" "0 < unat (mousekey_repeat s)"
    using assms by (simp_all add: held_right_def unat_gt_0)
  from held_right_speeds [OF this, of k ts] obtain ns where ns:
    "map (\<lambda>r. sint (mouse_x r)) (mouse_sent (mousekey_tasks k ts s)) = map (\<lambda>r. sint (mouse_x r)) (mouse_sent s) @ map f ns"
    "sorted ns" "\<forall>n\<in>set ns. unat (mousekey_repeat s) \<le> n"
    unfolding f_def by blast
  have mono: "\<forall>a\<in>set ns. \<forall>b\<in>set ns. a \<le> b \<longrightarrow> f a \<le> f b"
    using h(2) ns(3) by (auto simp: f_def intro!: held_speed_mono)
  then have "sorted (map f ns)" using ns(2) by (auto simp: sorted_map intro: sorted_wrt_mono_rel)
  moreover have "set (map f ns) \<subseteq> {1..127}"
    by (auto simp: f_def held_speed_def clamp_speed_def)
  moreover have "f n = max 1 (min 127 (8 * int (unat (mk_max_speed k))))"
    if "mk_time_to_max k \<le> mousekey_repeat s" "n \<in> set ns" for n
  proof -
    have "unat (mk_time_to_max k) \<le> n" "0 < n" using that ns(3) h(2) by (auto simp: word_le_nat_alt)
    moreover have "int (clamp_speed (8 * m)) = max 1 (min 127 (8 * int m))" for m
      by (auto simp: clamp_speed_def)
    ultimately show ?thesis using assms(6) unfolding f_def held_speed_def ramp_def
      by (simp del: of_nat_unat)
  qed
  ultimately show ?thesis using ns(1) by (intro exI [of _ "map f ns"]) auto
qed

lemma mousekey_speeds_up_witness:
  "\<exists>speeds. map (\<lambda>r. sint (mouse_x r)) (mouse_sent (mousekey_tasks mousekey_defaults [100, 120, 121, 150]
      (mousekey_init\<lparr>mouse_report := report_mouse_zero\<lparr>mouse_x := 8\<rparr>, mousekey_repeat := 30\<rparr>))) = speeds \<and>
    set speeds \<subseteq> {80}"
proof -
  let ?s = "mousekey_init\<lparr>mouse_report := report_mouse_zero\<lparr>mouse_x := 8\<rparr>, mousekey_repeat := 30\<rparr>"
  have "sint (8 :: s8) = 8" using sint_small_byte [of 8] by simp
  then show ?thesis
    using mousekey_speeds_up [of ?s mousekey_defaults "[100, 120, 121, 150]"]
    by (simp add: mousekey_init_def mousekey_defaults_def)
qed

section \<open>What moves belongs to a held key\<close>

text \<open>A field that a pair of opposite keys drives: \<open>neg\<close> holds it below 0, \<open>pos\<close> above.\<close>

definition driven :: "u8 \<Rightarrow> u8 \<Rightarrow> s8 \<Rightarrow> u8 set \<Rightarrow> bool" where
  "driven neg pos z H \<longleftrightarrow> (sint z < 0 \<longrightarrow> neg \<in> H) \<and> (0 < sint z \<longrightarrow> pos \<in> H)"

definition keys_held :: "u8 set \<Rightarrow> mousekey \<Rightarrow> bool" where
  "keys_held H s \<longleftrightarrow>
    driven MS_UP MS_DOWN (mouse_y (mouse_report s)) H \<and> driven MS_LEFT MS_RGHT (mouse_x (mouse_report s)) H \<and>
    driven MS_WHLD MS_WHLU (mouse_v (mouse_report s)) H \<and> driven MS_WHLL MS_WHLR (mouse_h (mouse_report s)) H \<and>
    (\<forall>b < 8. bit (mouse_buttons (mouse_report s)) b \<longrightarrow> MS_BTN1 + of_nat b \<in> H) \<and>
    (\<forall>i < 8. bit (mousekey_accel s) i \<longrightarrow> i < 3 \<and> MS_ACL0 + of_nat i \<in> H)"

definition repeats_ok :: "mousekey \<Rightarrow> bool" where
  "repeats_ok s \<longleftrightarrow>
    (mousekey_repeat s \<noteq> 0 \<longrightarrow> mouse_x (mouse_report s) \<noteq> 0 \<or> mouse_y (mouse_report s) \<noteq> 0) \<and>
    (mousekey_wheel_repeat s \<noteq> 0 \<longrightarrow> mouse_v (mouse_report s) \<noteq> 0 \<or> mouse_h (mouse_report s) \<noteq> 0)"

abbreviation mouse_held :: "u8 set \<Rightarrow> mousekey \<Rightarrow> bool" where
  "mouse_held H s \<equiv> keys_held H s \<and> repeats_ok s"

definition buttons_known :: "mousekey \<Rightarrow> bool" where
  "buttons_known s \<longleftrightarrow>
    (mouse_sent s = [] \<longrightarrow> mouse_buttons (mouse_report s) = 0) \<and>
    (mouse_sent s \<noteq> [] \<longrightarrow> mouse_buttons (last (mouse_sent s)) = mouse_buttons (mouse_report s))"

lemma sint_unit [simp]:
  "sint (move_unit k s) = int (unat (move_unit k s))"
  "sint (wheel_unit k s) = int (unat (wheel_unit k s))"
  "sint (- move_unit k s) = - int (unat (move_unit k s))"
  "sint (- wheel_unit k s) = - int (unat (wheel_unit k s))"
proof -
  have neg: "sint (- u) = - int (unat u)" if "unat u \<le> 127" for u :: u8
  proof -
    have "int (unat u) \<le> 127" "0 \<le> int (unat u)" using that by linarith+
    then have "sint (word_of_int (- int (unat u)) :: s8) = - int (unat u)" by (intro sint_int8) linarith+
    moreover have "word_of_int (- int (unat u)) = - u" by simp
    ultimately show ?thesis by (simp only:)
  qed
  show "sint (move_unit k s) = int (unat (move_unit k s))"
    "sint (wheel_unit k s) = int (unat (wheel_unit k s))"
    by (rule sint_small_byte, rule le_less_trans, rule unit_ranges, simp)+
  show "sint (- move_unit k s) = - int (unat (move_unit k s))"
    "sint (- wheel_unit k s) = - int (unat (wheel_unit k s))"
    by (rule neg, rule unit_ranges)+
qed

lemma units_not_0 [simp]: "move_unit k s \<noteq> 0" "wheel_unit k s \<noteq> 0"
  using unit_ranges [of k s] unfolding sint_zero [symmetric] sint_unit by linarith+

lemma units_pos [simp]: "0 < unat (move_unit k s)" "0 < unat (wheel_unit k s)"
  using unit_ranges [of k s] by linarith+

lemma keys_held_mono: "keys_held H s \<Longrightarrow> keys_held (insert c H) s"
  unfolding keys_held_def driven_def by simp

lemma keys_held_updates:
  assumes "keys_held H s"
  shows "driven MS_UP MS_DOWN z H \<Longrightarrow> keys_held H (on_report (mouse_y_update (\<lambda>_. z)) s)"
    "driven MS_LEFT MS_RGHT z H \<Longrightarrow> keys_held H (on_report (mouse_x_update (\<lambda>_. z)) s)"
    "driven MS_WHLD MS_WHLU z H \<Longrightarrow> keys_held H (on_report (mouse_v_update (\<lambda>_. z)) s)"
    "driven MS_WHLL MS_WHLR z H \<Longrightarrow> keys_held H (on_report (mouse_h_update (\<lambda>_. z)) s)"
  using assms unfolding keys_held_def by simp_all

lemma keys_held_accel:
  assumes "keys_held H s" "n < 3" "MS_ACL0 + of_nat n \<in> H"
  shows "keys_held H (s\<lparr>mousekey_accel := mousekey_accel s OR push_bit n 1\<rparr>)"
proof -
  have "i < 3 \<and> MS_ACL0 + of_nat i \<in> H" if "i < 8" "bit (mousekey_accel s OR push_bit n 1) i" for i
    using that assms unfolding keys_held_def word_bits by blast
  then show ?thesis using assms(1) unfolding keys_held_def by simp
qed

lemma button_of: "b < 8 \<Longrightarrow> IS_MOUSEKEY_BUTTON (MS_BTN1 + of_nat b)"
proof -
  assume "b < 8"
  then have "b = 0 \<or> b = 1 \<or> b = 2 \<or> b = 3 \<or> b = 4 \<or> b = 5 \<or> b = 6 \<or> b = 7" by presburger
  then show ?thesis by (elim disjE) (simp_all add: IS_MOUSEKEY_BUTTON_def)
qed

lemma not_button [simp]:
  "\<not> IS_MOUSEKEY_BUTTON 0xDD" "\<not> IS_MOUSEKEY_BUTTON 0xDE" "\<not> IS_MOUSEKEY_BUTTON 0xDF"
  by (simp_all add: IS_MOUSEKEY_BUTTON_def)

lemma button_cases:
  assumes "IS_MOUSEKEY_BUTTON c"
  shows "c \<notin> {MS_UP, MS_DOWN, MS_LEFT, MS_RGHT, MS_WHLU, MS_WHLD, MS_WHLL, MS_WHLR, MS_ACL0, MS_ACL1, MS_ACL2}"
    and "b < 8 \<Longrightarrow> MS_BTN1 + of_nat b = c \<longleftrightarrow> b = unat (c - MS_BTN1)"
proof -
  show "c \<notin> {MS_UP, MS_DOWN, MS_LEFT, MS_RGHT, MS_WHLU, MS_WHLD, MS_WHLL, MS_WHLR, MS_ACL0, MS_ACL1, MS_ACL2}"
    using assms by (auto simp: IS_MOUSEKEY_BUTTON_def)
  assume b: "b < 8"
  then have u: "unat (of_nat b :: u8) = b" by (simp add: unat_of_nat)
  show "MS_BTN1 + of_nat b = c \<longleftrightarrow> b = unat (c - MS_BTN1)"
  proof
    assume "MS_BTN1 + of_nat b = c"
    then have "c - MS_BTN1 = of_nat b" by (auto simp: algebra_simps)
    then show "b = unat (c - MS_BTN1)" using u by simp
  next
    assume "b = unat (c - MS_BTN1)"
    then have "of_nat b = c - MS_BTN1" by simp
    then show "MS_BTN1 + of_nat b = c" by simp
  qed
qed

lemma keys_held_button:
  assumes "keys_held H s" "IS_MOUSEKEY_BUTTON c" "c \<in> H"
  shows "keys_held H (on_report (mouse_buttons_update (\<lambda>b. b OR push_bit (unat (c - MS_BTN1)) 1)) s)"
proof -
  have old: "\<forall>i < 8. bit (mouse_buttons (mouse_report s)) i \<longrightarrow> MS_BTN1 + of_nat i \<in> H"
    using assms(1) unfolding keys_held_def by (elim conjE)
  have "MS_BTN1 + of_nat i \<in> H"
    if i: "i < 8" and b: "bit (mouse_buttons (mouse_report s) OR push_bit (unat (c - MS_BTN1)) 1) i" for i
  proof (cases "bit (mouse_buttons (mouse_report s)) i")
    case False
    then have "i = unat (c - MS_BTN1)" using b by (simp add: word_bits)
    then have "MS_BTN1 + of_nat i = c" using button_cases(2) [OF assms(2) i] by blast
    then show ?thesis using assms(3) by (simp only:)
  qed (use old i in blast)
  then show ?thesis using assms(1) unfolding keys_held_def by simp
qed

lemma keys_held_if:
  "(b \<Longrightarrow> keys_held H x) \<Longrightarrow> (\<not> b \<Longrightarrow> keys_held H y) \<Longrightarrow> keys_held H (if b then x else y)"
  by simp

lemma mousekey_on_held: "mouse_held H s \<Longrightarrow> mouse_held (insert c H) (mousekey_on k c s)"
proof -
  assume h: "mouse_held H s"
  note k = keys_held_mono [OF conjunct1 [OF h], of c]
  have "keys_held (insert c H) (mousekey_on k c s)"
    unfolding mousekey_on_def
    by (intro keys_held_if k keys_held_updates [OF k] keys_held_button [OF k] keys_held_accel [OF k])
      (simp_all add: driven_def)
  moreover have "repeats_ok (mousekey_on k c s)"
    using conjunct2 [OF h] unfolding mousekey_on_def repeats_ok_def by simp
  ultimately show ?thesis by simp
qed

text \<open>A release only clears: what is set afterwards was set before, and belongs to another key.\<close>

lemma reset_repeats_ok: "repeats_ok (reset_repeats s)"
  by (simp add: reset_repeats_def repeats_ok_def Let_def)

lemma reset_repeats_fields [simp]:
  "mouse_report (reset_repeats s) = mouse_report s" "mousekey_accel (reset_repeats s) = mousekey_accel s"
  by (simp_all add: reset_repeats_def Let_def)

lemma mousekey_off_repeats: "repeats_ok (mousekey_off c s)"
  unfolding mousekey_off_def Let_def by (rule reset_repeats_ok)

lemma mousekey_off_fields:
  "mouse_y (mouse_report (mousekey_off c s)) =
    (if c = MS_UP \<and> sint (mouse_y (mouse_report s)) < 0 \<or> c = MS_DOWN \<and> 0 < sint (mouse_y (mouse_report s))
     then 0 else mouse_y (mouse_report s))"
  "mouse_x (mouse_report (mousekey_off c s)) =
    (if c = MS_LEFT \<and> sint (mouse_x (mouse_report s)) < 0 \<or> c = MS_RGHT \<and> 0 < sint (mouse_x (mouse_report s))
     then 0 else mouse_x (mouse_report s))"
  "mouse_v (mouse_report (mousekey_off c s)) =
    (if c = MS_WHLD \<and> sint (mouse_v (mouse_report s)) < 0 \<or> c = MS_WHLU \<and> 0 < sint (mouse_v (mouse_report s))
     then 0 else mouse_v (mouse_report s))"
  "mouse_h (mouse_report (mousekey_off c s)) =
    (if c = MS_WHLL \<and> sint (mouse_h (mouse_report s)) < 0 \<or> c = MS_WHLR \<and> 0 < sint (mouse_h (mouse_report s))
     then 0 else mouse_h (mouse_report s))"
  unfolding mousekey_off_def Let_def reset_repeats_fields
  by (simp_all add: if_distrib [of mouse_report] if_distrib [of mouse_y] if_distrib [of mouse_x]
      if_distrib [of mouse_v] if_distrib [of mouse_h] cong: if_cong)

lemma mousekey_off_bits:
  "mouse_buttons (mouse_report (mousekey_off c s)) =
    (if IS_MOUSEKEY_BUTTON c
     then mouse_buttons (mouse_report s) AND NOT (push_bit (unat (c - MS_BTN1)) 1)
     else mouse_buttons (mouse_report s))"
  "mousekey_accel (mousekey_off c s) =
    (if c = MS_ACL0 then mousekey_accel s AND NOT (push_bit 0 1)
     else if c = MS_ACL1 then mousekey_accel s AND NOT (push_bit 1 1)
     else if c = MS_ACL2 then mousekey_accel s AND NOT (push_bit 2 1) else mousekey_accel s)"
  using button_cases(1) [of c] unfolding mousekey_off_def Let_def reset_repeats_fields
  by (simp_all add: if_distrib [of mouse_report] if_distrib [of mouse_buttons] if_distrib [of mousekey_accel]
      cong: if_cong)

lemma driven_release:
  "driven a b z H \<Longrightarrow> driven a b (if c = a \<and> sint z < 0 \<or> c = b \<and> 0 < sint z then 0 else z) (H - {c})"
  by (auto simp: driven_def)

lemma mousekey_off_held: "mouse_held H s \<Longrightarrow> mouse_held (H - {c}) (mousekey_off c s)"
proof -
  assume "mouse_held H s"
  then have h: "keys_held H s" by (rule conjunct1)
  have "MS_BTN1 + of_nat b \<in> H - {c}" if b: "b < 8" "bit (mouse_buttons (mouse_report (mousekey_off c s))) b" for b
  proof -
    have "bit (mouse_buttons (mouse_report s)) b" "IS_MOUSEKEY_BUTTON c \<Longrightarrow> b \<noteq> unat (c - MS_BTN1)"
      using b by (auto simp: mousekey_off_bits word_bits split: if_splits)
    moreover have "IS_MOUSEKEY_BUTTON (MS_BTN1 + of_nat b)" using button_of b(1) .
    ultimately show ?thesis using h b(1) button_cases(2) [of c b] unfolding keys_held_def by auto
  qed
  moreover have "i < 3 \<and> MS_ACL0 + of_nat i \<in> H - {c}" if i: "i < 8" "bit (mousekey_accel (mousekey_off c s)) i" for i
  proof -
    have a: "bit (mousekey_accel s) i" "c = MS_ACL0 \<Longrightarrow> i \<noteq> 0" "c = MS_ACL1 \<Longrightarrow> i \<noteq> 1" "c = MS_ACL2 \<Longrightarrow> i \<noteq> 2"
      using i by (auto simp: mousekey_off_bits word_bits split: if_splits)
    then have "i < 3" "MS_ACL0 + of_nat i \<in> H" using h i(1) unfolding keys_held_def by auto
    moreover have "MS_ACL0 + of_nat i \<noteq> c" using a(2-4) \<open>i < 3\<close> by (auto simp: less_Suc_eq numeral_3_eq_3)
    ultimately show ?thesis by blast
  qed
  moreover have "driven MS_UP MS_DOWN (mouse_y (mouse_report (mousekey_off c s))) (H - {c})"
    "driven MS_LEFT MS_RGHT (mouse_x (mouse_report (mousekey_off c s))) (H - {c})"
    "driven MS_WHLD MS_WHLU (mouse_v (mouse_report (mousekey_off c s))) (H - {c})"
    "driven MS_WHLL MS_WHLR (mouse_h (mouse_report (mousekey_off c s))) (H - {c})"
    unfolding mousekey_off_fields by (rule driven_release, use h in \<open>simp add: keys_held_def\<close>)+
  ultimately have "keys_held (H - {c}) (mousekey_off c s)" unfolding keys_held_def by blast
  then show ?thesis using mousekey_off_repeats by blast
qed

lemma mousekey_send_fields [simp]:
  "mouse_report (mousekey_send now s) = mouse_report s" "mousekey_accel (mousekey_send now s) = mousekey_accel s"
  "mousekey_repeat (mousekey_send now s) = mousekey_repeat s"
  "mousekey_wheel_repeat (mousekey_send now s) = mousekey_wheel_repeat s"
  "mouse_sent (mousekey_send now s) = mouse_sent s @ [mouse_report s]"
  by (simp_all add: mousekey_send_def Let_def)

lemma mousekey_send_held [simp]:
  "mouse_held H (mousekey_send now s) = mouse_held H s" "buttons_known (mousekey_send now s)"
  by (simp_all add: keys_held_def repeats_ok_def buttons_known_def)

lemma mousekey_task_held:
  "mouse_held H s \<Longrightarrow> mouse_held H (mousekey_task k now s)"
  "buttons_known s \<Longrightarrow> buttons_known (mousekey_task k now s)"
proof -
  have b: "mouse_buttons (task_report k now s) = mouse_buttons (mouse_report s)"
    by (simp add: task_report_def Let_def)
  show "buttons_known s \<Longrightarrow> buttons_known (mousekey_task k now s)"
    by (simp add: mousekey_task_result buttons_known_def b Let_def)
  show "mouse_held H s \<Longrightarrow> mouse_held H (mousekey_task k now s)"
    using due_moves [of k now "mouse_report s" s]
    by (auto simp: mousekey_task_result keys_held_def repeats_ok_def bumped_def Let_def)
qed

lemma mouse_clear_held: "mouse_held H (mousekey_clear s)"
  by (simp add: keys_held_def repeats_ok_def mousekey_clear_def driven_def)

lemma mouse_run_held: "mouse_run k H s \<Longrightarrow> mouse_held H s \<and> buttons_known s"
proof (induction rule: mouse_run.induct)
  case init
  show ?case by (simp add: keys_held_def repeats_ok_def buttons_known_def mousekey_init_def driven_def)
qed (auto simp: register_mouse_def mousekey_on_held mousekey_off_held mousekey_task_held mouse_clear_held)

lemma nothing_held:
  assumes "mouse_held {} s"
  shows "mouse_report s = report_mouse_zero" "mousekey_accel s = 0" "mousekey_repeat s = 0"
    "mousekey_wheel_repeat s = 0"
proof -
  have z: "z = 0" if "driven a b z {}" for a b z using that by (auto simp: driven_def simp flip: sint_zero)
  have w: "u = 0" if "\<forall>b < 8. \<not> bit u b" for u :: u8 using that word_neq_0_bit [of u] by auto
  show "mouse_report s = report_mouse_zero" "mousekey_accel s = 0" "mousekey_repeat s = 0"
    "mousekey_wheel_repeat s = 0"
    using assms unfolding keys_held_def repeats_ok_def by (auto dest!: z intro!: w report_mouse.equality)
qed

text \<open>
  C13: nothing moves or stays pressed by itself. In every run of the mouse keys a movement in a direction is held
  only while a key of this direction is, a button or an acceleration only while its key is, and the buttons of
  the last report sent are the held ones; once every mouse key has been released, in whatever order and however
  they overlapped, the report is empty, the acceleration is reset, the host knows of no button, and the task
  sends nothing any more.
\<close>

theorem mouse_stops_when_released:
  assumes "mouse_run k H s"
  shows "let r = mouse_report s in
    (sint (mouse_y r) < 0 \<longrightarrow> MS_UP \<in> H) \<and> (sint (mouse_y r) > 0 \<longrightarrow> MS_DOWN \<in> H) \<and>
    (sint (mouse_x r) < 0 \<longrightarrow> MS_LEFT \<in> H) \<and> (sint (mouse_x r) > 0 \<longrightarrow> MS_RGHT \<in> H) \<and>
    (sint (mouse_v r) < 0 \<longrightarrow> MS_WHLD \<in> H) \<and> (sint (mouse_v r) > 0 \<longrightarrow> MS_WHLU \<in> H) \<and>
    (sint (mouse_h r) < 0 \<longrightarrow> MS_WHLL \<in> H) \<and> (sint (mouse_h r) > 0 \<longrightarrow> MS_WHLR \<in> H) \<and>
    (\<forall>b < 8. bit (mouse_buttons r) b \<longrightarrow> MS_BTN1 + of_nat b \<in> H) \<and>
    (\<forall>i < 8. bit (mousekey_accel s) i \<longrightarrow> i < 3 \<and> MS_ACL0 + of_nat i \<in> H) \<and>
    (mouse_sent s \<noteq> [] \<longrightarrow> mouse_buttons (last (mouse_sent s)) = mouse_buttons r) \<and>
    (H = {} \<longrightarrow> r = report_mouse_zero \<and> mousekey_accel s = 0 \<and> mousekey_repeat s = 0 \<and>
      mousekey_wheel_repeat s = 0 \<and> mousekey_task k now s = s)"
proof -
  have held: "keys_held H s" "repeats_ok s" "buttons_known s" using mouse_run_held [OF assms] by auto
  have "mousekey_task k now s = s" if "mouse_report s = report_mouse_zero"
    using that by (simp add: mousekey_task_result cursor_due_def wheel_due_def Let_def)
  then have still: "H = {} \<longrightarrow> mouse_report s = report_mouse_zero \<and> mousekey_accel s = 0 \<and>
      mousekey_repeat s = 0 \<and> mousekey_wheel_repeat s = 0 \<and> mousekey_task k now s = s"
    using held(1,2) nothing_held [of s] by blast
  show ?thesis
    using held(1,3) unfolding Let_def keys_held_def driven_def buttons_known_def
    by (elim conjE) (intro conjI still; assumption)
qed

lemma mouse_stops_when_released_witness:
  "let s = mouse_event mousekey_defaults 300 (RegisterMouse MS_RGHT False)
      (mousekey_task mousekey_defaults 200 (mouse_event mousekey_defaults 100 (RegisterMouse MS_RGHT True) mousekey_init))
   in mouse_report s = report_mouse_zero \<and> mousekey_task mousekey_defaults 1000 s = s"
proof -
  have "mouse_run mousekey_defaults ({MS_RGHT} - {MS_RGHT})
    (mouse_event mousekey_defaults 300 (RegisterMouse MS_RGHT False)
      (mousekey_task mousekey_defaults 200 (mouse_event mousekey_defaults 100 (RegisterMouse MS_RGHT True) mousekey_init)))"
    by (intro mouse_run.intros)
  from mouse_stops_when_released [OF this, where now = 1000] show ?thesis unfolding Let_def by blast
qed

end
