(* ===== verification/Action.thy ===== *)
theory Action
  imports Action_Util
begin

text \<open>
  \<open>process_record\<close> and \<open>process_action\<close> of \<open>quantum/action.c\<close>: what a key event, with the tap state that
  the tapping machine has given it, does to modifiers, keys and layers.

  The feature processors and the user's code before and after, \<open>pre_process_record_quantum\<close>,
  \<open>process_record_quantum\<close> and \<open>post_process_record_quantum\<close>, are parameters (\<open>record_hooks\<close>); so is the keymap. A record is passed
  by pointer in C and can be changed: \<open>process_record\<close> returns it. Swap hands, retro tapping,
  \<open>HOLD_ON_OTHER_KEY_PRESS\<close> and \<open>ONESHOT_TAP_TOGGLE\<close> are not compiled; \<open>TAP_HOLD_CAPS_DELAY\<close> is 80 and
  \<open>TAP_CODE_DELAY\<close> 0.
\<close>

section \<open>Key events\<close>

datatype keyevent_type_t = TICK_EVENT | KEY_EVENT | ENCODER_CW_EVENT | ENCODER_CCW_EVENT | COMBO_EVENT
  | DIP_SWITCH_ON_EVENT | DIP_SWITCH_OFF_EVENT

record keyevent_t =
  ev_key :: keypos_t
  ev_time :: u16
  ev_type :: keyevent_type_t
  pressed :: bool

definition IS_NOEVENT :: "keyevent_t \<Rightarrow> bool" where
  "IS_NOEVENT e \<longleftrightarrow> ev_type e = TICK_EVENT"

definition IS_EVENT :: "keyevent_t \<Rightarrow> bool" where
  "IS_EVENT e \<longleftrightarrow> ev_type e \<noteq> TICK_EVENT"

text \<open>\<open>tap_t\<close>, without its reserved bits; the count is a four-bit field.\<close>

record tap_t =
  interrupted :: bool
  tap_count :: nat

record keyrecord_t =
  event :: keyevent_t
  tap :: tap_t

record 'q record_hooks =
  pre_process_record_quantum :: "keyrecord_t \<Rightarrow> 'q action_util_scheme \<Rightarrow> bool \<times> 'q action_util_scheme"
  process_record_quantum :: "keyrecord_t \<Rightarrow> 'q action_util_scheme \<Rightarrow> bool \<times> 'q action_util_scheme"
  post_process_record_quantum :: "keyrecord_t \<Rightarrow> 'q action_util_scheme \<Rightarrow> 'q action_util_scheme"

section \<open>Actions\<close>

abbreviation (input) ACT_LMODS :: u16 where "ACT_LMODS \<equiv> 0"
abbreviation (input) ACT_RMODS :: u16 where "ACT_RMODS \<equiv> 1"
abbreviation (input) ACT_LMODS_TAP :: u16 where "ACT_LMODS_TAP \<equiv> 2"
abbreviation (input) ACT_RMODS_TAP :: u16 where "ACT_RMODS_TAP \<equiv> 3"
abbreviation (input) ACT_SWAP_HANDS :: u16 where "ACT_SWAP_HANDS \<equiv> 6"
abbreviation (input) MODS_ONESHOT :: u8 where "MODS_ONESHOT \<equiv> 0"
abbreviation (input) MODS_TAP_TOGGLE :: u8 where "MODS_TAP_TOGGLE \<equiv> 1"
abbreviation (input) TAPPING_TOGGLE :: nat where "TAPPING_TOGGLE \<equiv> 5"

text \<open>The bit fields of \<open>action_layer_bitop\<close> and \<open>action_usage\<close>.\<close>

definition bitop_bits :: "action_t \<Rightarrow> u16" where "bitop_bits a = a AND 0xF"
definition bitop_xbit :: "action_t \<Rightarrow> bool" where "bitop_xbit a \<longleftrightarrow> bit a 4"
definition bitop_part :: "action_t \<Rightarrow> nat" where "bitop_part a = unat (drop_bit 5 a AND 7)"
definition bitop_on :: "action_t \<Rightarrow> u16" where "bitop_on a = drop_bit 8 a AND 3"
definition bitop_op :: "action_t \<Rightarrow> u16" where "bitop_op a = drop_bit 10 a AND 3"
definition usage_code :: "action_t \<Rightarrow> u16" where "usage_code a = a AND 0x3FF"
definition usage_page :: "action_t \<Rightarrow> u16" where "usage_page a = drop_bit 10 a AND 3"

definition is_tap_action :: "action_t \<Rightarrow> bool" where
  "is_tap_action a \<longleftrightarrow>
    (if kind_id a \<in> {ACT_LMODS_TAP, ACT_RMODS_TAP, ACT_LAYER_TAP, ACT_LAYER_TAP_EXT}
     then layer_tap_code a \<le> 0xE7 \<or> layer_tap_code a \<in> {0xF0, 0xF4}
     else if kind_id a = ACT_SWAP_HANDS then key_code a \<le> 0xE7 \<or> key_code a = 0xF1
     else False)"

definition au_layers :: "(layer_env \<Rightarrow> layer_env) \<Rightarrow> 'q action_util_scheme \<Rightarrow> 'q action_util_scheme" where
  "au_layers f s = s\<lparr>layers := f (layers s)\<rparr>"

definition record_layer_action :: "keymap \<Rightarrow> keypos_t \<Rightarrow> 'q action_util_scheme \<Rightarrow> action_t" where
  "record_layer_action km key s = layer_switch_get_action (keymap_config s) km (layers s) key"

definition is_tap_record :: "keymap \<Rightarrow> keyrecord_t \<Rightarrow> 'q action_util_scheme \<Rightarrow> bool" where
  "is_tap_record km r s \<longleftrightarrow>
    (if IS_NOEVENT (event r) then False else is_tap_action (record_layer_action km (ev_key (event r)) s))"

section \<open>The cases of \<open>process_action\<close>\<close>

text \<open>Modifiers given with a key: real ones when the key is itself a modifier or none.\<close>

definition mods_are_real :: "action_t \<Rightarrow> bool" where
  "mods_are_real a \<longleftrightarrow> IS_MODIFIER_KEYCODE (ucast (key_code a)) \<or> key_code a = 0"

definition process_mods :: "bool \<Rightarrow> u8 \<Rightarrow> action_t \<Rightarrow> 'q action_util_scheme \<Rightarrow> 'q action_util_scheme" where
  "process_mods down mods a s =
    (if down then
       register_code (key_code a)
         (if mods \<noteq> 0
          then send_keyboard_report (if mods_are_real a then add_mods mods s else add_weak_mods mods s)
          else s)
     else
       (let s = unregister_code (key_code a) s
        in if mods \<noteq> 0
           then send_keyboard_report (if mods_are_real a then del_mods mods s else del_weak_mods mods s)
           else s))"

definition action_mods :: "action_t \<Rightarrow> u8" where
  "action_mods a = (if kind_id a \<in> {ACT_LMODS, ACT_LMODS_TAP} then key_mods a else push_bit 4 (key_mods a))"

text \<open>The end of a tap waits before it releases the key.\<close>

definition release_tapped :: "u8 \<Rightarrow> u8 \<Rightarrow> 'q action_util_scheme \<Rightarrow> 'q action_util_scheme" where
  "release_tapped code key s = unregister_code key (emit (WaitMs (if code = 0x39 then 80 else 0)) s)"

definition process_mods_tap :: "bool \<Rightarrow> nat \<Rightarrow> action_t \<Rightarrow> 'q action_util_scheme \<Rightarrow> 'q action_util_scheme" where
  "process_mods_tap down n a s =
    (let mods = action_mods a in
     if layer_tap_code a = MODS_ONESHOT then
       (if \<not> oneshot_enable (keymap_config s) then process_mods down mods a s
        else if down then
          (if n = 0 then register_mods mods s
           else if n = 1 then add_oneshot_mods mods s
           else s)
        else if n = 0 then
          del_oneshot_locked_mods mods (del_oneshot_mods mods (unregister_mods mods s))
        else s)
     else if layer_tap_code a = MODS_TAP_TOGGLE then
       (if down then (if n \<le> TAPPING_TOGGLE then register_mods mods s else s)
        else (if n < TAPPING_TOGGLE then unregister_mods mods s else s))
     else if down then
       (if n > 0 then register_code (key_code a) s else register_mods mods s)
     else
       (if n > 0 then release_tapped (layer_tap_code a) (key_code a) s else unregister_mods mods s))"

definition process_usage :: "bool \<Rightarrow> action_t \<Rightarrow> 'q action_util_scheme \<Rightarrow> 'q action_util_scheme" where
  "process_usage down a s =
    (if usage_page a = 0 then emit (SystemSend (if down then usage_code a else 0)) s
     else if usage_page a = 1 then emit (ConsumerSend (if down then usage_code a else 0)) s
     else s)"

definition process_layer_bitop :: "bool \<Rightarrow> action_t \<Rightarrow> 'q action_util_scheme \<Rightarrow> 'q action_util_scheme" where
  "process_layer_bitop down a s =
    (let shift = bitop_part a * 4;
         bits = push_bit shift (bitop_bits a);
         mask = (if bitop_xbit a then NOT (push_bit shift 0xF) else 0)
     in if bitop_on a = 0 then
          (if \<not> down then
             au_layers
               (if bitop_op a = 0 then default_layer_and (bits OR mask)
                else if bitop_op a = 1 then default_layer_or (bits OR mask)
                else if bitop_op a = 2 then default_layer_xor (bits OR mask)
                else default_layer_set (bits OR mask)) s
           else s)
        else if (if down then bitop_on a AND 1 else bitop_on a AND 2) \<noteq> 0 then
          au_layers
            (if bitop_op a = 0 then layer_and (bits OR mask)
             else if bitop_op a = 1 then layer_or (bits OR mask)
             else if bitop_op a = 2 then layer_xor (bits OR mask)
             else layer_state_set (bits OR mask)) s
        else s)"

definition process_layer_mods :: "bool \<Rightarrow> action_t \<Rightarrow> 'q action_util_scheme \<Rightarrow> 'q action_util_scheme" where
  "process_layer_mods down a s =
    (if down then register_mods (layer_mods_mods a) (au_layers (layer_on (layer_mods_layer a)) s)
     else au_layers (layer_off (layer_mods_layer a)) (unregister_mods (layer_mods_mods a) s))"

definition process_oneshot_layer :: "bool \<Rightarrow> nat \<Rightarrow> u8 \<Rightarrow> 'q action_util_scheme \<Rightarrow> 'q action_util_scheme" where
  "process_oneshot_layer down n layer s =
    (if \<not> oneshot_enable (keymap_config s) then
       au_layers (if down then layer_on layer else layer_off layer) s
     else if down then set_oneshot_layer layer ONESHOT_START s
     else
       (let s = clear_oneshot_layer_state ONESHOT_PRESSED s
        in if n > 1 then clear_oneshot_layer_state ONESHOT_OTHER_KEY_PRESSED s else s))"

definition process_layer_tap :: "bool \<Rightarrow> nat \<Rightarrow> action_t \<Rightarrow> 'q action_util_scheme \<Rightarrow> 'q action_util_scheme" where
  "process_layer_tap down n a s =
    (let layer = layer_tap_val a; code = layer_tap_code a in
     if code = 0xF0 then
       (if down then (if n < TAPPING_TOGGLE then au_layers (layer_invert layer) s else s)
        else (if n \<le> TAPPING_TOGGLE then au_layers (layer_invert layer) s else s))
     else if code = 0xF1 then au_layers (if down then layer_on layer else layer_off layer) s
     else if code = 0xF2 then au_layers (if down then layer_off layer else layer_on layer) s
     else if code = 0xF3 then au_layers (if down then layer_move layer else layer_clear) s
     else if code = 0xF4 then process_oneshot_layer down n layer s
     else if down then (if n > 0 then register_code code s else au_layers (layer_on layer) s)
     else (if n > 0 then release_tapped code code s else au_layers (layer_off layer) s))"

text \<open>A press that ends a one-shot layer; the result says whether the layer is off now.\<close>

definition oneshot_layer_used :: "keyrecord_t \<Rightarrow> action_t \<Rightarrow> 'q action_util_scheme \<Rightarrow> bool \<times> 'q action_util_scheme" where
  "oneshot_layer_used r a s =
    (if is_oneshot_layer_active s \<and> pressed (event r) \<and>
        (kind_id a = ACT_USAGE \<or>
         \<not> (IS_MODIFIER_KEYCODE (ucast (key_code a)) \<or>
            (kind_id a \<in> {ACT_LMODS_TAP, ACT_RMODS_TAP} \<and>
             (layer_tap_code a \<le> MODS_TAP_TOGGLE \<or> tap_count (tap r) = 0)))) \<and>
        oneshot_enable (keymap_config s)
     then (let s = clear_oneshot_layer_state ONESHOT_OTHER_KEY_PRESSED s
           in (\<not> is_oneshot_layer_active s, s))
     else (False, s))"

definition perform_action :: "keyrecord_t \<Rightarrow> action_t \<Rightarrow> 'q action_util_scheme \<Rightarrow> 'q action_util_scheme" where
  "perform_action r a s =
    (let down = pressed (event r); n = tap_count (tap r); k = kind_id a;
         s = (if k \<in> {ACT_LMODS, ACT_RMODS} then process_mods down (action_mods a) a s
              else if k \<in> {ACT_LMODS_TAP, ACT_RMODS_TAP} then process_mods_tap down n a s
              else if k = ACT_USAGE then process_usage down a s
              else if k = ACT_MOUSEKEY then emit (RegisterMouse (key_code a) down) s
              else if k = ACT_LAYER then process_layer_bitop down a s
              else if k = ACT_LAYER_MODS then process_layer_mods down a s
              else if k \<in> {ACT_LAYER_TAP, ACT_LAYER_TAP_EXT} then process_layer_tap down n a s
              else s)
     in if k \<in> {ACT_LAYER, ACT_LAYER_MODS, ACT_LAYER_TAP, ACT_LAYER_TAP_EXT} then emit LedSet s else s)"

section \<open>\<open>process_record\<close> and \<open>process_action\<close>\<close>

text \<open>
  They call each other: a press that has used a one-shot layer is followed by the release of the same
  key. A release does not do so, which is why the recursion ends.
\<close>

lemma oneshot_layer_used_pressed: "oneshot_layer_used r a s = (True, s') \<Longrightarrow> pressed (event r)"
  by (auto simp: oneshot_layer_used_def split: if_splits)

function process_record :: "'q record_hooks \<Rightarrow> keymap \<Rightarrow> keyrecord_t \<Rightarrow> 'q action_util_scheme \<Rightarrow> keyrecord_t \<times> 'q action_util_scheme"
  and process_action :: "'q record_hooks \<Rightarrow> keymap \<Rightarrow> keyrecord_t \<Rightarrow> action_t \<Rightarrow> 'q action_util_scheme \<Rightarrow> keyrecord_t \<times> 'q action_util_scheme"
  where
  "process_record h km r s =
    (if IS_NOEVENT (event r) then (r, s)
     else case process_record_quantum h r s of
       (False, s) \<Rightarrow>
         (r, if is_oneshot_layer_active s \<and> pressed (event r) \<and> oneshot_enable (keymap_config s)
             then clear_oneshot_layer_state ONESHOT_OTHER_KEY_PRESSED s else s)
     | (True, s) \<Rightarrow>
         (case store_or_get_action (keymap_config s) km (pressed (event r)) (ev_key (event r)) (layers s) of
           (a, l) \<Rightarrow>
             (case process_action h km r a (s\<lparr>layers := l\<rparr>) of
               (r, s) \<Rightarrow> (r, post_process_record_quantum h r s))))"
| "process_action h km r a s =
    (case oneshot_layer_used r a s of
      (do_release_oneshot, s) \<Rightarrow>
        (let s = perform_action r a s in
         if do_release_oneshot \<and> get_oneshot_layer_state s AND ONESHOT_PRESSED = 0 then
           (case process_record h km (r\<lparr>event := (event r)\<lparr>pressed := False\<rparr>\<rparr>)
               (au_layer_on (get_oneshot_layer s) s) of
             (r, s) \<Rightarrow> (r, au_layer_off (get_oneshot_layer s) s))
         else (r, s)))"
  by pat_completeness auto
termination
proof (relation "measure (\<lambda>x. case x of
    Inl (h, km, r, s) \<Rightarrow> if pressed (event r) then 3 else 1
  | Inr (h, km, r, a, s) \<Rightarrow> if pressed (event r) then 2 else 0)", goal_cases)
  case (3 h km r a s do_release s1 s2)
  then have "oneshot_layer_used r a s = (True, s1)" by auto
  then have "pressed (event r)" by (rule oneshot_layer_used_pressed)
  then show ?case by simp
qed simp_all

declare process_record.simps [simp del] process_action.simps [simp del]

section \<open>What processing leaves of a record\<close>

text \<open>A press can come back as the release that followed it; nothing else changes.\<close>

lemma process_release:
  assumes "\<not> pressed (event r)"
  shows "process_action h km r a s = (r, perform_action r a s)" "fst (process_record h km r s) = r"
proof -
  show a: "process_action h km r a s = (r, perform_action r a s)" for a s
    using assms by (subst process_action.simps) (simp add: oneshot_layer_used_def)
  show "fst (process_record h km r s) = r"
    by (subst process_record.simps) (auto simp: a split: prod.splits bool.splits)
qed

lemma process_record_record:
  "fst (process_record h km r s) = r \<or>
   fst (process_record h km r s) = r\<lparr>event := (event r)\<lparr>pressed := False\<rparr>\<rparr>"
proof -
  have "fst (process_action h km r a s) = r \<or>
      fst (process_action h km r a s) = r\<lparr>event := (event r)\<lparr>pressed := False\<rparr>\<rparr>" for a s
    using process_release(2) [of "r\<lparr>event := (event r)\<lparr>pressed := False\<rparr>\<rparr>" h km]
    by (subst (1 2) process_action.simps) (auto simp: Let_def split_beta)
  then show ?thesis
    by (subst (1 2) process_record.simps) (auto simp: split_beta split: bool.splits)
qed

lemma process_record_tap [simp]: "tap (fst (process_record h km r s)) = tap r"
  using process_record_record [of h km r s] by auto

lemma process_record_event [simp]:
  "ev_key (event (fst (process_record h km r s))) = ev_key (event r)"
  "ev_type (event (fst (process_record h km r s))) = ev_type (event r)"
  "ev_time (event (fst (process_record h km r s))) = ev_time (event r)"
  using process_record_record [of h km r s] by auto

section \<open>What the keycodes do\<close>

lemma kind_of_class:
  fixes a :: u16
  shows "drop_bit 13 a = 5 \<Longrightarrow> kind_id a = 10 \<or> kind_id a = 11"
    "drop_bit 13 a = 1 \<Longrightarrow> kind_id a = (if bit a 12 then 3 else 2)"
proof -
  have bits: "bit (drop_bit 13 a) n = bit a (13 + n)" for n by (simp add: bit_drop_bit_eq)
  show "kind_id a = 10 \<or> kind_id a = 11" if d: "drop_bit 13 a = 5"
  proof -
    have "bit a 13" "\<not> bit a 14" "bit a 15"
      using bits [of 0] bits [of 1] bits [of 2] unfolding d by simp_all
    then have "kind_id a = (if bit a 12 then 11 else 10)"
      by (intro u16_eqI) (simp_all add: kind_id_def bit_drop_bit_eq)
    then show ?thesis by simp
  qed
  show "kind_id a = (if bit a 12 then 3 else 2)" if d: "drop_bit 13 a = 1"
  proof -
    have "bit a 13" "\<not> bit a 14" "\<not> bit a 15"
      using bits [of 0] bits [of 1] bits [of 2] unfolding d by simp_all
    then show ?thesis by (intro u16_eqI) (simp_all add: kind_id_def bit_drop_bit_eq)
  qed
qed

lemma perform_layer_tap:
  assumes "drop_bit 13 a = 5"
  shows "perform_action r a s = emit LedSet (process_layer_tap (pressed (event r)) (tap_count (tap r)) a s)"
  using kind_of_class(1) [OF assms] by (auto simp: perform_action_def Let_def)

lemma perform_mods_tap:
  assumes "drop_bit 13 a = 1"
  shows "perform_action r a s = process_mods_tap (pressed (event r)) (tap_count (tap r)) a s"
  using kind_of_class(2) [OF assms] by (auto simp: perform_action_def Let_def)

lemma action_mods_tap:
  assumes "drop_bit 13 a = 1"
  shows "action_mods a = (if bit a 12 then push_bit 4 (key_mods a) else key_mods a)"
  using kind_of_class(2) [OF assms] by (simp add: action_mods_def)

text \<open>The bit operations on a layer name its bit.\<close>

lemma layer_bitop_fields:
  fixes l :: u16
  assumes "l < 16" "(op, on) \<in> {(3, 1), (2, 2)}"
  shows "kind_id (layer_bitop op (ucast (l AND 0x1F)) on) = ACT_LAYER \<and>
    bitop_op (layer_bitop op (ucast (l AND 0x1F)) on) = op \<and>
    bitop_on (layer_bitop op (ucast (l AND 0x1F)) on) = on \<and>
    \<not> bitop_xbit (layer_bitop op (ucast (l AND 0x1F)) on) \<and>
    push_bit (bitop_part (layer_bitop op (ucast (l AND 0x1F)) on) * 4)
      (bitop_bits (layer_bitop op (ucast (l AND 0x1F)) on)) = layer_bit (ucast l)"
proof -
  let ?P = "\<lambda>(l :: u16) op on. kind_id (layer_bitop op (ucast (l AND 0x1F)) on) = ACT_LAYER \<and>
    bitop_op (layer_bitop op (ucast (l AND 0x1F)) on) = op \<and>
    bitop_on (layer_bitop op (ucast (l AND 0x1F)) on) = on \<and>
    \<not> bitop_xbit (layer_bitop op (ucast (l AND 0x1F)) on) \<and>
    push_bit (bitop_part (layer_bitop op (ucast (l AND 0x1F)) on) * 4)
      (bitop_bits (layer_bitop op (ucast (l AND 0x1F)) on)) = layer_bit (ucast l)"
  have all: "list_all (\<lambda>l. ?P l 3 1 \<and> ?P l 2 2) [0, 1, 2, 3, 4, 5, 6, 7, 8, 9, 10, 11, 12, 13, 14, 15]"
    by (simp add: layer_bitop_def ACTION_LAYER_BITOP_def ACTION_def kind_id_def bitop_op_def bitop_on_def
        bitop_xbit_def bitop_part_def bitop_bits_def layer_bit_def)
  have "l = of_nat (unat l)" "unat l < 16" using assms(1) by (simp_all add: word_less_nat_alt)
  then have "l \<in> of_nat ` {..< 16}" by (metis image_eqI lessThan_iff)
  also have "\<dots> = set [0, 1, 2, 3, 4, 5, 6, 7, 8, 9, 10, 11, 12, 13, 14, 15]"
    by (simp add: lessThan_nat_numeral lessThan_Suc insert_commute)
  finally have "?P l 3 1 \<and> ?P l 2 2" using all unfolding list_all_iff by blast
  with assms(2) show ?thesis by auto
qed

lemma au_layers_id: "au_layers f s = s\<lparr>layers := f (layers s)\<rparr>"
  by (simp add: au_layers_def)

text \<open>
  C33: the keycodes of the keymap macros do what the manual says of them. \<open>MO\<close> turns its layer on while
  it is held, \<open>TG\<close> toggles it on release, \<open>TO\<close> makes it the only one on press, \<open>OSL\<close> starts a one-shot
  layer; \<open>LT\<close> is its key when tapped and its layer when held; \<open>MT\<close> is its key when tapped and its
  modifiers when held, on the left or right hand as the fifth bit of the modifiers says. The layer keys
  update the LEDs in addition. Layers are below 16, the tap keys of \<open>LT\<close> and \<open>MT\<close> are basic keycodes.
\<close>

theorem keycodes_act:
  assumes "l < 16" and "code = ucast (keycode_config cfg (k AND 0xFF))" "1 < code" "code < 0xF0"
    and "m' = mod_config cfg (ucast (m AND 0x1F))"
  shows "let down = pressed (event r); n = tap_count (tap r); layer = ucast l;
      act = \<lambda>kc. perform_action r (action_for_keycode cfg kc) s;
      leds = \<lambda>f. emit LedSet (au_layers f s);
      mods = (if bit m' 4 then push_bit 4 (m' AND 0xF) else m' AND 0xF)
    in act (MO l) = leds (if down then layer_on layer else layer_off layer) \<and>
       act (TG l) = (if down then emit LedSet s else leds (layer_invert layer)) \<and>
       act (TO l) = (if down then leds (layer_move layer) else emit LedSet s) \<and>
       act (OSL l) = emit LedSet (process_oneshot_layer down n layer s) \<and>
       act (LT l k) =
        (if n = 0 then leds (if down then layer_on layer else layer_off layer)
         else emit LedSet (if down then register_code code s else release_tapped code code s)) \<and>
       act (MT m k) =
        (if n = 0 then (if down then register_mods mods s else unregister_mods mods s)
         else if down then register_code code s else release_tapped code code s)"
proof -
  let ?l = "ucast l :: u8"
  let ?d = "pressed (event r)" and ?n = "tap_count (tap r)"
  have "\<not> bit l n" if "4 \<le> n" for n
  proof -
    have "drop_bit 4 l = 0" 
      using assms(1) unat_drop_bit [of 4 l] by (simp add: unat_eq_0_word [symmetric] word_less_nat_alt)
    then show ?thesis using drop_bit_0_bit that by blast
  qed
  then have l: "l AND 0x1F = l" "l AND 0xF = l" by (rule_tac [!] u16_eqI; simp add: word_bits)+
  have f: "\<not> bit (0xF1 :: u16) n" "\<not> bit (0xF4 :: u16) n" if "8 \<le> n" for n
    by (rule drop_bit_0_bit [OF _ that]; simp)+
  have c: "\<not> bit (keycode_config cfg (k AND 0xFF)) n" if "8 \<le> n" for n
    using that by (rule keycode_config_byte)
  have ops: "code \<noteq> 0xF0" "code \<noteq> 0xF1" "code \<noteq> 0xF2" "code \<noteq> 0xF3" "code \<noteq> 0xF4" "code \<noteq> 0" "code \<noteq> 1"
    using assms(3,4) by auto
  note layer_tap = perform_layer_tap process_layer_tap_def
  have MO: "perform_action r (action_for_keycode cfg (MO l)) s =
      emit LedSet (au_layers (if ?d then layer_on ?l else layer_off ?l) s)"
    using layer_tap_fields [of "0xF1" l, OF f(1)] by (simp add: action_layer_keys layer_tap l)
  have OSL: "perform_action r (action_for_keycode cfg (OSL l)) s =
      emit LedSet (process_oneshot_layer ?d ?n ?l s)"
    using layer_tap_fields [of "0xF4" l, OF f(2)] by (simp add: action_layer_keys layer_tap l)
  have TG: "perform_action r (action_for_keycode cfg (TG l)) s =
      (if ?d then emit LedSet s else emit LedSet (au_layers (layer_invert ?l) s))"
    using layer_bitop_fields [OF assms(1), of 2 2]
    by (simp add: action_layer_keys perform_action_def process_layer_bitop_def layer_xor_def layer_invert_def au_layers_def)
  have TO: "perform_action r (action_for_keycode cfg (TO l)) s =
      (if ?d then emit LedSet (au_layers (layer_move ?l) s) else emit LedSet s)"
    using layer_bitop_fields [OF assms(1), of 3 1]
    by (simp add: action_layer_keys perform_action_def process_layer_bitop_def layer_move_def au_layers_def)
  have LT: "perform_action r (action_for_keycode cfg (LT l k)) s =
      (if ?n = 0 then emit LedSet (au_layers (if ?d then layer_on ?l else layer_off ?l) s)
       else emit LedSet (if ?d then register_code code s else release_tapped code code s))"
    using layer_tap_fields [OF c, of l] ops by (simp add: action_LT layer_tap l assms(2) [symmetric])
  let ?a = "ACTION_MODS_TAP_KEY m' (keycode_config cfg (k AND 0xFF))"
  have cls: "drop_bit 13 ?a = 1" by (rule mods_tap_fields(1) [OF c])
  have mods: "action_mods ?a = (if bit m' 4 then push_bit 4 (m' AND 0xF) else m' AND 0xF)"
  proof -
    have "bit ?a 12 = bit m' 4" by (simp add: ACTION_MODS_TAP_KEY_def ACTION_def c word_bits)
    moreover have "key_mods ?a = m' AND 0xF"
      by (rule u8_eqI; simp add: ACTION_MODS_TAP_KEY_def ACTION_def key_mods_def c word_bits)
    ultimately show ?thesis by (simp add: action_mods_tap [OF cls])
  qed
  have code: "layer_tap_code ?a = code" "key_code ?a = code"
    using mods_tap_fields(3) [OF c] by (simp_all add: layer_tap_code_def key_code_def assms(2))
  have MT: "perform_action r (action_for_keycode cfg (MT m k)) s =
      (if ?n = 0 then (if ?d then register_mods (action_mods ?a) s else unregister_mods (action_mods ?a) s)
       else if ?d then register_code code s else release_tapped code code s)"
    unfolding action_MT assms(5) [symmetric] perform_mods_tap [OF cls]
    using ops by (simp add: process_mods_tap_def code Let_def)
  show ?thesis
    unfolding Let_def by (simp only: MO TG TO OSL LT MT mods simp_thms if_cancel)
qed

theorem keycodes_act_witness:
  "\<forall>cfg r s. perform_action r (action_for_keycode cfg (MO 3)) s =
      emit LedSet (au_layers (if pressed (event r) then layer_on 3 else layer_off 3) s) \<and>
    perform_action r (action_for_keycode cfg (LT 3 4)) s =
      (if tap_count (tap r) = 0 then emit LedSet (au_layers (if pressed (event r) then layer_on 3 else layer_off 3) s)
       else emit LedSet (if pressed (event r) then register_code 4 s else release_tapped 4 4 s))"
proof (intro allI)
  fix cfg r s
  have "keycode_config cfg (4 AND 0xFF) = 4" by (simp add: keycode_config_def)
  then show "perform_action r (action_for_keycode cfg (MO 3)) s =
      emit LedSet (au_layers (if pressed (event r) then layer_on 3 else layer_off 3) s) \<and>
    perform_action r (action_for_keycode cfg (LT 3 4)) s =
      (if tap_count (tap r) = 0 then emit LedSet (au_layers (if pressed (event r) then layer_on 3 else layer_off 3) s)
       else emit LedSet (if pressed (event r) then register_code 4 s else release_tapped 4 4 s))"
    using keycodes_act [of 3 4 cfg 4 _ 2 r s] by (simp add: Let_def)
qed

text \<open>
  When a press has used up a one-shot layer, the layer data is reset already: the layer that is switched
  on around the release of the key is layer 0.
\<close>

lemma oneshot_release_on_layer_0:
  assumes "oneshot_layer_used r a s = (True, s')"
  shows "get_oneshot_layer s' = 0"
  using assms
  by (auto simp: oneshot_layer_used_def clear_oneshot_layer_state_def is_oneshot_layer_active_def
      get_oneshot_layer_def reset_oneshot_layer_def oneshot_layer_changed_kb_def
      emit_def Let_def split: if_splits)

end
