(* ===== verification/Dynamic_Macro.thy ===== *)
theory Dynamic_Macro
  imports Action
begin

text \<open>
  Dynamic macros, \<open>quantum/process_keycode/process_dynamic_macro.c\<close>: two macros are recorded into one buffer,
  the first from its start upwards, the second from its end downwards, and played back.

  The pointers into the buffer are integers, the indices they stand for; the pointer of the second macro is
  -1 when that macro fills the buffer. Playing calls \<open>process_record\<close>, a parameter here, on the state of the
  macros and of the host, so that macros may call each other. The notification hooks do nothing on a keyboard
  without a backlight, and every key is valid; \<open>DYNAMIC_MACRO_NO_NESTING\<close> and \<open>DYNAMIC_MACRO_DELAY\<close> are
  not set, as is the default.
\<close>

section \<open>The model\<close>














section \<open>The two macros\<close>













section \<open>Recording and playing\<close>



















end
