(* ===== verification/Key_Lock.thy ===== *)
theory Key_Lock
  imports Qmk_Prelude
begin

text \<open>
  Key lock, \<open>quantum/process_keycode/process_key_lock.c\<close>: the key pressed after \<open>QK_LOCK\<close> stays down until it
  is pressed again.

  \<open>process_key_lock\<close> gets a pointer to the keycode and may change it: it returns whether the event is
  processed further, and the keycode. What follows it in the chain of processors is seen here as the events
  that are passed on.
\<close>

section \<open>The model\<close>

record key_lock =
  key_state :: "u64 list"
  watching :: bool

definition key_lock_init :: key_lock where
  "key_lock_init = \<lparr>key_state = replicate 4 0, watching = False\<rparr>"

abbreviation (input) QK_LOCK :: u16 where "QK_LOCK \<equiv> 0x7C59"
abbreviation (input) QK_ONE_SHOT_MOD :: u16 where "QK_ONE_SHOT_MOD \<equiv> 0x52A0"
abbreviation (input) QK_ONE_SHOT_MOD_MAX :: u16 where "QK_ONE_SHOT_MOD_MAX \<equiv> 0x52BF"

definition BV_64 :: "u16 \<Rightarrow> u64" where
  "BV_64 shift = push_bit (unat shift) 1"

text \<open>The index of the element of \<open>key_state\<close> that the macros select, and the bit in it.\<close>

definition key_array_index :: "u16 \<Rightarrow> nat" where
  "key_array_index code = (if code < 0x40 then 0 else if code < 0x80 then 1 else if code < 0xC0 then 2 else 3)"

definition GET_KEY_ARRAY :: "u16 \<Rightarrow> key_lock \<Rightarrow> u64" where
  "GET_KEY_ARRAY code s = key_state s ! key_array_index code"

definition GET_CODE_INDEX :: "u16 \<Rightarrow> u16" where
  "GET_CODE_INDEX code =
    (if code < 0x40 then code else if code < 0x80 then code - 0x40
     else if code < 0xC0 then code - 0x80 else code - 0xC0)"

definition KEY_STATE :: "u16 \<Rightarrow> key_lock \<Rightarrow> bool" where
  "KEY_STATE code s \<longleftrightarrow> GET_KEY_ARRAY code s AND BV_64 (GET_CODE_INDEX code) = BV_64 (GET_CODE_INDEX code)"

definition SET_KEY_ARRAY_STATE :: "u16 \<Rightarrow> u64 \<Rightarrow> key_lock \<Rightarrow> key_lock" where
  "SET_KEY_ARRAY_STATE code val s =
    (if code \<le> 0xFF then s\<lparr>key_state := (key_state s)[key_array_index code := val]\<rparr> else s)"

definition SET_KEY_STATE :: "u16 \<Rightarrow> key_lock \<Rightarrow> key_lock" where
  "SET_KEY_STATE code s = SET_KEY_ARRAY_STATE code (GET_KEY_ARRAY code s OR BV_64 (GET_CODE_INDEX code)) s"

definition UNSET_KEY_STATE :: "u16 \<Rightarrow> key_lock \<Rightarrow> key_lock" where
  "UNSET_KEY_STATE code s =
    SET_KEY_ARRAY_STATE code (GET_KEY_ARRAY code s AND NOT (BV_64 (GET_CODE_INDEX code))) s"

definition IS_STANDARD_KEYCODE :: "u16 \<Rightarrow> bool" where
  "IS_STANDARD_KEYCODE code \<longleftrightarrow> code \<le> 0xFF"

definition translate_keycode :: "u16 \<Rightarrow> u16" where
  "translate_keycode keycode =
    (if keycode > QK_ONE_SHOT_MOD \<and> keycode \<le> QK_ONE_SHOT_MOD_MAX then keycode XOR QK_ONE_SHOT_MOD else keycode)"

definition cancel_key_lock :: "key_lock \<Rightarrow> key_lock" where
  "cancel_key_lock s = UNSET_KEY_STATE 0 (s\<lparr>watching := False\<rparr>)"

definition process_key_lock :: "u16 \<Rightarrow> bool \<Rightarrow> key_lock \<Rightarrow> bool \<times> u16 \<times> key_lock" where
  "process_key_lock keycode press s =
    (let translated_keycode = translate_keycode keycode in
     if press then
       (if \<not> (IS_STANDARD_KEYCODE translated_keycode \<or> translated_keycode = QK_LOCK)
        then (True, keycode, s\<lparr>watching := False\<rparr>)
        else if translated_keycode = QK_LOCK then (False, keycode, s\<lparr>watching := \<not> watching s\<rparr>)
        else if IS_STANDARD_KEYCODE translated_keycode \<and> watching s then
          (True, translated_keycode, SET_KEY_STATE translated_keycode (s\<lparr>watching := False\<rparr>))
        else if IS_STANDARD_KEYCODE translated_keycode \<and> KEY_STATE translated_keycode s then
          (False, keycode, UNSET_KEY_STATE translated_keycode s)
        else (True, keycode, s))
     else
       (\<not> (IS_STANDARD_KEYCODE translated_keycode \<and> KEY_STATE translated_keycode s), keycode, s))"

section \<open>The bitmap as a set of keys\<close>

definition key_lock_ok :: "key_lock \<Rightarrow> bool" where
  "key_lock_ok s \<longleftrightarrow> length (key_state s) = 4"

definition locked_keys :: "key_lock \<Rightarrow> u16 set" where
  "locked_keys s = {code. IS_STANDARD_KEYCODE code \<and> KEY_STATE code s}"

lemma quarters:
  fixes n :: nat
  assumes "n \<le> 255"
  shows "(if n < 64 then 0 else if n < 128 then 1 else if n < 192 then 2 else 3) = n div 64"
    "(if n < 64 then n else if n < 128 then n - 64 else if n < 192 then n - 128 else n - 192) = n mod 64"
proof -
  have d: "n div 64 = (if n < 64 then 0 else if n < 128 then 1 else if n < 192 then 2 else 3)"
    using assms by (auto intro!: div_nat_eqI)
  then show "(if n < 64 then 0 else if n < 128 then 1 else if n < 192 then 2 else 3) = n div 64" by (rule sym)
  have "n mod 64 = n - n div 64 * 64" by (rule modulo_nat_def)
  then show "(if n < 64 then n else if n < 128 then n - 64 else if n < 192 then n - 128 else n - 192) = n mod 64"
    unfolding d by simp
qed

lemma key_array_place:
  assumes "code \<le> 0xFF"
  shows "key_array_index code = unat code div 64" "unat (GET_CODE_INDEX code) = unat code mod 64"
    "unat code div 64 < 4"
proof -
  have c: "unat code \<le> 255" using assms by (simp add: word_le_nat_alt)
  then show "unat code div 64 < 4" by simp
  show "key_array_index code = unat code div 64"
    unfolding quarters(1) [OF c, symmetric] by (simp add: key_array_index_def word_less_nat_alt)
  have sub: "unat (code - w) = unat code - unat w" if "\<not> code < w" for w
    using that by (simp add: unat_sub not_less)
  show "unat (GET_CODE_INDEX code) = unat code mod 64"
    unfolding quarters(2) [OF c, symmetric] using sub [of "0x40"] sub [of "0x80"] sub [of "0xC0"]
    by (simp add: GET_CODE_INDEX_def word_less_nat_alt)
qed

lemma mask_is_bit: "w AND push_bit n 1 = push_bit n 1 \<longleftrightarrow> bit w n" if "n < 64" for w :: u64
proof
  assume "w AND push_bit n 1 = push_bit n 1"
  then have "bit (w AND push_bit n 1) n = bit (push_bit n 1 :: u64) n" by simp
  then show "bit w n" using that by (simp add: word_bits)
next
  assume "bit w n"
  then show "w AND push_bit n 1 = push_bit n 1" by (intro bit_word_eqI) (auto simp: word_bits)
qed

lemma KEY_STATE_bit:
  assumes "code \<le> 0xFF"
  shows "KEY_STATE code s \<longleftrightarrow> bit (key_state s ! (unat code div 64)) (unat code mod 64)"
  unfolding KEY_STATE_def GET_KEY_ARRAY_def BV_64_def key_array_place [OF assms] by (rule mask_is_bit) simp

lemma same_place: "unat a div 64 = unat b div 64 \<Longrightarrow> unat a mod 64 = unat b mod 64 \<Longrightarrow> a = b" for a b :: u16
  by (metis div_mult_mod_eq word_unat_eq_iff)

lemma locked_keys_update:
  assumes "key_lock_ok s" "code \<le> 0xFF"
  shows "locked_keys (SET_KEY_STATE code s) = insert code (locked_keys s)"
    "locked_keys (UNSET_KEY_STATE code s) = locked_keys s - {code}"
    "key_lock_ok (SET_KEY_STATE code s)" "key_lock_ok (UNSET_KEY_STATE code s)"
proof -
  have len: "length (key_state s) = 4" using assms(1) by (simp add: key_lock_ok_def)
  note place = key_array_place [OF assms(2)]
  have "KEY_STATE c (SET_KEY_STATE code s) \<longleftrightarrow> c = code \<or> KEY_STATE c s"
    "KEY_STATE c (UNSET_KEY_STATE code s) \<longleftrightarrow> c \<noteq> code \<and> KEY_STATE c s" if "c \<le> 0xFF" for c
    using assms(2) len place that same_place [of c code]
    by (auto simp: SET_KEY_STATE_def UNSET_KEY_STATE_def SET_KEY_ARRAY_STATE_def KEY_STATE_bit
        GET_KEY_ARRAY_def BV_64_def nth_list_update word_bits)
  then show "locked_keys (SET_KEY_STATE code s) = insert code (locked_keys s)"
    "locked_keys (UNSET_KEY_STATE code s) = locked_keys s - {code}"
    using assms(2) by (auto simp: locked_keys_def IS_STANDARD_KEYCODE_def)
  show "key_lock_ok (SET_KEY_STATE code s)" "key_lock_ok (UNSET_KEY_STATE code s)"
    using len by (simp_all add: key_lock_ok_def SET_KEY_STATE_def UNSET_KEY_STATE_def SET_KEY_ARRAY_STATE_def)
qed

section \<open>What the host sees\<close>

text \<open>
  A history of key events: the keys of the standard keycodes that are physically down, the state of key lock, and
  the keys that the processors after it believe to be down.
\<close>

record key_lock_view =
  kl_state :: key_lock
  kl_held :: "u16 set"
  kl_down :: "u16 set"

definition key_lock_event :: "u16 \<times> bool \<Rightarrow> key_lock_view \<Rightarrow> key_lock_view" where
  "key_lock_event = (\<lambda>(keycode, press) v.
    (case process_key_lock keycode press (kl_state v) of
      (passed, k, s) \<Rightarrow>
        \<lparr>kl_state = s,
         kl_held = (if press then insert keycode (kl_held v) else kl_held v - {keycode}),
         kl_down = (if \<not> passed then kl_down v
           else if press then insert k (kl_down v) else kl_down v - {k})\<rparr>))"

definition key_lock_run :: "(u16 \<times> bool) list \<Rightarrow> key_lock_view" where
  "key_lock_run evs = fold key_lock_event evs \<lparr>kl_state = key_lock_init, kl_held = {}, kl_down = {}\<rparr>"

lemma key_lock_run_snoc: "key_lock_run (evs @ [e]) = key_lock_event e (key_lock_run evs)"
  by (simp add: key_lock_run_def)

text \<open>A keycode that \<open>translate_keycode\<close> leaves alone.\<close>

definition not_oneshot :: "u16 \<Rightarrow> bool" where
  "not_oneshot k \<longleftrightarrow> \<not> (QK_ONE_SHOT_MOD < k \<and> k \<le> QK_ONE_SHOT_MOD_MAX)"

definition key_lock_inv :: "key_lock_view \<Rightarrow> bool" where
  "key_lock_inv v \<longleftrightarrow> key_lock_ok (kl_state v) \<and>
    (\<forall>k. k \<noteq> QK_LOCK \<longrightarrow> (k \<in> kl_down v \<longleftrightarrow> k \<in> kl_held v \<or> k \<in> locked_keys (kl_state v)))"

lemma locked_keys_watching [simp]:
  "locked_keys (s\<lparr>watching := w\<rparr>) = locked_keys s" "key_lock_ok (s\<lparr>watching := w\<rparr>) = key_lock_ok s"
  by (simp_all add: locked_keys_def KEY_STATE_def GET_KEY_ARRAY_def key_lock_ok_def)

lemma locked_keys_iff: "k \<in> locked_keys s \<longleftrightarrow> k \<le> 0xFF \<and> KEY_STATE k s"
  by (simp add: locked_keys_def IS_STANDARD_KEYCODE_def)

lemma process_key_lock_press:
  assumes "not_oneshot k"
  shows "process_key_lock k True s =
    (if k = QK_LOCK then (False, k, s\<lparr>watching := \<not> watching s\<rparr>)
     else if \<not> k \<le> 0xFF then (True, k, s\<lparr>watching := False\<rparr>)
     else if watching s then (True, k, SET_KEY_STATE k (s\<lparr>watching := False\<rparr>))
     else if k \<in> locked_keys s then (False, k, UNSET_KEY_STATE k s)
     else (True, k, s))"
  using assms by (auto simp: process_key_lock_def translate_keycode_def not_oneshot_def Let_def
      IS_STANDARD_KEYCODE_def locked_keys_iff)

lemma process_key_lock_release:
  assumes "not_oneshot k"
  shows "process_key_lock k False s = (k \<notin> locked_keys s, k, s)"
  using assms by (auto simp: process_key_lock_def translate_keycode_def not_oneshot_def Let_def
      IS_STANDARD_KEYCODE_def locked_keys_iff)

lemma key_lock_step:
  assumes "key_lock_inv v" "not_oneshot k"
  shows "key_lock_inv (key_lock_event (k, press) v)"
    "k \<le> 0xFF \<Longrightarrow> locked_keys (kl_state (key_lock_event (k, press) v)) =
      (if \<not> press then locked_keys (kl_state v)
       else if watching (kl_state v) then insert k (locked_keys (kl_state v))
       else locked_keys (kl_state v) - {k})"
proof -
  have ok: "key_lock_ok (kl_state v)" and d: "\<And>c. c \<noteq> QK_LOCK \<Longrightarrow>
      c \<in> kl_down v \<longleftrightarrow> c \<in> kl_held v \<or> c \<in> locked_keys (kl_state v)"
    using assms(1) by (auto simp: key_lock_inv_def)
  have ok2: "key_lock_ok ((kl_state v)\<lparr>watching := False\<rparr>)" using ok by simp
  note u = locked_keys_update [OF ok] locked_keys_update [OF ok2]
  show "key_lock_inv (key_lock_event (k, press) v)"
  proof (cases press)
    case True
    then show ?thesis using ok d u
      by (auto simp: key_lock_event_def process_key_lock_press [OF assms(2)] key_lock_inv_def)
  next
    case False
    then show ?thesis using ok d
      by (auto simp: key_lock_event_def process_key_lock_release [OF assms(2)] key_lock_inv_def)
  qed
  show "locked_keys (kl_state (key_lock_event (k, press) v)) =
      (if \<not> press then locked_keys (kl_state v)
       else if watching (kl_state v) then insert k (locked_keys (kl_state v))
       else locked_keys (kl_state v) - {k})" if "k \<le> 0xFF"
    using that u by (cases press) (auto simp: key_lock_event_def process_key_lock_press [OF assms(2)]
        process_key_lock_release [OF assms(2)])
qed

lemma key_lock_init_empty: "key_lock_ok key_lock_init" "locked_keys key_lock_init = {}" "\<not> watching key_lock_init"
  using KEY_STATE_bit key_array_place(3) by (auto simp: locked_keys_iff key_lock_init_def key_lock_ok_def)

lemma key_lock_inv_run: "list_all (\<lambda>(k, press). not_oneshot k) evs \<Longrightarrow> key_lock_inv (key_lock_run evs)"
proof (induction evs rule: rev_induct)
  case Nil
  show ?case by (simp add: key_lock_run_def key_lock_inv_def key_lock_init_empty)
next
  case (snoc e evs)
  then show ?case by (cases e) (auto simp: key_lock_run_snoc intro: key_lock_step)
qed

text \<open>
  C17: key lock holds keys down and never leaves one behind. After every history of key events without one-shot
  modifiers, the processors after key lock have a standard key down exactly when it is physically held or locked,
  and every other key exactly when it is held. A press locks the key when \<open>QK_LOCK\<close> is waiting and unlocks it
  otherwise, and a release changes no lock.
\<close>

theorem key_lock_holds_keys:
  assumes "list_all (\<lambda>(k, press). not_oneshot k) evs" "not_oneshot k" "k \<noteq> QK_LOCK"
  shows "let v = key_lock_run evs; w = key_lock_run (evs @ [(k, press)]) in
    (k \<in> kl_down v \<longleftrightarrow> k \<in> kl_held v \<or> k \<in> locked_keys (kl_state v)) \<and>
    (k \<in> locked_keys (kl_state w) \<longleftrightarrow>
      (if press then k \<le> 0xFF \<and> watching (kl_state v) else k \<in> locked_keys (kl_state v)))"
proof -
  note inv = key_lock_inv_run [OF assms(1)]
  have "k \<in> kl_down (key_lock_run evs) \<longleftrightarrow>
      k \<in> kl_held (key_lock_run evs) \<or> k \<in> locked_keys (kl_state (key_lock_run evs))"
    using inv assms(3) unfolding key_lock_inv_def by blast
  moreover have "\<not> k \<le> 0xFF \<Longrightarrow> k \<notin> locked_keys s" for s by (simp add: locked_keys_iff)
  ultimately show ?thesis
    using key_lock_step(2) [OF inv assms(2), of press]
    by (cases "k \<le> 0xFF") (auto simp: Let_def key_lock_run_snoc)
qed

lemma key_lock_holds_keys_witness:
  "let v = key_lock_run [(QK_LOCK, True), (QK_LOCK, False), (9, True), (9, False)] in
    9 \<in> kl_down v \<longleftrightarrow> 9 \<in> kl_held v \<or> 9 \<in> locked_keys (kl_state v)"
  using key_lock_holds_keys [of "[(QK_LOCK, True), (QK_LOCK, False), (9, True), (9, False)]" 9 True]
  by (simp add: not_oneshot_def Let_def)

text \<open>
  A one-shot modifier is not held by key lock, in spite of the documentation. \<open>translate_keycode\<close> turns
  \<open>OSM(mod)\<close> into the five-bit modifier set, which is then sent as a keycode; once the key has been
  locked and unlocked, that keycode is down although nothing is held and nothing is locked.
\<close>

theorem key_lock_loses_oneshot_modifier:
  assumes "QK_ONE_SHOT_MOD < k" "k \<le> QK_ONE_SHOT_MOD_MAX"
  shows "let v = key_lock_run [(QK_LOCK, True), (QK_LOCK, False), (k, True), (k, False), (k, True), (k, False)] in
    kl_down v = {k XOR QK_ONE_SHOT_MOD} \<and> k XOR QK_ONE_SHOT_MOD \<le> 0x1F \<and>
    kl_held v = {} \<and> locked_keys (kl_state v) = {}"
proof -
  define m where "m = k XOR QK_ONE_SHOT_MOD"
  have "unat k div 32 = 661"
    using assms by (auto simp: word_less_nat_alt word_le_nat_alt)
  then have "unat (drop_bit 5 k) = unat (drop_bit 5 (QK_ONE_SHOT_MOD))" by (simp add: unat_drop_bit)
  then have "drop_bit 5 k = drop_bit 5 QK_ONE_SHOT_MOD" by (simp only: word_unat_eq_iff)
  then have "drop_bit 5 m = 0" unfolding m_def drop_bit_xor by (simp only: xor_self_eq)
  then have "unat m div 2 ^ 5 = 0" using unat_drop_bit [of 5 m] by simp
  then have "unat m < 32" by simp
  then have m: "m \<le> 0x1F" "m \<le> 0xFF" "m \<noteq> QK_LOCK" by (auto simp: word_le_nat_alt)
  have k: "k \<noteq> QK_LOCK" "\<not> k \<le> 0xFF" using assms by (auto simp: word_less_nat_alt word_le_nat_alt)
  have t: "translate_keycode k = m" using assms by (simp add: translate_keycode_def m_def)
  have press: "process_key_lock k True s =
    (if watching s then (True, m, SET_KEY_STATE m (s\<lparr>watching := False\<rparr>))
     else if m \<in> locked_keys s then (False, k, UNSET_KEY_STATE m s) else (True, k, s))" for s
    using m by (auto simp: process_key_lock_def t Let_def IS_STANDARD_KEYCODE_def locked_keys_iff)
  have release: "process_key_lock k False s = (m \<notin> locked_keys s, k, s)" for s
    using m by (auto simp: process_key_lock_def t Let_def IS_STANDARD_KEYCODE_def locked_keys_iff)
  have lock: "process_key_lock QK_LOCK True s = (False, QK_LOCK, s\<lparr>watching := \<not> watching s\<rparr>)"
    "process_key_lock QK_LOCK False s = (True, QK_LOCK, s)" for s
    using process_key_lock_press [of QK_LOCK s] process_key_lock_release [of QK_LOCK s]
    by (simp_all add: not_oneshot_def locked_keys_iff)
  note init = key_lock_init_empty
  note u = locked_keys_update [OF _ m(2)]
  have w: "\<not> watching (SET_KEY_STATE m (s\<lparr>watching := False\<rparr>))" for s
    by (simp add: SET_KEY_STATE_def SET_KEY_ARRAY_STATE_def)
  have "m \<noteq> k" using m k by auto
  then show ?thesis
    unfolding m_def [symmetric] using k m init
    by (simp add: key_lock_run_def key_lock_event_def press release lock u w Let_def)
qed

lemma key_lock_loses_oneshot_modifier_witness:
  "kl_down (key_lock_run [(QK_LOCK, True), (QK_LOCK, False), (0x52A2, True), (0x52A2, False),
    (0x52A2, True), (0x52A2, False)]) = {2}"
  using key_lock_loses_oneshot_modifier [of "0x52A2"] by (simp add: Let_def)

text \<open>\<open>cancel_key_lock\<close> stops the waiting; of the locks it clears that of keycode 0 only.\<close>

theorem cancel_key_lock_keeps_keys:
  assumes "key_lock_ok s"
  shows "\<not> watching (cancel_key_lock s)" "locked_keys (cancel_key_lock s) = locked_keys s - {0}"
  using assms locked_keys_update(2) [of "s\<lparr>watching := False\<rparr>" "0"]
  by (simp_all add: cancel_key_lock_def UNSET_KEY_STATE_def SET_KEY_ARRAY_STATE_def)

end
