(* ===== verification/Secure.thy ===== *)
theory Secure
  imports Action "HOL-Library.Sublist"
begin

text \<open>
  The secure feature, \<open>quantum/secure.c\<close>, \<open>quantum/process_keycode/process_secure.c\<close> and its hook in
  \<open>quantum/quantum.c\<close>: the keyboard locks itself and is unlocked by a sequence of key positions, which must be
  typed within a time limit.

  The sequence \<open>SECURE_UNLOCK_SEQUENCE\<close> is a parameter; the offset into it is a natural number, as the sequence
  has at most 255 keys. The state of the feature is paired with the host's,
  which the hook clears when an unlocking starts; the hooks of keyboards and users do nothing by default.
\<close>

section \<open>The model\<close>

datatype secure_status_t = SECURE_LOCKED | SECURE_PENDING | SECURE_UNLOCKED

record secure =
  secure_status :: secure_status_t
  unlock_time :: u32
  idle_time :: u32
  seq_offset :: nat

type_synonym 'q secure_state = "secure \<times> 'q action_util_scheme"

abbreviation (input) SECURE_UNLOCK_TIMEOUT :: u32 where "SECURE_UNLOCK_TIMEOUT \<equiv> 5000"
abbreviation (input) SECURE_IDLE_TIMEOUT :: u32 where "SECURE_IDLE_TIMEOUT \<equiv> 60000"

abbreviation (input) QK_SECURE_LOCK :: u16 where "QK_SECURE_LOCK \<equiv> 0x7C60"
abbreviation (input) QK_SECURE_UNLOCK :: u16 where "QK_SECURE_UNLOCK \<equiv> 0x7C61"
abbreviation (input) QK_SECURE_TOGGLE :: u16 where "QK_SECURE_TOGGLE \<equiv> 0x7C62"
abbreviation (input) QK_SECURE_REQUEST :: u16 where "QK_SECURE_REQUEST \<equiv> 0x7C63"

definition secure_init :: secure where
  "secure_init = \<lparr>secure_status = SECURE_LOCKED, unlock_time = 0, idle_time = 0, seq_offset = 0\<rparr>"

definition secure_hook_quantum :: "secure_status_t \<Rightarrow> 'q action_util_scheme \<Rightarrow> 'q action_util_scheme" where
  "secure_hook_quantum st u =
    (if st = SECURE_PENDING then au_layers layer_clear (clear_keyboard u) else u)"

definition secure_hook :: "secure_status_t \<Rightarrow> 'q secure_state \<Rightarrow> 'q secure_state" where
  "secure_hook st = (\<lambda>(c, u). (c, secure_hook_quantum st u))"

definition secure_lock :: "'q secure_state \<Rightarrow> 'q secure_state" where
  "secure_lock = (\<lambda>(c, u). secure_hook SECURE_LOCKED (c\<lparr>secure_status := SECURE_LOCKED\<rparr>, u))"

definition secure_unlock :: "u32 \<Rightarrow> 'q secure_state \<Rightarrow> 'q secure_state" where
  "secure_unlock now = (\<lambda>(c, u).
    secure_hook SECURE_UNLOCKED (c\<lparr>secure_status := SECURE_UNLOCKED, idle_time := now\<rparr>, u))"

definition secure_request_unlock :: "u32 \<Rightarrow> 'q secure_state \<Rightarrow> 'q secure_state" where
  "secure_request_unlock now = (\<lambda>(c, u).
    (let c = (if secure_status c = SECURE_LOCKED
              then c\<lparr>secure_status := SECURE_PENDING, unlock_time := now\<rparr> else c)
     in secure_hook (secure_status c) (c, u)))"

definition secure_activity_event :: "u32 \<Rightarrow> secure \<Rightarrow> secure" where
  "secure_activity_event now c = (if secure_status c = SECURE_UNLOCKED then c\<lparr>idle_time := now\<rparr> else c)"

definition secure_keypress_event ::
    "(u8 \<times> u8) list \<Rightarrow> u32 \<Rightarrow> u8 \<Rightarrow> u8 \<Rightarrow> 'q secure_state \<Rightarrow> 'q secure_state" where
  "secure_keypress_event sequence now rw cl = (\<lambda>(c, u).
    (if fst (sequence ! seq_offset c) = rw \<and> snd (sequence ! seq_offset c) = cl then
       (let c = c\<lparr>seq_offset := seq_offset c + 1\<rparr>
        in if seq_offset c = length sequence then secure_unlock now (c\<lparr>seq_offset := 0\<rparr>, u) else (c, u))
     else secure_lock (c\<lparr>seq_offset := 0\<rparr>, u)))"

definition secure_task :: "u32 \<Rightarrow> 'q secure_state \<Rightarrow> 'q secure_state" where
  "secure_task now st =
    (let st = (if secure_status (fst st) = SECURE_PENDING \<and>
                  timer_elapsed32 now (unlock_time (fst st)) \<ge> SECURE_UNLOCK_TIMEOUT
               then secure_lock st else st)
     in if secure_status (fst st) = SECURE_UNLOCKED \<and>
           timer_elapsed32 now (idle_time (fst st)) \<ge> SECURE_IDLE_TIMEOUT
        then secure_lock st else st)"

definition preprocess_secure ::
    "(u8 \<times> u8) list \<Rightarrow> u32 \<Rightarrow> keyrecord_t \<Rightarrow> 'q secure_state \<Rightarrow> bool \<times> 'q secure_state" where
  "preprocess_secure sequence now r st =
    (if secure_status (fst st) = SECURE_PENDING then
       (False,
        if pressed (event r)
        then secure_keypress_event sequence now (row (ev_key (event r))) (col (ev_key (event r))) st else st)
     else (True, st))"

definition process_secure :: "u32 \<Rightarrow> u16 \<Rightarrow> keyrecord_t \<Rightarrow> 'q secure_state \<Rightarrow> bool \<times> 'q secure_state" where
  "process_secure now keycode r st =
    (if \<not> pressed (event r) then
       (if keycode = QK_SECURE_LOCK then (False, secure_lock st)
        else if keycode = QK_SECURE_UNLOCK then (False, secure_unlock now st)
        else if keycode = QK_SECURE_TOGGLE then
          (False, if secure_status (fst st) = SECURE_LOCKED then secure_unlock now st else secure_lock st)
        else if keycode = QK_SECURE_REQUEST then (False, secure_request_unlock now st)
        else (True, st))
     else (True, st))"

section \<open>Unlocking\<close>

text \<open>
  Key events while nothing else happens. An event that \<open>preprocess_secure\<close> passes on, by returning true, goes
  to the rest of the processing, \<open>rest\<close>, which acts on the host. \<open>pressed_keys\<close> are the positions pressed.
\<close>

definition type_key ::
    "(u8 \<times> u8) list \<Rightarrow> (keyrecord_t \<Rightarrow> 'q action_util_scheme \<Rightarrow> 'q action_util_scheme) \<Rightarrow>
     u32 \<times> keyrecord_t \<Rightarrow> 'q secure_state \<Rightarrow> 'q secure_state" where
  "type_key sequence rest = (\<lambda>(now, r) st.
    case preprocess_secure sequence now r st of (go, c, u) \<Rightarrow> (c, if go then rest r u else u))"

definition type_keys ::
    "(u8 \<times> u8) list \<Rightarrow> (keyrecord_t \<Rightarrow> 'q action_util_scheme \<Rightarrow> 'q action_util_scheme) \<Rightarrow>
     (u32 \<times> keyrecord_t) list \<Rightarrow> 'q secure_state \<Rightarrow> 'q secure_state" where
  "type_keys sequence rest evs st = fold (type_key sequence rest) evs st"

definition pressed_keys :: "(u32 \<times> keyrecord_t) list \<Rightarrow> (u8 \<times> u8) list" where
  "pressed_keys evs =
    map (\<lambda>(now, r). (row (ev_key (event r)), col (ev_key (event r)))) (filter (\<lambda>(now, r). pressed (event r)) evs)"


text \<open>What an attempt to type \<open>sequence\<close> with the keys \<open>ps\<close> leads to.\<close>

definition attempt_status :: "'a list \<Rightarrow> 'a list \<Rightarrow> secure_status_t" where
  "attempt_status sequence ps =
    (if prefix sequence ps then SECURE_UNLOCKED else if prefix ps sequence then SECURE_PENDING else SECURE_LOCKED)"

lemma secure_simps [simp]:
  "fst (secure_lock (c, u)) = c\<lparr>secure_status := SECURE_LOCKED\<rparr>"
  "snd (secure_lock (c, u)) = u"
  "fst (secure_unlock now (c, u)) = c\<lparr>secure_status := SECURE_UNLOCKED, idle_time := now\<rparr>"
  "snd (secure_unlock now (c, u)) = u"
  by (simp_all add: secure_lock_def secure_unlock_def secure_hook_def secure_hook_quantum_def)

lemma preprocess_idle: "secure_status (fst st) \<noteq> SECURE_PENDING \<Longrightarrow> preprocess_secure sequence now r st = (True, st)"
  by (simp add: preprocess_secure_def)


lemma type_key_idle:
  "secure_status (fst st) \<noteq> SECURE_PENDING \<Longrightarrow> type_key sequence rest e st = (fst st, rest (snd e) (snd st))"
  by (simp add: type_key_def preprocess_idle split_beta)

lemma type_keys_idle:
  "secure_status (fst st) \<noteq> SECURE_PENDING \<Longrightarrow> fst (type_keys sequence rest evs st) = fst st"
  by (induction evs arbitrary: st) (simp_all add: type_keys_def type_key_idle)


lemma secure_keypress_step:
  assumes "seq_offset c < length sequence" "secure_status c = SECURE_PENDING"
  shows "snd (secure_keypress_event sequence now rw cl (c, u)) = u"
    "sequence ! seq_offset c \<noteq> (rw, cl) \<Longrightarrow>
      fst (secure_keypress_event sequence now rw cl (c, u)) = c\<lparr>seq_offset := 0, secure_status := SECURE_LOCKED\<rparr>"
    "sequence ! seq_offset c = (rw, cl) \<Longrightarrow> Suc (seq_offset c) = length sequence \<Longrightarrow>
      secure_status (fst (secure_keypress_event sequence now rw cl (c, u))) = SECURE_UNLOCKED \<and>
      seq_offset (fst (secure_keypress_event sequence now rw cl (c, u))) = 0"
    "sequence ! seq_offset c = (rw, cl) \<Longrightarrow> Suc (seq_offset c) \<noteq> length sequence \<Longrightarrow>
      fst (secure_keypress_event sequence now rw cl (c, u)) = c\<lparr>seq_offset := Suc (seq_offset c)\<rparr>"
  using assms by (auto simp: secure_keypress_event_def Let_def prod_eq_iff)

lemma type_keys_result:
  assumes "seq_offset c < length sequence" "secure_status c = SECURE_PENDING"
  shows "let st = type_keys sequence rest evs (c, u); ps = pressed_keys evs; todo = drop (seq_offset c) sequence in
    secure_status (fst st) = attempt_status todo ps \<and>
    (if attempt_status todo ps = SECURE_PENDING then fst st = c\<lparr>seq_offset := seq_offset c + length ps\<rparr>
     else seq_offset (fst st) = 0)"
  using assms
proof (induction evs arbitrary: c)
  case Nil
  then have "drop (seq_offset c) sequence \<noteq> []" by simp
  then show ?case using Nil by (simp add: type_keys_def pressed_keys_def attempt_status_def Let_def)
next
  case (Cons e evs)
  obtain now r where e: "e = (now, r)" by fastforce
  define p where "p = (row (ev_key (event r)), col (ev_key (event r)))"
  have todo: "drop (seq_offset c) sequence = sequence ! seq_offset c # drop (Suc (seq_offset c)) sequence"
    using Cons.prems(1) by (rule Cons_nth_drop_Suc [symmetric])
  define st where "st = secure_keypress_event sequence now (fst p) (snd p) (c, u)"
  note step = secure_keypress_step [OF Cons.prems, where now = now and rw = "fst p" and cl = "snd p" and u = u, folded st_def]
  show ?case
  proof (cases "pressed (event r)")
    case False
    then show ?thesis using Cons.IH [OF Cons.prems] Cons.prems
      by (simp add: e type_keys_def type_key_def pressed_keys_def preprocess_secure_def)
  next
    case True
    have run: "type_keys sequence rest (e # evs) (c, u) = type_keys sequence rest evs st"
      using True Cons.prems by (simp add: e type_keys_def type_key_def preprocess_secure_def st_def p_def)
    have ps: "pressed_keys (e # evs) = p # pressed_keys evs" using True by (simp add: e pressed_keys_def p_def)
    consider (miss) "sequence ! seq_offset c \<noteq> p" | (last) "sequence ! seq_offset c = p" "Suc (seq_offset c) = length sequence"
      | (more) "sequence ! seq_offset c = p" "Suc (seq_offset c) \<noteq> length sequence" by blast
    then show ?thesis
    proof cases
      case miss
      then have "secure_status (fst st) = SECURE_LOCKED" "seq_offset (fst st) = 0" using step(2) by simp_all
      then show ?thesis using miss step(1) unfolding run ps todo
        by (simp add: type_keys_idle attempt_status_def Let_def)
    next
      case last
      then have "secure_status (fst st) = SECURE_UNLOCKED" "seq_offset (fst st) = 0" using step(3) by simp_all
      then show ?thesis using last step(1) unfolding run ps todo
        by (simp add: type_keys_idle attempt_status_def Let_def)
    next
      case more
      define c' where "c' = c\<lparr>seq_offset := Suc (seq_offset c)\<rparr>"
      have st: "st = (c', u)" using step(1,4) more by (simp add: prod_eq_iff c'_def)
      have c': "seq_offset c' < length sequence" "secure_status c' = SECURE_PENDING"
        using more Cons.prems by (simp_all add: c'_def)
      show ?thesis using Cons.IH [OF c'] more(1) unfolding run ps todo st
        by (simp add: Let_def attempt_status_def c'_def)
    qed
  qed
qed

lemma request_when_locked:
  assumes "secure_status c = SECURE_LOCKED"
  shows "secure_request_unlock now (c, u) =
    (c\<lparr>secure_status := SECURE_PENDING, unlock_time := now\<rparr>, au_layers layer_clear (clear_keyboard u))"
  using assms by (simp add: secure_request_unlock_def secure_hook_def secure_hook_quantum_def)





abbreviation secure_key :: "u8 \<Rightarrow> u8 \<Rightarrow> bool \<Rightarrow> keyrecord_t" where
  "secure_key r c p \<equiv> \<lparr>event = \<lparr>ev_key = \<lparr>col = c, row = r\<rparr>, ev_time = 10, ev_type = KEY_EVENT, pressed = p\<rparr>,
    tap = \<lparr>interrupted = False, tap_count = 0\<rparr>\<rparr>"


text \<open>
  C39: the progress of an attempt that runs out of time is not forgotten: \<open>offset\<close> is reset by a wrong key and
  by the end of the sequence only. When the first \<open>k\<close> keys have been typed before the time limit locks the
  keyboard, a new request is answered by the remaining keys alone, although the sequence has not been typed in
  this attempt, and typing it from its start locks the keyboard unless it agrees with its own remainder.
\<close>

theorem secure_timeout_keeps_progress:
  assumes "k < length sequence" "secure_status c = SECURE_LOCKED" "seq_offset c = 0"
    and "pressed_keys evs1 = take k sequence" "timer_elapsed32 now2 now1 \<ge> SECURE_UNLOCK_TIMEOUT"
  shows "let timed_out = secure_task now2 (type_keys sequence rest evs1 (secure_request_unlock now1 (c, u)));
      again = type_keys sequence rest evs2 (secure_request_unlock now3 timed_out)
    in secure_status (fst timed_out) = SECURE_LOCKED \<and>
      secure_status (fst again) = attempt_status (drop k sequence) (pressed_keys evs2)"
proof -
  let ?c = "c\<lparr>secure_status := SECURE_PENDING, unlock_time := now1\<rparr>"
  let ?u = "au_layers layer_clear (clear_keyboard u)"
  define st where "st = type_keys sequence rest evs1 (?c, ?u)"
  have c: "seq_offset ?c < length sequence" "secure_status ?c = SECURE_PENDING" using assms by auto
  have "attempt_status sequence (take k sequence) = SECURE_PENDING"
    using assms(1) by (auto simp: attempt_status_def take_is_prefix dest: prefix_length_le)
  then have "fst st = ?c\<lparr>seq_offset := k\<rparr>"
    using type_keys_result [OF c, of rest evs1 ?u] assms(1,3,4) by (simp add: Let_def st_def)
  then have st: "st = (?c\<lparr>seq_offset := k\<rparr>, snd st)" by (simp add: prod_eq_iff)
  define d where "d = fst (secure_task now2 st)"
  have d: "secure_status d = SECURE_LOCKED" "seq_offset d = k"
    using assms(5) unfolding d_def secure_task_def by (subst (1 2) st, simp add: Let_def prod_eq_iff)+
  define v where "v = snd (secure_task now2 st)"
  have timed_out: "secure_task now2 st = (d, v)" by (simp add: d_def v_def)
  let ?d = "d\<lparr>secure_status := SECURE_PENDING, unlock_time := now3\<rparr>"
  have "seq_offset ?d < length sequence" "secure_status ?d = SECURE_PENDING" using d assms(1) by simp_all
  from type_keys_result [OF this, of rest evs2 "au_layers layer_clear (clear_keyboard v)"] show ?thesis
    using assms(2) d(1,2) by (simp add: Let_def request_when_locked st_def [symmetric] timed_out)
qed

lemma secure_timeout_keeps_progress_witness:
  "let timed_out = secure_task 5000 (type_keys [(0, 1), (2, 3)] (\<lambda>r u. u) [(10, secure_key 0 1 True)]
       (secure_request_unlock 0 (secure_init, action_util_init)))
   in secure_status (fst (type_keys [(0, 1), (2, 3)] (\<lambda>r u. u) [(7000, secure_key 2 3 True)]
       (secure_request_unlock 6000 timed_out))) = SECURE_UNLOCKED"
proof -
  have "timer_elapsed32 5000 0 \<ge> (5000 :: u32)" by (simp add: timer_elapsed32_def TIMER_DIFF_32_def)
  then show ?thesis
    using secure_timeout_keeps_progress [of 1 "[(0, 1), (2, 3)]" secure_init "[(10, secure_key 0 1 True)]" 5000 0
        "\<lambda>r u. u" action_util_init "[(7000, secure_key 2 3 True)]" 6000]
    by (simp add: secure_init_def pressed_keys_def Let_def attempt_status_def)
qed

end
