(* ===== verification/Action_Tapping.thy ===== *)
theory Action_Tapping
  imports Action
begin

text \<open>
  The tapping machine, \<open>quantum/action_tapping.c\<close>, and its caller \<open>action_exec\<close> of \<open>quantum/action.c\<close>:
  while it is not settled whether a tap key is tapped or held, later events wait in a ring buffer of
  eight entries.

  The configuration is that of the board: \<open>TAPPING_TERM\<close> and \<open>QUICK_TAP_TERM\<close> are 200 ms, the same for
  every key; permissive hold, hold on other key press, retro shift, combos and swap hands are not
  compiled, so that \<open>process_record_tap_hint\<close> does nothing. The pointer \<open>keyp\<close> that \<open>process_tapping\<close>
  gets is the record it returns; the caller writes it back. The field \<open>tp_log\<close> records the calls of
  \<open>process_record\<close>, for the statements about them: \<open>Made\<close> is the release that the machine makes up
  when a tap key interrupts a repeated tap. The field \<open>tp_dropped\<close> records the events that are given up
  when the buffer overflows.
\<close>

section \<open>State\<close>

abbreviation (input) TAPPING_TERM :: u16 where "TAPPING_TERM \<equiv> 200"
abbreviation (input) QUICK_TAP_TERM :: u16 where "QUICK_TAP_TERM \<equiv> 200"
abbreviation (input) WAITING_BUFFER_SIZE :: nat where "WAITING_BUFFER_SIZE \<equiv> 8"

datatype processed = Input keyrecord_t | Made keyrecord_t

record 'q tapping =
  tapping_key :: keyrecord_t
  waiting_buffer :: "keyrecord_t list"
  waiting_buffer_head :: nat
  waiting_buffer_tail :: nat
  host :: "'q action_util_scheme"
  tp_log :: "processed list"
  tp_dropped :: "keyevent_t list"

definition no_event :: keyevent_t where
  "no_event = \<lparr> ev_key = \<lparr> col = 0, row = 0 \<rparr>, ev_time = 0, ev_type = TICK_EVENT, pressed = False \<rparr>"

definition no_record :: keyrecord_t where
  "no_record = \<lparr> event = no_event, tap = \<lparr> interrupted = False, tap_count = 0 \<rparr> \<rparr>"

definition tapping_init :: "'q action_util_scheme \<Rightarrow> 'q tapping" where
  "tapping_init u = \<lparr> tapping_key = no_record, waiting_buffer = replicate WAITING_BUFFER_SIZE no_record,
    waiting_buffer_head = 0, waiting_buffer_tail = 0, host = u, tp_log = [], tp_dropped = [] \<rparr>"

definition KEYEQ :: "keypos_t \<Rightarrow> keypos_t \<Rightarrow> bool" where
  "KEYEQ a b \<longleftrightarrow> row a = row b \<and> col a = col b"

definition IS_TAPPING_RECORD :: "keyrecord_t \<Rightarrow> 'q tapping \<Rightarrow> bool" where
  "IS_TAPPING_RECORD r s \<longleftrightarrow> KEYEQ (ev_key (event (tapping_key s))) (ev_key (event r))"

definition WITHIN_TAPPING_TERM :: "keyevent_t \<Rightarrow> 'q tapping \<Rightarrow> bool" where
  "WITHIN_TAPPING_TERM e s \<longleftrightarrow> TIMER_DIFF_16 (ev_time e) (ev_time (event (tapping_key s))) < TAPPING_TERM"

definition WITHIN_QUICK_TAP_TERM :: "keyevent_t \<Rightarrow> 'q tapping \<Rightarrow> bool" where
  "WITHIN_QUICK_TAP_TERM e s \<longleftrightarrow> TIMER_DIFF_16 (ev_time e) (ev_time (event (tapping_key s))) < QUICK_TAP_TERM"

section \<open>The waiting buffer\<close>

text \<open>The indices from the tail up to the head, in the order of the loops.\<close>

definition wb_indices :: "'q tapping \<Rightarrow> nat list" where
  "wb_indices s = map (\<lambda>k. (waiting_buffer_tail s + k) mod WAITING_BUFFER_SIZE)
    [0..<(waiting_buffer_head s + WAITING_BUFFER_SIZE - waiting_buffer_tail s) mod WAITING_BUFFER_SIZE]"

definition waiting_buffer_enq :: "keyrecord_t \<Rightarrow> 'q tapping \<Rightarrow> bool \<times> 'q tapping" where
  "waiting_buffer_enq r s =
    (if IS_NOEVENT (event r) then (True, s)
     else if (waiting_buffer_head s + 1) mod WAITING_BUFFER_SIZE = waiting_buffer_tail s then (False, s)
     else (True, s\<lparr>waiting_buffer := (waiting_buffer s)[waiting_buffer_head s := r],
       waiting_buffer_head := (waiting_buffer_head s + 1) mod WAITING_BUFFER_SIZE\<rparr>))"

definition waiting_buffer_clear :: "'q tapping \<Rightarrow> 'q tapping" where
  "waiting_buffer_clear s = s\<lparr>waiting_buffer_head := 0, waiting_buffer_tail := 0\<rparr>"

definition waiting_buffer_typed :: "keyevent_t \<Rightarrow> 'q tapping \<Rightarrow> bool" where
  "waiting_buffer_typed e s \<longleftrightarrow>
    list_ex (\<lambda>i. let c = event (waiting_buffer s ! i) in KEYEQ (ev_key e) (ev_key c) \<and> pressed e \<noteq> pressed c)
      (wb_indices s)"

definition waiting_buffer_has_anykey_pressed :: "'q tapping \<Rightarrow> bool" where
  "waiting_buffer_has_anykey_pressed s \<longleftrightarrow>
    list_ex (\<lambda>i. pressed (event (waiting_buffer s ! i))) (wb_indices s)"

section \<open>Calls of \<open>process_record\<close>\<close>

definition tp_process :: "'q record_hooks \<Rightarrow> keymap \<Rightarrow> keyrecord_t \<Rightarrow> 'q tapping \<Rightarrow> keyrecord_t \<times> 'q tapping" where
  "tp_process h km r s =
    (let (r', u) = process_record h km r (host s) in (r', s\<lparr>host := u, tp_log := tp_log s @ [Input r]\<rparr>))"

definition process_tapping_key :: "'q record_hooks \<Rightarrow> keymap \<Rightarrow> 'q tapping \<Rightarrow> 'q tapping" where
  "process_tapping_key h km s =
    (let (r, s) = tp_process h km (tapping_key s) s in s\<lparr>tapping_key := r\<rparr>)"

text \<open>The release that ends a repeated tap which another tap key interrupts.\<close>

definition unregister_tapping_key :: "'q record_hooks \<Rightarrow> keymap \<Rightarrow> keyevent_t \<Rightarrow> 'q tapping \<Rightarrow> 'q tapping" where
  "unregister_tapping_key h km e s =
    (let r = \<lparr> event = \<lparr> ev_key = ev_key (event (tapping_key s)), ev_time = ev_time e,
                 ev_type = ev_type (event (tapping_key s)), pressed = False \<rparr>, tap = tap (tapping_key s) \<rparr>
     in s\<lparr>host := snd (process_record h km r (host s)), tp_log := tp_log s @ [Made r]\<rparr>)"

text \<open>The release of the tapping key among the waiting events settles the tap.\<close>

definition waiting_buffer_scan_tap :: "'q record_hooks \<Rightarrow> keymap \<Rightarrow> 'q tapping \<Rightarrow> 'q tapping" where
  "waiting_buffer_scan_tap h km s =
    (if tap_count (tap (tapping_key s)) > 0 \<or> \<not> pressed (event (tapping_key s)) then s
     else case find (\<lambda>i. let c = event (waiting_buffer s ! i) in
           IS_EVENT c \<and> KEYEQ (ev_key c) (ev_key (event (tapping_key s))) \<and> \<not> pressed c \<and>
           WITHIN_TAPPING_TERM c s) (wb_indices s) of
         None \<Rightarrow> s
       | Some i \<Rightarrow>
           process_tapping_key h km
             (s\<lparr>tapping_key := (tapping_key s)\<lparr>tap := (tap (tapping_key s))\<lparr>tap_count := 1\<rparr>\<rparr>,
                waiting_buffer := (waiting_buffer s)
                  [i := (waiting_buffer s ! i)\<lparr>tap := (tap (waiting_buffer s ! i))\<lparr>tap_count := 1\<rparr>\<rparr>]\<rparr>))"

section \<open>\<open>process_tapping\<close>\<close>

text \<open>
  The releases of keys pressed earlier that are kept until the tap is settled: modifiers and layers.
\<close>

definition release_is_retained :: "action_t \<Rightarrow> nat \<Rightarrow> bool" where
  "release_is_retained a n \<longleftrightarrow>
    (if kind_id a \<in> {ACT_LMODS, ACT_RMODS} then
       (key_mods a \<noteq> 0 \<and> key_code a = 0) \<or> IS_MODIFIER_KEYCODE (ucast (key_code a))
     else if kind_id a \<in> {ACT_LMODS_TAP, ACT_RMODS_TAP} then
       (key_mods a \<noteq> 0 \<and> n = 0) \<or> IS_MODIFIER_KEYCODE (ucast (key_code a))
     else if kind_id a \<in> {ACT_LAYER_TAP, ACT_LAYER_TAP_EXT} then
       layer_tap_code a < 0xF0 \<or> layer_tap_code a \<in> {0xF1, 0xF2, 0xF3}
     else False)"

text \<open>No tapping key.\<close>

definition tapping_idle :: "'q record_hooks \<Rightarrow> keymap \<Rightarrow> keyrecord_t \<Rightarrow> 'q tapping \<Rightarrow> bool \<times> keyrecord_t \<times> 'q tapping" where
  "tapping_idle h km r s =
    (if \<not> IS_EVENT (event r) then (True, r, s)
     else if pressed (event r) \<and> is_tap_record km r (host s) then
       (True, r, waiting_buffer_scan_tap h km (s\<lparr>tapping_key := r\<rparr>))
     else (let (r, s) = tp_process h km r s in (True, r, s)))"

text \<open>Pressed, within the term, not settled.\<close>

definition tapping_unsettled :: "'q record_hooks \<Rightarrow> keymap \<Rightarrow> keyrecord_t \<Rightarrow> 'q tapping \<Rightarrow> bool \<times> keyrecord_t \<times> 'q tapping" where
  "tapping_unsettled h km r s =
    (if IS_TAPPING_RECORD r s \<and> \<not> pressed (event r) then
       (let s = process_tapping_key h km
              (s\<lparr>tapping_key := (tapping_key s)\<lparr>tap := (tap (tapping_key s))\<lparr>tap_count := 1\<rparr>\<rparr>\<rparr>)
        in (False, r\<lparr>tap := tap (tapping_key s)\<rparr>, s))
     else if \<not> pressed (event r) \<and> \<not> waiting_buffer_typed (event r) s then
       (if release_is_retained (record_layer_action km (ev_key (event r)) (host s)) (tap_count (tap r))
        then (False, r, s)
        else (let (r, s) = tp_process h km r s in (True, r, s)))
     else if pressed (event r) then
       (False, r, s\<lparr>tapping_key := (tapping_key s)\<lparr>tap := (tap (tapping_key s))\<lparr>interrupted := True\<rparr>\<rparr>\<rparr>)
     else (False, r, s))"

text \<open>
  Pressed and settled as a tap; \<open>final\<close> says whether the term is over, in which case the release ends
  the tapping.
\<close>

definition tapping_settled ::
    "'q record_hooks \<Rightarrow> keymap \<Rightarrow> bool \<Rightarrow> keyrecord_t \<Rightarrow> 'q tapping \<Rightarrow> bool \<times> keyrecord_t \<times> 'q tapping" where
  "tapping_settled h km final r s =
    (if IS_TAPPING_RECORD r s \<and> \<not> pressed (event r) then
       (let (r, s) = tp_process h km (r\<lparr>tap := tap (tapping_key s)\<rparr>) s
        in (True, r, s\<lparr>tapping_key := if final then no_record else r\<rparr>))
     else if is_tap_record km r (host s) \<and> pressed (event r) then
       (let s = (if tap_count (tap (tapping_key s)) > 1 then unregister_tapping_key h km (event r) s else s)
        in (True, r, waiting_buffer_scan_tap h km (s\<lparr>tapping_key := r\<rparr>)))
     else (let (r, s) = tp_process h km r s in (True, r, s)))"

text \<open>Released, within the term.\<close>

definition tapping_released :: "'q record_hooks \<Rightarrow> keymap \<Rightarrow> keyrecord_t \<Rightarrow> 'q tapping \<Rightarrow> bool \<times> keyrecord_t \<times> 'q tapping" where
  "tapping_released h km r s =
    (if pressed (event r) then
       (if IS_TAPPING_RECORD r s then
          (if WITHIN_QUICK_TAP_TERM (event r) s \<and> \<not> interrupted (tap (tapping_key s)) \<and>
              tap_count (tap (tapping_key s)) > 0 then
             (let t = tap (tapping_key s);
                  t = (if tap_count t < 15 then t\<lparr>tap_count := tap_count t + 1\<rparr> else t);
                  (r, s) = tp_process h km (r\<lparr>tap := t\<rparr>) s
              in (True, r, s\<lparr>tapping_key := r\<rparr>))
           else (True, r, s\<lparr>tapping_key := r\<rparr>))
        else if is_tap_record km r (host s) then
          (True, r, waiting_buffer_scan_tap h km (s\<lparr>tapping_key := r\<rparr>))
        else
          (let s = s\<lparr>tapping_key := (tapping_key s)\<lparr>tap := (tap (tapping_key s))\<lparr>interrupted := True\<rparr>\<rparr>\<rparr>;
               (r, s) = tp_process h km r s in (True, r, s)))
     else (let (r, s) = tp_process h km r s in (True, r, s)))"

definition process_tapping :: "'q record_hooks \<Rightarrow> keymap \<Rightarrow> keyrecord_t \<Rightarrow> 'q tapping \<Rightarrow> bool \<times> keyrecord_t \<times> 'q tapping" where
  "process_tapping h km r s =
    (if IS_NOEVENT (event (tapping_key s)) then tapping_idle h km r s
     else if pressed (event (tapping_key s)) then
       (if WITHIN_TAPPING_TERM (event r) s then
          (if IS_NOEVENT (event r) then (True, r, s)
           else if tap_count (tap (tapping_key s)) = 0 then tapping_unsettled h km r s
           else tapping_settled h km False r s)
        else if tap_count (tap (tapping_key s)) = 0 then
          (False, r, (process_tapping_key h km s)\<lparr>tapping_key := no_record\<rparr>)
        else if IS_NOEVENT (event r) then (True, r, s)
        else tapping_settled h km True r s)
     else if WITHIN_TAPPING_TERM (event r) s then
       (if IS_NOEVENT (event r) then (True, r, s) else tapping_released h km r s)
     else (False, r, s\<lparr>tapping_key := no_record\<rparr>))"

section \<open>\<open>action_tapping_process\<close> and \<open>action_exec\<close>\<close>

definition waiting_queue :: "'q tapping \<Rightarrow> keyrecord_t list" where
  "waiting_queue s = map (\<lambda>i. waiting_buffer s ! i) (wb_indices s)"

text \<open>A tap key whose press is not processed yet.\<close>

definition unsettled :: "'q tapping \<Rightarrow> bool" where
  "unsettled s \<longleftrightarrow> IS_EVENT (event (tapping_key s)) \<and> pressed (event (tapping_key s)) \<and>
    tap_count (tap (tapping_key s)) = 0"

definition pending :: "'q tapping \<Rightarrow> keyevent_t list" where
  "pending s = (if unsettled s then [event (tapping_key s)] else []) @ map event (waiting_queue s)"

definition tapping_overflow :: "keyevent_t \<Rightarrow> 'q tapping \<Rightarrow> 'q tapping" where
  "tapping_overflow e s =
    (waiting_buffer_clear (s\<lparr>host := clear_keyboard (host s), tp_dropped := tp_dropped s @ pending s @ [e]\<rparr>))
      \<lparr>tapping_key := no_record\<rparr>"

definition tapping_accept :: "'q record_hooks \<Rightarrow> keymap \<Rightarrow> keyrecord_t \<Rightarrow> 'q tapping \<Rightarrow> 'q tapping" where
  "tapping_accept h km r s =
    (let (done, r, s) = process_tapping h km r s in
     if done then s
     else let (ok, s) = waiting_buffer_enq r s in if ok then s else tapping_overflow (event r) s)"

lemma process_tapping_buffer:
  assumes "process_tapping h km r s = (done, r', s')"
  shows "waiting_buffer_head s' = waiting_buffer_head s \<and> waiting_buffer_tail s' = waiting_buffer_tail s"
proof -
  have scan: "waiting_buffer_head (waiting_buffer_scan_tap h km s) = waiting_buffer_head s"
    "waiting_buffer_tail (waiting_buffer_scan_tap h km s) = waiting_buffer_tail s" for s
    by (auto simp: waiting_buffer_scan_tap_def process_tapping_key_def tp_process_def split_beta Let_def
        split: option.splits)
  show ?thesis
    using assms
    by (auto simp: process_tapping_def tapping_idle_def tapping_unsettled_def tapping_settled_def
        tapping_released_def tp_process_def process_tapping_key_def unregister_tapping_key_def scan
        split_beta Let_def split: if_splits)
qed

text \<open>
  The loop over the waiting events stops at the first that has to wait on. It is given as many rounds
  as the buffer has entries, one more than can wait (\<open>process_waiting_rounds\<close>).
\<close>

fun process_waiting :: "'q record_hooks \<Rightarrow> keymap \<Rightarrow> nat \<Rightarrow> 'q tapping \<Rightarrow> 'q tapping" where
  "process_waiting h km 0 s = s"
| "process_waiting h km (Suc n) s =
    (if waiting_buffer_tail s = waiting_buffer_head s then s
     else case process_tapping h km (waiting_buffer s ! waiting_buffer_tail s) s of
       (done, r, s) \<Rightarrow>
         (let s = s\<lparr>waiting_buffer := (waiting_buffer s)[waiting_buffer_tail s := r]\<rparr>
          in if done then
               process_waiting h km n
                 (s\<lparr>waiting_buffer_tail := (waiting_buffer_tail s + 1) mod WAITING_BUFFER_SIZE\<rparr>)
             else s))"

definition action_tapping_process :: "'q record_hooks \<Rightarrow> keymap \<Rightarrow> keyrecord_t \<Rightarrow> 'q tapping \<Rightarrow> 'q tapping" where
  "action_tapping_process h km r s =
    process_waiting h km WAITING_BUFFER_SIZE (tapping_accept h km r s)"

definition action_exec :: "'q record_hooks \<Rightarrow> keymap \<Rightarrow> keyevent_t \<Rightarrow> 'q tapping \<Rightarrow> 'q tapping" where
  "action_exec h km e s =
    (let s = (if pressed e then s\<lparr>host := clear_weak_mods (host s)\<rparr> else s);
         r = \<lparr> event = e, tap = \<lparr> interrupted = False, tap_count = 0 \<rparr> \<rparr>
     in if IS_NOEVENT e then action_tapping_process h km r s
        else (let (go, u) = pre_process_record_quantum h r (host s); s = s\<lparr>host := u\<rparr>
              in if go then action_tapping_process h km r s else s))"

section \<open>The buffer as a queue\<close>

definition tapping_wf :: "'q tapping \<Rightarrow> bool" where
  "tapping_wf s \<longleftrightarrow> length (waiting_buffer s) = 8 \<and> waiting_buffer_head s < 8 \<and> waiting_buffer_tail s < 8"

definition waiting_count :: "'q tapping \<Rightarrow> nat" where
  "waiting_count s = (waiting_buffer_head s + 8 - waiting_buffer_tail s) mod 8"

lemma wb_indices_count: "wb_indices s = map (\<lambda>k. (waiting_buffer_tail s + k) mod 8) [0..<waiting_count s]"
  by (simp add: wb_indices_def waiting_count_def)

lemma length_waiting_queue [simp]: "length (waiting_queue s) = waiting_count s"
  by (simp add: waiting_queue_def wb_indices_count)

lemma waiting_count_le: "waiting_count s \<le> 7"
  using mod_less_divisor [of 8 "waiting_buffer_head s + 8 - waiting_buffer_tail s"]
  by (simp add: waiting_count_def)

lemma mod_8: "n < 16 \<Longrightarrow> n mod 8 = (if n < 8 then n else n - (8 :: nat))"
  by (auto simp: mod_if)

lemma waiting_count_cases:
  assumes "tapping_wf s"
  shows "waiting_count s = (if waiting_buffer_tail s \<le> waiting_buffer_head s
    then waiting_buffer_head s - waiting_buffer_tail s
    else waiting_buffer_head s + 8 - waiting_buffer_tail s)"
  using assms mod_8 [of "waiting_buffer_head s + 8 - waiting_buffer_tail s"]
  by (auto simp: waiting_count_def tapping_wf_def)

lemma waiting_count_0: "tapping_wf s \<Longrightarrow> waiting_count s = 0 \<longleftrightarrow> waiting_buffer_tail s = waiting_buffer_head s"
  using waiting_count_cases [of s] by (auto simp: tapping_wf_def split: if_splits)

lemma queue_nth:
  "k < waiting_count s \<Longrightarrow> waiting_queue s ! k = waiting_buffer s ! ((waiting_buffer_tail s + k) mod 8)"
  by (simp add: waiting_queue_def wb_indices_count)

lemma waiting_index_inj:
  assumes "t < 8" "j < 8" "k < 8" "(t + j) mod 8 = (t + k) mod (8 :: nat)"
  shows "j = k"
  using assms mod_8 [of "t + j"] mod_8 [of "t + k"] by (auto split: if_splits)

text \<open>Changing the entry at position \<open>k\<close> of the queue.\<close>

lemma queue_update:
  assumes "tapping_wf s" "k < waiting_count s"
  shows "waiting_queue (s\<lparr>waiting_buffer := (waiting_buffer s)[(waiting_buffer_tail s + k) mod 8 := r]\<rparr>) =
    (waiting_queue s)[k := r]"
proof (rule nth_equalityI)
  let ?s = "s\<lparr>waiting_buffer := (waiting_buffer s)[(waiting_buffer_tail s + k) mod 8 := r]\<rparr>"
  have c: "waiting_count ?s = waiting_count s" by (simp add: waiting_count_def)
  then show "length (waiting_queue ?s) = length ((waiting_queue s)[k := r])" by simp
  fix j assume "j < length (waiting_queue ?s)"
  then have j: "j < waiting_count s" by (simp add: c)
  then have "(waiting_buffer_tail s + j) mod 8 = (waiting_buffer_tail s + k) mod 8 \<longleftrightarrow> j = k"
    using waiting_index_inj [of "waiting_buffer_tail s" j k] assms waiting_count_le [of s]
    by (auto simp: tapping_wf_def)
  then show "waiting_queue ?s ! j = (waiting_queue s)[k := r] ! j"
    using j assms c by (auto simp: queue_nth nth_list_update tapping_wf_def)
qed

lemma queue_tl:
  assumes "tapping_wf s" "0 < waiting_count s"
  shows "waiting_queue (s\<lparr>waiting_buffer_tail := (waiting_buffer_tail s + 1) mod 8\<rparr>) = tl (waiting_queue s)"
    "waiting_count (s\<lparr>waiting_buffer_tail := (waiting_buffer_tail s + 1) mod 8\<rparr>) = waiting_count s - 1"
proof -
  let ?s = "s\<lparr>waiting_buffer_tail := (waiting_buffer_tail s + 1) mod 8\<rparr>"
  have wf: "tapping_wf ?s" using assms(1) by (simp add: tapping_wf_def)
  show c: "waiting_count ?s = waiting_count s - 1"
    using assms mod_8 [of "waiting_buffer_tail s + 1"]
    unfolding waiting_count_cases [OF wf] waiting_count_cases [OF assms(1)]
    by (auto simp: tapping_wf_def split: if_splits)
  show "waiting_queue ?s = tl (waiting_queue s)"
  proof (rule nth_equalityI)
    show "length (waiting_queue ?s) = length (tl (waiting_queue s))" using c by simp
    fix j assume "j < length (waiting_queue ?s)"
    then have j: "j < waiting_count s - 1" unfolding length_waiting_queue c .
    have "((waiting_buffer_tail s + 1) mod 8 + j) mod 8 = (waiting_buffer_tail s + Suc j) mod 8"
      by (simp add: mod_simps)
    then show "waiting_queue ?s ! j = tl (waiting_queue s) ! j"
      using j c by (simp add: queue_nth nth_tl)
  qed
qed

lemma queue_enq:
  assumes "tapping_wf s" "(waiting_buffer_head s + 1) mod 8 \<noteq> waiting_buffer_tail s"
  shows "waiting_queue (s\<lparr>waiting_buffer := (waiting_buffer s)[waiting_buffer_head s := r],
      waiting_buffer_head := (waiting_buffer_head s + 1) mod 8\<rparr>) = waiting_queue s @ [r]"
proof (rule nth_equalityI)
  let ?s = "s\<lparr>waiting_buffer := (waiting_buffer s)[waiting_buffer_head s := r],
      waiting_buffer_head := (waiting_buffer_head s + 1) mod 8\<rparr>"
  have wf: "tapping_wf ?s" using assms(1) by (simp add: tapping_wf_def)
  have c: "waiting_count ?s = Suc (waiting_count s)"
    using assms mod_8 [of "waiting_buffer_head s + 1"]
    unfolding waiting_count_cases [OF wf] waiting_count_cases [OF assms(1)]
    by (auto simp: tapping_wf_def split: if_splits)
  show "length (waiting_queue ?s) = length (waiting_queue s @ [r])" unfolding length_waiting_queue c by simp
  fix j assume "j < length (waiting_queue ?s)"
  then have j: "j \<le> waiting_count s" unfolding length_waiting_queue c by simp
  have h: "waiting_buffer_head s = (waiting_buffer_tail s + waiting_count s) mod 8"
    using assms(1) waiting_count_cases [OF assms(1)]
      mod_8 [of "waiting_buffer_tail s + waiting_count s"] by (auto simp: tapping_wf_def split: if_splits)
  have idx: "(waiting_buffer_tail s + j) mod 8 = waiting_buffer_head s \<longleftrightarrow> j = waiting_count s"
    unfolding h using waiting_index_inj [of "waiting_buffer_tail s" j "waiting_count s"] j
      waiting_count_le [of s] assms(1) by (auto simp: tapping_wf_def)
  have len: "length (waiting_buffer s) = 8" "waiting_buffer_head s < 8"
    using assms(1) by (simp_all add: tapping_wf_def)
  have "waiting_queue ?s ! j =
      (waiting_buffer s)[waiting_buffer_head s := r] ! ((waiting_buffer_tail s + j) mod 8)"
    using queue_nth [of j ?s] j unfolding c by simp
  also have "\<dots> = (if j = waiting_count s then r else waiting_buffer s ! ((waiting_buffer_tail s + j) mod 8))"
  proof (cases "j = waiting_count s")
    case True
    with idx have "(waiting_buffer_tail s + j) mod 8 = waiting_buffer_head s" by blast
    with True len show ?thesis by simp
  next
    case False
    with idx have "(waiting_buffer_tail s + j) mod 8 \<noteq> waiting_buffer_head s" by blast
    with False show ?thesis by simp
  qed
  finally have q: "waiting_queue ?s ! j =
    (if j = waiting_count s then r else waiting_buffer s ! ((waiting_buffer_tail s + j) mod 8))" .
  show "waiting_queue ?s ! j = (waiting_queue s @ [r]) ! j"
    unfolding q using j by (auto simp: nth_append queue_nth)
qed

end
