(* ===== verification/Tapping_Account.thy ===== *)
theory Tapping_Account
  imports Action_Tapping "HOL-Library.Multiset"
begin

text \<open>
  Every key event that \<open>action_exec\<close> gets is processed once, still held, or was given up at an overflow of
  the waiting buffer. Each step of the tapping machine is shown to keep the account (\<open>process_tapping_ok\<close>),
  then the waiting loop (\<open>process_waiting_account\<close>), then whole runs (\<open>tapping_trace\<close>).
\<close>

section \<open>No key event is lost or processed twice\<close>

text \<open>The queue does not depend on the other fields.\<close>

lemma wb_fields [simp]:
  "wb_indices (s\<lparr>tapping_key := k\<rparr>) = wb_indices s"
  "wb_indices (s\<lparr>host := u\<rparr>) = wb_indices s"
  "wb_indices (s\<lparr>tp_log := l\<rparr>) = wb_indices s"
  "wb_indices (s\<lparr>tp_dropped := d\<rparr>) = wb_indices s"
  "wb_indices (s\<lparr>waiting_buffer := b\<rparr>) = wb_indices s"
  "waiting_queue (s\<lparr>tapping_key := k\<rparr>) = waiting_queue s"
  "waiting_queue (s\<lparr>host := u\<rparr>) = waiting_queue s"
  "waiting_queue (s\<lparr>tp_log := l\<rparr>) = waiting_queue s"
  "waiting_queue (s\<lparr>tp_dropped := d\<rparr>) = waiting_queue s"
  "tapping_wf (s\<lparr>tapping_key := k\<rparr>) = tapping_wf s"
  "tapping_wf (s\<lparr>host := u\<rparr>) = tapping_wf s"
  "tapping_wf (s\<lparr>tp_log := l\<rparr>) = tapping_wf s"
  "tapping_wf (s\<lparr>tp_dropped := d\<rparr>) = tapping_wf s"
  "tapping_wf (s\<lparr>waiting_buffer := (waiting_buffer s)[i := r]\<rparr>) = tapping_wf s"
  by (simp_all add: wb_indices_def waiting_queue_def tapping_wf_def)

text \<open>
  What the waiting events satisfy: a press has not been counted as a tap, because that is decided when
  it becomes the tapping key.
\<close>

definition fresh_record :: "keyrecord_t \<Rightarrow> bool" where
  "fresh_record r \<longleftrightarrow> IS_EVENT (event r) \<and> (pressed (event r) \<longrightarrow> tap_count (tap r) = 0)"

definition tapping_inv :: "'q tapping \<Rightarrow> bool" where
  "tapping_inv s \<longleftrightarrow> tapping_wf s \<and> list_all fresh_record (waiting_queue s)"

primrec input_events :: "processed \<Rightarrow> keyevent_t list" where
  "input_events (Input r) = [event r]"
| "input_events (Made r) = []"

definition processed_events :: "'q tapping \<Rightarrow> keyevent_t list" where
  "processed_events s = concat (map input_events (tp_log s))"

text \<open>The events that have been processed or are held in the tapping key.\<close>

definition key_events :: "'q tapping \<Rightarrow> keyevent_t multiset" where
  "key_events s = mset (processed_events s) + mset (if unsettled s then [event (tapping_key s)] else [])"

text \<open>What a step leaves of the waiting events.\<close>

definition same_waiting :: "'q tapping \<Rightarrow> 'q tapping \<Rightarrow> bool" where
  "same_waiting s s' \<longleftrightarrow> tapping_inv s' \<and> map event (waiting_queue s') = map event (waiting_queue s) \<and>
    tp_dropped s' = tp_dropped s"

lemma same_waiting_refl [simp]: "tapping_inv s \<Longrightarrow> same_waiting s s"
  by (simp add: same_waiting_def)

lemma same_waiting_fields [simp]:
  "same_waiting s (s'\<lparr>tapping_key := k\<rparr>) = same_waiting s s'"
  "same_waiting s (s'\<lparr>host := u\<rparr>) = same_waiting s s'"
  "same_waiting s (s'\<lparr>tp_log := l\<rparr>) = same_waiting s s'"
  "same_waiting (s\<lparr>tapping_key := k\<rparr>) s' = same_waiting s s'"
  "same_waiting (s\<lparr>host := u\<rparr>) s' = same_waiting s s'"
  "same_waiting (s\<lparr>tp_log := l\<rparr>) s' = same_waiting s s'"
  by (simp_all add: same_waiting_def tapping_inv_def)

lemma tapping_inv_fields [simp]:
  "tapping_inv (s\<lparr>tapping_key := k\<rparr>) = tapping_inv s"
  "tapping_inv (s\<lparr>host := u\<rparr>) = tapping_inv s"
  "tapping_inv (s\<lparr>tp_log := l\<rparr>) = tapping_inv s"
  "tapping_inv (s\<lparr>tp_dropped := d\<rparr>) = tapping_inv s"
  by (simp_all add: tapping_inv_def)

lemma wb_indices_position:
  assumes "i \<in> set (wb_indices s)"
  obtains k where "k < waiting_count s" "i = (waiting_buffer_tail s + k) mod 8"
  using assms by (auto simp: wb_indices_count)

lemma same_waiting_update:
  assumes "tapping_inv s" "i \<in> set (wb_indices s)"
    "event r = event (waiting_buffer s ! i)" "\<not> pressed (event r)" "IS_EVENT (event r)"
  shows "same_waiting s (s\<lparr>waiting_buffer := (waiting_buffer s)[i := r]\<rparr>)"
proof -
  obtain k where k: "k < waiting_count s" "i = (waiting_buffer_tail s + k) mod 8"
    using assms(2) by (rule wb_indices_position)
  have wf: "tapping_wf s" using assms(1) by (simp add: tapping_inv_def)
  have q: "waiting_queue (s\<lparr>waiting_buffer := (waiting_buffer s)[i := r]\<rparr>) = (waiting_queue s)[k := r]"
    unfolding k(2) by (rule queue_update [OF wf k(1)])
  have "map event ((waiting_queue s)[k := r]) = map event (waiting_queue s)"
    using k assms(3) by (simp add: map_update list_update_same_conv queue_nth)
  moreover have "list_all fresh_record ((waiting_queue s)[k := r])"
    using assms(1,4,5) set_update_subset_insert [of "waiting_queue s" k r]
    by (auto simp: tapping_inv_def list_all_iff fresh_record_def)
  ultimately show ?thesis using wf by (simp add: same_waiting_def tapping_inv_def q)
qed

section \<open>Each step\<close>

lemma tp_process_simps:
  "fst (tp_process h km r s) = fst (process_record h km r (host s))"
  "snd (tp_process h km r s) =
    s\<lparr>host := snd (process_record h km r (host s)), tp_log := tp_log s @ [Input r]\<rparr>"
  by (simp_all add: tp_process_def split_beta)

lemma process_tapping_key_eq:
  "process_tapping_key h km s =
    s\<lparr>host := snd (process_record h km (tapping_key s) (host s)), tp_log := tp_log s @ [Input (tapping_key s)],
      tapping_key := fst (process_record h km (tapping_key s) (host s))\<rparr>"
  by (simp add: process_tapping_key_def split_beta tp_process_simps Let_def)

lemma unregister_tapping_key_eq:
  "\<exists>u r. unregister_tapping_key h km e s = s\<lparr>host := u, tp_log := tp_log s @ [Made r]\<rparr>"
  by (simp add: unregister_tapping_key_def Let_def) blast

lemma processed_events_snoc:
  "tp_log s' = tp_log s @ [Input r] \<Longrightarrow> processed_events s' = processed_events s @ [event r]"
  "tp_log s' = tp_log s @ [Made r] \<Longrightarrow> processed_events s' = processed_events s"
  "tp_log s' = tp_log s \<Longrightarrow> processed_events s' = processed_events s"
  by (simp_all add: processed_events_def)

lemma scan_tap_keeps:
  assumes "tapping_inv s" "IS_EVENT (event (tapping_key s))"
  shows "key_events (waiting_buffer_scan_tap h km s) = key_events s"
    "same_waiting s (waiting_buffer_scan_tap h km s)"
proof -
  let ?P = "\<lambda>i. let c = event (waiting_buffer s ! i) in
           IS_EVENT c \<and> KEYEQ (ev_key c) (ev_key (event (tapping_key s))) \<and> \<not> pressed c \<and>
           WITHIN_TAPPING_TERM c s"
  consider "waiting_buffer_scan_tap h km s = s" |
    i where "pressed (event (tapping_key s))" "tap_count (tap (tapping_key s)) = 0"
      "find ?P (wb_indices s) = Some i"
  proof (cases "find ?P (wb_indices s)")
    case None
    then have "waiting_buffer_scan_tap h km s = s" by (simp add: waiting_buffer_scan_tap_def)
    with that(1) show ?thesis .
  next
    case (Some i)
    show ?thesis
    proof (cases "tap_count (tap (tapping_key s)) > 0 \<or> \<not> pressed (event (tapping_key s))")
      case True
      then have "waiting_buffer_scan_tap h km s = s" by (simp add: waiting_buffer_scan_tap_def)
      with that(1) show ?thesis .
    next
      case False
      with Some that(2) show ?thesis by simp
    qed
  qed
  then have "key_events (waiting_buffer_scan_tap h km s) = key_events s \<and>
    same_waiting s (waiting_buffer_scan_tap h km s)"
  proof cases
    case 1
    then show ?thesis using assms(1) by simp
  next
    case (2 i)
    then have i: "i \<in> set (wb_indices s)" "IS_EVENT (event (waiting_buffer s ! i))"
      "\<not> pressed (event (waiting_buffer s ! i))"
      by (auto simp: find_Some_iff Let_def)
    let ?r = "(waiting_buffer s ! i)\<lparr>tap := (tap (waiting_buffer s ! i))\<lparr>tap_count := 1\<rparr>\<rparr>"
    have "same_waiting s (s\<lparr>waiting_buffer := (waiting_buffer s)[i := ?r]\<rparr>)"
      by (rule same_waiting_update) (use assms i in simp_all)
    then have "same_waiting s (waiting_buffer_scan_tap h km s)"
      using 2 by (simp add: waiting_buffer_scan_tap_def process_tapping_key_eq same_waiting_def
          tapping_inv_def waiting_queue_def tapping_wf_def wb_indices_def)
    moreover have "key_events (waiting_buffer_scan_tap h km s) = key_events s"
      using 2 assms(2) by (simp add: waiting_buffer_scan_tap_def process_tapping_key_eq key_events_def
          unsettled_def processed_events_def)
    ultimately show ?thesis by simp
  qed
  then show "key_events (waiting_buffer_scan_tap h km s) = key_events s"
    "same_waiting s (waiting_buffer_scan_tap h km s)" by simp_all
qed


text \<open>
  \<open>taken\<close> are the events that the step has moved from its argument into the machine.
\<close>

definition step_ok :: "'q tapping \<Rightarrow> keyrecord_t \<Rightarrow> keyevent_t multiset \<Rightarrow> bool \<times> keyrecord_t \<times> 'q tapping \<Rightarrow> bool" where
  "step_ok s r taken res \<longleftrightarrow>
    (case res of (done, r', s') \<Rightarrow>
      key_events s' = key_events s + taken \<and> same_waiting s s' \<and>
      (\<not> done \<longrightarrow> event r' = event r \<and> (fresh_record r \<longrightarrow> fresh_record r')))"

definition taken_if :: "bool \<Rightarrow> keyrecord_t \<Rightarrow> keyevent_t multiset" where
  "taken_if done r = (if done \<and> IS_EVENT (event r) then {#event r#} else {#})"

lemma key_events_settled:
  "\<not> unsettled s \<Longrightarrow> key_events s = mset (processed_events s)"
  by (simp add: key_events_def)

text \<open>A record is processed and the tapping key stays settled.\<close>

lemma key_events_process:
  assumes "\<not> unsettled s" "\<not> unsettled s'" "tp_log s' = tp_log s @ [Input r]"
  shows "key_events s' = key_events s + {#event r#}"
  using assms by (simp add: key_events_def processed_events_snoc(2,1))

text \<open>A new tapping key.\<close>

lemma key_events_start:
  assumes "\<not> unsettled s" "fresh_record r" "pressed (event r)"
  shows "key_events (s\<lparr>tapping_key := r\<rparr>) = key_events s + {#event r#}"
  using assms by (simp add: key_events_def unsettled_def fresh_record_def processed_events_def)

lemma tapping_start_ok:
  assumes "tapping_inv s" "\<not> unsettled s" "fresh_record r" "pressed (event r)"
  shows "step_ok s r {#event r#} (True, r, waiting_buffer_scan_tap h km (s\<lparr>tapping_key := r\<rparr>))"
  using assms scan_tap_keeps [of "s\<lparr>tapping_key := r\<rparr>" h km] key_events_start [of s r]
  by (simp add: step_ok_def fresh_record_def)

text \<open>A record that is just processed.\<close>

lemma tapping_pass_ok:
  assumes "tapping_inv s"
  shows "step_ok s r {#event r#} (True, tp_process h km r s)"
    "step_ok s r {#event r#} (True, r'', snd (tp_process h km r s))"
  using assms by (simp_all add: tp_process_def split_beta step_ok_def key_events_def unsettled_def
      processed_events_def)

lemma tapping_idle_ok:
  assumes "tapping_inv s" "IS_NOEVENT (event (tapping_key s))" "IS_EVENT (event r) \<longrightarrow> fresh_record r"
  shows "step_ok s r (taken_if (fst (tapping_idle h km r s)) r) (tapping_idle h km r s)"
proof -
  have u: "\<not> unsettled s" using assms(2) by (simp add: unsettled_def IS_EVENT_def IS_NOEVENT_def)
  consider "\<not> IS_EVENT (event r)" | "IS_EVENT (event r)" "pressed (event r) \<and> is_tap_record km r (host s)"
    | "IS_EVENT (event r)" "\<not> (pressed (event r) \<and> is_tap_record km r (host s))" by blast
  then show ?thesis
  proof cases
    case 1
    then show ?thesis using assms(1) by (simp add: tapping_idle_def step_ok_def taken_if_def)
  next
    case 2
    then show ?thesis using assms u tapping_start_ok [of s r h km] by (simp add: tapping_idle_def taken_if_def)
  next
    case 3
    then show ?thesis using assms tapping_pass_ok [where s = s and r = r and h = h and km = km]
      by (auto simp: tapping_idle_def taken_if_def)
  qed
qed

text \<open>The tapping key is processed: it is settled from then on.\<close>

lemma key_events_settle:
  assumes "unsettled s" "\<not> unsettled s'" "tp_log s' = tp_log s @ [Input r]" "event r = event (tapping_key s)"
  shows "key_events s' = key_events s"
  using assms by (simp add: key_events_def processed_events_snoc(1))

lemma tapping_unsettled_ok:
  assumes "tapping_inv s" "unsettled s" "fresh_record r"
  shows "step_ok s r (taken_if (fst (tapping_unsettled h km r s)) r) (tapping_unsettled h km r s)"
proof -
  let ?k = "(tapping_key s)\<lparr>tap := (tap (tapping_key s))\<lparr>tap_count := 1\<rparr>\<rparr>"
  consider "IS_TAPPING_RECORD r s \<and> \<not> pressed (event r)"
    | "\<not> (IS_TAPPING_RECORD r s \<and> \<not> pressed (event r))" "\<not> pressed (event r) \<and> \<not> waiting_buffer_typed (event r) s"
    | "\<not> (IS_TAPPING_RECORD r s \<and> \<not> pressed (event r))"
      "\<not> (\<not> pressed (event r) \<and> \<not> waiting_buffer_typed (event r) s)" by blast
  moreover have not_tapped: "step_ok s r {#} (False, r, s)" using assms(1) by (simp add: step_ok_def)
  ultimately show ?thesis
  proof cases
    case 1
    have "key_events (process_tapping_key h km (s\<lparr>tapping_key := ?k\<rparr>)) = key_events s"
      by (rule key_events_settle [of _ _ ?k])
        (use assms in \<open>simp_all add: process_tapping_key_eq unsettled_def\<close>)
    with 1 show ?thesis using assms
      by (simp add: tapping_unsettled_def step_ok_def taken_if_def Let_def fresh_record_def process_tapping_key_eq)
  next
    case 2
    then show ?thesis using assms(1,3) tapping_pass_ok [where s = s and r = r and h = h and km = km] not_tapped
      by (auto simp: tapping_unsettled_def taken_if_def fresh_record_def)
  next
    case 3
    have "key_events (s\<lparr>tapping_key := (tapping_key s)\<lparr>tap := (tap (tapping_key s))\<lparr>interrupted := True\<rparr>\<rparr>\<rparr>) =
        key_events s"
      by (simp add: key_events_def unsettled_def processed_events_def)
    with 3 show ?thesis using assms(1)
      by (cases "IS_TAPPING_RECORD r s"; cases "pressed (event r)")
        (simp_all add: tapping_unsettled_def taken_if_def step_ok_def)
  qed
qed


lemma step_ok_shift:
  assumes "step_ok s r taken res" "key_events s = key_events s0" "same_waiting s0 s" "tp_dropped s = tp_dropped s0"
  shows "step_ok s0 r taken res"
  using assms by (auto simp: step_ok_def same_waiting_def)

text \<open>The end of a repeated tap is made up: it takes no event.\<close>

lemma unregister_keeps:
  assumes "tapping_inv s"
  shows "key_events (unregister_tapping_key h km e s) = key_events s"
    "same_waiting s (unregister_tapping_key h km e s)"
    "tapping_key (unregister_tapping_key h km e s) = tapping_key s"
proof -
  obtain u m where eq: "unregister_tapping_key h km e s = s\<lparr>host := u, tp_log := tp_log s @ [Made m]\<rparr>"
    using unregister_tapping_key_eq by blast
  show "key_events (unregister_tapping_key h km e s) = key_events s"
    "same_waiting s (unregister_tapping_key h km e s)"
    "tapping_key (unregister_tapping_key h km e s) = tapping_key s"
    using assms by (simp_all add: eq key_events_def unsettled_def processed_events_def)
qed

lemma tapping_settled_ok:
  assumes "tapping_inv s" "\<not> unsettled s" "tap_count (tap (tapping_key s)) > 0" "fresh_record r"
  shows "step_ok s r (taken_if (fst (tapping_settled h km final r s)) r) (tapping_settled h km final r s)"
proof -
  have ev: "IS_EVENT (event r)" using assms(4) by (simp add: fresh_record_def)
  consider "IS_TAPPING_RECORD r s \<and> \<not> pressed (event r)"
    | "\<not> (IS_TAPPING_RECORD r s \<and> \<not> pressed (event r))" "is_tap_record km r (host s) \<and> pressed (event r)"
    | "\<not> (IS_TAPPING_RECORD r s \<and> \<not> pressed (event r))" "\<not> (is_tap_record km r (host s) \<and> pressed (event r))"
    by blast
  then show ?thesis
  proof cases
    case 1
    then show ?thesis using assms(1,2,3) ev
      by (simp add: tapping_settled_def tp_process_def split_beta step_ok_def taken_if_def key_events_def
          unsettled_def processed_events_def no_record_def no_event_def IS_EVENT_def)
  next
    case 2
    define s1 where "s1 = (if tap_count (tap (tapping_key s)) > 1 then unregister_tapping_key h km (event r) s else s)"
    have s1: "key_events s1 = key_events s" "same_waiting s s1" "tapping_key s1 = tapping_key s"
      using unregister_keeps [OF assms(1)] assms(1) by (simp_all add: s1_def)
    have "step_ok s1 r {#event r#} (True, r, waiting_buffer_scan_tap h km (s1\<lparr>tapping_key := r\<rparr>))"
      by (rule tapping_start_ok) (use assms s1 2 in \<open>simp_all add: same_waiting_def unsettled_def\<close>)
    then have "step_ok s r {#event r#} (True, r, waiting_buffer_scan_tap h km (s1\<lparr>tapping_key := r\<rparr>))"
      by (rule step_ok_shift) (use s1 in \<open>simp_all add: same_waiting_def\<close>)
    with 2 ev show ?thesis by (simp add: tapping_settled_def taken_if_def s1_def)
  next
    case 3
    then show ?thesis using assms(1) ev tapping_pass_ok [where s = s and r = r and h = h and km = km]
      by (auto simp: tapping_settled_def taken_if_def)
  qed
qed

lemma tapping_released_ok:
  assumes "tapping_inv s" "\<not> pressed (event (tapping_key s))" "fresh_record r"
  shows "step_ok s r (taken_if (fst (tapping_released h km r s)) r) (tapping_released h km r s)"
proof -
  have ev: "IS_EVENT (event r)" using assms(3) by (simp add: fresh_record_def)
  have u: "\<not> unsettled s" using assms(2) by (simp add: unsettled_def)
  have pass: "step_ok s r {#event r#} (True, tp_process h km r s)"
    if "tapping_inv s" for s r using that by (rule tapping_pass_ok)
  consider "\<not> pressed (event r)"
    | "pressed (event r)" "IS_TAPPING_RECORD r s" "WITHIN_QUICK_TAP_TERM (event r) s"
        "\<not> interrupted (tap (tapping_key s))" "tap_count (tap (tapping_key s)) > 0"
    | "pressed (event r)" "IS_TAPPING_RECORD r s" "\<not> (WITHIN_QUICK_TAP_TERM (event r) s \<and>
        \<not> interrupted (tap (tapping_key s)) \<and> tap_count (tap (tapping_key s)) > 0)"
    | "pressed (event r)" "\<not> IS_TAPPING_RECORD r s" "is_tap_record km r (host s)"
    | "pressed (event r)" "\<not> IS_TAPPING_RECORD r s" "\<not> is_tap_record km r (host s)"
    by argo
  then show ?thesis
  proof cases
    case 1
    then show ?thesis using pass [OF assms(1)] ev by (simp add: tapping_released_def taken_if_def)
  next
    case 2
    then show ?thesis using assms(1) ev u
      by (simp add: tapping_released_def tp_process_def split_beta Let_def step_ok_def taken_if_def
          key_events_def unsettled_def processed_events_def)
  next
    case 3
    then show ?thesis using assms(1,3) ev u key_events_start [of s r]
      by (auto simp: tapping_released_def step_ok_def taken_if_def)
  next
    case 4
    then show ?thesis using tapping_start_ok [OF assms(1) u assms(3)] ev
      by (simp add: tapping_released_def taken_if_def)
  next
    case 5
    let ?s = "s\<lparr>tapping_key := (tapping_key s)\<lparr>tap := (tap (tapping_key s))\<lparr>interrupted := True\<rparr>\<rparr>\<rparr>"
    have "step_ok s r {#event r#} (True, tp_process h km r ?s)"
      by (rule step_ok_shift [OF pass])
        (use assms(1,2) in \<open>simp_all add: key_events_def unsettled_def processed_events_def\<close>)
    with 5 ev show ?thesis by (simp add: tapping_released_def taken_if_def)
  qed
qed

text \<open>The states of the machine.\<close>

definition settled :: "'q tapping \<Rightarrow> bool" where
  "settled s \<longleftrightarrow> IS_EVENT (event (tapping_key s)) \<and> pressed (event (tapping_key s)) \<and>
    tap_count (tap (tapping_key s)) > 0"

definition released :: "'q tapping \<Rightarrow> bool" where
  "released s \<longleftrightarrow> IS_EVENT (event (tapping_key s)) \<and> \<not> pressed (event (tapping_key s))"

lemma tapping_states [case_names idle unsettled settled released]:
  obtains "IS_NOEVENT (event (tapping_key s))" | "unsettled s" | "settled s" | "released s"
  unfolding unsettled_def settled_def released_def IS_EVENT_def IS_NOEVENT_def
  by (cases "ev_type (event (tapping_key s)) = TICK_EVENT"; cases "pressed (event (tapping_key s))";
      cases "tap_count (tap (tapping_key s)) = 0") simp_all

lemma process_tapping_states:
  "IS_NOEVENT (event (tapping_key s)) \<Longrightarrow> process_tapping h km r s = tapping_idle h km r s"
  "unsettled s \<Longrightarrow> process_tapping h km r s =
    (if WITHIN_TAPPING_TERM (event r) s then
       if IS_NOEVENT (event r) then (True, r, s) else tapping_unsettled h km r s
     else (False, r, (process_tapping_key h km s)\<lparr>tapping_key := no_record\<rparr>))"
  "settled s \<Longrightarrow> process_tapping h km r s =
    (if IS_NOEVENT (event r) then (True, r, s)
     else tapping_settled h km (\<not> WITHIN_TAPPING_TERM (event r) s) r s)"
  "released s \<Longrightarrow> process_tapping h km r s =
    (if WITHIN_TAPPING_TERM (event r) s then
       if IS_NOEVENT (event r) then (True, r, s) else tapping_released h km r s
     else (False, r, s\<lparr>tapping_key := no_record\<rparr>))"
  by (simp_all add: process_tapping_def unsettled_def settled_def released_def IS_EVENT_def IS_NOEVENT_def)

lemma process_tapping_ok:
  assumes inv: "tapping_inv s" and r: "IS_EVENT (event r) \<longrightarrow> fresh_record r"
  shows "step_ok s r (taken_if (fst (process_tapping h km r s)) r) (process_tapping h km r s)"
proof -
  have tick: "step_ok s r (taken_if True r) (True, r, s)" if "IS_NOEVENT (event r)"
    using inv that by (simp add: step_ok_def taken_if_def IS_NOEVENT_def IS_EVENT_def)
  have ev: "fresh_record r" if "\<not> IS_NOEVENT (event r)"
    using r that by (simp add: IS_NOEVENT_def IS_EVENT_def)
  have none: "taken_if False r = {#}" by (simp add: taken_if_def)
  show ?thesis
  proof (cases s rule: tapping_states)
    case idle
    with inv r show ?thesis by (simp add: process_tapping_states(1) tapping_idle_ok)
  next
    case unsettled
    have "key_events ((process_tapping_key h km s)\<lparr>tapping_key := no_record\<rparr>) = key_events s"
      by (rule key_events_settle [OF unsettled, where r = "tapping_key s"])
        (simp_all add: process_tapping_key_eq unsettled_def no_record_def no_event_def IS_EVENT_def)
    then have "step_ok s r (taken_if False r) (False, r, (process_tapping_key h km s)\<lparr>tapping_key := no_record\<rparr>)"
      using inv by (simp add: none step_ok_def process_tapping_key_eq)
    with tick tapping_unsettled_ok [OF inv unsettled ev] show ?thesis
      by (simp add: process_tapping_states(2) [OF unsettled])
  next
    case settled
    then have u: "\<not> unsettled s" "tap_count (tap (tapping_key s)) > 0"
      by (simp_all add: settled_def unsettled_def)
    from tick tapping_settled_ok [OF inv u ev] show ?thesis
      by (simp add: process_tapping_states(3) [OF settled])
  next
    case released
    then have u: "\<not> unsettled s" "\<not> pressed (event (tapping_key s))"
      by (simp_all add: released_def unsettled_def)
    have "step_ok s r (taken_if False r) (False, r, s\<lparr>tapping_key := no_record\<rparr>)"
      using inv u(1) by (simp add: none step_ok_def key_events_def processed_events_def unsettled_def
          no_record_def no_event_def IS_EVENT_def)
    with tick tapping_released_ok [OF inv u(2) ev] show ?thesis
      by (simp add: process_tapping_states(4) [OF released])
  qed
qed

section \<open>The waiting loop\<close>

definition account :: "'q tapping \<Rightarrow> keyevent_t multiset" where
  "account s = mset (processed_events s) + mset (pending s) + mset (tp_dropped s)"

lemma account_key_events: "account s = key_events s + mset (map event (waiting_queue s)) + mset (tp_dropped s)"
  by (simp add: account_def key_events_def pending_def)

lemma waiting_queue_hd:
  assumes "tapping_wf s" "waiting_buffer_tail s \<noteq> waiting_buffer_head s"
  shows "waiting_queue s = waiting_buffer s ! waiting_buffer_tail s # tl (waiting_queue s)"
proof -
  have n: "0 < waiting_count s" using waiting_count_0 [OF assms(1)] assms(2) by simp
  then have "waiting_queue s \<noteq> []" using length_waiting_queue [of s] by (metis list.size(3) less_irrefl)
  moreover have "hd (waiting_queue s) = waiting_buffer s ! waiting_buffer_tail s"
    using \<open>waiting_queue s \<noteq> []\<close> queue_nth [OF n] assms(1) by (simp add: hd_conv_nth tapping_wf_def)
  ultimately show ?thesis by (metis list.collapse)
qed

lemma waiting_write_back:
  assumes "tapping_inv s" "waiting_buffer_tail s \<noteq> waiting_buffer_head s"
  shows "waiting_queue (s\<lparr>waiting_buffer := (waiting_buffer s)[waiting_buffer_tail s := r]\<rparr>) =
    r # tl (waiting_queue s)"
proof -
  have wf: "tapping_wf s" using assms(1) by (simp add: tapping_inv_def)
  have n: "0 < waiting_count s" using waiting_count_0 [OF wf] assms(2) by simp
  have "waiting_queue (s\<lparr>waiting_buffer := (waiting_buffer s)[waiting_buffer_tail s := r]\<rparr>) =
      (waiting_queue s)[0 := r]"
    using queue_update [OF wf n, of r] wf by (simp add: tapping_wf_def)
  also have "\<dots> = r # tl (waiting_queue s)"
    by (subst waiting_queue_hd [OF wf assms(2)]) simp
  finally show ?thesis .
qed


lemma waiting_queue_fresh:
  assumes "tapping_inv s" "waiting_buffer_tail s \<noteq> waiting_buffer_head s"
  shows "fresh_record (waiting_buffer s ! waiting_buffer_tail s)" "list_all fresh_record (tl (waiting_queue s))"
proof -
  have wf: "tapping_wf s" and all: "list_all fresh_record (waiting_queue s)"
    using assms(1) by (simp_all add: tapping_inv_def)
  from all show "fresh_record (waiting_buffer s ! waiting_buffer_tail s)" "list_all fresh_record (tl (waiting_queue s))"
    by (subst (asm) waiting_queue_hd [OF wf assms(2)], simp)+
qed

text \<open>One round: the event of the head has been taken, or it stays.\<close>

lemma process_waiting_round:
  assumes inv: "tapping_inv s" and ne: "waiting_buffer_tail s \<noteq> waiting_buffer_head s"
    and step: "process_tapping h km (waiting_buffer s ! waiting_buffer_tail s) s = (done, r, s1)"
  defines "s2 \<equiv> s1\<lparr>waiting_buffer := (waiting_buffer s1)[waiting_buffer_tail s1 := r]\<rparr>"
  defines "s3 \<equiv> s2\<lparr>waiting_buffer_tail := (waiting_buffer_tail s2 + 1) mod 8\<rparr>"
  shows "\<not> done \<Longrightarrow> tapping_inv s2 \<and> account s2 = account s"
    "done \<Longrightarrow> tapping_inv s3 \<and> account s3 = account s \<and> waiting_count s3 = waiting_count s - 1"
proof -
  let ?r = "waiting_buffer s ! waiting_buffer_tail s"
  have wf: "tapping_wf s" using inv by (simp add: tapping_inv_def)
  note fresh = waiting_queue_fresh [OF inv ne]
  have ok: "step_ok s ?r (taken_if done ?r) (done, r, s1)"
    using process_tapping_ok [OF inv, of ?r h km] fresh(1) step by simp
  have ev: "IS_EVENT (event ?r)" using fresh(1) by (simp add: fresh_record_def)
  have buf: "waiting_buffer_head s1 = waiting_buffer_head s" "waiting_buffer_tail s1 = waiting_buffer_tail s"
    using process_tapping_buffer [OF step] by simp_all
  have inv1: "tapping_inv s1" and q1: "map event (waiting_queue s1) = map event (waiting_queue s)"
    and d1: "tp_dropped s1 = tp_dropped s"
    using ok by (simp_all add: step_ok_def same_waiting_def)
  have wf1: "tapping_wf s1" using inv1 by (simp add: tapping_inv_def)
  have ne1: "waiting_buffer_tail s1 \<noteq> waiting_buffer_head s1" using ne buf by simp
  have q2: "waiting_queue s2 = r # tl (waiting_queue s1)"
    unfolding s2_def by (rule waiting_write_back [OF inv1 ne1])
  have wf2: "tapping_wf s2" using wf1 by (simp add: s2_def)
  have tl1: "map event (tl (waiting_queue s1)) = map event (tl (waiting_queue s))"
    using q1 by (metis map_tl)
  have hd: "map event (waiting_queue s) = event ?r # map event (tl (waiting_queue s))"
    by (subst waiting_queue_hd [OF wf ne]) simp
  have key2: "key_events s2 = key_events s1" "tp_dropped s2 = tp_dropped s1"
    by (simp_all add: s2_def key_events_def unsettled_def processed_events_def)
  show "tapping_inv s2 \<and> account s2 = account s" if "\<not> done"
    using that ok fresh waiting_queue_fresh [OF inv1 ne1] wf2
    by (simp add: tapping_inv_def q2 account_key_events key2 d1 hd tl1 step_ok_def taken_if_def)
  have c2: "waiting_count s2 = waiting_count s" using buf by (simp add: s2_def waiting_count_def)
  have n: "0 < waiting_count s" using waiting_count_0 [OF wf] ne by simp
  have n2: "0 < waiting_count s2" using n unfolding c2 .
  have q3: "waiting_queue s3 = tl (waiting_queue s1)" "waiting_count s3 = waiting_count s - 1"
    unfolding s3_def queue_tl [OF wf2 n2] q2 c2 by simp_all
  have key3: "key_events s3 = key_events s1" "tp_dropped s3 = tp_dropped s1"
    by (simp_all add: s3_def s2_def key_events_def unsettled_def processed_events_def)
  have wf3: "tapping_wf s3" using wf2 by (simp add: s3_def tapping_wf_def)
  show "tapping_inv s3 \<and> account s3 = account s \<and> waiting_count s3 = waiting_count s - 1" if "done"
    using that ok ev waiting_queue_fresh [OF inv1 ne1] wf3
    by (simp add: tapping_inv_def q3 account_key_events key3 d1 hd tl1 step_ok_def taken_if_def)
qed

lemma process_waiting_Suc:
  "waiting_buffer_tail s = waiting_buffer_head s \<Longrightarrow> process_waiting h km n s = s"
  "waiting_buffer_tail s \<noteq> waiting_buffer_head s \<Longrightarrow>
   process_tapping h km (waiting_buffer s ! waiting_buffer_tail s) s = (done, r, s1) \<Longrightarrow>
   s2 = s1\<lparr>waiting_buffer := (waiting_buffer s1)[waiting_buffer_tail s1 := r]\<rparr> \<Longrightarrow>
   process_waiting h km (Suc n) s =
    (if done then process_waiting h km n (s2\<lparr>waiting_buffer_tail := (waiting_buffer_tail s2 + 1) mod 8\<rparr>) else s2)"
  by (cases n; simp) (simp add: Let_def)

declare process_waiting.simps [simp del]

lemma process_waiting_account:
  "tapping_inv s \<Longrightarrow> tapping_inv (process_waiting h km n s) \<and> account (process_waiting h km n s) = account s"
proof (induction n arbitrary: s)
  case 0
  then show ?case by (simp add: process_waiting.simps)
next
  case (Suc n)
  show ?case
  proof (cases "waiting_buffer_tail s = waiting_buffer_head s")
    case True
    then show ?thesis using Suc.prems by (simp add: process_waiting_Suc(1))
  next
    case False
    obtain d r s1 where step: "process_tapping h km (waiting_buffer s ! waiting_buffer_tail s) s = (d, r, s1)"
      by (metis prod_cases3)
    note round = process_waiting_round [OF Suc.prems False step]
    show ?thesis
    proof (cases d)
      case True
      then show ?thesis
        using Suc.IH [of "s1\<lparr>waiting_buffer := (waiting_buffer s1)[waiting_buffer_tail s1 := r],
            waiting_buffer_tail := (waiting_buffer_tail s1 + 1) mod 8\<rparr>"] round(2)
        by (simp add: process_waiting_Suc(2) [OF False step])
    next
      case F: False
      then show ?thesis using round(1) by (simp add: process_waiting_Suc(2) [OF False step])
    qed
  qed
qed

text \<open>More rounds change nothing: the eight that are given are enough.\<close>

lemma process_waiting_rounds:
  "tapping_inv s \<Longrightarrow> waiting_count s \<le> n \<Longrightarrow> process_waiting h km (n + k) s = process_waiting h km n s"
proof (induction n arbitrary: s)
  case 0
  then show ?case using waiting_count_0 [of s] by (simp add: process_waiting_Suc(1) tapping_inv_def)
next
  case (Suc n)
  show ?case
  proof (cases "waiting_buffer_tail s = waiting_buffer_head s")
    case True
    then show ?thesis by (simp add: process_waiting_Suc(1))
  next
    case False
    obtain d r s1 where step: "process_tapping h km (waiting_buffer s ! waiting_buffer_tail s) s = (d, r, s1)"
      by (metis prod_cases3)
    let ?s = "s1\<lparr>waiting_buffer := (waiting_buffer s1)[waiting_buffer_tail s1 := r],
            waiting_buffer_tail := (waiting_buffer_tail s1 + 1) mod 8\<rparr>"
    have "process_waiting h km (n + k) ?s = process_waiting h km n ?s" if d
      using process_waiting_round(2) [OF Suc.prems(1) False step that] Suc.prems(2) by (intro Suc.IH) simp_all
    then show ?thesis by (simp add: process_waiting_Suc(2) [OF False step])
  qed
qed

lemma waiting_enq_ok:
  assumes "tapping_inv s" "IS_EVENT (event r) \<longrightarrow> fresh_record r"
  shows "waiting_buffer_enq r s = (True, s') \<Longrightarrow> tapping_inv s' \<and>
    account s' = account s + taken_if True r"
    "waiting_buffer_enq r s = (False, s') \<Longrightarrow> s' = s \<and> IS_EVENT (event r)"
proof -
  have wf: "tapping_wf s" using assms(1) by (simp add: tapping_inv_def)
  assume enq: "waiting_buffer_enq r s = (True, s')"
  show "tapping_inv s' \<and> account s' = account s + taken_if True r"
  proof (cases "IS_NOEVENT (event r)")
    case True
    then show ?thesis using enq assms(1)
      by (auto simp: waiting_buffer_enq_def taken_if_def IS_EVENT_def IS_NOEVENT_def)
  next
    case False
    with enq have room: "(waiting_buffer_head s + 1) mod 8 \<noteq> waiting_buffer_tail s"
      and s': "s' = s\<lparr>waiting_buffer := (waiting_buffer s)[waiting_buffer_head s := r],
       waiting_buffer_head := (waiting_buffer_head s + 1) mod 8\<rparr>"
      by (auto simp: waiting_buffer_enq_def split: if_splits)
    have q: "waiting_queue s' = waiting_queue s @ [r]" unfolding s' by (rule queue_enq [OF wf room])
    have wf': "tapping_wf s'" using wf by (simp add: s' tapping_wf_def)
    have key: "key_events s' = key_events s" "tp_dropped s' = tp_dropped s"
      by (simp_all add: s' key_events_def unsettled_def processed_events_def)
    show ?thesis
      using assms False wf' by (simp add: tapping_inv_def account_key_events q key taken_if_def IS_EVENT_def IS_NOEVENT_def)
  qed
next
  assume "waiting_buffer_enq r s = (False, s')"
  then show "s' = s \<and> IS_EVENT (event r)"
    by (auto simp: waiting_buffer_enq_def IS_EVENT_def IS_NOEVENT_def split: if_splits)
qed

lemma tapping_accept_account:
  assumes inv: "tapping_inv s" and r: "IS_EVENT (event r) \<longrightarrow> fresh_record r"
  shows "tapping_inv (tapping_accept h km r s) \<and> account (tapping_accept h km r s) = account s + taken_if True r"
proof -
  obtain d r' s' where step: "process_tapping h km r s = (d, r', s')" by (metis prod_cases3)
  have ok: "step_ok s r (taken_if d r) (d, r', s')" using process_tapping_ok [OF inv r, of h km] step by simp
  then have inv': "tapping_inv s'" by (simp add: step_ok_def same_waiting_def)
  have acc: "account s' = account s + taken_if d r"
    using ok by (simp add: step_ok_def same_waiting_def account_key_events del: mset_map)
  show ?thesis
  proof (cases d)
    case True
    then show ?thesis using step inv' acc by (simp add: tapping_accept_def)
  next
    case False
    then have e: "event r' = event r" "IS_EVENT (event r') \<longrightarrow> fresh_record r'"
      using ok r by (simp_all add: step_ok_def)
    have acc': "account s' = account s" using acc False by (simp add: taken_if_def)
    obtain enq s'' where enq: "waiting_buffer_enq r' s' = (enq, s'')" by fastforce
    show ?thesis
    proof (cases enq)
      case True
      then show ?thesis using step False enq waiting_enq_ok(1) [OF inv' e(2)] acc' e(1)
        by (simp add: tapping_accept_def taken_if_def)
    next
      case F: False
      have s'': "s'' = s'" "IS_EVENT (event r')" using waiting_enq_ok(2) [OF inv' e(2)] enq F by simp_all
      have "tapping_inv (tapping_overflow (event r') s') \<and>
          account (tapping_overflow (event r') s') = account s' + {#event r'#}"
        using inv' by (simp add: tapping_overflow_def waiting_buffer_clear_def account_def pending_def unsettled_def
            no_record_def no_event_def IS_EVENT_def waiting_queue_def wb_indices_def tapping_inv_def tapping_wf_def
            processed_events_def)
      then show ?thesis using step False enq F s'' acc' e(1) by (simp add: tapping_accept_def taken_if_def)
    qed
  qed
qed

lemma action_tapping_process_account:
  assumes "tapping_inv s" "IS_EVENT (event r) \<longrightarrow> fresh_record r"
  shows "tapping_inv (action_tapping_process h km r s) \<and>
    account (action_tapping_process h km r s) = account s + taken_if True r"
  using tapping_accept_account [OF assms] by (simp add: action_tapping_process_def process_waiting_account)

section \<open>Every key event is accounted for\<close>

definition exec_host :: "'q record_hooks \<Rightarrow> keyevent_t \<Rightarrow> 'q tapping \<Rightarrow> bool \<times> 'q action_util_scheme" where
  "exec_host h e s =
    (let u = (if pressed e then clear_weak_mods (host s) else host s)
     in if IS_NOEVENT e then (True, u)
        else pre_process_record_quantum h \<lparr> event = e, tap = \<lparr> interrupted = False, tap_count = 0 \<rparr> \<rparr> u)"

definition new_record :: "keyevent_t \<Rightarrow> keyrecord_t" where
  "new_record e = \<lparr> event = e, tap = \<lparr> interrupted = False, tap_count = 0 \<rparr> \<rparr>"

lemma action_exec_eq:
  "action_exec h km e s =
    (if fst (exec_host h e s)
     then action_tapping_process h km (new_record e) (s\<lparr>host := snd (exec_host h e s)\<rparr>)
     else s\<lparr>host := snd (exec_host h e s)\<rparr>)"
  by (simp add: action_exec_def exec_host_def new_record_def Let_def split_beta)

lemma new_record_simps [simp]:
  "event (new_record e) = e" "tap (new_record e) = \<lparr> interrupted = False, tap_count = 0 \<rparr>"
  by (simp_all add: new_record_def)

lemma fresh_new_record: "IS_EVENT e \<Longrightarrow> fresh_record (new_record e)"
  by (simp add: fresh_record_def)

text \<open>The events given to \<open>action_exec\<close> that \<open>pre_process_record_quantum\<close> lets through.\<close>

inductive tapping_trace :: "'q record_hooks \<Rightarrow> keymap \<Rightarrow> keyevent_t list \<Rightarrow> 'q tapping \<Rightarrow> bool" for h km where
  start: "tapping_trace h km [] (tapping_init u)"
| exec: "tapping_trace h km es s \<Longrightarrow>
    tapping_trace h km (es @ (if IS_EVENT e \<and> fst (exec_host h e s) then [e] else [])) (action_exec h km e s)"
| other: "tapping_trace h km es s \<Longrightarrow> tapping_trace h km es (s\<lparr>host := u\<rparr>)"

lemma account_host [simp]: "account (s\<lparr>host := u\<rparr>) = account s"
  by (simp add: account_def pending_def unsettled_def processed_events_def)

lemma tapping_init_inv: "tapping_inv (tapping_init u)" "account (tapping_init u) = {#}"
  by (simp_all add: tapping_inv_def tapping_wf_def tapping_init_def waiting_queue_def wb_indices_def
      account_def pending_def processed_events_def unsettled_def no_record_def no_event_def IS_EVENT_def)

lemma tapping_trace_account:
  "tapping_trace h km es s \<Longrightarrow> tapping_inv s \<and> account s = mset es"
proof (induction rule: tapping_trace.induct)
  case (start u)
  then show ?case by (simp add: tapping_init_inv)
next
  case (exec es s e)
  have "IS_EVENT (event (new_record e)) \<longrightarrow> fresh_record (new_record e)"
    using fresh_new_record [of e] by simp
  from action_tapping_process_account [OF _ this, of "s\<lparr>host := snd (exec_host h e s)\<rparr>" h km] exec.IH
  show ?case
    by (auto simp: action_exec_eq taken_if_def exec_host_def IS_EVENT_def IS_NOEVENT_def)
next
  case (other es s u)
  then show ?case by simp
qed

text \<open>
  C6: no key event is lost, duplicated or invented by the tapping machine: at any time the events it has
  passed on to \<open>process_record\<close>, those it holds (the tapping key that is not settled and the waiting
  ones) and those given up at an overflow are together, as a multiset, exactly the key events that were
  given to \<open>action_exec\<close> and not consumed before; and at most seven wait. This is so for every keymap,
  every hook and every order and time of events and ticks, also when the rest of the firmware changes
  the host's state in between.
\<close>

theorem tapping_loses_no_event:
  assumes "tapping_trace h km es s"
  shows "mset (processed_events s) + mset (pending s) + mset (tp_dropped s) = mset es \<and>
    length (waiting_queue s) \<le> 7"
  using tapping_trace_account [OF assms] waiting_count_le [of s] by (simp add: account_def)

definition key_event :: "u8 \<Rightarrow> u8 \<Rightarrow> u16 \<Rightarrow> bool \<Rightarrow> keyevent_t" where
  "key_event r c t p = \<lparr> ev_key = \<lparr> col = c, row = r \<rparr>, ev_time = t, ev_type = KEY_EVENT, pressed = p \<rparr>"

lemma key_event_simps [simp]:
  "ev_key (key_event r c t p) = \<lparr> col = c, row = r \<rparr>" "ev_time (key_event r c t p) = t"
  "pressed (key_event r c t p) = p" "IS_EVENT (key_event r c t p)" "\<not> IS_NOEVENT (key_event r c t p)"
  by (simp_all add: key_event_def IS_EVENT_def IS_NOEVENT_def)

definition no_hooks :: "'q record_hooks" where
  "no_hooks = \<lparr> pre_process_record_quantum = \<lambda>r u. (True, u), process_record_quantum = \<lambda>r u. (True, u),
    post_process_record_quantum = \<lambda>r u. u \<rparr>"

lemma exec_no_hooks:
  "exec_host no_hooks e s = (True, if pressed e then clear_weak_mods (host s) else host s)"
  by (simp add: exec_host_def no_hooks_def Let_def)

lemma tapping_loses_no_event_witness:
  "\<exists>s. mset (processed_events s) + mset (pending s) + mset (tp_dropped s) =
    {# key_event 0 0 5 True, key_event 0 0 9 False #}"
proof -
  have "tapping_trace no_hooks km ([] @ [key_event 0 0 5 True])
      (action_exec no_hooks km (key_event 0 0 5 True) (tapping_init u))" for km u
    using tapping_trace.exec [OF tapping_trace.start, of no_hooks km "key_event 0 0 5 True" u]
    by (simp add: exec_no_hooks)
  from tapping_trace.exec [OF this, where e = "key_event 0 0 9 False"]
  have "tapping_trace no_hooks km ([key_event 0 0 5 True, key_event 0 0 9 False])
      (action_exec no_hooks km (key_event 0 0 9 False)
        (action_exec no_hooks km (key_event 0 0 5 True) (tapping_init u)))" for km u
    by (simp add: exec_no_hooks)
  from tapping_loses_no_event [OF this] show ?thesis by auto
qed

section \<open>Overflow\<close>

lemma process_waiting_dropped:
  "tapping_inv s \<Longrightarrow> tp_dropped (process_waiting h km n s) = tp_dropped s"
proof (induction n arbitrary: s)
  case 0
  then show ?case by (simp add: process_waiting.simps)
next
  case (Suc n)
  show ?case
  proof (cases "waiting_buffer_tail s = waiting_buffer_head s")
    case True
    then show ?thesis using Suc.prems by (simp add: process_waiting_Suc(1))
  next
    case False
    obtain d r s1 where step: "process_tapping h km (waiting_buffer s ! waiting_buffer_tail s) s = (d, r, s1)"
      by (metis prod_cases3)
    have "tp_dropped s1 = tp_dropped s"
      using process_tapping_ok [OF Suc.prems, of "waiting_buffer s ! waiting_buffer_tail s" h km]
        waiting_queue_fresh [OF Suc.prems False] step by (simp add: step_ok_def same_waiting_def)
    then show ?thesis
      using Suc.IH process_waiting_round [OF Suc.prems False step]
      by (simp add: process_waiting_Suc(2) [OF False step])
  qed
qed

text \<open>
  C31: events are given up only when the ring buffer is full: if handling an event drops anything, seven
  events were waiting, and afterwards the machine is empty and its initial state is reached, with all
  keys of the host released by \<open>clear_keyboard\<close>.
\<close>

theorem overflow_only_when_full:
  assumes "tapping_inv s" "tp_dropped (action_exec h km e s) \<noteq> tp_dropped s"
  shows "length (waiting_queue s) = 7 \<and> IS_NOEVENT (event (tapping_key (action_exec h km e s))) \<and>
    pending (action_exec h km e s) = [] \<and>
    (\<exists>u. host (action_exec h km e s) = clear_keyboard u)"
proof -
  let ?s = "s\<lparr>host := snd (exec_host h e s)\<rparr>"
  have inv: "tapping_inv ?s" using assms(1) by simp
  have r: "IS_EVENT (event (new_record e)) \<longrightarrow> fresh_record (new_record e)" using fresh_new_record [of e] by simp
  have eq: "action_exec h km e s = process_waiting h km 8 (tapping_accept h km (new_record e) ?s)"
    using assms(2) by (auto simp: action_exec_eq action_tapping_process_def split: if_splits)
  have inv': "tapping_inv (tapping_accept h km (new_record e) ?s)" using tapping_accept_account [OF inv r] by simp
  have dropped: "tp_dropped (tapping_accept h km (new_record e) ?s) \<noteq> tp_dropped s"
    using assms(2) process_waiting_dropped [OF inv'] unfolding eq by metis
  obtain d r' s' where step: "process_tapping h km (new_record e) ?s = (d, r', s')" by (metis prod_cases3)
  have ok: "step_ok ?s (new_record e) (taken_if d (new_record e)) (d, r', s')"
    using process_tapping_ok [OF inv r, of h km] step by simp
  then have inv1: "tapping_inv s'" and d1: "tp_dropped s' = tp_dropped s"
    by (simp_all add: step_ok_def same_waiting_def)
  have buf: "waiting_buffer_head s' = waiting_buffer_head s" "waiting_buffer_tail s' = waiting_buffer_tail s"
    using process_tapping_buffer [OF step] by simp_all
  have "\<not> fst (waiting_buffer_enq r' s') \<and> \<not> d"
    using dropped d1 by (auto simp: tapping_accept_def step waiting_buffer_enq_def split: if_splits)
  then have acc: "tapping_accept h km (new_record e) ?s = tapping_overflow (event r') s'"
    and full: "(waiting_buffer_head s + 1) mod 8 = waiting_buffer_tail s"
    using buf by (auto simp: tapping_accept_def step waiting_buffer_enq_def split: if_splits)
  have wf: "tapping_wf s" using inv by (simp add: tapping_inv_def)
  have "waiting_count s = 7"
    using full waiting_count_cases [OF wf] wf mod_8 [of "waiting_buffer_head s + 1"]
    by (auto simp: tapping_wf_def split: if_splits)
  moreover have "action_exec h km e s = tapping_overflow (event r') s'"
    unfolding eq acc by (rule process_waiting_Suc(1)) (simp add: tapping_overflow_def waiting_buffer_clear_def)
  moreover have "IS_NOEVENT (event (tapping_key (tapping_overflow (event r') s')))"
    "pending (tapping_overflow (event r') s') = []"
    "host (tapping_overflow (event r') s') = clear_keyboard (host s')"
    by (simp_all add: tapping_overflow_def waiting_buffer_clear_def pending_def unsettled_def no_record_def
        no_event_def IS_EVENT_def IS_NOEVENT_def waiting_queue_def wb_indices_def)
  ultimately show ?thesis by (auto simp del: IS_NOEVENT_def)
qed

definition full_tapping :: "'q action_util_scheme \<Rightarrow> 'q tapping" where
  "full_tapping u = (tapping_init u)\<lparr>tapping_key := new_record (key_event 0 0 5 True),
    waiting_buffer := replicate 8 (new_record (key_event 1 0 6 True)), waiting_buffer_head := 7\<rparr>"

lemma full_tapping_queue: "waiting_queue (full_tapping u) = replicate 7 (new_record (key_event 1 0 6 True))"
proof -
  have "wb_indices (full_tapping u) = [0, 1, 2, 3, 4, 5, 6]"
    by (simp add: full_tapping_def wb_indices_def tapping_init_def upt_rec)
  then have "waiting_queue (full_tapping u) = map (\<lambda>i. replicate 8 (new_record (key_event 1 0 6 True)) ! i) [0, 1, 2, 3, 4, 5, 6]"
    by (simp add: waiting_queue_def full_tapping_def)
  also have "\<dots> = replicate 7 (new_record (key_event 1 0 6 True))"
    by (rule nth_equalityI) (auto simp: nth_Cons split: nat.splits)
  finally show ?thesis .
qed

lemma full_tapping_inv: "tapping_inv (full_tapping u)"
proof -
  have "fresh_record (new_record (key_event 1 0 6 True))"
    by (simp add: fresh_new_record key_event_def IS_EVENT_def)
  then show ?thesis
    unfolding tapping_inv_def full_tapping_queue
    by (simp add: list_all_iff full_tapping_def tapping_wf_def tapping_init_def)
qed

lemma overflow_only_when_full_witness:
  "\<forall>km u. length (waiting_queue (full_tapping u)) = 7 \<and>
    pending (action_exec no_hooks km (key_event 2 0 9 True) (full_tapping u)) = []"
proof (intro allI)
  fix km u
  let ?r = "new_record (key_event 2 0 9 True)"
  let ?s = "(full_tapping u)\<lparr>host := clear_weak_mods u\<rparr>"
  have step: "process_tapping no_hooks km ?r ?s =
      (False, ?r, ?s\<lparr>tapping_key := \<lparr>event = key_event 0 0 5 True, tap = \<lparr>interrupted = True, tap_count = 0\<rparr>\<rparr>\<rparr>)"
    by (simp add: process_tapping_def tapping_unsettled_def full_tapping_def new_record_def
        WITHIN_TAPPING_TERM_def TIMER_DIFF_16_def)
  let ?s' = "?s\<lparr>tapping_key := \<lparr>event = key_event 0 0 5 True, tap = \<lparr>interrupted = True, tap_count = 0\<rparr>\<rparr>\<rparr>"
  have "waiting_buffer_enq ?r ?s' = (False, ?s')"
    by (simp add: waiting_buffer_enq_def full_tapping_def tapping_init_def)
  then have acc: "tapping_accept no_hooks km ?r ?s = tapping_overflow (key_event 2 0 9 True) ?s'"
    by (simp add: tapping_accept_def step)
  have "action_exec no_hooks km (key_event 2 0 9 True) (full_tapping u) =
      action_tapping_process no_hooks km ?r ?s"
    by (simp add: action_exec_eq exec_no_hooks full_tapping_def tapping_init_def)
  also have "\<dots> = tapping_overflow (key_event 2 0 9 True) ?s'"
    unfolding action_tapping_process_def acc
    by (rule process_waiting_Suc(1)) (simp add: tapping_overflow_def waiting_buffer_clear_def)
  finally have "tp_dropped (action_exec no_hooks km (key_event 2 0 9 True) (full_tapping u)) \<noteq> tp_dropped (full_tapping u)"
    by (simp add: tapping_overflow_def waiting_buffer_clear_def full_tapping_def)
  from overflow_only_when_full [OF full_tapping_inv this]
  show "length (waiting_queue (full_tapping u)) = 7 \<and>
    pending (action_exec no_hooks km (key_event 2 0 9 True) (full_tapping u)) = []" by simp
qed

section \<open>The tap count fits its four bits\<close>

primrec processed_count :: "processed \<Rightarrow> nat" where
  "processed_count (Input r) = tap_count (tap r)"
| "processed_count (Made r) = tap_count (tap r)"

definition counts_fit :: "'q tapping \<Rightarrow> bool" where
  "counts_fit s \<longleftrightarrow> tap_count (tap (tapping_key s)) < 16 \<and>
    (\<forall>r \<in> set (waiting_buffer s). tap_count (tap r) < 16) \<and>
    (\<forall>p \<in> set (tp_log s). processed_count p < 16)"

lemma counts_fit_host [simp]: "counts_fit (s\<lparr>host := u\<rparr>) = counts_fit s"
  by (simp add: counts_fit_def)

lemma counts_fit_update:
  "counts_fit s \<Longrightarrow> tap_count (tap r) < 16 \<Longrightarrow> counts_fit (s\<lparr>waiting_buffer := (waiting_buffer s)[i := r]\<rparr>)"
  using set_update_subset_insert [of "waiting_buffer s" i r] by (auto simp: counts_fit_def)

lemma counts_fit_key:
  "counts_fit s \<Longrightarrow> tap_count (tap r) < 16 \<Longrightarrow> counts_fit (s\<lparr>tapping_key := r\<rparr>)"
  by (simp add: counts_fit_def)

lemma counts_fit_process_key: "counts_fit s \<Longrightarrow> counts_fit (process_tapping_key h km s)"
  by (simp add: counts_fit_def process_tapping_key_eq)

lemma counts_fit_scan:
  assumes "counts_fit s"
  shows "counts_fit (waiting_buffer_scan_tap h km s)"
proof -
  have "counts_fit (s\<lparr>tapping_key := (tapping_key s)\<lparr>tap := (tap (tapping_key s))\<lparr>tap_count := 1\<rparr>\<rparr>,
      waiting_buffer := (waiting_buffer s)
        [i := (waiting_buffer s ! i)\<lparr>tap := (tap (waiting_buffer s ! i))\<lparr>tap_count := 1\<rparr>\<rparr>]\<rparr>)" for i
    using counts_fit_update [OF counts_fit_key [OF assms,
        of "(tapping_key s)\<lparr>tap := (tap (tapping_key s))\<lparr>tap_count := 1\<rparr>\<rparr>"],
        of "(waiting_buffer s ! i)\<lparr>tap := (tap (waiting_buffer s ! i))\<lparr>tap_count := 1\<rparr>\<rparr>" i]
    by simp
  then show ?thesis
    using assms
    by (simp add: counts_fit_process_key waiting_buffer_scan_tap_def split: option.splits)
qed

definition fits :: "bool \<times> keyrecord_t \<times> 'q tapping \<Rightarrow> bool" where
  "fits res \<longleftrightarrow> tap_count (tap (fst (snd res))) < 16 \<and> counts_fit (snd (snd res))"

lemma fits_Pair: "fits (d, r, s) \<longleftrightarrow> tap_count (tap r) < 16 \<and> counts_fit s"
  by (simp add: fits_def)

lemma fits_if: "fits (if b then x else y) \<longleftrightarrow> (if b then fits x else fits y)"
  by simp

lemma fits_pass:
  "counts_fit s \<Longrightarrow> tap_count (tap r) < 16 \<Longrightarrow> fits (True, tp_process h km r s)"
  "counts_fit s \<Longrightarrow> tap_count (tap r) < 16 \<Longrightarrow> counts_fit (snd (tp_process h km r s))"
  "counts_fit s \<Longrightarrow> tap_count (tap r) < 16 \<Longrightarrow> tap_count (tap (fst (tp_process h km r s))) < 16"
  by (simp_all add: fits_def tp_process_simps counts_fit_def)

lemma fits_start:
  "counts_fit s \<Longrightarrow> tap_count (tap r) < 16 \<Longrightarrow>
    fits (True, r, waiting_buffer_scan_tap h km (s\<lparr>tapping_key := r\<rparr>))"
  by (simp add: fits_def counts_fit_scan counts_fit_key)

lemma counts_fit_unregister: "counts_fit s \<Longrightarrow> counts_fit (unregister_tapping_key h km e s)"
  by (simp add: unregister_tapping_key_def counts_fit_def Let_def)

lemma counts_fit_interrupted:
  "counts_fit s \<Longrightarrow>
    counts_fit (s\<lparr>tapping_key := (tapping_key s)\<lparr>tap := (tap (tapping_key s))\<lparr>interrupted := True\<rparr>\<rparr>\<rparr>)"
  by (simp add: counts_fit_def)

lemma counts_fit_none: "counts_fit s \<Longrightarrow> counts_fit (s\<lparr>tapping_key := no_record\<rparr>)"
  by (simp add: counts_fit_def no_record_def)

lemmas fits_rules = fits_pass fits_start counts_fit_unregister counts_fit_interrupted counts_fit_none
  counts_fit_key counts_fit_process_key

lemma fits_unsettled:
  assumes "counts_fit s" "tap_count (tap r) < 16"
  shows "fits (tapping_unsettled h km r s)"
proof -
  let ?s = "process_tapping_key h km (s\<lparr>tapping_key := (tapping_key s)\<lparr>tap := (tap (tapping_key s))\<lparr>tap_count := 1\<rparr>\<rparr>\<rparr>)"
  have "counts_fit ?s" using assms by (intro counts_fit_process_key counts_fit_key) simp_all
  moreover from this have "tap_count (tap (tapping_key ?s)) < 16" by (simp add: counts_fit_def)
  ultimately show ?thesis
    unfolding tapping_unsettled_def Let_def fits_if
    using assms by (simp add: fits_rules fits_Pair split_beta)
qed

lemma fits_settled:
  assumes "counts_fit s" "tap_count (tap r) < 16"
  shows "fits (tapping_settled h km final r s)"
proof -
  have k: "tap_count (tap (r\<lparr>tap := tap (tapping_key s)\<rparr>)) < 16" using assms by (simp add: counts_fit_def)
  note res = fits_pass(2,3) [OF assms(1) k, of h km]
  have "counts_fit ((snd (tp_process h km (r\<lparr>tap := tap (tapping_key s)\<rparr>) s))
      \<lparr>tapping_key := if final then no_record else fst (tp_process h km (r\<lparr>tap := tap (tapping_key s)\<rparr>) s)\<rparr>)"
    using res by (simp add: counts_fit_none counts_fit_key)
  then show ?thesis
    unfolding tapping_settled_def Let_def fits_if split_beta
    using assms res fits_start [OF counts_fit_unregister [OF assms(1)] assms(2)] fits_start [OF assms]
      fits_pass(1) [OF assms]
    by (simp add: fits_Pair)
qed

lemma fits_released:
  assumes "counts_fit s" "tap_count (tap r) < 16"
  shows "fits (tapping_released h km r s)"
proof -
  let ?t = "if tap_count (tap (tapping_key s)) < 15
    then (tap (tapping_key s))\<lparr>tap_count := tap_count (tap (tapping_key s)) + 1\<rparr> else tap (tapping_key s)"
  have "tap_count (tap (r\<lparr>tap := ?t\<rparr>)) < 16" using assms by (simp add: counts_fit_def)
  note again = fits_pass(2,3) [OF assms(1) this, of h km]
  note after = fits_pass(1) [OF counts_fit_interrupted [OF assms(1)] assms(2)]
  show ?thesis
    unfolding tapping_released_def Let_def fits_if split_beta
    using assms again after counts_fit_key [OF again] counts_fit_key [OF assms] fits_start [OF assms]
      fits_pass(1) [OF assms]
    by (simp only: fits_Pair prod.collapse if_True if_False simp_thms split: if_split)
qed

lemma counts_fit_step:
  assumes "counts_fit s" "tap_count (tap r) < 16"
  shows "fits (process_tapping h km r s)"
proof -
  have idle: "fits (tapping_idle h km r s)"
    using assms fits_start [OF assms] by (simp add: fits_rules tapping_idle_def fits_if fits_Pair)
  have none: "fits (False, r, (process_tapping_key h km s)\<lparr>tapping_key := no_record\<rparr>)"
    "fits (False, r, s\<lparr>tapping_key := no_record\<rparr>)" "fits (True, r, s)"
    using assms by (simp_all add: fits_Pair counts_fit_none counts_fit_process_key)
  show ?thesis
    unfolding process_tapping_def fits_if
    using idle none fits_unsettled [OF assms] fits_settled [OF assms] fits_released [OF assms] by simp
qed


lemma process_waiting_fits: "counts_fit s \<Longrightarrow> tapping_inv s \<Longrightarrow> counts_fit (process_waiting h km n s)"
proof (induction n arbitrary: s)
  case 0
  then show ?case by (simp add: process_waiting.simps)
next
  case (Suc n)
  show ?case
  proof (cases "waiting_buffer_tail s = waiting_buffer_head s")
    case True
    then show ?thesis using Suc.prems by (simp add: process_waiting_Suc(1))
  next
    case False
    obtain d r s1 where step: "process_tapping h km (waiting_buffer s ! waiting_buffer_tail s) s = (d, r, s1)"
      by (metis prod_cases3)
    let ?s2 = "s1\<lparr>waiting_buffer := (waiting_buffer s1)[waiting_buffer_tail s1 := r]\<rparr>"
    let ?s3 = "?s2\<lparr>waiting_buffer_tail := (waiting_buffer_tail ?s2 + 1) mod 8\<rparr>"
    have "tap_count (tap (waiting_buffer s ! waiting_buffer_tail s)) < 16"
      using Suc.prems by (simp add: counts_fit_def tapping_inv_def tapping_wf_def)
    from counts_fit_step [OF Suc.prems(1) this, of h km] have fit: "counts_fit ?s2"
      by (simp add: step fits_Pair counts_fit_update)
    then have "counts_fit ?s3" by (simp add: counts_fit_def)
    then show ?thesis
      using fit Suc.IH process_waiting_round [OF Suc.prems(2) False step]
      by (simp add: process_waiting_Suc(2) [OF False step])
  qed
qed

lemma tapping_accept_fits:
  assumes "counts_fit s" "tap_count (tap r) < 16"
  shows "counts_fit (tapping_accept h km r s)"
proof -
  obtain d r' s' where step: "process_tapping h km r s = (d, r', s')" by (metis prod_cases3)
  have fit: "counts_fit s'" "tap_count (tap r') < 16"
    using counts_fit_step [OF assms, of h km] by (simp_all add: step fits_Pair)
  have "counts_fit (s'\<lparr>waiting_buffer := (waiting_buffer s')[i := r'], waiting_buffer_head := k\<rparr>)" for i k
    using counts_fit_update [OF fit, of i] by (simp add: counts_fit_def)
  moreover have "counts_fit (tapping_overflow (event r') s')"
    using fit by (simp add: tapping_overflow_def waiting_buffer_clear_def counts_fit_def no_record_def)
  ultimately show ?thesis
    using fit by (simp add: tapping_accept_def step waiting_buffer_enq_def)
qed

text \<open>
  C32: the state of the tapping machine stays within the types of the C program in every run: the ring
  buffer has its eight entries and both indices stay below eight, what waits are key events whose presses
  have not been counted, and the tap count of every record, held or passed on, fits its four bits.
\<close>

theorem tapping_state_typed:
  assumes "tapping_trace h km es s"
  shows "length (waiting_buffer s) = 8 \<and> waiting_buffer_head s < 8 \<and> waiting_buffer_tail s < 8 \<and>
    list_all fresh_record (waiting_queue s) \<and> counts_fit s"
proof -
  have "tapping_inv s" using tapping_trace_account [OF assms] by simp
  moreover have "counts_fit s"
    using assms
  proof (induction rule: tapping_trace.induct)
    case (start u)
    then show ?case by (simp add: counts_fit_def tapping_init_def no_record_def)
  next
    case (exec es s e)
    let ?s = "s\<lparr>host := snd (exec_host h e s)\<rparr>"
    have inv: "tapping_inv ?s" using tapping_trace_account [OF exec.hyps] by simp
    have "tapping_inv (tapping_accept h km (new_record e) ?s)"
      using tapping_accept_account [OF inv, of "new_record e" h km] fresh_new_record [of e] by simp
    moreover have "counts_fit (tapping_accept h km (new_record e) ?s)"
      using exec.IH by (simp add: tapping_accept_fits)
    ultimately show ?case
      using exec.IH by (simp add: action_exec_eq action_tapping_process_def process_waiting_fits)
  next
    case (other es s u)
    then show ?case by simp
  qed
  ultimately show ?thesis by (simp add: tapping_inv_def tapping_wf_def)
qed

lemma tapping_state_typed_witness:
  "\<forall>km u. counts_fit (action_exec no_hooks km (key_event 0 0 5 True) (tapping_init u))"
proof (intro allI)
  fix km u
  have "tapping_trace no_hooks km ([] @ [key_event 0 0 5 True])
      (action_exec no_hooks km (key_event 0 0 5 True) (tapping_init u))"
    using tapping_trace.exec [OF tapping_trace.start, of no_hooks km "key_event 0 0 5 True" u]
    by (simp add: exec_no_hooks)
  from tapping_state_typed [OF this]
  show "counts_fit (action_exec no_hooks km (key_event 0 0 5 True) (tapping_init u))" by simp
qed

end
