(* ===== verification/Tapping_Order.thy ===== *)
theory Tapping_Order
  imports Tapping_Account
begin

text \<open>
  What the tapping machine makes of a tap key with plain keys in between: a tap when it is released within
  its term, a hold when it is not, with all events in their order.
\<close>


section \<open>Taps and holds, with other keys in between\<close>

text \<open>A record of a key that is a plain key on every layer.\<close>

definition plain_record :: "keymap \<Rightarrow> keyrecord_t \<Rightarrow> bool" where
  "plain_record km r \<longleftrightarrow> IS_EVENT (event r) \<and>
    (pressed (event r) \<longrightarrow> (\<forall>cfg l. \<not> is_tap_action (layer_switch_get_action cfg km l (ev_key (event r)))))"

lemma plain_record_event: "plain_record km r \<Longrightarrow> IS_EVENT (event r)"
  by (simp add: plain_record_def)

lemma plain_record_not_tap: "plain_record km r \<Longrightarrow> pressed (event r) \<Longrightarrow> \<not> is_tap_record km r u"
  by (simp add: plain_record_def is_tap_record_def record_layer_action_def)

text \<open>An event of another key than that at \<open>k\<close>, in the tapping term of a press at \<open>t\<close>.\<close>

definition other_in_time :: "keypos_t \<Rightarrow> u16 \<Rightarrow> keyevent_t \<Rightarrow> bool" where
  "other_in_time k t e \<longleftrightarrow> ev_key e \<noteq> k \<and> TIMER_DIFF_16 (ev_time e) t < TAPPING_TERM"

lemma KEYEQ_eq [simp]: "KEYEQ a b \<longleftrightarrow> a = b"
  by (auto simp: KEYEQ_def intro: keypos_t.equality)

text \<open>A tapping key that is processed: it passes the other keys on.\<close>

definition passing :: "keypos_t \<Rightarrow> u16 \<Rightarrow> tap_t \<Rightarrow> 'q tapping \<Rightarrow> bool" where
  "passing k t T s \<longleftrightarrow> ev_key (event (tapping_key s)) = k \<and> ev_time (event (tapping_key s)) = t \<and>
    (settled s \<and> tap (tapping_key s) = T \<or> released s)"

definition passes :: "'q record_hooks \<Rightarrow> keymap \<Rightarrow> keyrecord_t \<Rightarrow> 'q tapping \<Rightarrow> bool \<times> keyrecord_t \<times> 'q tapping \<Rightarrow> bool" where
  "passes h km r s res \<longleftrightarrow> (case res of (d, r', s') \<Rightarrow>
    d \<and> tp_log s' = tp_log s @ [Input r] \<and> waiting_buffer s' = waiting_buffer s)"

lemma passing_step:
  assumes "passing k t T s" "plain_record km r" "other_in_time k t (event r)"
  shows "passes h km r s (process_tapping h km r s) \<and> passing k t T (snd (snd (process_tapping h km r s)))"
proof -
  let ?res = "process_tapping h km r s"
  have ev: "\<not> IS_NOEVENT (event r)" using assms(2) by (simp add: plain_record_def IS_EVENT_def IS_NOEVENT_def)
  have key: "\<not> IS_TAPPING_RECORD r s" and within: "WITHIN_TAPPING_TERM (event r) s"
    using assms(1,3) by (auto simp: passing_def other_in_time_def IS_TAPPING_RECORD_def WITHIN_TAPPING_TERM_def)
  consider "settled s" "tap (tapping_key s) = T" | "released s" using assms(1) by (auto simp: passing_def)
  then show ?thesis
  proof cases
    case 1
    have "tapping_settled h km False r s = (True, tp_process h km r s)"
      using key assms(2) by (auto simp: tapping_settled_def plain_record_not_tap)
    then have "?res = (True, tp_process h km r s)"
      using ev within by (simp add: process_tapping_states(3) [OF 1(1)])
    then show ?thesis using assms(1)
      by (simp add: tp_process_def split_beta passes_def passing_def settled_def released_def)
  next
    case 2
    show ?thesis
    proof (cases "pressed (event r)")
      case True
      let ?s = "s\<lparr>tapping_key := (tapping_key s)\<lparr>tap := (tap (tapping_key s))\<lparr>interrupted := True\<rparr>\<rparr>\<rparr>"
      have "?res = (True, tp_process h km r ?s)"
        using ev within key True assms(2)
        by (simp add: process_tapping_states(4) [OF 2] tapping_released_def plain_record_not_tap)
      then show ?thesis using assms(1) 2
        by (simp add: tp_process_def split_beta passes_def passing_def settled_def released_def)
    next
      case False
      then have "?res = (True, tp_process h km r s)"
        using ev within by (simp add: process_tapping_states(4) [OF 2] tapping_released_def)
      then show ?thesis using assms(1)
        by (simp add: tp_process_def split_beta passes_def passing_def settled_def released_def)
    qed
  qed
qed

text \<open>With no tapping key plain keys are passed on too.\<close>

lemma idle_step:
  assumes "IS_NOEVENT (event (tapping_key s))" "plain_record km r"
  shows "passes h km r s (process_tapping h km r s) \<and>
    IS_NOEVENT (event (tapping_key (snd (snd (process_tapping h km r s)))))"
proof -
  have "process_tapping h km r s = (True, tp_process h km r s)"
    using assms by (auto simp: process_tapping_states(1) tapping_idle_def plain_record_not_tap plain_record_event)
  then show ?thesis using assms(1) by (simp add: passes_def tp_process_def split_beta)
qed

text \<open>A round of the loop whose event is passed on.\<close>

lemma waiting_round_done:
  assumes wf: "tapping_wf s" and queue: "waiting_queue s = q # zs"
    and step: "process_tapping h km q s = (True, r, s1)" and buffer: "waiting_buffer s1 = waiting_buffer s"
  obtains s3 where "\<And>n. process_waiting h km (Suc n) s = process_waiting h km n s3" "tapping_wf s3"
    "waiting_queue s3 = zs" "tp_log s3 = tp_log s1" "tapping_key s3 = tapping_key s1"
proof -
  have "length (waiting_queue s) > 0" using queue by simp
  then have n: "0 < waiting_count s" by simp
  then have ne: "waiting_buffer_tail s \<noteq> waiting_buffer_head s" using waiting_count_0 [OF wf] by simp
  have q: "waiting_buffer s ! waiting_buffer_tail s = q" using waiting_queue_hd [OF wf ne] queue by simp
  have buf: "waiting_buffer_head s1 = waiting_buffer_head s" "waiting_buffer_tail s1 = waiting_buffer_tail s"
    using process_tapping_buffer [OF step] by simp_all
  let ?s2 = "s1\<lparr>waiting_buffer := (waiting_buffer s1)[waiting_buffer_tail s1 := r]\<rparr>"
  let ?s3 = "?s2\<lparr>waiting_buffer_tail := (waiting_buffer_tail ?s2 + 1) mod 8\<rparr>"
  have wf1: "tapping_wf s1" using wf buf buffer by (simp add: tapping_wf_def)
  then have wf2: "tapping_wf ?s2" and wf3: "tapping_wf ?s3" by (simp_all add: tapping_wf_def)
  have q1: "waiting_queue s1 = q # zs" using queue buf buffer by (simp add: waiting_queue_def wb_indices_def)
  have c: "waiting_count s1 = waiting_count s" "waiting_count ?s2 = waiting_count s1"
    using buf by (simp_all add: waiting_count_def)
  have n1: "0 < waiting_count s1" using n c by simp
  have n2: "0 < waiting_count ?s2" using n1 unfolding c .
  have "waiting_queue ?s2 = r # zs"
    using queue_update [OF wf1 n1, of r] wf1 q1 by (simp add: tapping_wf_def)
  then have q3: "waiting_queue ?s3 = zs" using queue_tl(1) [OF wf2 n2] by simp
  have "process_waiting h km (Suc n) s = process_waiting h km n ?s3" for n
    using process_waiting_Suc(2) [OF ne step [folded q] refl, of n] by simp
  from that [OF this wf3 q3] show ?thesis by simp
qed

text \<open>
  A loop over waiting events that are all passed on. \<open>P\<close> is what the machine keeps of its tapping key
  meanwhile.
\<close>

lemma drain:
  assumes step: "\<And>s r. P (tapping_key s) \<Longrightarrow> r \<in> set rs \<Longrightarrow> passes h km r s (process_tapping h km r s) \<and>
      P (tapping_key (snd (snd (process_tapping h km r s))))"
  shows "P (tapping_key s) \<Longrightarrow> tapping_wf s \<Longrightarrow> waiting_queue s = qs @ zs \<Longrightarrow> set qs \<subseteq> set rs \<Longrightarrow>
    \<exists>s'. process_waiting h km (length qs + n) s = process_waiting h km n s' \<and> P (tapping_key s') \<and> tapping_wf s' \<and>
      waiting_queue s' = zs \<and> tp_log s' = tp_log s @ map Input qs"
proof (induction qs arbitrary: s)
  case Nil
  then show ?case by auto
next
  case (Cons q qs)
  obtain d r s1 where s1: "process_tapping h km q s = (d, r, s1)" by (metis prod_cases3)
  then have pass: "d" "P (tapping_key s1)" "tp_log s1 = tp_log s @ [Input q]" "waiting_buffer s1 = waiting_buffer s"
    using step [OF Cons.prems(1), of q] Cons.prems(4) by (simp_all add: passes_def)
  have queue: "waiting_queue s = q # (qs @ zs)" using Cons.prems(3) by simp
  have s1': "process_tapping h km q s = (True, r, s1)" using s1 pass(1) by simp
  from waiting_round_done [OF Cons.prems(2) queue s1' pass(4)] obtain s3
    where s3: "\<And>n. process_waiting h km (Suc n) s = process_waiting h km n s3" "tapping_wf s3"
      "waiting_queue s3 = qs @ zs" "tp_log s3 = tp_log s1" "tapping_key s3 = tapping_key s1" by blast
  have "P (tapping_key s3)" using pass(2) s3(5) by simp
  from Cons.IH [OF this s3(2,3)] Cons.prems(4) show ?case using s3(1,4) pass(3) by auto
qed

text \<open>While the tapping key is not settled the other keys wait.\<close>

definition interrupt :: "'q tapping \<Rightarrow> 'q tapping" where
  "interrupt s = s\<lparr>tapping_key := (tapping_key s)\<lparr>tap := (tap (tapping_key s))\<lparr>interrupted := True\<rparr>\<rparr>\<rparr>"

lemma interrupt_simps [simp]:
  "interrupt (interrupt s) = interrupt s" "waiting_queue (interrupt s) = waiting_queue s"
  "tp_log (interrupt s) = tp_log s" "tapping_wf (interrupt s) = tapping_wf s"
  "waiting_buffer (interrupt s) = waiting_buffer s" "waiting_buffer_head (interrupt s) = waiting_buffer_head s"
  "waiting_buffer_tail (interrupt s) = waiting_buffer_tail s" "unsettled (interrupt s) = unsettled s"
  "event (tapping_key (interrupt s)) = event (tapping_key s)"
  "tap (tapping_key (interrupt s)) = \<lparr>interrupted = True, tap_count = tap_count (tap (tapping_key s))\<rparr>"
  by (simp_all add: interrupt_def unsettled_def)

lemma waiting_typed:
  "waiting_buffer_typed e s \<longleftrightarrow>
    (\<exists>r \<in> set (waiting_queue s). ev_key (event r) = ev_key e \<and> pressed (event r) \<noteq> pressed e)"
  by (simp add: waiting_buffer_typed_def list_ex_iff waiting_queue_def Let_def) metis

lemma unsettled_waits:
  assumes "unsettled s" "IS_EVENT (event r)"
    "other_in_time (ev_key (event (tapping_key s))) (ev_time (event (tapping_key s))) (event r)"
    "pressed (event r) \<or> waiting_buffer_typed (event r) s"
  shows "process_tapping h km r s = (False, r, if pressed (event r) then interrupt s else s)"
  using assms
  by (auto simp: process_tapping_states(2) [OF assms(1)] other_in_time_def WITHIN_TAPPING_TERM_def
      IS_TAPPING_RECORD_def tapping_unsettled_def interrupt_def IS_EVENT_def IS_NOEVENT_def)

lemma waiting_round_stays:
  assumes wf: "tapping_wf s" and queue: "waiting_queue s = q # zs"
    and step: "process_tapping h km q s = (False, q, s1)" and buffer: "waiting_buffer s1 = waiting_buffer s"
  shows "process_waiting h km (Suc n) s = s1"
proof -
  have "length (waiting_queue s) > 0" using queue by simp
  then have n: "0 < waiting_count s" by simp
  then have ne: "waiting_buffer_tail s \<noteq> waiting_buffer_head s" using waiting_count_0 [OF wf] by simp
  have q: "waiting_buffer s ! waiting_buffer_tail s = q" using waiting_queue_hd [OF wf ne] queue by simp
  have "s1\<lparr>waiting_buffer := (waiting_buffer s1)[waiting_buffer_tail s1 := q]\<rparr> = s1"
    using process_tapping_buffer [OF step] by (simp add: buffer [symmetric] q [folded buffer, symmetric])
  then show ?thesis using process_waiting_Suc(2) [OF ne step [folded q] refl, of n] q by simp
qed

lemma waiting_enq_room:
  assumes wf: "tapping_wf s" and "length (waiting_queue s) < 7" "IS_EVENT (event r)"
  obtains s' where "waiting_buffer_enq r s = (True, s')" "tapping_wf s'" "waiting_queue s' = waiting_queue s @ [r]"
    "tp_log s' = tp_log s" "tapping_key s' = tapping_key s"
proof -
  have room: "(waiting_buffer_head s + 1) mod 8 \<noteq> waiting_buffer_tail s"
    using assms(2) waiting_count_cases [OF wf] wf mod_8 [of "waiting_buffer_head s + 1"]
    by (auto simp: tapping_wf_def split: if_splits)
  let ?s = "s\<lparr>waiting_buffer := (waiting_buffer s)[waiting_buffer_head s := r],
      waiting_buffer_head := (waiting_buffer_head s + 1) mod 8\<rparr>"
  have "waiting_buffer_enq r s = (True, ?s)"
    using room assms(3) by (simp add: waiting_buffer_enq_def IS_EVENT_def IS_NOEVENT_def)
  moreover have "tapping_wf ?s" using wf by (simp add: tapping_wf_def)
  ultimately show ?thesis using that queue_enq [OF wf room, of r] by simp
qed

text \<open>Events of other keys, each a press or the release of a press among them.\<close>

definition nested_events :: "keymap \<Rightarrow> keypos_t \<Rightarrow> u16 \<Rightarrow> keyevent_t list \<Rightarrow> bool" where
  "nested_events km k t es \<longleftrightarrow>
    (\<forall>e \<in> set es. plain_record km (new_record e) \<and> other_in_time k t e) \<and>
    (\<forall>i < length es. pressed (es ! i) \<or> (\<exists>j < i. ev_key (es ! j) = ev_key (es ! i) \<and> pressed (es ! j)))"

lemma nested_events_snoc:
  assumes "nested_events km k t (es @ [e])"
  shows "nested_events km k t es" "plain_record km (new_record e)" "other_in_time k t e"
    "pressed e \<or> (\<exists>d \<in> set es. ev_key d = ev_key e \<and> pressed d)"
proof -
  have len: "length es < length (es @ [e])" by simp
  have all: "\<forall>i < length (es @ [e]). pressed ((es @ [e]) ! i) \<or>
      (\<exists>j < i. ev_key ((es @ [e]) ! j) = ev_key ((es @ [e]) ! i) \<and> pressed ((es @ [e]) ! j))"
    using assms by (simp add: nested_events_def)
  have "pressed (es ! i) \<or> (\<exists>j < i. ev_key (es ! j) = ev_key (es ! i) \<and> pressed (es ! j))" if i: "i < length es" for i
  proof -
    have "pressed ((es @ [e]) ! i) \<or> (\<exists>j < i. ev_key ((es @ [e]) ! j) = ev_key ((es @ [e]) ! i) \<and> pressed ((es @ [e]) ! j))"
      using all i by simp
    moreover have "(es @ [e]) ! i = es ! i" "\<And>j. j < i \<Longrightarrow> (es @ [e]) ! j = es ! j"
      using i by (simp_all add: nth_append)
    ultimately show ?thesis by metis
  qed
  then show "nested_events km k t es" using assms by (simp add: nested_events_def)
  show "plain_record km (new_record e)" "other_in_time k t e" using assms by (simp_all add: nested_events_def)
  from all len have "pressed e \<or> (\<exists>j < length es. ev_key ((es @ [e]) ! j) = ev_key e \<and> pressed ((es @ [e]) ! j))"
    by (metis nth_append_length)
  then show "pressed e \<or> (\<exists>d \<in> set es. ev_key d = ev_key e \<and> pressed d)" by (auto simp: nth_append)
qed

lemma nested_events_hd:
  "nested_events km k t (e # es) \<Longrightarrow> pressed e \<and> IS_EVENT e \<and> other_in_time k t e"
  by (force simp: nested_events_def plain_record_def)

text \<open>A tap key is held down since \<open>e\<close>, the events \<open>es\<close> have come since.\<close>

definition holding :: "keyevent_t \<Rightarrow> keyevent_t list \<Rightarrow> 'q tapping \<Rightarrow> bool" where
  "holding e es s \<longleftrightarrow> tapping_wf s \<and> waiting_queue s = map new_record es \<and>
    tapping_key s = \<lparr> event = e, tap = \<lparr> interrupted = (es \<noteq> []), tap_count = 0 \<rparr> \<rparr>"

lemma waiting_loop_waits:
  assumes hold: "unsettled s" "event (tapping_key s) = e" "tapping_wf s"
    and queue: "waiting_queue s = map new_record es" "nested_events km (ev_key e) (ev_time e) es"
  shows "process_waiting h km 8 s = (if es = [] then s else interrupt s)"
proof (cases es)
  case Nil
  then have "waiting_buffer_tail s = waiting_buffer_head s"
    using queue(1) waiting_count_0 [OF hold(3)] length_waiting_queue [of s] by simp
  then show ?thesis using Nil by (simp add: process_waiting_Suc(1))
next
  case (Cons x xs)
  have x: "pressed x \<and> IS_EVENT x \<and> other_in_time (ev_key e) (ev_time e) x"
    using nested_events_hd queue(2) Cons by blast
  have "process_tapping h km (new_record x) s = (False, new_record x, interrupt s)"
    using unsettled_waits [OF hold(1), of "new_record x" h km] x hold(2) by simp
  from waiting_round_stays [OF hold(3) _ this, of "map new_record xs" 7] queue(1) Cons show ?thesis by simp
qed

lemma exec_accepted:
  assumes "\<And>r u. fst (pre_process_record_quantum h r u)"
  shows "action_exec h km e s =
    process_waiting h km 8 (tapping_accept h km (new_record e) (s\<lparr>host := snd (exec_host h e s)\<rparr>))"
proof -
  have "fst (exec_host h e s)" using assms by (simp add: exec_host_def Let_def)
  then show ?thesis by (simp add: action_exec_eq action_tapping_process_def)
qed

lemma exec_waits:
  assumes hold: "holding e es s" and e: "IS_EVENT e" "pressed e"
    and accept: "\<And>r u. fst (pre_process_record_quantum h r u)"
    and es: "nested_events km (ev_key e) (ev_time e) (es @ [x])" "length es < 7"
  shows "holding e (es @ [x]) (action_exec h km x s)" "tp_log (action_exec h km x s) = tp_log s"
proof -
  let ?s = "s\<lparr>host := snd (exec_host h x s)\<rparr>"
  note snoc = nested_events_snoc [OF es(1)]
  have key: "event (tapping_key ?s) = e" "waiting_queue ?s = map new_record es" "tapping_wf ?s" "tp_log ?s = tp_log s"
    using hold by (simp_all add: holding_def)
  have u: "unsettled ?s" using hold e by (simp add: holding_def unsettled_def)
  have ev: "IS_EVENT x" using snoc(2) by (simp add: plain_record_def)
  have "waiting_buffer_typed x ?s \<longleftrightarrow> (\<exists>d \<in> set es. ev_key d = ev_key x \<and> pressed d \<noteq> pressed x)"
    unfolding waiting_typed key(2) by simp
  with snoc(4) have typed: "pressed x \<or> waiting_buffer_typed x ?s" by blast
  let ?s1 = "if pressed x then interrupt ?s else ?s"
  have step: "process_tapping h km (new_record x) ?s = (False, new_record x, ?s1)"
    using unsettled_waits [OF u, of "new_record x" h km] snoc(3) ev typed key(1) by simp
  have room: "tapping_wf ?s1" "length (waiting_queue ?s1) < 7" "IS_EVENT (event (new_record x))"
    using key es(2) ev by (simp_all del: length_waiting_queue)
  obtain s2 where s2: "waiting_buffer_enq (new_record x) ?s1 = (True, s2)" "tapping_wf s2"
      "waiting_queue s2 = waiting_queue ?s1 @ [new_record x]" "tp_log s2 = tp_log ?s1" "tapping_key s2 = tapping_key ?s1"
    by (rule waiting_enq_room [OF room])
  have acc: "tapping_accept h km (new_record x) ?s = s2" by (simp add: tapping_accept_def step s2(1))
  have u2: "unsettled s2" using u s2(5) by (simp add: unsettled_def)
  have e2: "event (tapping_key s2) = e" using s2(5) key(1) by simp
  have q2: "waiting_queue s2 = map new_record (es @ [x])" using s2(3) key(2) by simp
  have "process_waiting h km 8 s2 = interrupt s2"
    using waiting_loop_waits [OF u2 e2 s2(2) q2 es(1), of h] by simp
  then have exec: "action_exec h km x s = interrupt s2"
    by (simp add: exec_accepted [OF accept] acc)
  show "holding e (es @ [x]) (action_exec h km x s)"
    using s2(2) q2 e2 u2 by (simp add: exec holding_def unsettled_def interrupt_def keyrecord_t.equality)
  show "tp_log (action_exec h km x s) = tp_log s"
    using s2(4) key(4) by (simp add: exec)
qed

text \<open>A tick within the term leaves the machine as it is.\<close>

lemma exec_tick:
  assumes hold: "holding e es s" and e: "IS_EVENT e" "pressed e"
    and accept: "\<And>r u. fst (pre_process_record_quantum h r u)"
    and es: "nested_events km (ev_key e) (ev_time e) es"
    and x: "\<not> IS_EVENT x" "TIMER_DIFF_16 (ev_time x) (ev_time e) < 200"
  shows "holding e es (action_exec h km x s)" "tp_log (action_exec h km x s) = tp_log s"
proof -
  let ?s = "s\<lparr>host := snd (exec_host h x s)\<rparr>"
  have key: "event (tapping_key ?s) = e" "waiting_queue ?s = map new_record es" "tapping_wf ?s"
    using hold by (simp_all add: holding_def)
  have u: "unsettled ?s" using hold e by (simp add: holding_def unsettled_def)
  have "process_tapping h km (new_record x) ?s = (True, new_record x, ?s)"
    using x key(1) by (simp add: process_tapping_states(2) [OF u] WITHIN_TAPPING_TERM_def IS_EVENT_def IS_NOEVENT_def)
  then have "tapping_accept h km (new_record x) ?s = ?s" by (simp add: tapping_accept_def)
  then have exec: "action_exec h km x s = (if es = [] then ?s else interrupt ?s)"
    using waiting_loop_waits [OF u key(1,3,2) es, of h] by (simp add: exec_accepted [OF accept])
  show "holding e es (action_exec h km x s)"
    using hold unfolding exec by (auto simp: holding_def interrupt_def)
  show "tp_log (action_exec h km x s) = tp_log s" unfolding exec by simp
qed

text \<open>Ticks and the events of other keys, in the order in which they come.\<close>

lemma exec_all_wait:
  assumes e: "IS_EVENT e" "pressed e" and accept: "\<And>r u. fst (pre_process_record_quantum h r u)"
    and start: "holding e [] s"
  shows "nested_events km (ev_key e) (ev_time e) (filter IS_EVENT xs) \<Longrightarrow> length (filter IS_EVENT xs) \<le> 7 \<Longrightarrow>
    \<forall>x \<in> set xs. TIMER_DIFF_16 (ev_time x) (ev_time e) < 200 \<Longrightarrow>
    holding e (filter IS_EVENT xs) (fold (action_exec h km) xs s) \<and> tp_log (fold (action_exec h km) xs s) = tp_log s"
proof (induction xs rule: rev_induct)
  case Nil
  then show ?case using start by simp
next
  case (snoc x xs)
  let ?es = "filter IS_EVENT xs"
  have nested: "nested_events km (ev_key e) (ev_time e) ?es"
    using snoc.prems(1) nested_events_snoc(1) by (auto split: if_splits)
  then have IH: "holding e ?es (fold (action_exec h km) xs s)" "tp_log (fold (action_exec h km) xs s) = tp_log s"
    using snoc by (simp_all split: if_splits)
  show ?case
  proof (cases "IS_EVENT x")
    case True
    then have "nested_events km (ev_key e) (ev_time e) (?es @ [x])" "length ?es < 7" using snoc.prems(1,2) by simp_all
    from exec_waits [OF IH(1) e accept this] IH(2) True show ?thesis by simp
  next
    case False
    have "TIMER_DIFF_16 (ev_time x) (ev_time e) < 200" using snoc.prems(3) by simp
    from exec_tick [OF IH(1) e accept nested False this] IH(2) False show ?thesis by simp
  qed
qed

text \<open>The machine at rest.\<close>

definition resting :: "'q tapping \<Rightarrow> bool" where
  "resting s \<longleftrightarrow> tapping_wf s \<and> waiting_queue s = [] \<and> IS_NOEVENT (event (tapping_key s))"

lemma empty_queue:
  assumes "tapping_wf s" "waiting_queue s = []"
  shows "waiting_buffer_tail s = waiting_buffer_head s" "wb_indices s = []"
  using assms waiting_count_0 [of s] length_waiting_queue [of s] by (simp_all add: waiting_queue_def)

lemma exec_press:
  assumes rest: "resting s" and accept: "\<And>r u. fst (pre_process_record_quantum h r u)"
    and e: "IS_EVENT e" "pressed e" "is_tap_record km (new_record e) (snd (exec_host h e s))"
  shows "holding e [] (action_exec h km e s)" "tp_log (action_exec h km e s) = tp_log s"
proof -
  let ?s = "s\<lparr>host := snd (exec_host h e s), tapping_key := new_record e\<rparr>"
  have empty: "waiting_buffer_tail s = waiting_buffer_head s" "wb_indices s = []"
    using empty_queue [of s] rest by (simp_all add: resting_def)
  have "waiting_buffer_scan_tap h km ?s = ?s"
    by (simp add: waiting_buffer_scan_tap_def wb_indices_def empty)
  then have "tapping_accept h km (new_record e) (s\<lparr>host := snd (exec_host h e s)\<rparr>) = ?s"
    using rest e by (simp add: tapping_accept_def process_tapping_states(1) tapping_idle_def resting_def)
  then have "action_exec h km e s = ?s"
    by (simp add: exec_accepted [OF accept] process_waiting_Suc(1) empty)
  then show "holding e [] (action_exec h km e s)" "tp_log (action_exec h km e s) = tp_log s"
    using rest by (simp_all add: holding_def resting_def new_record_def)
qed

lemma passing_drain:
  assumes "passing k t T s" "tapping_wf s" "waiting_queue s = map new_record es @ zs" "nested_events km k t es"
  shows "\<exists>s'. process_waiting h km (length es + n) s = process_waiting h km n s' \<and> passing k t T s' \<and> tapping_wf s' \<and>
    waiting_queue s' = zs \<and> tp_log s' = tp_log s @ map (Input \<circ> new_record) es"
proof -
  let ?P = "\<lambda>key. passing k t T (s\<lparr>tapping_key := key\<rparr>)"
  have P: "?P (tapping_key s') = passing k t T s'" for s'
    by (simp add: passing_def settled_def released_def)
  have "passes h km r s' (process_tapping h km r s') \<and> ?P (tapping_key (snd (snd (process_tapping h km r s'))))"
    if "?P (tapping_key s')" "r \<in> set (map new_record es)" for s' r
    using passing_step [of k t T s' km r h] that assms(4) unfolding P by (auto simp: nested_events_def)
  from drain [of ?P "map new_record es" h km s "map new_record es" zs n, OF this] assms(1-3)
  show ?thesis unfolding P by simp
qed

lemma passing_last:
  assumes pass: "passing k t T s" "0 < tap_count T" "tapping_wf s" "waiting_queue s = [\<lparr> event = e, tap = T \<rparr>]"
    and e: "IS_EVENT e" "\<not> pressed e" "ev_key e = k" "TIMER_DIFF_16 (ev_time e) t < 200"
  shows "tp_log (process_waiting h km (Suc n) s) = tp_log s @ [Input \<lparr> event = e, tap = T \<rparr>] \<and>
    pending (process_waiting h km (Suc n) s) = []"
proof -
  let ?r = "\<lparr> event = e, tap = T \<rparr>"
  have within: "WITHIN_TAPPING_TERM e s" and key: "IS_TAPPING_RECORD ?r s"
    using pass(1) e by (simp_all add: passing_def WITHIN_TAPPING_TERM_def IS_TAPPING_RECORD_def)
  obtain d r1 s1 where step: "process_tapping h km ?r s = (d, r1, s1)" by (metis prod_cases3)
  have rel: "fst (process_record h km ?r u) = ?r" for u by (rule process_release(2)) (use e in simp)
  have "d \<and> tp_log s1 = tp_log s @ [Input ?r] \<and> waiting_buffer s1 = waiting_buffer s \<and> \<not> pressed (event (tapping_key s1))"
    using pass(1)
  proof (unfold passing_def, elim conjE disjE)
    assume st: "settled s" "tap (tapping_key s) = T"
    have "(d, r1, s1) = (True, ?r, snd (tp_process h km ?r s)\<lparr>tapping_key := ?r\<rparr>)"
      using e within key rel st(2)
      by (simp add: step [symmetric] process_tapping_states(3) [OF st(1)] tapping_settled_def tp_process_def
          split_beta IS_EVENT_def IS_NOEVENT_def)
    then show ?thesis using e by (simp add: tp_process_simps)
  next
    assume st: "released s"
    have "(d, r1, s1) = (True, tp_process h km ?r s)"
      using e within by (simp add: step [symmetric] process_tapping_states(4) [OF st] tapping_released_def
          IS_EVENT_def IS_NOEVENT_def)
    then have "d" "s1 = snd (tp_process h km ?r s)" by (auto simp: prod_eq_iff)
    then show ?thesis using st by (simp add: tp_process_simps released_def)
  qed
  then have one: "d" "tp_log s1 = tp_log s @ [Input ?r]" "waiting_buffer s1 = waiting_buffer s"
    "\<not> pressed (event (tapping_key s1))" by simp_all
  have step': "process_tapping h km ?r s = (True, r1, s1)" using step one(1) by simp
  from waiting_round_done [OF pass(3,4) step' one(3)] obtain s3
    where s3: "\<And>n. process_waiting h km (Suc n) s = process_waiting h km n s3" "tapping_wf s3"
      "waiting_queue s3 = []" "tp_log s3 = tp_log s1" "tapping_key s3 = tapping_key s1" by blast
  have "process_waiting h km (Suc n) s = s3"
    unfolding s3(1) by (rule process_waiting_Suc(1)) (rule empty_queue(1) [OF s3(2,3)])
  then show ?thesis using one s3 by (simp add: pending_def unsettled_def)
qed

text \<open>
  C7: a tap key that is released within the tapping term is a tap, whatever other keys were pressed and
  released in between, with any number of ticks among them, and the order is kept: the machine processes the
  press of the tap key (counted as one tap, marked as interrupted when other keys came), then the other
  events exactly as they came in, then the release, and nothing is left waiting. The tap key is pressed when no
  key is tapping and nothing waits, and no feature consumes events beforehand; in between up to six events may come
  of other keys without a tap action, the presses and releases of keys pressed after the tap key.
\<close>

theorem tap_within_term:
  assumes "resting s" "\<And>r u. fst (pre_process_record_quantum h r u)"
    and "IS_EVENT e" "pressed e" "is_tap_record km (new_record e) (snd (exec_host h e s))"
    and "nested_events km (ev_key e) (ev_time e) (filter IS_EVENT xs)" "length (filter IS_EVENT xs) \<le> 6"
    and "\<forall>x \<in> set xs. TIMER_DIFF_16 (ev_time x) (ev_time e) < 200"
    and "IS_EVENT e'" "\<not> pressed e'" "ev_key e' = ev_key e" "TIMER_DIFF_16 (ev_time e') (ev_time e) < 200"
  shows "let es = filter IS_EVENT xs; s' = fold (action_exec h km) (e # xs @ [e']) s; T = \<lparr> interrupted = (es \<noteq> []), tap_count = 1 \<rparr>
    in tp_log s' = tp_log s @ Input \<lparr> event = e, tap = T \<rparr> # map (Input \<circ> new_record) es @ [Input \<lparr> event = e', tap = T \<rparr>] \<and>
       pending s' = []"
proof -
  define es where "es = filter IS_EVENT xs"
  note accept = assms(2) and e = assms(3-5) and es = assms(6,7) [folded es_def] and e' = assms(9-12)
  let ?T = "\<lparr> interrupted = (es \<noteq> []), tap_count = 1 \<rparr>"
  let ?s = "fold (action_exec h km) xs (action_exec h km e s)"
  have hold: "holding e es ?s" and log: "tp_log ?s = tp_log s"
    using exec_all_wait [OF e(1,2) accept exec_press(1) [OF assms(1) accept e] assms(6) _ assms(8)] es(2)
      exec_press(2) [OF assms(1) accept e] by (simp_all add: es_def)
  let ?h = "?s\<lparr>host := snd (exec_host h e' ?s)\<rparr>"
  let ?k = "\<lparr> event = e, tap = ?T \<rparr>"
  let ?s1 = "process_tapping_key h km (?h\<lparr>tapping_key := ?k\<rparr>)"
  have u: "unsettled ?h" using hold e by (simp add: holding_def unsettled_def)
  have key: "tapping_key ?h = \<lparr> event = e, tap = \<lparr> interrupted = (es \<noteq> []), tap_count = 0 \<rparr> \<rparr>"
    using hold by (simp add: holding_def)
  have step: "process_tapping h km (new_record e') ?h = (False, \<lparr> event = e', tap = ?T \<rparr>, ?s1)"
    using e' by (simp add: process_tapping_states(2) [OF u] WITHIN_TAPPING_TERM_def key tapping_unsettled_def
        IS_TAPPING_RECORD_def IS_EVENT_def IS_NOEVENT_def Let_def process_tapping_key_eq new_record_def)
  have wf1: "tapping_wf ?s1" and q1: "waiting_queue ?s1 = map new_record es"
    using hold by (simp_all add: holding_def process_tapping_key_eq)
  have room: "length (waiting_queue ?s1) < 7" using es(2) unfolding q1 by simp
  have ev': "IS_EVENT (event \<lparr> event = e', tap = ?T \<rparr>)" using e'(1) by simp
  obtain s2 where s2: "waiting_buffer_enq \<lparr> event = e', tap = ?T \<rparr> ?s1 = (True, s2)" "tapping_wf s2"
      "waiting_queue s2 = waiting_queue ?s1 @ [\<lparr> event = e', tap = ?T \<rparr>]" "tp_log s2 = tp_log ?s1"
      "tapping_key s2 = tapping_key ?s1"
    by (rule waiting_enq_room [OF wf1 room ev'])
  have exec: "action_exec h km e' ?s = process_waiting h km 8 s2"
    by (subst exec_accepted [OF accept, of km e' ?s])
      (simp only: tapping_accept_def step s2(1) Let_def prod.case if_True if_False)
  have pass: "passing (ev_key e) (ev_time e) ?T s2"
    using e(1) by (simp add: passing_def s2(5) process_tapping_key_eq settled_def released_def IS_EVENT_def)
  have log2: "tp_log s2 = tp_log s @ [Input ?k]" using log by (simp add: s2(4) process_tapping_key_eq)
  obtain s3 where s3: "process_waiting h km (length es + Suc (7 - length es)) s2 = process_waiting h km (Suc (7 - length es)) s3"
      "passing (ev_key e) (ev_time e) ?T s3" "tapping_wf s3" "waiting_queue s3 = [\<lparr> event = e', tap = ?T \<rparr>]"
      "tp_log s3 = tp_log s2 @ map (Input \<circ> new_record) es"
    using passing_drain [OF pass s2(2) s2(3) [unfolded q1] es(1)] by blast
  have len: "length es + Suc (7 - length es) = 8" using es(2) by simp
  have T: "0 < tap_count ?T" by simp
  have fin: "fold (action_exec h km) (e # xs @ [e']) s = process_waiting h km (Suc (7 - length es)) s3"
    using s3(1) unfolding len by (simp add: exec)
  show ?thesis
    unfolding fin Let_def es_def [symmetric] using passing_last [OF s3(2) T s3(3,4) e', of h km "7 - length es"]
    unfolding s3(5) log2 by simp
qed

text \<open>
  C20: a tap key that is still down when its tapping term is over is a hold: whatever ticks and events of other
  keys have come within the term, nothing is processed until the first tick after it, at which the machine
  processes the press, not counted as a tap, and then the events that have waited, in the order they
  came in; nothing is left waiting and no key is tapping. The tap key is pressed when no key is tapping and
  nothing waits, and no feature consumes events beforehand; up to seven events may have come of other keys without
  a tap action, the presses and releases of keys pressed after the tap key.
\<close>

theorem hold_after_term:
  assumes "resting s" "\<And>r u. fst (pre_process_record_quantum h r u)"
    and "IS_EVENT e" "pressed e" "is_tap_record km (new_record e) (snd (exec_host h e s))"
    and "nested_events km (ev_key e) (ev_time e) (filter IS_EVENT xs)" "length (filter IS_EVENT xs) \<le> 7"
    and "\<forall>x \<in> set xs. TIMER_DIFF_16 (ev_time x) (ev_time e) < 200"
    and "IS_NOEVENT tick" "200 \<le> TIMER_DIFF_16 (ev_time tick) (ev_time e)"
  shows "let es = filter IS_EVENT xs; s0 = fold (action_exec h km) (e # xs) s; s' = action_exec h km tick s0;
      T = \<lparr> interrupted = (es \<noteq> []), tap_count = 0 \<rparr>
    in tp_log s0 = tp_log s \<and> tp_log s' = tp_log s @ Input \<lparr> event = e, tap = T \<rparr> # map (Input \<circ> new_record) es \<and>
       pending s' = [] \<and> IS_NOEVENT (event (tapping_key s'))"
proof -
  define es where "es = filter IS_EVENT xs"
  note accept = assms(2) and e = assms(3-5) and es = assms(6,7) [folded es_def] and tick = assms(9,10)
  let ?s = "fold (action_exec h km) xs (action_exec h km e s)"
  have hold: "holding e es ?s" and log: "tp_log ?s = tp_log s"
    using exec_all_wait [OF e(1,2) accept exec_press(1) [OF assms(1) accept e] assms(6-8)]
      exec_press(2) [OF assms(1) accept e] by (simp_all add: es_def)
  let ?h = "?s\<lparr>host := snd (exec_host h tick ?s)\<rparr>"
  let ?s1 = "(process_tapping_key h km ?h)\<lparr>tapping_key := no_record\<rparr>"
  have u: "unsettled ?h" using hold e by (simp add: holding_def unsettled_def)
  have key: "tapping_key ?h = \<lparr> event = e, tap = \<lparr> interrupted = (es \<noteq> []), tap_count = 0 \<rparr> \<rparr>"
    using hold by (simp add: holding_def)
  have late: "\<not> TIMER_DIFF_16 (ev_time tick) (ev_time e) < 200" using tick(2) by simp
  have step: "process_tapping h km (new_record tick) ?h = (False, new_record tick, ?s1)"
    using late by (simp add: process_tapping_states(2) [OF u] WITHIN_TAPPING_TERM_def key)
  have exec: "action_exec h km tick ?s = process_waiting h km 8 ?s1"
    using tick(1)
    by (subst exec_accepted [OF accept, of km tick ?s]) (simp add: tapping_accept_def step waiting_buffer_enq_def)
  let ?P = "\<lambda>key :: keyrecord_t. IS_NOEVENT (event key)"
  have P: "passes h km r s' (process_tapping h km r s') \<and> ?P (tapping_key (snd (snd (process_tapping h km r s'))))"
    if "?P (tapping_key s')" "r \<in> set (map new_record es)" for s' r
    using idle_step [OF that(1), of km r h] that(2) es(1) by (auto simp: nested_events_def)
  have wf1: "tapping_wf ?s1" and q1: "waiting_queue ?s1 = map new_record es @ []" and k1: "?P (tapping_key ?s1)"
    using hold by (simp_all add: holding_def process_tapping_key_eq no_record_def no_event_def IS_NOEVENT_def)
  obtain s3 where s3: "process_waiting h km (length (map new_record es) + (8 - length es)) ?s1 = process_waiting h km (8 - length es) s3"
      "?P (tapping_key s3)" "tapping_wf s3" "waiting_queue s3 = []" "tp_log s3 = tp_log ?s1 @ map Input (map new_record es)"
    using drain [of ?P "map new_record es" h km, OF P k1 wf1 q1 subset_refl] by blast
  have "action_exec h km tick ?s = s3"
    using s3(1) es(2) empty_queue(1) [OF s3(3,4)] by (simp add: exec process_waiting_Suc(1))
  moreover have "tp_log ?s1 = tp_log s @ [Input \<lparr> event = e, tap = \<lparr> interrupted = (es \<noteq> []), tap_count = 0 \<rparr> \<rparr>]"
    using log key by (simp add: process_tapping_key_eq)
  ultimately show ?thesis
    using s3(2,4,5) log
    by (simp add: Let_def es_def [symmetric] pending_def unsettled_def IS_EVENT_def IS_NOEVENT_def)
qed

text \<open>A keymap of one layer: a layer-tap key beside a plain one.\<close>

definition tap_keymap :: keymap where
  "tap_keymap = [[[LT 1 4, 5, 0, 0, 0, 0], replicate 6 0, replicate 6 0, replicate 6 0]]"

lemma tap_keymap_layer:
  assumes "unat r < 4" "unat c < 6"
  shows "layer_switch_get_action cfg tap_keymap s \<lparr> col = c, row = r \<rparr> =
    action_for_keycode cfg (tap_keymap ! 0 ! unat r ! unat c)"
proof -
  have trans: "action_for_keycode cfg KC_TRANSPARENT = ACTION_TRANSPARENT"
    by (simp add: action_for_keycode_def keycode_config_def in_range_unat)
  have upper: "action_for_key cfg tap_keymap (of_nat i) \<lparr> col = c, row = r \<rparr> = ACTION_TRANSPARENT"
    if "0 < i" "i < 16" for i
    using that assms trans
    by (simp add: action_for_key_def keymap_key_to_keycode_def keycode_at_keymap_location_def tap_keymap_def
        MATRIX_ROWS_def MATRIX_COLS_def unsigned_of_nat take_bit_nat_eq_self)
  have "layer_scan cfg tap_keymap l \<lparr> col = c, row = r \<rparr> n = 0" if "n \<le> 16" for n l
    using that
  proof (induction n)
    case (Suc n)
    then show ?case using upper [of n] by (cases "n = 0") simp_all
  qed simp
  then show ?thesis
    using assms by (simp add: layer_switch_get_action_def layer_switch_get_layer_def action_for_key_def
        keymap_key_to_keycode_def keycode_at_keymap_location_def tap_keymap_def
        MATRIX_ROWS_def MATRIX_COLS_def)
qed

lemma tap_keymap_actions:
  "is_tap_record tap_keymap (new_record (key_event 0 0 t p)) u"
  "\<not> is_tap_action (layer_switch_get_action cfg tap_keymap l \<lparr> col = 1, row = 0 \<rparr>)"
proof -
  have "ACTION_LAYER_TAP 1 4 = 0xA104" by code_simp
  then have "action_for_keycode cfg (LT 1 4) = 0xA104" for cfg
    by (simp add: action_LT keycode_config_def)
  moreover have "is_tap_action 0xA104" by code_simp
  ultimately show "is_tap_record tap_keymap (new_record (key_event 0 0 t p)) u"
    by (simp add: is_tap_record_def record_layer_action_def tap_keymap_layer) (simp add: tap_keymap_def)
  have "ACTION 0 5 = 5" by code_simp
  then have "action_for_keycode cfg 5 = 5" for cfg
    by (simp add: action_for_keycode_def keycode_config_def in_range_unat)
  moreover have "\<not> is_tap_action 5" by code_simp
  ultimately show "\<not> is_tap_action (layer_switch_get_action cfg tap_keymap l \<lparr> col = 1, row = 0 \<rparr>)"
    by (simp add: tap_keymap_layer) (simp add: tap_keymap_def)
qed

lemma resting_init: "resting (tapping_init u)"
  by (simp add: resting_def tapping_init_def tapping_wf_def waiting_queue_def wb_indices_def no_record_def
      no_event_def IS_NOEVENT_def)

text \<open>The events of a run, with ticks in between.\<close>

definition tick_at :: "u16 \<Rightarrow> keyevent_t" where
  "tick_at t = no_event\<lparr>ev_time := t\<rparr>"

definition between_events :: "keyevent_t list" where
  "between_events = [tick_at 101, key_event 0 1 130 True, tick_at 150, key_event 0 1 190 False, tick_at 191]"

lemma between_events:
  "filter IS_EVENT between_events = [key_event 0 1 130 True, key_event 0 1 190 False]"
  "nested_events tap_keymap \<lparr> col = 0, row = 0 \<rparr> 100 (filter IS_EVENT between_events)"
  "\<forall>x \<in> set between_events. TIMER_DIFF_16 (ev_time x) 100 < 200"
proof -
  show f: "filter IS_EVENT between_events = [key_event 0 1 130 True, key_event 0 1 190 False]"
    by (simp add: between_events_def tick_at_def no_event_def key_event_def IS_EVENT_def)
  show "nested_events tap_keymap \<lparr> col = 0, row = 0 \<rparr> 100 (filter IS_EVENT between_events)"
    unfolding f by (simp add: nested_events_def plain_record_def other_in_time_def tap_keymap_actions TIMER_DIFF_16_def
        less_Suc_eq)
  show "\<forall>x \<in> set between_events. TIMER_DIFF_16 (ev_time x) 100 < 200"
    by (simp add: between_events_def tick_at_def no_event_def TIMER_DIFF_16_def)
qed

lemma tap_within_term_witness:
  "\<forall>u. let s' = fold (action_exec no_hooks tap_keymap)
      (key_event 0 0 100 True # between_events @ [key_event 0 0 250 False]) (tapping_init u)
    in map (\<lambda>p. case p of Input r \<Rightarrow> (col (ev_key (event r)), pressed (event r), tap_count (tap r))) (tp_log s') =
      [(0, True, 1), (1, True, 0), (1, False, 0), (0, False, 1)] \<and> pending s' = []"
proof
  fix u
  show "let s' = fold (action_exec no_hooks tap_keymap)
      (key_event 0 0 100 True # between_events @ [key_event 0 0 250 False]) (tapping_init u)
    in map (\<lambda>p. case p of Input r \<Rightarrow> (col (ev_key (event r)), pressed (event r), tap_count (tap r))) (tp_log s') =
      [(0, True, 1), (1, True, 0), (1, False, 0), (0, False, 1)] \<and> pending s' = []"
    using tap_within_term [OF resting_init, of no_hooks "key_event 0 0 100 True" tap_keymap u
        between_events "key_event 0 0 250 False"] between_events
    by (simp add: no_hooks_def [THEN arg_cong, of pre_process_record_quantum] tap_keymap_actions
        TIMER_DIFF_16_def Let_def tapping_init_def)
qed

lemma hold_after_term_witness:
  "\<forall>u. let s' = action_exec no_hooks tap_keymap (tick_at 300)
      (fold (action_exec no_hooks tap_keymap) (key_event 0 0 100 True # between_events) (tapping_init u))
    in map (\<lambda>p. case p of Input r \<Rightarrow> (col (ev_key (event r)), pressed (event r), tap_count (tap r))) (tp_log s') =
      [(0, True, 0), (1, True, 0), (1, False, 0)] \<and> pending s' = []"
proof
  fix u
  show "let s' = action_exec no_hooks tap_keymap (tick_at 300)
      (fold (action_exec no_hooks tap_keymap) (key_event 0 0 100 True # between_events) (tapping_init u))
    in map (\<lambda>p. case p of Input r \<Rightarrow> (col (ev_key (event r)), pressed (event r), tap_count (tap r))) (tp_log s') =
      [(0, True, 0), (1, True, 0), (1, False, 0)] \<and> pending s' = []"
    using hold_after_term [OF resting_init, of no_hooks "key_event 0 0 100 True" tap_keymap u
        between_events "tick_at 300"] between_events
    by (simp add: no_hooks_def [THEN arg_cong, of pre_process_record_quantum] tap_keymap_actions
        TIMER_DIFF_16_def Let_def tapping_init_def tick_at_def no_event_def IS_NOEVENT_def)
qed

end
