(* ===== verification/Matrix.thy ===== *)
theory Matrix
  imports Debounce
begin

text \<open>
  Scanning the key matrix: \<open>quantum/matrix.c\<close> and the parts of \<open>quantum/matrix_common.c\<close> it uses, for
  both diode directions and for direct pins.

  The pins of the rows and columns are lists (\<open>None\<close> is \<open>NO_PIN\<close>), so that the definitions serve any board;
  the board's own are \<open>danopad01_row_pins\<close> and \<open>danopad01_col_pins\<close>. The mode of every pin is a function.
  What a pin reads is hardware: a parameter \<open>rd\<close> that gives the level of a pin under the modes of all pins
  (\<open>True\<close> is high). What the wiring and the diodes make it read is the hypothesis \<open>diode_matrix\<close>, and
  \<open>direct_switches\<close> for direct pins. Delays between select and read are left out, the matrix is not split
  and \<open>MATRIX_MASKED\<close> and \<open>MATRIX_UNSELECT_DRIVE_HIGH\<close> are not defined.
\<close>

section \<open>Pins\<close>

datatype pin_mode = InputHigh | OutputLow

type_synonym pin_t = "nat option"
type_synonym gpio = "nat \<Rightarrow> pin_mode"
type_synonym gpio_levels = "gpio \<Rightarrow> nat \<Rightarrow> bool"

definition danopad01_row_pins :: "pin_t list" where
  "danopad01_row_pins = map Some [0, 1, 2, 3]"

definition danopad01_col_pins :: "pin_t list" where
  "danopad01_col_pins = map Some [4, 5, 6, 7, 8, 9]"

definition readMatrixPin :: "gpio_levels \<Rightarrow> pin_t \<Rightarrow> gpio \<Rightarrow> u8" where
  "readMatrixPin rd pin g = (case pin of None \<Rightarrow> 1 | Some p \<Rightarrow> if rd g p = False then 0 else 1)"

definition select_line :: "pin_t \<Rightarrow> gpio \<Rightarrow> bool \<times> gpio" where
  "select_line pin g = (case pin of None \<Rightarrow> (False, g) | Some p \<Rightarrow> (True, g(p := OutputLow)))"

definition unselect_line :: "pin_t \<Rightarrow> gpio \<Rightarrow> gpio" where
  "unselect_line pin g = (case pin of None \<Rightarrow> g | Some p \<Rightarrow> g(p := InputHigh))"

text \<open>\<open>unselect_rows\<close>, \<open>unselect_cols\<close> and the loops over the input pins.\<close>

definition unselect_lines :: "pin_t list \<Rightarrow> gpio \<Rightarrow> gpio" where
  "unselect_lines pins g = fold unselect_line pins g"

definition matrix_init_pins :: "pin_t list \<Rightarrow> pin_t list \<Rightarrow> gpio \<Rightarrow> gpio" where
  "matrix_init_pins outputs inputs g = unselect_lines inputs (unselect_lines outputs g)"

section \<open>Reading the matrix\<close>

text \<open>One row, with \<open>COL2ROW\<close> diodes. The row value is collected bit by bit.\<close>

definition read_cols :: "gpio_levels \<Rightarrow> pin_t list \<Rightarrow> gpio \<Rightarrow> u8" where
  "read_cols rd col_pins g =
    fold (\<lambda>c v. v OR (if readMatrixPin rd (col_pins ! c) g \<noteq> 0 then 0 else push_bit c 1)) [0..<length col_pins] 0"

definition matrix_read_cols_on_row ::
    "gpio_levels \<Rightarrow> pin_t list \<Rightarrow> pin_t list \<Rightarrow> nat \<Rightarrow> gpio \<times> matrix \<Rightarrow> gpio \<times> matrix" where
  "matrix_read_cols_on_row rd row_pins col_pins row = (\<lambda>(g, m).
    (case select_line (row_pins ! row) g of
       (False, g) \<Rightarrow> (g, m)
     | (True, g) \<Rightarrow>
         (let v = read_cols rd col_pins g
          in (unselect_line (row_pins ! row) g, m[row := v]))))"

text \<open>One column, with \<open>ROW2COL\<close> diodes.\<close>

definition matrix_read_rows_on_col ::
    "gpio_levels \<Rightarrow> pin_t list \<Rightarrow> pin_t list \<Rightarrow> nat \<Rightarrow> gpio \<times> matrix \<Rightarrow> gpio \<times> matrix" where
  "matrix_read_rows_on_col rd row_pins col_pins col = (\<lambda>(g, m).
    (case select_line (col_pins ! col) g of
       (False, g) \<Rightarrow> (g, m)
     | (True, g) \<Rightarrow>
         (let m = fold (\<lambda>r m. m[r := if readMatrixPin rd (row_pins ! r) g = 0 then m ! r OR push_bit col 1
                                     else m ! r AND NOT (push_bit col 1)]) [0..<length row_pins] m
          in (unselect_line (col_pins ! col) g, m))))"

text \<open>One row of direct pins.\<close>

definition matrix_read_direct_row :: "gpio_levels \<Rightarrow> pin_t list list \<Rightarrow> nat \<Rightarrow> gpio \<times> matrix \<Rightarrow> gpio \<times> matrix" where
  "matrix_read_direct_row rd pins row = (\<lambda>(g, m). (g, m[row := read_cols rd (pins ! row) g]))"

definition scan_col2row :: "gpio_levels \<Rightarrow> pin_t list \<Rightarrow> pin_t list \<Rightarrow> gpio \<Rightarrow> gpio \<times> matrix" where
  "scan_col2row rd row_pins col_pins g =
    fold (matrix_read_cols_on_row rd row_pins col_pins) [0..<length row_pins] (g, replicate (length row_pins) 0)"

definition scan_row2col :: "gpio_levels \<Rightarrow> pin_t list \<Rightarrow> pin_t list \<Rightarrow> gpio \<Rightarrow> gpio \<times> matrix" where
  "scan_row2col rd row_pins col_pins g =
    fold (matrix_read_rows_on_col rd row_pins col_pins) [0..<length col_pins] (g, replicate (length row_pins) 0)"

definition scan_direct :: "gpio_levels \<Rightarrow> pin_t list list \<Rightarrow> gpio \<Rightarrow> gpio \<times> matrix" where
  "scan_direct rd pins g =
    fold (matrix_read_direct_row rd pins) [0..<length pins] (g, replicate (length pins) 0)"

section \<open>The matrix of the board\<close>

record matrix_state =
  gpio :: gpio
  raw_matrix :: matrix
  cooked :: matrix
  debouncing :: defer_g

definition matrix_init :: "gpio \<Rightarrow> matrix_state" where
  "matrix_init g =
    \<lparr> gpio = matrix_init_pins danopad01_row_pins danopad01_col_pins g,
      raw_matrix = replicate MATRIX_ROWS 0, cooked = replicate MATRIX_ROWS 0, debouncing = defer_g_init \<rparr>"

definition matrix_get_row :: "nat \<Rightarrow> matrix_state \<Rightarrow> u8" where
  "matrix_get_row row s = cooked s ! row"

definition matrix_is_on :: "nat \<Rightarrow> nat \<Rightarrow> matrix_state \<Rightarrow> bool" where
  "matrix_is_on row col s \<longleftrightarrow> cooked s ! row AND push_bit col 1 \<noteq> 0"

definition peek_matrix :: "nat \<Rightarrow> nat \<Rightarrow> bool \<Rightarrow> matrix_state \<Rightarrow> bool" where
  "peek_matrix row col raw s \<longleftrightarrow>
    0 \<noteq> (if raw then raw_matrix s ! row else cooked s ! row) AND push_bit col 1"

definition matrix_scan :: "u32 \<Rightarrow> gpio_levels \<Rightarrow> matrix_state \<Rightarrow> bool \<times> matrix_state" where
  "matrix_scan now rd s =
    (let (g, curr_matrix) = scan_col2row rd danopad01_row_pins danopad01_col_pins (gpio s);
         changed = (raw_matrix s \<noteq> curr_matrix);
         raw = (if changed then curr_matrix else raw_matrix s);
         (changed, d, m) = debounce_defer_g now raw changed (debouncing s) (cooked s)
     in (changed, s\<lparr>gpio := g, raw_matrix := raw, cooked := m, debouncing := d\<rparr>))"

section \<open>The wiring\<close>

text \<open>
  A diode lets current flow from the input lines to the output line that is driven low: an input line that
  is pulled up reads low exactly when a closed switch joins it to such a line. \<open>closed i j\<close> is the switch
  of output line \<open>i\<close> and input line \<open>j\<close>.
\<close>

definition diode_matrix :: "(nat \<Rightarrow> nat \<Rightarrow> bool) \<Rightarrow> pin_t list \<Rightarrow> pin_t list \<Rightarrow> gpio_levels \<Rightarrow> bool" where
  "diode_matrix closed outputs inputs rd \<longleftrightarrow>
    (\<forall>g j p. j < length inputs \<longrightarrow> inputs ! j = Some p \<longrightarrow> g p = InputHigh \<longrightarrow>
      (rd g p \<longleftrightarrow> \<not> (\<exists>i q. i < length outputs \<and> outputs ! i = Some q \<and> g q = OutputLow \<and> closed i j)))"

definition direct_switches :: "(nat \<Rightarrow> nat \<Rightarrow> bool) \<Rightarrow> pin_t list list \<Rightarrow> gpio_levels \<Rightarrow> bool" where
  "direct_switches closed pins rd \<longleftrightarrow>
    (\<forall>g i j p. i < length pins \<longrightarrow> j < length (pins ! i) \<longrightarrow> pins ! i ! j = Some p \<longrightarrow> g p = InputHigh \<longrightarrow>
      (rd g p \<longleftrightarrow> \<not> closed i j))"

text \<open>No pin serves two lines.\<close>

definition separate_pins :: "pin_t list \<Rightarrow> pin_t list \<Rightarrow> bool" where
  "separate_pins outputs inputs \<longleftrightarrow> distinct (filter (\<lambda>p. p \<noteq> None) (outputs @ inputs))"

text \<open>Between scans no line is selected.\<close>

definition idle_pins :: "pin_t list \<Rightarrow> pin_t list \<Rightarrow> gpio \<Rightarrow> bool" where
  "idle_pins outputs inputs g \<longleftrightarrow> (\<forall>p. Some p \<in> set outputs \<union> set inputs \<longrightarrow> g p = InputHigh)"

lemma unselect_lines_idle: "idle_pins a b (fold unselect_line pins g) \<longleftrightarrow>
    (\<forall>p. Some p \<in> set a \<union> set b - set pins \<longrightarrow> g p = InputHigh)"
proof -
  have "fold unselect_line pins g p = (if Some p \<in> set pins then InputHigh else g p)" for p
    by (induction pins arbitrary: g) (auto simp: unselect_line_def split: option.splits)
  then show ?thesis by (auto simp: idle_pins_def)
qed

lemma matrix_init_pins_idle: "idle_pins outputs inputs (matrix_init_pins outputs inputs g)"
proof -
  have "matrix_init_pins outputs inputs g = fold unselect_line (outputs @ inputs) g"
    by (simp add: matrix_init_pins_def unselect_lines_def)
  then show ?thesis using unselect_lines_idle [of outputs inputs "outputs @ inputs" g] by simp
qed

lemma separate_pins_rows:
  assumes "separate_pins outputs inputs" "i < length outputs" "i' < length outputs"
    "outputs ! i = Some p" "outputs ! i' = Some p"
  shows "i = i'"
proof -
  have once: False if k: "k < k'" "k' < length outputs" "outputs ! k = Some p" "outputs ! k' = Some p" for k k'
  proof -
    have "distinct (filter (\<lambda>p. p \<noteq> None) (take k' outputs) @ filter (\<lambda>p. p \<noteq> None) (drop k' outputs))"
      unfolding filter_append [symmetric] append_take_drop_id using assms(1) by (simp add: separate_pins_def)
    then have "set (filter (\<lambda>p. p \<noteq> None) (take k' outputs)) \<inter> set (filter (\<lambda>p. p \<noteq> None) (drop k' outputs)) = {}"
      by (simp only: distinct_append)
    moreover have "take k' outputs ! k = Some p" "drop k' outputs ! 0 = Some p" using k by simp_all
    then have "Some p \<in> set (take k' outputs)" "Some p \<in> set (drop k' outputs)"
      using k nth_mem [of k "take k' outputs"] nth_mem [of 0 "drop k' outputs"] by simp_all
    ultimately show False by (simp add: disjoint_iff)
  qed
  show ?thesis
    by (rule linorder_cases [of i i']) (use once [of i i'] once [of i' i] assms(2-5) in simp_all)
qed

lemma separate_pins_cols:
  assumes "separate_pins outputs inputs" "Some p \<in> set outputs"
  shows "Some p \<notin> set inputs"
proof -
  have "set (filter (\<lambda>p. p \<noteq> None) outputs) \<inter> set (filter (\<lambda>p. p \<noteq> None) inputs) = {}"
    using assms(1) unfolding separate_pins_def filter_append distinct_append by (rule conjunct2 [OF conjunct2])
  then show ?thesis using assms(2) by (simp add: disjoint_iff)
qed

text \<open>With one line selected, an input reads low exactly when the switch of the two lines is closed.\<close>

lemma read_selected:
  assumes wiring: "diode_matrix closed outputs inputs rd" and pins: "separate_pins outputs inputs"
    and idle: "idle_pins outputs inputs g" and i: "i < length outputs" "outputs ! i = Some q"
    and j: "j < length inputs"
  shows "readMatrixPin rd (inputs ! j) (g(q := OutputLow)) = 0 \<longleftrightarrow> inputs ! j \<noteq> None \<and> closed i j"
proof (cases "inputs ! j")
  case None
  then show ?thesis by (simp add: readMatrixPin_def)
next
  case (Some p)
  define g' where "g' = g(q := OutputLow)"
  have "Some q \<in> set outputs" using i by (metis nth_mem)
  then have pq: "p \<noteq> q" using separate_pins_cols [OF pins] Some j by (metis nth_mem)
  then have "g' p = InputHigh" using idle Some j by (simp add: idle_pins_def g'_def) (metis nth_mem)
  moreover have "(\<exists>k q'. k < length outputs \<and> outputs ! k = Some q' \<and> g' q' = OutputLow \<and> closed k j) \<longleftrightarrow> closed i j"
  proof
    assume "\<exists>k q'. k < length outputs \<and> outputs ! k = Some q' \<and> g' q' = OutputLow \<and> closed k j"
    then obtain k q' where k: "k < length outputs" "outputs ! k = Some q'" "g' q' = OutputLow" "closed k j" by blast
    have "g q' = InputHigh" using idle k(1,2) by (simp add: idle_pins_def) (metis nth_mem)
    then have "q' = q" using k(3) by (auto simp: g'_def split: if_splits)
    then show "closed i j" using separate_pins_rows [OF pins k(1) i(1)] k i by simp
  qed (use i in \<open>auto simp: g'_def\<close>)
  ultimately have "rd g' p \<longleftrightarrow> \<not> closed i j"
    using wiring j Some unfolding diode_matrix_def by blast
  then show ?thesis by (simp add: readMatrixPin_def Some g'_def)
qed

lemma bit_read_cols:
  assumes "length col_pins \<le> 8" "c < 8"
  shows "bit (read_cols rd col_pins g) c \<longleftrightarrow> c < length col_pins \<and> readMatrixPin rd (col_pins ! c) g = 0"
proof -
  have "bit (fold (\<lambda>c v. v OR (if readMatrixPin rd (col_pins ! c) g \<noteq> 0 then 0 else push_bit c 1)) [0..<n] (0 :: u8)) c \<longleftrightarrow>
      c < n \<and> readMatrixPin rd (col_pins ! c) g = 0" if "n \<le> 8" for n
    using that assms(2) by (induction n) (auto simp: word_bits bit_simps less_Suc_eq)
  then show ?thesis using assms(1) by (simp add: read_cols_def)
qed


section \<open>A scan reads the switches\<close>

text \<open>What a scan of the first \<open>k\<close> output lines has found.\<close>

definition found :: "(nat \<Rightarrow> nat \<Rightarrow> bool) \<Rightarrow> pin_t list \<Rightarrow> pin_t list \<Rightarrow> nat \<Rightarrow> nat \<Rightarrow> bool" where
  "found closed row_pins col_pins r c \<longleftrightarrow>
    r < length row_pins \<and> c < length col_pins \<and> row_pins ! r \<noteq> None \<and> col_pins ! c \<noteq> None \<and> closed r c"

lemma idle_after_select:
  "idle_pins a b g \<Longrightarrow> idle_pins a b (unselect_line (Some q) (g(q := OutputLow)))"
  by (simp add: idle_pins_def unselect_line_def)

lemma read_row:
  assumes wiring: "diode_matrix closed row_pins col_pins rd" "separate_pins row_pins col_pins"
    and idle: "idle_pins row_pins col_pins g" and r: "r < length row_pins" "length m = length row_pins"
    and c: "length col_pins \<le> 8"
  shows "\<exists>g' v. matrix_read_cols_on_row rd row_pins col_pins r (g, m) =
      (g', if row_pins ! r = None then m else m[r := v]) \<and> idle_pins row_pins col_pins g' \<and>
      (row_pins ! r \<noteq> None \<longrightarrow> (\<forall>i < 8. bit v i \<longleftrightarrow> found closed row_pins col_pins r i))"
proof (cases "row_pins ! r")
  case None
  then show ?thesis using idle by (auto simp: matrix_read_cols_on_row_def select_line_def)
next
  case (Some q)
  let ?v = "read_cols rd col_pins (g(q := OutputLow))"
  have "bit ?v i \<longleftrightarrow> found closed row_pins col_pins r i" if "i < 8" for i
    using bit_read_cols [OF c that] read_selected [OF wiring idle r(1) Some] Some r(1)
    by (auto simp: found_def)
  then show ?thesis
    using Some idle_after_select [OF idle, of q]
    by (intro exI [of _ "unselect_line (Some q) (g(q := OutputLow))"] exI [of _ ?v])
      (simp add: matrix_read_cols_on_row_def select_line_def Let_def)
qed

lemma u8_bits_eqI: "(\<And>n. n < 8 \<Longrightarrow> bit x n \<longleftrightarrow> bit y n) \<Longrightarrow> x = y" for x y :: u8
  by (rule bit_word_eqI) simp

lemma scan_col2row_reads:
  assumes wiring: "diode_matrix closed row_pins col_pins rd" "separate_pins row_pins col_pins"
    and idle: "idle_pins row_pins col_pins g" and c: "length col_pins \<le> 8"
  shows "let (g', m) = scan_col2row rd row_pins col_pins g
    in idle_pins row_pins col_pins g' \<and> length m = length row_pins \<and>
       (\<forall>r < length row_pins. \<forall>c < 8. bit (m ! r) c \<longleftrightarrow> found closed row_pins col_pins r c)"
proof -
  let ?n = "length row_pins"
  have "let (g', m) = fold (matrix_read_cols_on_row rd row_pins col_pins) [0..<k] (g, replicate ?n 0)
    in idle_pins row_pins col_pins g' \<and> length m = ?n \<and>
       (\<forall>r < ?n. \<forall>c < 8. bit (m ! r) c \<longleftrightarrow> r < k \<and> found closed row_pins col_pins r c)" if "k \<le> ?n" for k
    using that
  proof (induction k)
    case 0
    then show ?case using idle by simp
  next
    case (Suc k)
    obtain g1 m1 where f: "fold (matrix_read_cols_on_row rd row_pins col_pins) [0..<k] (g, replicate ?n 0) = (g1, m1)"
      by fastforce
    have IH: "idle_pins row_pins col_pins g1" "length m1 = ?n"
      "\<And>r c. r < ?n \<Longrightarrow> c < 8 \<Longrightarrow> bit (m1 ! r) c \<longleftrightarrow> r < k \<and> found closed row_pins col_pins r c"
      using Suc by (simp_all add: f)
    have k: "k < ?n" using Suc.prems by simp
    obtain g2 v where row: "matrix_read_cols_on_row rd row_pins col_pins k (g1, m1) =
        (g2, if row_pins ! k = None then m1 else m1[k := v])" "idle_pins row_pins col_pins g2"
      "row_pins ! k \<noteq> None \<Longrightarrow> (\<forall>i < 8. bit v i \<longleftrightarrow> found closed row_pins col_pins k i)"
      using read_row [OF wiring IH(1) k IH(2) c] by blast
    have "bit ((if row_pins ! k = None then m1 else m1[k := v]) ! r) c \<longleftrightarrow> r < Suc k \<and> found closed row_pins col_pins r c"
      if "r < ?n" "c < 8" for r c
    proof (cases "r = k")
      case True
      have "\<not> found closed row_pins col_pins k c" if "row_pins ! k = None" using that by (simp add: found_def)
      then show ?thesis using IH(3) [OF that] row(3) IH(2) \<open>c < 8\<close> k True by auto
    next
      case False
      then show ?thesis using IH(3) [OF that] by (simp add: less_Suc_eq)
    qed
    then show ?case using row(1,2) IH(2) by (simp add: f)
  qed
  from this [of ?n] show ?thesis by (simp add: scan_col2row_def split_beta)
qed


lemma read_rows_fold:
  fixes m :: matrix
  assumes "k \<le> length m"
  shows "length (fold (\<lambda>r m. m[r := f r (m ! r)]) [0..<k] m) = length m \<and>
    (\<forall>r < length m. fold (\<lambda>r m. m[r := f r (m ! r)]) [0..<k] m ! r = (if r < k then f r (m ! r) else m ! r))"
  using assms
proof (induction k)
  case (Suc k)
  then show ?case by (auto simp: nth_list_update less_Suc_eq)
qed simp

lemma read_col:
  assumes wiring: "diode_matrix closed col_pins row_pins rd" "separate_pins col_pins row_pins"
    and idle: "idle_pins col_pins row_pins g" and k: "k < length col_pins" "length m = length row_pins"
  shows "\<exists>g' m'. matrix_read_rows_on_col rd row_pins col_pins k (g, m) = (g', m') \<and> idle_pins col_pins row_pins g' \<and>
    length m' = length row_pins \<and>
    (\<forall>r < length row_pins. \<forall>c < 8. bit (m' ! r) c \<longleftrightarrow>
      (if c = k \<and> col_pins ! k \<noteq> None then row_pins ! r \<noteq> None \<and> closed k r else bit (m ! r) c))"
proof (cases "col_pins ! k")
  case None
  then show ?thesis using idle k(2) by (simp add: matrix_read_rows_on_col_def select_line_def)
next
  case (Some q)
  let ?g = "g(q := OutputLow)"
  let ?f = "\<lambda>r v. if readMatrixPin rd (row_pins ! r) ?g = 0 then v OR push_bit k 1 else v AND NOT (push_bit k 1)"
  let ?m = "fold (\<lambda>r m. m[r := ?f r (m ! r)]) [0..<length row_pins] m"
  have eq: "matrix_read_rows_on_col rd row_pins col_pins k (g, m) = (unselect_line (Some q) ?g, ?m)"
    by (simp add: matrix_read_rows_on_col_def select_line_def Some Let_def cong: if_cong)
  have m: "length ?m = length row_pins" "\<And>r. r < length row_pins \<Longrightarrow> ?m ! r = ?f r (m ! r)"
    using read_rows_fold [of "length row_pins" m ?f] k(2) by simp_all
  have "bit (?m ! r) c \<longleftrightarrow> (if c = k then row_pins ! r \<noteq> None \<and> closed k r else bit (m ! r) c)"
    if r: "r < length row_pins" and c: "c < 8" for r c
  proof -
    have "readMatrixPin rd (row_pins ! r) ?g = 0 \<longleftrightarrow> row_pins ! r \<noteq> None \<and> closed k r"
      by (rule read_selected [OF wiring idle k(1) Some r])
    then show ?thesis unfolding m(2) [OF r] using c by (auto simp: bit_simps)
  qed
  then show ?thesis
    using m(1) idle_after_select [OF idle, of q] Some by (simp add: eq)
qed

lemma scan_row2col_reads:
  assumes wiring: "diode_matrix (\<lambda>c r. closed r c) col_pins row_pins rd" "separate_pins col_pins row_pins"
    and idle: "idle_pins col_pins row_pins g"
  shows "let (g', m) = scan_row2col rd row_pins col_pins g
    in idle_pins col_pins row_pins g' \<and> length m = length row_pins \<and>
       (\<forall>r < length row_pins. \<forall>c < 8. bit (m ! r) c \<longleftrightarrow> found closed row_pins col_pins r c)"
proof -
  let ?n = "length row_pins"
  have "let (g', m) = fold (matrix_read_rows_on_col rd row_pins col_pins) [0..<k] (g, replicate ?n 0)
    in idle_pins col_pins row_pins g' \<and> length m = ?n \<and>
       (\<forall>r < ?n. \<forall>c < 8. bit (m ! r) c \<longleftrightarrow> c < k \<and> found closed row_pins col_pins r c)" if "k \<le> length col_pins" for k
    using that
  proof (induction k)
    case 0
    then show ?case using idle by simp
  next
    case (Suc k)
    obtain g1 m1 where f: "fold (matrix_read_rows_on_col rd row_pins col_pins) [0..<k] (g, replicate ?n 0) = (g1, m1)"
      by fastforce
    have IH: "idle_pins col_pins row_pins g1" "length m1 = ?n"
      "\<And>r c. r < ?n \<Longrightarrow> c < 8 \<Longrightarrow> bit (m1 ! r) c \<longleftrightarrow> c < k \<and> found closed row_pins col_pins r c"
      using Suc by (simp_all add: f)
    have k: "k < length col_pins" using Suc.prems by simp
    obtain g2 m2 where col: "matrix_read_rows_on_col rd row_pins col_pins k (g1, m1) = (g2, m2)"
      "idle_pins col_pins row_pins g2" "length m2 = ?n"
      "\<And>r c. r < ?n \<Longrightarrow> c < 8 \<Longrightarrow> bit (m2 ! r) c \<longleftrightarrow>
        (if c = k \<and> col_pins ! k \<noteq> None then row_pins ! r \<noteq> None \<and> closed r k else bit (m1 ! r) c)"
      using read_col [OF wiring IH(1) k IH(2)] by blast
    have "bit (m2 ! r) c \<longleftrightarrow> c < Suc k \<and> found closed row_pins col_pins r c" if "r < ?n" "c < 8" for r c
      using col(4) [OF that] IH(3) [OF that] that(1) k
      by (cases "c = k"; cases "col_pins ! k = None") (auto simp: found_def less_Suc_eq)
    then show ?case using col(1-3) by (simp add: f)
  qed
  from this [of "length col_pins"] show ?thesis by (auto simp: scan_row2col_def found_def split_beta)
qed


lemma scan_direct_reads:
  assumes wiring: "direct_switches closed pins rd" and high: "\<And>r p. r < length pins \<Longrightarrow> Some p \<in> set (pins ! r) \<Longrightarrow> g p = InputHigh"
    and c: "\<And>r. r < length pins \<Longrightarrow> length (pins ! r) \<le> 8"
  shows "let (g', m) = scan_direct rd pins g
    in g' = g \<and> length m = length pins \<and>
       (\<forall>r < length pins. \<forall>c < 8. bit (m ! r) c \<longleftrightarrow> c < length (pins ! r) \<and> pins ! r ! c \<noteq> None \<and> closed r c)"
proof -
  have fold: "fold (matrix_read_direct_row rd pins) [0..<k] (g, m) =
      (g, fold (\<lambda>r m. m[r := read_cols rd (pins ! r) g]) [0..<k] m)" for k m
    by (induction k) (simp_all add: matrix_read_direct_row_def)
  have read: "readMatrixPin rd (pins ! r ! c) g = 0 \<longleftrightarrow> pins ! r ! c \<noteq> None \<and> closed r c"
    if "r < length pins" "c < length (pins ! r)" for r c
  proof (cases "pins ! r ! c")
    case (Some p)
    then have "g p = InputHigh" using high that nth_mem [OF that(2)] by simp
    then have "rd g p \<longleftrightarrow> \<not> closed r c" using wiring that Some by (simp add: direct_switches_def)
    then show ?thesis by (simp add: readMatrixPin_def Some)
  qed (simp add: readMatrixPin_def)
  have "bit (read_cols rd (pins ! r) g) i \<longleftrightarrow> i < length (pins ! r) \<and> pins ! r ! i \<noteq> None \<and> closed r i"
    if "r < length pins" "i < 8" for r i
    unfolding bit_read_cols [OF c [OF that(1)] that(2)] using read that(1) by blast
  then show ?thesis
    using read_rows_fold [of "length pins" "replicate (length pins) 0" "\<lambda>r v. read_cols rd (pins ! r) g"]
    by (simp add: scan_direct_def fold)
qed

text \<open>The matrix that has been read from the switches.\<close>

definition reads_switches :: "(nat \<Rightarrow> nat \<Rightarrow> bool) \<Rightarrow> (nat \<Rightarrow> nat \<Rightarrow> bool) \<Rightarrow> nat \<Rightarrow> matrix \<Rightarrow> bool" where
  "reads_switches wired closed rows m \<longleftrightarrow> length m = rows \<and>
    (\<forall>r < rows. \<forall>c < 8. bit (m ! r) c \<longleftrightarrow> wired r c \<and> closed r c)"

definition wired_lines :: "pin_t list \<Rightarrow> pin_t list \<Rightarrow> nat \<Rightarrow> nat \<Rightarrow> bool" where
  "wired_lines row_pins col_pins r c \<longleftrightarrow>
    r < length row_pins \<and> c < length col_pins \<and> row_pins ! r \<noteq> None \<and> col_pins ! c \<noteq> None"

text \<open>
  C11: a scan of the key matrix reads the switches, whichever way the diodes point and for direct pins: bit
  \<open>c\<close> of row \<open>r\<close> is set exactly when both lines have a pin and the switch between them is closed, and after
  it all lines are deselected again, as the next scan needs. Initialising the pins establishes this. The
  wiring is the hypothesis of each case; pins must not be shared, a row has at most eight keys.
\<close>

theorem scan_reads_switches:
  "idle_pins outputs inputs (matrix_init_pins outputs inputs g0) \<and>
   (diode_matrix closed row_pins col_pins rd \<and> separate_pins row_pins col_pins \<and>
    idle_pins row_pins col_pins g \<and> length col_pins \<le> 8 \<longrightarrow>
    idle_pins row_pins col_pins (fst (scan_col2row rd row_pins col_pins g)) \<and>
    reads_switches (wired_lines row_pins col_pins) closed (length row_pins) (snd (scan_col2row rd row_pins col_pins g))) \<and>
   (diode_matrix (\<lambda>c r. closed r c) col_pins row_pins rd \<and> separate_pins col_pins row_pins \<and>
    idle_pins col_pins row_pins g \<longrightarrow>
    idle_pins col_pins row_pins (fst (scan_row2col rd row_pins col_pins g)) \<and>
    reads_switches (wired_lines row_pins col_pins) closed (length row_pins) (snd (scan_row2col rd row_pins col_pins g))) \<and>
   (direct_switches closed pins rd \<and> idle_pins (concat pins) [] g \<and> (\<forall>ps \<in> set pins. length ps \<le> 8) \<longrightarrow>
    fst (scan_direct rd pins g) = g \<and>
    reads_switches (\<lambda>r c. c < length (pins ! r) \<and> pins ! r ! c \<noteq> None) closed (length pins) (snd (scan_direct rd pins g)))"
proof (intro conjI impI, goal_cases)
  case 1
  show ?case by (rule matrix_init_pins_idle)
next
  case 2
  then show ?case using scan_col2row_reads [of closed row_pins col_pins rd g] by (simp add: split_beta)
next
  case 3
  then show ?case using scan_col2row_reads [of closed row_pins col_pins rd g]
    by (simp add: split_beta reads_switches_def wired_lines_def found_def)
next
  case 4
  then show ?case using scan_row2col_reads [of closed col_pins row_pins rd g] by (simp add: split_beta)
next
  case 5
  then show ?case using scan_row2col_reads [of closed col_pins row_pins rd g]
    by (simp add: split_beta reads_switches_def wired_lines_def found_def)
next
  case 6
  have "g p = InputHigh" if "r < length pins" "Some p \<in> set (pins ! r)" for r p
  proof -
    have "pins ! r \<in> set pins" using that(1) by simp
    then have "Some p \<in> set (concat pins)" using that(2) by auto
    then show ?thesis using 6 by (simp add: idle_pins_def)
  qed
  with 6 scan_direct_reads [of closed pins rd g] show ?case by (simp add: split_beta)
next
  case 7
  have "g p = InputHigh" if "r < length pins" "Some p \<in> set (pins ! r)" for r p
  proof -
    have "pins ! r \<in> set pins" using that(1) by simp
    then have "Some p \<in> set (concat pins)" using that(2) by auto
    then show ?thesis using 7 by (simp add: idle_pins_def)
  qed
  with 7 scan_direct_reads [of closed pins rd g] show ?case by (simp add: split_beta reads_switches_def)
qed

text \<open>The board's pins under the wiring hypothesis, as a function.\<close>

definition board_levels :: "(nat \<Rightarrow> nat \<Rightarrow> bool) \<Rightarrow> gpio_levels" where
  "board_levels closed g p \<longleftrightarrow> \<not> list_ex (\<lambda>r. g r = OutputLow \<and> closed r (p - 4)) [0, 1, 2, 3]"

lemma board_wiring:
  "diode_matrix closed danopad01_row_pins danopad01_col_pins (board_levels closed)"
  "separate_pins danopad01_row_pins danopad01_col_pins"
proof -
  show "separate_pins danopad01_row_pins danopad01_col_pins"
    by (simp add: separate_pins_def danopad01_row_pins_def danopad01_col_pins_def)
  have row: "r < 4 \<Longrightarrow> danopad01_row_pins ! r = Some r" for r
    by (auto simp: danopad01_row_pins_def nth_Cons split: nat.splits)
  have col: "c < 6 \<Longrightarrow> danopad01_col_pins ! c = Some (c + 4)" for c
    by (auto simp: danopad01_col_pins_def nth_Cons split: nat.splits)
  have len: "length danopad01_row_pins = 4" "length danopad01_col_pins = 6"
    by (simp_all add: danopad01_row_pins_def danopad01_col_pins_def)
  have ex: "list_ex P [0, 1, 2, 3] \<longleftrightarrow> (\<exists>i < 4. P i)" for P :: "nat \<Rightarrow> bool"
  proof -
    have "{..< 4 :: nat} = {0, 1, 2, 3}" by auto
    then have "(\<exists>i \<in> {..< 4}. P i) \<longleftrightarrow> (\<exists>i \<in> {0, 1, 2, 3}. P i)" by simp
    then show ?thesis by (simp add: lessThan_def)
  qed
  show "diode_matrix closed danopad01_row_pins danopad01_col_pins (board_levels closed)"
    unfolding diode_matrix_def len
  proof (intro allI impI)
    fix g j p assume j: "j < 6" "danopad01_col_pins ! j = Some p"
    then have p: "p = j + 4" using col by simp
    have "(\<exists>i q. i < 4 \<and> danopad01_row_pins ! i = Some q \<and> g q = OutputLow \<and> closed i j) \<longleftrightarrow>
        (\<exists>i < 4. g i = OutputLow \<and> closed i j)"
      using row by (metis option.inject)
    then show "board_levels closed g p \<longleftrightarrow>
        \<not> (\<exists>i q. i < 4 \<and> danopad01_row_pins ! i = Some q \<and> g q = OutputLow \<and> closed i j)"
      unfolding board_levels_def ex p by simp
  qed
qed

lemma scan_reads_switches_witness:
  "idle_pins danopad01_row_pins danopad01_col_pins
    (fst (scan_col2row (board_levels (\<lambda>r c. r = 2 \<and> c < 3)) danopad01_row_pins danopad01_col_pins (\<lambda>p. InputHigh))) \<and>
   bit (snd (scan_col2row (board_levels (\<lambda>r c. r = 2 \<and> c < 3)) danopad01_row_pins danopad01_col_pins (\<lambda>p. InputHigh)) ! 2) 1"
proof -
  have len: "length danopad01_row_pins = 4" "length danopad01_col_pins = 6"
    by (simp_all add: danopad01_row_pins_def danopad01_col_pins_def)
  have "wired_lines danopad01_row_pins danopad01_col_pins 2 1"
    by (simp add: wired_lines_def danopad01_row_pins_def danopad01_col_pins_def)
  moreover have "idle_pins danopad01_row_pins danopad01_col_pins (\<lambda>p. InputHigh)" by (simp add: idle_pins_def)
  ultimately show ?thesis
    using scan_reads_switches [of "[]" "[]" "\<lambda>p. InputHigh" "\<lambda>r c. r = 2 \<and> c < 3" danopad01_row_pins
        danopad01_col_pins "board_levels (\<lambda>r c. r = 2 \<and> c < 3)" "\<lambda>p. InputHigh" "[]"] board_wiring
    by (simp add: len reads_switches_def)
qed


section \<open>The debounced matrix follows the switches\<close>

lemma danopad01_pins:
  "length danopad01_row_pins = 4" "length danopad01_col_pins = 6"
  "wired_lines danopad01_row_pins danopad01_col_pins r c \<longleftrightarrow> r < 4 \<and> c < 6"
proof -
  show len: "length danopad01_row_pins = 4" "length danopad01_col_pins = 6"
    by (simp_all add: danopad01_row_pins_def danopad01_col_pins_def)
  have "None \<notin> set danopad01_row_pins" "None \<notin> set danopad01_col_pins"
    by (simp_all add: danopad01_row_pins_def danopad01_col_pins_def)
  then show "wired_lines danopad01_row_pins danopad01_col_pins r c \<longleftrightarrow> r < 4 \<and> c < 6"
    unfolding wired_lines_def len by (metis len nth_mem)
qed

lemma read_row_idle:
  assumes "idle_pins row_pins col_pins g" "length m = n"
  shows "idle_pins row_pins col_pins (fst (matrix_read_cols_on_row rd row_pins col_pins r (g, m))) \<and>
    length (snd (matrix_read_cols_on_row rd row_pins col_pins r (g, m))) = n"
  using assms idle_after_select [OF assms(1)]
  by (cases "row_pins ! r") (simp_all add: matrix_read_cols_on_row_def select_line_def Let_def)

lemma scan_idle:
  assumes "idle_pins row_pins col_pins g"
  shows "idle_pins row_pins col_pins (fst (scan_col2row rd row_pins col_pins g)) \<and>
    length (snd (scan_col2row rd row_pins col_pins g)) = length row_pins"
proof -
  have "idle_pins row_pins col_pins (fst (fold (matrix_read_cols_on_row rd row_pins col_pins) rs (g, m))) \<and>
      length (snd (fold (matrix_read_cols_on_row rd row_pins col_pins) rs (g, m))) = length row_pins"
    if "length m = length row_pins" for rs m
    using assms that
  proof (induction rs arbitrary: g m)
    case (Cons r rs)
    then show ?case
      using read_row_idle [OF Cons.prems, of rd r]
      by (cases "matrix_read_cols_on_row rd row_pins col_pins r (g, m)") simp
  qed simp
  then show ?thesis by (simp add: scan_col2row_def)
qed

text \<open>The state between scans; the debouncer has seen the raw matrix at time \<open>t\<close>.\<close>

definition matrix_ok :: "nat \<Rightarrow> u32 \<Rightarrow> matrix_state \<Rightarrow> bool" where
  "matrix_ok m t s \<longleftrightarrow> idle_pins danopad01_row_pins danopad01_col_pins (gpio s) \<and>
    length (raw_matrix s) = 4 \<and> length (cooked s) = 4 \<and>
    defer_g_due m t (debouncing s) (raw_matrix s) (cooked s)"

lemma matrix_init_ok: "matrix_ok 5 t (matrix_init g)"
  by (simp add: matrix_ok_def matrix_init_def matrix_init_pins_idle defer_g_due_def MATRIX_ROWS_def)

lemma matrix_scan_step:
  assumes s: "matrix_ok m t s" and d: "d < 65536"
  shows "let s' = snd (matrix_scan (t + of_nat d) rd s); raw = snd (scan_col2row rd danopad01_row_pins danopad01_col_pins (gpio s))
    in raw_matrix s' = raw \<and> matrix_ok (if raw = raw_matrix s then m - d else 5) (t + of_nat d) s'"
proof -
  obtain g raw where scan: "scan_col2row rd danopad01_row_pins danopad01_col_pins (gpio s) = (g, raw)" by fastforce
  have g: "idle_pins danopad01_row_pins danopad01_col_pins g" "length raw = 4"
    using scan_idle [of danopad01_row_pins danopad01_col_pins "gpio s" rd] s
    by (simp_all add: matrix_ok_def scan danopad01_pins)
  obtain f st m' where deb: "debounce_defer_g (t + of_nat d) raw (raw_matrix s \<noteq> raw) (debouncing s) (cooked s) = (f, st, m')"
    by (metis prod_cases3)
  have raw: "(if raw_matrix s \<noteq> raw then raw else raw_matrix s) = raw" by simp
  have eq: "snd (matrix_scan (t + of_nat d) rd s) =
      s\<lparr>gpio := g, raw_matrix := raw, cooked := m', debouncing := st\<rparr>"
    unfolding matrix_scan_def scan Let_def prod.case raw deb by simp
  have len: "length m' = 4"
    using deb g(2) s by (auto simp: debounce_defer_g_def matrix_ok_def split: if_splits)
  have "defer_g_due (if raw = raw_matrix s then m - d else 5) (t + of_nat d) st raw m'"
  proof (cases "raw = raw_matrix s")
    case True
    then show ?thesis
      using defer_g.due_wait [where n = 4 and st = "debouncing s" and cooked = "cooked s" and raw = raw and m = m and
        t = t and d = d and f = f and st' = st and cooked' = m'] s g(2) d deb
      by (simp add: matrix_ok_def)
  next
    case False
    then have deb': "debounce_defer_g (t + of_nat d) raw True (debouncing s) (cooked s) = (f, st, m')"
      using deb by simp
    then show ?thesis
      using defer_g.due_start [where n = 4, OF _ g(2) deb'] s False
      by (simp add: matrix_ok_def DEBOUNCE_def)
  qed
  then show ?thesis using g len by (simp add: eq scan matrix_ok_def Let_def)
qed

text \<open>Scans at the given distances, all with the same switches.\<close>

fun matrix_scans :: "gpio_levels \<Rightarrow> u32 \<Rightarrow> nat list \<Rightarrow> matrix_state \<Rightarrow> matrix_state" where
  "matrix_scans rd t [] s = s"
| "matrix_scans rd t (d # ds) s = matrix_scans rd (t + of_nat d) ds (snd (matrix_scan (t + of_nat d) rd s))"

text \<open>What the board has been through: scans of any readings, less than 65.5 seconds apart.\<close>

inductive matrix_history :: "u32 \<Rightarrow> matrix_state \<Rightarrow> bool" where
  init: "matrix_history t (matrix_init g)"
| scan: "matrix_history t s \<Longrightarrow> d < 65536 \<Longrightarrow> matrix_history (t + of_nat d) (snd (matrix_scan (t + of_nat d) rd s))"

lemma matrix_ok_mono: "matrix_ok m t s \<Longrightarrow> m \<le> n \<Longrightarrow> matrix_ok n t s"
  by (auto simp: matrix_ok_def defer_g_due_def)

lemma matrix_history_ok: "matrix_history t s \<Longrightarrow> matrix_ok 5 t s"
proof (induction rule: matrix_history.induct)
  case (init t g)
  show ?case by (rule matrix_init_ok)
next
  case (scan t s d rd)
  show ?case
    using matrix_scan_step [OF scan.IH scan.hyps(2), of rd]
    by (auto simp: Let_def intro: matrix_ok_mono split: if_splits)
qed

lemma scan_board:
  assumes "diode_matrix closed danopad01_row_pins danopad01_col_pins rd" "matrix_ok m t s"
  shows "reads_switches (\<lambda>r c. r < 4 \<and> c < 6) closed 4
    (snd (scan_col2row rd danopad01_row_pins danopad01_col_pins (gpio s)))"
proof -
  have "found closed danopad01_row_pins danopad01_col_pins r c \<longleftrightarrow> (r < 4 \<and> c < 6) \<and> closed r c" for r c
    unfolding danopad01_pins(3) [symmetric] by (auto simp: found_def wired_lines_def)
  then show ?thesis
    using scan_col2row_reads [OF assms(1) board_wiring(2), of "gpio s"] assms(2)
    by (simp add: matrix_ok_def danopad01_pins(1,2) split_beta reads_switches_def)
qed

lemma reads_switches_unique:
  assumes "reads_switches wired closed n m" "reads_switches wired closed n m'"
  shows "m = m'"
  using assms by (intro nth_equalityI) (auto simp: reads_switches_def intro!: u8_bits_eqI)

lemma matrix_scans_settle:
  assumes "diode_matrix closed danopad01_row_pins danopad01_col_pins rd"
  shows "matrix_ok m t s \<Longrightarrow> reads_switches (\<lambda>r c. r < 4 \<and> c < 6) closed 4 (raw_matrix s) \<Longrightarrow>
    list_all (\<lambda>d. d < 65536) ds \<Longrightarrow>
    \<exists>t'. matrix_ok (m - sum_list ds) t' (matrix_scans rd t ds s) \<and>
      reads_switches (\<lambda>r c. r < 4 \<and> c < 6) closed 4 (raw_matrix (matrix_scans rd t ds s))"
proof (induction ds arbitrary: t s m)
  case (Cons d ds)
  let ?s = "snd (matrix_scan (t + of_nat d) rd s)"
  have raw: "snd (scan_col2row rd danopad01_row_pins danopad01_col_pins (gpio s)) = raw_matrix s"
    by (rule reads_switches_unique [OF scan_board [OF assms Cons.prems(1)] Cons.prems(2)])
  have "matrix_ok (m - d) (t + of_nat d) ?s" "raw_matrix ?s = raw_matrix s"
    using matrix_scan_step [OF Cons.prems(1), of d rd] Cons.prems(3) by (simp_all add: Let_def raw)
  from Cons.IH [OF this(1)] this(2) Cons.prems(2,3) show ?case by (simp add: diff_diff_left)
qed auto

lemma matrix_scans_follow:
  assumes "matrix_history t s" "diode_matrix closed danopad01_row_pins danopad01_col_pins rd"
    and "list_all (\<lambda>d. d < 65536) (d # ds)" "5 \<le> sum_list ds" "r < MATRIX_ROWS" "c < MATRIX_COLS"
  shows "matrix_is_on r c (matrix_scans rd t (d # ds) s) \<longleftrightarrow> closed r c"
proof -
  let ?s = "snd (matrix_scan (t + of_nat d) rd s)" and ?last = "matrix_scans rd t (d # ds) s"
  have ok: "matrix_ok 5 t s" by (rule matrix_history_ok [OF assms(1)])
  have raw: "reads_switches (\<lambda>r c. r < 4 \<and> c < 6) closed 4 (raw_matrix ?s)" and ok1: "matrix_ok 5 (t + of_nat d) ?s"
    using matrix_scan_step [OF ok, of d rd] scan_board [OF assms(2) ok] assms(3)
    by (auto simp: Let_def intro: matrix_ok_mono split: if_splits)
  obtain t' where fin: "matrix_ok (5 - sum_list ds) t' ?last" "reads_switches (\<lambda>r c. r < 4 \<and> c < 6) closed 4 (raw_matrix ?last)"
    using matrix_scans_settle [OF assms(2) ok1 raw] assms(3) by auto
  have rc: "r < 4" "c < 6" using assms(5,6) by (simp_all add: MATRIX_ROWS_def MATRIX_COLS_def)
  have "5 - sum_list ds = 0" using assms(4) by simp
  with fin(1) have "matrix_ok 0 t' ?last" by simp
  then have "bit (cooked ?last ! r) c = bit (raw_matrix ?last ! r) c"
    using defer_g.due_settled [where n = 4 and st = "debouncing ?last" and cooked = "cooked ?last" and
        raw = "raw_matrix ?last" and t = t' and r = r and c = c] rc assms(6)
    by (simp add: matrix_ok_def)
  also have "\<dots> \<longleftrightarrow> closed r c" using fin(2) rc by (simp add: reads_switches_def)
  finally show ?thesis unfolding matrix_is_on_def and_bit_mask_eq_0 by simp
qed

text \<open>
  C12: the key matrix that the rest of the firmware sees follows the switches. Whatever the pins have read
  before, once the switches are still and scanned, and scanning goes on for \<open>DEBOUNCE\<close> milliseconds in
  all after the first scan, a key is on exactly when its switch is closed. Scans are less than 65.5
  seconds apart.
\<close>

theorem matrix_follows_switches:
  assumes "matrix_history t s" "diode_matrix closed danopad01_row_pins danopad01_col_pins rd"
    and "list_all (\<lambda>d. d < 65536) (d # ds)" "5 \<le> sum_list ds" "r < MATRIX_ROWS" "c < MATRIX_COLS"
  shows "matrix_is_on r c (matrix_scans rd t (d # ds) s) \<longleftrightarrow> closed r c"
  by (rule matrix_scans_follow [OF assms])

lemma matrix_follows_switches_witness:
  "matrix_is_on 2 1 (matrix_scans (board_levels (\<lambda>r c. r = 2 \<and> c < 3)) 7 [1, 3, 4] (matrix_init (\<lambda>p. InputHigh)))"
  using matrix_follows_switches [OF matrix_history.init [of 7 "\<lambda>p. InputHigh"] board_wiring(1), of 1 "[3, 4]" 2 1
      "\<lambda>r c. r = 2 \<and> c < 3"]
  by (simp add: MATRIX_ROWS_def MATRIX_COLS_def)

end
