(* ===== verification/Keyboard_Task.thy ===== *)
theory Keyboard_Task
  imports Tapping_Order Matrix Bitwise
begin

text \<open>
  The keyboard task, \<open>matrix_task\<close> and \<open>generate_tick_event\<close> of \<open>quantum/keyboard.c\<close>: a scan, then one
  event for every key that has changed, or a tick when nothing has.

  The parameters are the hardware levels \<open>rd\<close>, the clock \<open>now\<close> in milliseconds at the scan, and the times
  that \<open>timer_read\<close> gives when the events are made: \<open>tm r c\<close> for the event of the key at \<open>r\<close>, \<open>c\<close>. The
  weak functions \<open>matrix_can_read\<close> and \<open>should_process_keypress\<close> return true on the board, and
  \<open>switch_events\<close> does nothing there. \<open>MATRIX_HAS_GHOST\<close> is not defined on the board; its ghost
  detection is modelled and verified on its own. The field \<open>kb_events\<close> records the calls of \<open>action_exec\<close>,
  for the statements about them.
\<close>

section \<open>The task\<close>

record 'q keyboard =
  kb_matrix :: matrix_state
  matrix_previous :: matrix
  last_tick :: u16
  kb_tapping :: "'q tapping"
  last_matrix_modification_time :: u32
  last_input_modification_time :: u32
  kb_events :: "keyevent_t list"

text \<open>A call of \<open>action_exec\<close>.\<close>

definition call_action_exec :: "'q record_hooks \<Rightarrow> keymap \<Rightarrow> keyevent_t \<Rightarrow> 'q keyboard \<Rightarrow> 'q keyboard" where
  "call_action_exec h km e s =
    s\<lparr>kb_tapping := action_exec h km e (kb_tapping s), kb_events := kb_events s @ [e]\<rparr>"

definition MAKE_KEYEVENT :: "nat \<Rightarrow> nat \<Rightarrow> bool \<Rightarrow> u16 \<Rightarrow> keyevent_t" where
  "MAKE_KEYEVENT row_num col_num press time =
    \<lparr> ev_key = \<lparr> col = of_nat col_num, row = of_nat row_num \<rparr>, ev_time = time, ev_type = KEY_EVENT, pressed = press \<rparr>"

definition MAKE_TICK_EVENT :: "u16 \<Rightarrow> keyevent_t" where
  "MAKE_TICK_EVENT time = \<lparr> ev_key = \<lparr> col = 0, row = 0 \<rparr>, ev_time = time, ev_type = TICK_EVENT, pressed = False \<rparr>"

definition generate_tick_event :: "'q record_hooks \<Rightarrow> keymap \<Rightarrow> u16 \<Rightarrow> 'q keyboard \<Rightarrow> 'q keyboard" where
  "generate_tick_event h km time s =
    (if TIMER_DIFF_16 time (last_tick s) \<noteq> 0
     then (call_action_exec h km (MAKE_TICK_EVENT time) s)\<lparr>last_tick := time\<rparr>
     else s)"

definition matrix_changed :: "'q keyboard \<Rightarrow> bool" where
  "matrix_changed s \<longleftrightarrow>
    fold (\<lambda>rw changed. changed \<or> matrix_previous s ! rw XOR matrix_get_row rw (kb_matrix s) \<noteq> 0) [0..<MATRIX_ROWS] False"

definition report_key ::
    "'q record_hooks \<Rightarrow> keymap \<Rightarrow> (nat \<Rightarrow> nat \<Rightarrow> u16) \<Rightarrow> nat \<Rightarrow> u8 \<Rightarrow> u8 \<Rightarrow> nat \<Rightarrow> 'q keyboard \<Rightarrow> 'q keyboard" where
  "report_key h km tm rw current_row row_changes cl s =
    (if row_changes AND push_bit cl 1 \<noteq> 0
     then call_action_exec h km (MAKE_KEYEVENT rw cl (current_row AND push_bit cl 1 \<noteq> 0) (tm rw cl)) s
     else s)"

definition report_row ::
    "'q record_hooks \<Rightarrow> keymap \<Rightarrow> (nat \<Rightarrow> nat \<Rightarrow> u16) \<Rightarrow> nat \<Rightarrow> 'q keyboard \<Rightarrow> 'q keyboard" where
  "report_row h km tm rw s =
    (let current_row = matrix_get_row rw (kb_matrix s);
         row_changes = current_row XOR matrix_previous s ! rw
     in if row_changes = 0 then s
        else (let s = fold (report_key h km tm rw current_row row_changes) [0..<MATRIX_COLS] s
              in s\<lparr>matrix_previous := (matrix_previous s)[rw := current_row]\<rparr>))"

definition matrix_task ::
    "'q record_hooks \<Rightarrow> keymap \<Rightarrow> gpio_levels \<Rightarrow> u32 \<Rightarrow> (nat \<Rightarrow> nat \<Rightarrow> u16) \<Rightarrow> 'q keyboard \<Rightarrow> bool \<times> 'q keyboard" where
  "matrix_task h km rd now tm s =
    (let s = s\<lparr>kb_matrix := snd (matrix_scan now rd (kb_matrix s))\<rparr>
     in if \<not> matrix_changed s then (False, generate_tick_event h km (timer_read now) s)
        else (True, fold (report_row h km tm) [0..<MATRIX_ROWS] s))"

definition last_matrix_activity_trigger :: "u32 \<Rightarrow> 'q keyboard \<Rightarrow> 'q keyboard" where
  "last_matrix_activity_trigger time s =
    s\<lparr>last_matrix_modification_time := time, last_input_modification_time := time\<rparr>"

text \<open>The part of \<open>keyboard_task\<close> before the other tasks.\<close>

definition keyboard_task ::
    "'q record_hooks \<Rightarrow> keymap \<Rightarrow> gpio_levels \<Rightarrow> u32 \<Rightarrow> (nat \<Rightarrow> nat \<Rightarrow> u16) \<Rightarrow> 'q keyboard \<Rightarrow> 'q keyboard" where
  "keyboard_task h km rd now tm s =
    (let (activity, s) = matrix_task h km rd now tm s
     in if activity then last_matrix_activity_trigger now s else s)"

text \<open>The static variables before the first task, with a matrix that may have been scanned already.\<close>

definition keyboard_statics :: "matrix_state \<Rightarrow> 'q action_util_scheme \<Rightarrow> 'q keyboard" where
  "keyboard_statics m u = \<lparr> kb_matrix = m, matrix_previous = replicate MATRIX_ROWS 0, last_tick = 0,
    kb_tapping = tapping_init u, last_matrix_modification_time = 0, last_input_modification_time = 0, kb_events = [] \<rparr>"

section \<open>Ghost detection\<close>

definition get_real_keys :: "keymap \<Rightarrow> nat \<Rightarrow> u8 \<Rightarrow> u8" where
  "get_real_keys km rw rowdata =
    fold (\<lambda>cl out. if keycode_at_keymap_location km 0 (of_nat rw) (of_nat cl) \<noteq> 0 \<and> rowdata AND push_bit cl 1 \<noteq> 0
      then out OR push_bit cl 1 else out) [0..<MATRIX_COLS] 0"

definition popcount_more_than_one :: "u8 \<Rightarrow> bool" where
  "popcount_more_than_one rowdata \<longleftrightarrow> rowdata AND (rowdata - 1) \<noteq> 0"

definition has_ghost_in_row :: "keymap \<Rightarrow> matrix \<Rightarrow> nat \<Rightarrow> u8 \<Rightarrow> bool" where
  "has_ghost_in_row km m rw rowdata =
    (let rowdata = get_real_keys km rw rowdata
     in if \<not> popcount_more_than_one rowdata then False
        else list_ex (\<lambda>i. i \<noteq> rw \<and> popcount_more_than_one (get_real_keys km i (m ! i) AND rowdata)) [0..<MATRIX_ROWS])"

section \<open>The events of a scan\<close>

text \<open>The keys that differ, row by row.\<close>

definition row_changes :: "(nat \<Rightarrow> nat \<Rightarrow> u16) \<Rightarrow> matrix \<Rightarrow> matrix \<Rightarrow> nat \<Rightarrow> keyevent_t list" where
  "row_changes tm old new r = map (\<lambda>c. MAKE_KEYEVENT r c (bit (new ! r) c) (tm r c))
    (filter (\<lambda>c. bit (new ! r) c \<noteq> bit (old ! r) c) [0..<MATRIX_COLS])"

definition key_changes :: "(nat \<Rightarrow> nat \<Rightarrow> u16) \<Rightarrow> matrix \<Rightarrow> matrix \<Rightarrow> keyevent_t list" where
  "key_changes tm old new = concat (map (row_changes tm old new) [0..<MATRIX_ROWS])"

text \<open>Calls of \<open>action_exec\<close> one after the other.\<close>

definition call_all :: "'q record_hooks \<Rightarrow> keymap \<Rightarrow> keyevent_t list \<Rightarrow> 'q keyboard \<Rightarrow> 'q keyboard" where
  "call_all h km es s =
    s\<lparr>kb_tapping := fold (action_exec h km) es (kb_tapping s), kb_events := kb_events s @ es\<rparr>"

lemma call_all_simps [simp]:
  "call_all h km [] s = s" "call_action_exec h km e s = call_all h km [e] s"
  "call_all h km es' (call_all h km es s) = call_all h km (es @ es') s"
  "kb_matrix (call_all h km es s) = kb_matrix s" "matrix_previous (call_all h km es s) = matrix_previous s"
  "kb_tapping (call_all h km es s) = fold (action_exec h km) es (kb_tapping s)"
  "kb_events (call_all h km es s) = kb_events s @ es"
  "call_all h km es (s\<lparr>matrix_previous := m\<rparr>) = (call_all h km es s)\<lparr>matrix_previous := m\<rparr>"
  by (simp_all add: call_all_def call_action_exec_def)

lemma report_keys:
  fixes h km tm rw current old
  defines "f \<equiv> report_key h km tm rw current (current XOR old)"
  shows "fold f cs s = call_all h km
    (map (\<lambda>c. MAKE_KEYEVENT rw c (bit current c) (tm rw c)) (filter (\<lambda>c. bit current c \<noteq> bit old c) cs)) s"
proof (induction cs arbitrary: s)
  case (Cons c cs)
  have "f c s = (if bit current c \<noteq> bit old c
      then call_all h km [MAKE_KEYEVENT rw c (bit current c) (tm rw c)] s else s)"
    unfolding f_def report_key_def and_bit_mask_eq_0 by (simp add: bit_simps)
  then show ?case by (simp add: Cons.IH)
qed simp

lemma report_row_eq:
  assumes "rw < MATRIX_ROWS" "length (matrix_previous s) = MATRIX_ROWS"
  defines "new \<equiv> cooked (kb_matrix s) ! rw" and "old \<equiv> matrix_previous s ! rw"
  shows "report_row h km tm rw s =
    (call_all h km (map (\<lambda>c. MAKE_KEYEVENT rw c (bit new c) (tm rw c))
      (filter (\<lambda>c. bit new c \<noteq> bit old c) [0..<MATRIX_COLS])) s)\<lparr>matrix_previous := (matrix_previous s)[rw := new]\<rparr>"
proof (cases "new = old")
  case True
  then have "report_row h km tm rw s = s"
    by (simp add: report_row_def matrix_get_row_def new_def old_def)
  moreover have "(matrix_previous s)[rw := new] = matrix_previous s" using True assms(1,2) by (simp add: old_def)
  ultimately show ?thesis using True by simp
next
  case False
  then show ?thesis
    by (simp add: report_row_def matrix_get_row_def new_def [symmetric] old_def [symmetric] report_keys Let_def)
qed

lemma report_rows:
  assumes len: "length (matrix_previous s) = MATRIX_ROWS" and n: "n \<le> MATRIX_ROWS"
  defines "new \<equiv> cooked (kb_matrix s)" and "old \<equiv> matrix_previous s"
  shows "\<exists>m. fold (report_row h km tm) [0..<n] s =
      (call_all h km (concat (map (row_changes tm old new) [0..<n])) s)\<lparr>matrix_previous := m\<rparr> \<and>
    length m = MATRIX_ROWS \<and> (\<forall>r < MATRIX_ROWS. m ! r = (if r < n then new ! r else old ! r))"
  using n
proof (induction n)
  case 0
  then show ?case using len by (intro exI [of _ old]) (simp add: old_def)
next
  case (Suc n)
  then obtain m where m: "fold (report_row h km tm) [0..<n] s =
      (call_all h km (concat (map (row_changes tm old new) [0..<n])) s)\<lparr>matrix_previous := m\<rparr>"
    "length m = MATRIX_ROWS" "\<And>r. r < MATRIX_ROWS \<Longrightarrow> m ! r = (if r < n then new ! r else old ! r)" by auto
  let ?s = "(call_all h km (concat (map (row_changes tm old new) [0..<n])) s)\<lparr>matrix_previous := m\<rparr>"
  have n: "n < MATRIX_ROWS" using Suc.prems by simp
  have old: "m ! n = old ! n" using m(3) [OF n] by simp
  have "report_row h km tm n ?s =
      (call_all h km (concat (map (row_changes tm old new) [0..<Suc n])) s)\<lparr>matrix_previous := m[n := new ! n]\<rparr>"
    using report_row_eq [of n ?s h km tm] n m(2) by (simp add: old new_def row_changes_def)
  then show ?case
    using m(2,3) by (intro exI [of _ "m[n := new ! n]"]) (auto simp: m(1) nth_list_update less_Suc_eq)
qed

lemma matrix_changed_iff:
  assumes "length (matrix_previous s) = MATRIX_ROWS" "length (cooked (kb_matrix s)) = MATRIX_ROWS"
  shows "matrix_changed s \<longleftrightarrow> matrix_previous s \<noteq> cooked (kb_matrix s)"
proof -
  have "fold (\<lambda>rw changed. changed \<or> matrix_previous s ! rw XOR matrix_get_row rw (kb_matrix s) \<noteq> 0) rs b \<longleftrightarrow>
      b \<or> (\<exists>r \<in> set rs. matrix_previous s ! r \<noteq> cooked (kb_matrix s) ! r)" for rs b
    by (induction rs arbitrary: b) (auto simp: matrix_get_row_def)
  then show ?thesis
    using assms unfolding matrix_changed_def by (auto simp: list_eq_iff_nth_eq)
qed

lemma matrix_task_eq:
  assumes len: "length (matrix_previous s) = MATRIX_ROWS" "length (cooked (snd (matrix_scan now rd (kb_matrix s)))) = MATRIX_ROWS"
  defines "new \<equiv> cooked (snd (matrix_scan now rd (kb_matrix s)))"
  shows "matrix_task h km rd now tm s =
    (let s1 = s\<lparr>kb_matrix := snd (matrix_scan now rd (kb_matrix s))\<rparr>
     in if matrix_previous s = new then (False, generate_tick_event h km (timer_read now) s1)
        else (True, (call_all h km (key_changes tm (matrix_previous s) new) s1)\<lparr>matrix_previous := new\<rparr>))"
proof -
  let ?s = "s\<lparr>kb_matrix := snd (matrix_scan now rd (kb_matrix s))\<rparr>"
  have ch: "matrix_changed ?s \<longleftrightarrow> matrix_previous s \<noteq> new"
    using matrix_changed_iff [of ?s] len by (simp add: new_def)
  obtain m where m: "fold (report_row h km tm) [0..<MATRIX_ROWS] ?s =
      (call_all h km (key_changes tm (matrix_previous s) new) ?s)\<lparr>matrix_previous := m\<rparr>"
    "length m = MATRIX_ROWS" "\<And>r. r < MATRIX_ROWS \<Longrightarrow> m ! r = new ! r"
    using report_rows [of ?s MATRIX_ROWS h km tm] len by (auto simp: key_changes_def new_def)
  have "m = new" using m(2,3) len(2) by (intro nth_equalityI) (simp_all add: new_def)
  then show ?thesis by (simp add: matrix_task_def Let_def ch m(1))
qed

section \<open>Runs\<close>

text \<open>
  The keyboard task at times less than 65.5 seconds apart, with any hardware readings; \<open>es\<close> are the key
  events so far. In between the rest of the firmware may change the host's state.
\<close>

inductive keyboard_run :: "'q record_hooks \<Rightarrow> keymap \<Rightarrow> keyevent_t list \<Rightarrow> u32 \<Rightarrow> 'q keyboard \<Rightarrow> bool" for h km where
  init: "matrix_history t m \<Longrightarrow> keyboard_run h km [] t (keyboard_statics m u)"
| task: "keyboard_run h km es t s \<Longrightarrow> d < 65536 \<Longrightarrow>
    keyboard_run h km (es @ key_changes tm (matrix_previous s) (cooked (snd (matrix_scan (t + of_nat d) rd (kb_matrix s)))))
      (t + of_nat d) (keyboard_task h km rd (t + of_nat d) tm s)"
| other: "keyboard_run h km es t s \<Longrightarrow> keyboard_run h km es t (s\<lparr>kb_tapping := (kb_tapping s)\<lparr>host := u\<rparr>\<rparr>)"

definition key_history :: "nat \<Rightarrow> nat \<Rightarrow> keyevent_t list \<Rightarrow> bool list" where
  "key_history r c es = map pressed (filter (\<lambda>e. ev_key e = \<lparr> col = of_nat c, row = of_nat r \<rparr>) es)"

lemma key_changes_same [simp]: "key_changes tm m m = []"
  by (simp add: key_changes_def row_changes_def)

lemma of_nat_u8_eq: "a < 256 \<Longrightarrow> b < 256 \<Longrightarrow> (of_nat a :: u8) = of_nat b \<longleftrightarrow> a = b"
  by (simp add: word_of_nat_eq_iff take_bit_nat_eq_self)

lemma filter_upt_single: "filter (\<lambda>x. x = c \<and> P x) [0..<n] = (if c < n \<and> P c then [c] else [])"
  by (induction n) auto

lemma concat_map_single:
  assumes "\<And>i. i < n \<Longrightarrow> i \<noteq> k \<Longrightarrow> f i = []"
  shows "concat (map f [0..<n]) = (if k < n then f k else [])"
  using assms
proof (induction n)
  case (Suc n)
  then show ?case by (cases "n = k") (auto simp: less_Suc_eq)
qed simp

lemma key_changes_history:
  assumes "r < MATRIX_ROWS" "c < MATRIX_COLS"
  shows "key_history r c (key_changes tm old new) =
    (if bit (new ! r) c = bit (old ! r) c then [] else [bit (new ! r) c])"
proof -
  have small: "k < MATRIX_ROWS \<Longrightarrow> k < 256" "k < MATRIX_COLS \<Longrightarrow> k < 256" for k
    by (simp_all add: MATRIX_ROWS_def MATRIX_COLS_def)
  have rows: "key_history r c (row_changes tm old new r') =
      (if r' = r then (if bit (new ! r) c = bit (old ! r) c then [] else [bit (new ! r) c]) else [])"
    if r': "r' < MATRIX_ROWS" for r'
  proof -
    have "key_history r c (row_changes tm old new r') =
        map (\<lambda>x. bit (new ! r') x) (filter (\<lambda>x. x = c \<and> (r' = r \<and> bit (new ! r') x \<noteq> bit (old ! r') x)) [0..<MATRIX_COLS])"
    proof -
      have "filter (\<lambda>x. bit (new ! r') x \<noteq> bit (old ! r') x \<and> (of_nat x :: u8) = of_nat c \<and> r' = r) [0..<MATRIX_COLS] =
          filter (\<lambda>x. x = c \<and> (r' = r \<and> bit (new ! r') x \<noteq> bit (old ! r') x)) [0..<MATRIX_COLS]"
        using assms small by (intro filter_cong refl) (auto simp: of_nat_u8_eq)
      then show ?thesis
        using r' assms small by (simp add: key_history_def row_changes_def filter_map o_def MAKE_KEYEVENT_def of_nat_u8_eq)
    qed
    then show ?thesis using assms(2) by (simp add: filter_upt_single)
  qed
  have "key_history r c (key_changes tm old new) =
      concat (map (\<lambda>r'. key_history r c (row_changes tm old new r')) [0..<MATRIX_ROWS])"
    by (simp add: key_changes_def key_history_def filter_concat map_concat o_def)
  also have "\<dots> = key_history r c (row_changes tm old new r)"
    using concat_map_single [of MATRIX_ROWS r "\<lambda>r'. key_history r c (row_changes tm old new r')"] rows assms(1) by simp
  finally show ?thesis using rows [OF assms(1)] by simp
qed


lemma keyboard_run_matrix:
  "keyboard_run h km es t s \<Longrightarrow> matrix_history t (kb_matrix s) \<and> length (matrix_previous s) = MATRIX_ROWS \<and>
    (\<forall>r < MATRIX_ROWS. \<forall>c < MATRIX_COLS. (\<forall>i < length (key_history r c es). key_history r c es ! i = even i) \<and>
      odd (length (key_history r c es)) = bit (matrix_previous s ! r) c)"
proof (induction rule: keyboard_run.induct)
  case (init t m u)
  then show ?case by (simp add: keyboard_statics_def key_history_def)
next
  case (task es t s d tm rd)
  let ?new = "cooked (snd (matrix_scan (t + of_nat d) rd (kb_matrix s)))"
  have hist: "matrix_history (t + of_nat d) (snd (matrix_scan (t + of_nat d) rd (kb_matrix s)))"
    using task.IH task.hyps(2) by (intro matrix_history.scan) simp_all
  have len: "length ?new = MATRIX_ROWS" "length (matrix_previous s) = MATRIX_ROWS"
    using matrix_history_ok [OF hist] task.IH by (simp_all add: matrix_ok_def MATRIX_ROWS_def)
  have s': "kb_matrix (keyboard_task h km rd (t + of_nat d) tm s) = snd (matrix_scan (t + of_nat d) rd (kb_matrix s))"
    "matrix_previous (keyboard_task h km rd (t + of_nat d) tm s) = ?new"
    using len by (auto simp: keyboard_task_def matrix_task_eq Let_def last_matrix_activity_trigger_def
        generate_tick_event_def)
  have "(\<forall>i < length (key_history r c es'). key_history r c es' ! i = even i) \<and>
      odd (length (key_history r c es')) = bit (?new ! r) c"
    if rc: "r < MATRIX_ROWS" "c < MATRIX_COLS" and es': "es' = es @ key_changes tm (matrix_previous s) ?new" for r c es'
  proof -
    have "key_history r c es' = key_history r c es @ key_history r c (key_changes tm (matrix_previous s) ?new)"
      by (simp add: es' key_history_def)
    also have "\<dots> = key_history r c es @
        (if bit (?new ! r) c = bit (matrix_previous s ! r) c then [] else [bit (?new ! r) c])"
      by (simp add: key_changes_history [OF rc])
    finally show ?thesis using task.IH rc by (auto simp: nth_append less_Suc_eq)
  qed
  with hist len s' show ?case by simp
next
  case (other es t s u)
  then show ?case by simp
qed

lemma key_changes_events: "e \<in> set (key_changes tm old new) \<Longrightarrow> IS_EVENT e"
  by (auto simp: key_changes_def row_changes_def MAKE_KEYEVENT_def IS_EVENT_def)

lemma task_events:
  fixes rd tm
  assumes "keyboard_run h km es t s" "d < 65536"
  defines "now \<equiv> t + of_nat d"
  defines "new \<equiv> cooked (snd (matrix_scan now rd (kb_matrix s)))" and "s' \<equiv> keyboard_task h km rd now tm s"
  shows "filter IS_EVENT (kb_events s') = filter IS_EVENT (kb_events s) @ key_changes tm (matrix_previous s) new"
    "matrix_previous s' = new" "cooked (kb_matrix s') = new"
proof -
  have "matrix_history now (snd (matrix_scan now rd (kb_matrix s)))"
    using keyboard_run_matrix [OF assms(1)] assms(2) unfolding now_def by (intro matrix_history.scan) simp_all
  then have len: "length (cooked (snd (matrix_scan now rd (kb_matrix s)))) = MATRIX_ROWS"
    "length (matrix_previous s) = MATRIX_ROWS"
    using matrix_history_ok keyboard_run_matrix [OF assms(1)] by (auto simp: matrix_ok_def MATRIX_ROWS_def)
  have key: "filter IS_EVENT (key_changes tm old m) = key_changes tm old m" for old m
    by (rule filter_True) (simp add: key_changes_events)
  have tick: "\<not> IS_EVENT (MAKE_TICK_EVENT time)" for time by (simp add: MAKE_TICK_EVENT_def IS_EVENT_def)
  show "filter IS_EVENT (kb_events s') = filter IS_EVENT (kb_events s) @ key_changes tm (matrix_previous s) new"
    "matrix_previous s' = new" "cooked (kb_matrix s') = new"
    using len unfolding s'_def new_def
    by (auto simp: keyboard_task_def matrix_task_eq Let_def last_matrix_activity_trigger_def generate_tick_event_def
        key tick)
qed

lemma keyboard_run_events: "keyboard_run h km es t s \<Longrightarrow> filter IS_EVENT (kb_events s) = es"
proof (induction rule: keyboard_run.induct)
  case (task es t s d tm rd)
  then show ?case by (simp add: task_events(1) [OF task.hyps])
qed (simp_all add: keyboard_statics_def)

text \<open>
  C4: the keyboard task reports every key correctly. In any run, whatever the pins read and however they
  bounce, the events that have been handed to \<open>action_exec\<close> are, for each key of the matrix and apart from the
  ticks, its press, its release, its press and so on in turn, and after each task their number is odd exactly when the
  debounced matrix of its scan has the key down.
\<close>

theorem key_events_alternate:
  assumes "keyboard_run h km es t s" "d < 65536" "r < MATRIX_ROWS" "c < MATRIX_COLS"
  shows "let s' = keyboard_task h km rd (t + of_nat d) tm s; hist = key_history r c (filter IS_EVENT (kb_events s'))
    in (\<forall>i < length hist. hist ! i = even i) \<and> odd (length hist) = bit (cooked (kb_matrix s') ! r) c"
  using keyboard_run_matrix [OF keyboard_run.task [OF assms(1,2)]] assms(3,4)
    keyboard_run_events [OF keyboard_run.task [OF assms(1,2)]] task_events(2,3) [OF assms(1,2)]
  by (simp add: Let_def)

lemma fold_exec_trace:
  assumes accept: "\<And>r u. fst (pre_process_record_quantum h r u)"
  shows "tapping_trace h km es0 s \<Longrightarrow> (\<And>e. e \<in> set es \<Longrightarrow> IS_EVENT e) \<Longrightarrow>
    tapping_trace h km (es0 @ es) (fold (action_exec h km) es s)"
proof (induction es arbitrary: es0 s)
  case (Cons e es)
  have "fst (exec_host h e s)" using accept by (simp add: exec_host_def Let_def)
  then have "tapping_trace h km (es0 @ [e]) (action_exec h km e s)"
    using tapping_trace.exec [OF Cons.prems(1), of e] Cons.prems(2) by simp
  from Cons.IH [OF this] Cons.prems(2) show ?case by simp
qed simp

lemma tapping_trace_tick:
  assumes "tapping_trace h km es s" shows "tapping_trace h km es (action_exec h km (MAKE_TICK_EVENT time) s)"
  using tapping_trace.exec [OF assms, of "MAKE_TICK_EVENT time"] by (simp add: MAKE_TICK_EVENT_def IS_EVENT_def)

lemma keyboard_run_trace:
  assumes accept: "\<And>r u. fst (pre_process_record_quantum h r u)"
  shows "keyboard_run h km es t s \<Longrightarrow> tapping_trace h km es (kb_tapping s)"
proof (induction rule: keyboard_run.induct)
  case (init t m u)
  then show ?case by (simp add: keyboard_statics_def tapping_trace.start)
next
  case (task es t s d tm rd)
  let ?new = "cooked (snd (matrix_scan (t + of_nat d) rd (kb_matrix s)))"
  have "matrix_history (t + of_nat d) (snd (matrix_scan (t + of_nat d) rd (kb_matrix s)))"
    using keyboard_run_matrix [OF task.hyps(1)] task.hyps(2) by (intro matrix_history.scan) simp_all
  then have len: "length ?new = MATRIX_ROWS" "length (matrix_previous s) = MATRIX_ROWS"
    using matrix_history_ok keyboard_run_matrix [OF task.hyps(1)] by (auto simp: matrix_ok_def MATRIX_ROWS_def)
  show ?case
    using len task.IH fold_exec_trace [OF accept task.IH key_changes_events] tapping_trace_tick [OF task.IH]
    by (simp add: keyboard_task_def matrix_task_eq Let_def last_matrix_activity_trigger_def generate_tick_event_def)
next
  case (other es t s u)
  then show ?case by (simp add: tapping_trace.other)
qed

text \<open>
  From the switches to the actions nothing is lost: when no feature consumes events beforehand, the
  key events that the keyboard task has made in a run are, as a multiset, those that \<open>process_record\<close> has
  been given, those that still wait for a tap key to be settled, and those given up when more than seven
  waited.
\<close>

theorem key_events_reach_actions:
  assumes "keyboard_run h km es t s" "\<And>r u. fst (pre_process_record_quantum h r u)"
  shows "mset es = mset (processed_events (kb_tapping s)) + mset (pending (kb_tapping s)) + mset (tp_dropped (kb_tapping s))"
  using tapping_trace_account [OF keyboard_run_trace [OF assms(2,1)]] by (simp add: account_def)

section \<open>Two tasks at a closed switch\<close>

lemma two_scans:
  "cooked (snd (matrix_scan 1 (board_levels (\<lambda>r c. r = 2 \<and> c < 3)) (matrix_init (\<lambda>p. InputHigh)))) = [0, 0, 0, 0]"
  "cooked (snd (matrix_scan 6 (board_levels (\<lambda>r c. r = 2 \<and> c < 3))
    (snd (matrix_scan 1 (board_levels (\<lambda>r c. r = 2 \<and> c < 3)) (matrix_init (\<lambda>p. InputHigh)))))) = [0, 0, 7, 0]"
  by code_simp+

lemma blank_rows: "replicate MATRIX_ROWS (0 :: u8) = [0, 0, 0, 0]"
  by code_simp

abbreviation three_keys :: gpio_levels where
  "three_keys \<equiv> board_levels (\<lambda>r c. r = 2 \<and> c < 3)"

abbreviation after_first_task :: "unit keyboard" where
  "after_first_task \<equiv> keyboard_task no_hooks tap_keymap three_keys 1 (\<lambda>_ _. 6)
    (keyboard_statics (matrix_init (\<lambda>p. InputHigh)) action_util_init)"

lemma first_task:
  "kb_matrix after_first_task = snd (matrix_scan 1 three_keys (matrix_init (\<lambda>p. InputHigh)))" (is ?m)
  "matrix_previous after_first_task = [0, 0, 0, 0]" (is ?p)
  "keyboard_run no_hooks tap_keymap [] 1 after_first_task" (is ?r)
proof -
  let ?s0 = "keyboard_statics (matrix_init (\<lambda>p. InputHigh)) action_util_init :: unit keyboard"
  have s0: "kb_matrix ?s0 = matrix_init (\<lambda>p. InputHigh)" "matrix_previous ?s0 = [0, 0, 0, 0]"
    by (simp_all only: keyboard_statics_def blank_rows keyboard.simps)
  have len: "length (matrix_previous ?s0) = MATRIX_ROWS"
    "length (cooked (snd (matrix_scan 1 three_keys (kb_matrix ?s0)))) = MATRIX_ROWS"
    unfolding s0 two_scans(1) by (simp_all add: MATRIX_ROWS_def)
  show ?m ?p
    unfolding keyboard_task_def matrix_task_eq [OF len] s0 two_scans(1)
    by (simp_all add: Let_def generate_tick_event_def s0)
  show ?r
    using keyboard_run.task [OF keyboard_run.init [OF matrix_history.init [of 0 "\<lambda>p. InputHigh"], of no_hooks tap_keymap
        action_util_init], of 1 "\<lambda>_ _. 6" three_keys] two_scans(1)
    by (simp add: s0)
qed

lemma second_task:
  "cooked (snd (matrix_scan (1 + of_nat 5) three_keys (kb_matrix after_first_task))) = [0, 0, 7, 0]"
  unfolding first_task(1) using two_scans(2) by simp

lemma two_tasks:
  "\<exists>es (s :: unit keyboard). keyboard_run no_hooks tap_keymap es 6 s \<and> key_history 2 1 es = [True]"
proof -
  have "keyboard_run no_hooks tap_keymap (key_changes (\<lambda>_ _. 6) [0, 0, 0, 0] [0, 0, 7, 0]) 6
      (keyboard_task no_hooks tap_keymap three_keys 6 (\<lambda>_ _. 6) after_first_task)"
    using keyboard_run.task [OF first_task(3), of 5 "\<lambda>_ _. 6" three_keys] second_task first_task(2) by simp
  moreover have "key_history 2 1 (key_changes (\<lambda>_ _. 6) [0, 0, 0, 0] [0, 0, 7, 0]) = [True]"
    by (simp add: key_changes_history MATRIX_ROWS_def MATRIX_COLS_def bit_numeral_rec)
  ultimately show ?thesis by blast
qed

lemma key_events_alternate_witness:
  "odd (length (key_history 2 1 (filter IS_EVENT (kb_events
    (keyboard_task no_hooks tap_keymap three_keys (1 + of_nat 5) (\<lambda>_ _. 6) after_first_task)))))"
proof -
  have rc: "5 < (65536 :: nat)" "2 < MATRIX_ROWS" "1 < MATRIX_COLS" by (simp_all add: MATRIX_ROWS_def MATRIX_COLS_def)
  have "cooked (kb_matrix (keyboard_task no_hooks tap_keymap three_keys (1 + of_nat 5) (\<lambda>_ _. 6) after_first_task)) =
      [0, 0, 7, 0]"
    by (simp only: task_events(3) [OF first_task(3) rc(1)] second_task)
  then show ?thesis
    using key_events_alternate [OF first_task(3) rc, of three_keys "\<lambda>_ _. 6"] by (simp add: Let_def bit_numeral_rec)
qed

lemma key_events_reach_actions_witness:
  "\<exists>es (s :: unit keyboard). keyboard_run no_hooks tap_keymap es 6 s \<and> es \<noteq> [] \<and>
    mset es = mset (processed_events (kb_tapping s)) + mset (pending (kb_tapping s)) + mset (tp_dropped (kb_tapping s))"
proof -
  obtain es and s :: "unit keyboard" where run: "keyboard_run no_hooks tap_keymap es 6 s" and hist: "key_history 2 1 es = [True]"
    using two_tasks by blast
  have "es \<noteq> []" using hist by (auto simp: key_history_def)
  moreover have "fst (pre_process_record_quantum no_hooks r u)" for r u by (simp add: no_hooks_def)
  ultimately show ?thesis using run key_events_reach_actions [OF run] by blast
qed
section \<open>Ghost detection is exact\<close>

lemma bit_get_real_keys:
  assumes "c < 8"
  shows "bit (get_real_keys km r rowdata) c \<longleftrightarrow>
    c < MATRIX_COLS \<and> keycode_at_keymap_location km 0 (of_nat r) (of_nat c) \<noteq> 0 \<and> bit rowdata c"
proof -
  have "bit (fold (\<lambda>cl out. if keycode_at_keymap_location km 0 (of_nat r) (of_nat cl) \<noteq> 0 \<and> rowdata AND push_bit cl 1 \<noteq> 0
      then out OR push_bit cl 1 else out) [0..<n] (0 :: u8)) c \<longleftrightarrow>
    c < n \<and> keycode_at_keymap_location km 0 (of_nat r) (of_nat c) \<noteq> 0 \<and> bit rowdata c" if "n \<le> 8" for n
    using that assms unfolding and_bit_mask_eq_0 by (induction n) (auto simp: bit_simps less_Suc_eq)
  from this [of MATRIX_COLS] show ?thesis by (simp add: get_real_keys_def MATRIX_COLS_def)
qed

lemma popcount_more_than_one_iff:
  "popcount_more_than_one w \<longleftrightarrow> (\<exists>i j. i < j \<and> j < 8 \<and> bit w i \<and> bit w j)"
proof (cases "w = 0")
  case True
  then show ?thesis by (simp add: popcount_more_than_one_def)
next
  case False
  then obtain k where k: "bit w k" and rest: "\<And>n. bit (w AND (w - 1)) n = (bit w n \<and> n \<noteq> k)"
    using and_minus_1 by blast
  have small: "n < 8" if "bit w n" for n using bit_imp_le_length [OF that] by simp
  have "w AND (w - 1) \<noteq> 0 \<longleftrightarrow> (\<exists>n. bit (w AND (w - 1)) n)" by (metis bit_eqI bit_0_eq bot_apply bot_bool_def)
  also have "\<dots> \<longleftrightarrow> (\<exists>n. bit w n \<and> n \<noteq> k)" by (simp only: rest)
  also have "\<dots> \<longleftrightarrow> (\<exists>i j. i < j \<and> j < 8 \<and> bit w i \<and> bit w j)"
    using k small by (metis nat_neq_iff)
  finally show ?thesis by (simp add: popcount_more_than_one_def)
qed

text \<open>A pressed key that the keymap defines.\<close>

definition real_key_down :: "keymap \<Rightarrow> nat \<Rightarrow> u8 \<Rightarrow> nat \<Rightarrow> bool" where
  "real_key_down km r rowdata c \<longleftrightarrow> bit rowdata c \<and> keycode_at_keymap_location km 0 (of_nat r) (of_nat c) \<noteq> 0"

lemma get_real_keys_two:
  "popcount_more_than_one (get_real_keys km i v AND get_real_keys km r w) \<longleftrightarrow>
    (\<exists>d < MATRIX_COLS. \<exists>c < d. real_key_down km r w c \<and> real_key_down km r w d \<and>
      real_key_down km i v c \<and> real_key_down km i v d)"
proof -
  let ?w = "get_real_keys km i v AND get_real_keys km r w"
  let ?both = "\<lambda>x. real_key_down km r w x \<and> real_key_down km i v x"
  have w: "bit ?w x \<longleftrightarrow> x < MATRIX_COLS \<and> ?both x" if "x < 8" for x
    using bit_get_real_keys [OF that] by (auto simp: bit_simps real_key_down_def)
  have "(\<exists>c d. c < d \<and> d < 8 \<and> bit ?w c \<and> bit ?w d) \<longleftrightarrow> (\<exists>d < 8. \<exists>c < d. bit ?w c \<and> bit ?w d)" by blast
  also have "\<dots> \<longleftrightarrow> (\<exists>d < 8. \<exists>c < d. (c < MATRIX_COLS \<and> ?both c) \<and> (d < MATRIX_COLS \<and> ?both d))"
    using w by (intro ex_cong1 conj_cong refl) simp
  also have "\<dots> \<longleftrightarrow> (\<exists>d < MATRIX_COLS. \<exists>c < d. ?both c \<and> ?both d)"
  proof -
    have "d < MATRIX_COLS \<Longrightarrow> d < 8" for d by (simp add: MATRIX_COLS_def)
    moreover have "c < d \<Longrightarrow> d < MATRIX_COLS \<Longrightarrow> c < MATRIX_COLS" for c d by simp
    ultimately show ?thesis by blast
  qed
  finally show ?thesis unfolding popcount_more_than_one_iff by blast
qed

text \<open>
  C34: the ghost detection finds exactly the ambiguous rows: a row is taken for a ghost when two of its
  pressed keys that the keymap defines share their columns with two such keys of another row.
\<close>

theorem ghost_iff_rectangle:
  "has_ghost_in_row km m r rowdata \<longleftrightarrow>
    (\<exists>i < MATRIX_ROWS. i \<noteq> r \<and> (\<exists>d < MATRIX_COLS. \<exists>c < d.
      real_key_down km r rowdata c \<and> real_key_down km r rowdata d \<and>
      real_key_down km i (m ! i) c \<and> real_key_down km i (m ! i) d))"
proof -
  have one: "popcount_more_than_one (get_real_keys km r rowdata)"
    if "popcount_more_than_one (w AND get_real_keys km r rowdata)" for w
    using that unfolding popcount_more_than_one_iff bit_and_iff by blast
  have ex: "list_ex P [0..<n] \<longleftrightarrow> (\<exists>i < n. P i)" for P n by (auto simp: list_ex_iff)
  have "has_ghost_in_row km m r rowdata \<longleftrightarrow>
      (\<exists>i < MATRIX_ROWS. i \<noteq> r \<and> popcount_more_than_one (get_real_keys km i (m ! i) AND get_real_keys km r rowdata))"
    unfolding has_ghost_in_row_def Let_def ex using one by auto
  then show ?thesis unfolding get_real_keys_two .
qed

end
