(* ===== verification/Action_Invariant.thy ===== *)
theory Action_Invariant
  imports Keyboard_Task
begin

text \<open>
  Properties of the host's state that no key event can break, from the single operations of
  \<open>action_util.c\<close> up to \<open>action_exec\<close>: what the operations, the layer functions and the feature processors
  keep, every action and every path through the tapping machine keeps.
\<close>

section \<open>The contract\<close>

locale kept_by_operations =
  fixes inv :: "'q action_util_scheme \<Rightarrow> bool"
  assumes operation: "inv s \<Longrightarrow> au_step s t \<Longrightarrow> inv t"
    and layers: "inv s \<Longrightarrow> inv (s\<lparr>layers := l\<rparr>)"
    and effect: "inv s \<Longrightarrow> (\<And>v. host_receive e v = v) \<Longrightarrow> inv (emit e s)"
begin

lemmas operations = operation [OF _ au_step.register] operation [OF _ au_step.unregister] operation [OF _ au_step.tap]
  operation [OF _ au_step.reg_mods] operation [OF _ au_step.unreg_mods] operation [OF _ au_step.reg_weak]
  operation [OF _ au_step.unreg_weak] operation [OF _ au_step.set_real] operation [OF _ au_step.set_weak]
  operation [OF _ au_step.key_down] operation [OF _ au_step.key_up] operation [OF _ au_step.send]
  operation [OF _ au_step.clear_all] operation [OF _ au_step.osm_add] operation [OF _ au_step.osm_del]
  operation [OF _ au_step.osl_set] operation [OF _ au_step.osl_clear] operation [OF _ au_step.os_set]
  operation [OF _ au_step.lock_del]

lemma plain_mods: "inv s \<Longrightarrow> inv (add_mods m s)" "inv s \<Longrightarrow> inv (del_mods m s)"
    "inv s \<Longrightarrow> inv (add_weak_mods m s)" "inv s \<Longrightarrow> inv (del_weak_mods m s)" "inv s \<Longrightarrow> inv (clear_weak_mods s)"
  using operation [OF _ au_step.set_real] operation [OF _ au_step.set_weak]
  by (simp_all add: add_mods_def del_mods_def add_weak_mods_def del_weak_mods_def clear_weak_mods_def set_mods_def
      set_weak_mods_def)

lemma effects: "inv s \<Longrightarrow> inv (emit (WaitMs w) s)" "inv s \<Longrightarrow> inv (emit LedSet s)" "inv s \<Longrightarrow> inv (emit (SystemSend w) s)"
    "inv s \<Longrightarrow> inv (emit (ConsumerSend w) s)" "inv s \<Longrightarrow> inv (emit (RegisterMouse c d) s)"
  by (simp_all add: effect)

lemma layer_changes: "inv s \<Longrightarrow> inv (au_layers f s)" "inv s \<Longrightarrow> inv (au_layer_on l s)" "inv s \<Longrightarrow> inv (au_layer_off l s)"
  by (simp_all add: au_layers_def au_layer_on_def au_layer_off_def layers)

lemma perform_action: "inv s \<Longrightarrow> inv (perform_action r a s)"
  by (simp add: perform_action_def process_mods_def process_mods_tap_def process_usage_def process_layer_bitop_def
      process_layer_mods_def process_layer_tap_def process_oneshot_layer_def release_tapped_def Let_def
      operations plain_mods effects layer_changes)

lemma oneshot_layer_used: "inv s \<Longrightarrow> inv (snd (oneshot_layer_used r a s))"
  by (simp add: oneshot_layer_used_def Let_def operations)

end

locale kept_by_hooks = kept_by_operations inv for inv :: "'q action_util_scheme \<Rightarrow> bool" +
  fixes h :: "'q record_hooks"
  assumes before: "inv s \<Longrightarrow> inv (snd (pre_process_record_quantum h r s))"
    and processed: "inv s \<Longrightarrow> inv (snd (process_record_quantum h r s))"
    and after: "inv s \<Longrightarrow> inv (post_process_record_quantum h r s)"
begin

lemma action_release:
  assumes "inv s" "\<not> pressed (event r)"
  shows "inv (snd (process_action h km r a s))"
proof -
  have "oneshot_layer_used r a s = (False, s)" using assms(2) by (simp add: oneshot_layer_used_def)
  then show ?thesis using assms(1) by (simp add: process_action.simps perform_action)
qed

lemma record_if_action:
  assumes "inv s" and action: "\<And>a s. inv s \<Longrightarrow> inv (snd (process_action h km r a s))"
  shows "inv (snd (process_record h km r s))"
proof -
  obtain go u where u: "process_record_quantum h r s = (go, u)" by fastforce
  have i: "inv u" using processed [OF assms(1), of r] u by simp
  then show ?thesis
    using action after by (simp add: process_record.simps [of h km r s] u assms(1) layers operations split_beta
        split: bool.split)
qed

lemma record_release: "inv s \<Longrightarrow> \<not> pressed (event r) \<Longrightarrow> inv (snd (process_record h km r s))"
  by (rule record_if_action) (simp_all add: action_release)

lemma process_action: "inv s \<Longrightarrow> inv (snd (process_action h km r a s))"
proof -
  assume s: "inv s"
  obtain rel u where u: "oneshot_layer_used r a s = (rel, u)" by fastforce
  have i: "inv u" using oneshot_layer_used [OF s, of r a] u by simp
  then show ?thesis
    by (simp add: process_action.simps [of h km r a s] u Let_def split_beta perform_action record_release layer_changes)
qed

lemma process_record: "inv s \<Longrightarrow> inv (snd (process_record h km r s))"
  by (rule record_if_action) (simp_all add: process_action)

lemma tp_process: "inv (host s) \<Longrightarrow> inv (host (snd (tp_process h km r s)))"
  by (simp add: tp_process_def split_beta process_record)

lemma process_tapping_key: "inv (host s) \<Longrightarrow> inv (host (process_tapping_key h km s))"
  by (simp add: process_tapping_key_def split_beta tp_process)

lemma scan_tap: "inv (host s) \<Longrightarrow> inv (host (waiting_buffer_scan_tap h km s))"
  by (simp add: waiting_buffer_scan_tap_def process_tapping_key split: option.split)

lemma unregister_tapping_key: "inv (host s) \<Longrightarrow> inv (host (unregister_tapping_key h km e s))"
  by (simp add: unregister_tapping_key_def process_record Let_def)

lemma process_tapping: "inv (host s) \<Longrightarrow> inv (host (snd (snd (process_tapping h km r s))))"
proof -
  assume i: "inv (host s)"
  have "inv (host (snd (snd (tapping_idle h km r s))))" "inv (host (snd (snd (tapping_unsettled h km r s))))"
    "inv (host (snd (snd (tapping_settled h km f r s))))" "inv (host (snd (snd (tapping_released h km r s))))" for f
    using i by (simp_all add: tapping_idle_def tapping_unsettled_def tapping_settled_def tapping_released_def
        Let_def split_beta tp_process process_tapping_key scan_tap unregister_tapping_key)
  then show ?thesis using i by (simp add: process_tapping_def process_tapping_key)
qed

lemma waiting_buffer_enq: "host (snd (waiting_buffer_enq r s)) = host s"
  by (simp add: waiting_buffer_enq_def)

lemma tapping_accept: "inv (host s) \<Longrightarrow> inv (host (tapping_accept h km r s))"
  using process_tapping [of s km r]
  by (simp add: tapping_accept_def split_beta Let_def waiting_buffer_enq tapping_overflow_def waiting_buffer_clear_def
      operations)

lemma process_waiting: "inv (host s) \<Longrightarrow> inv (host (process_waiting h km n s))"
proof (induction n arbitrary: s)
  case (Suc n)
  then show ?case
    using process_tapping [OF Suc.prems, of km "waiting_buffer s ! waiting_buffer_tail s"]
    by (simp add: process_waiting.simps split_beta Let_def)
qed (simp add: process_waiting.simps)

lemma action_exec: "inv (host s) \<Longrightarrow> inv (host (action_exec h km e s))"
  by (simp add: action_exec_def action_tapping_process_def Let_def split_beta process_waiting tapping_accept before
      plain_mods)

end

section \<open>The host holds what was last sent\<close>

interpretation reports: kept_by_operations au_inv
proof
  fix s t :: "'q action_util_scheme"
  assume "au_inv s" "au_step s t"
  then show "au_inv t" by (rule au_inv_step [rotated])
qed (simp_all add: au_inv_emit)
end
