(* ===== verification/Quantum.thy ===== *)
theory Quantum
  imports Action_Invariant Danopad01 Eeprom
begin

text \<open>
  \<open>quantum/quantum.c\<close> and the feature processors that the board compiles: the chain of
  \<open>process_record_quantum\<close> with the board's own \<open>process_record_kb\<close>, \<open>process_space_cadet\<close>,
  \<open>process_magic\<close>, \<open>process_grave_esc\<close> and \<open>process_default_layer\<close>, and the keycodes that reset the board,
  clear the EEPROM or set the debug and one-shot flags.

  The state is that of the actions extended by the static variables of the processors, the EEPROM, the
  board's state and the clock. A reset never returns: \<open>stopped\<close> records that it has happened, and nothing
  runs afterwards. The weak functions \<open>process_record_user\<close>, \<open>process_action_kb\<close>, \<open>shutdown_kb\<close> and the
  others are the defaults.
\<close>

section \<open>State\<close>

datatype reset_kind = BootloaderJump | McuReset

record 's quantum = action_util +
  clock :: u32
  grave_esc_was_shifted :: bool
  sc_last :: u8
  sc_timer :: u16
  eeprom :: "'s wear_leveling"
  danopad :: danopad
  stopped :: "reset_kind option"

text \<open>What is not program state: the flash driver and the images.\<close>

record 's platform =
  flash :: "'s backing_store_ops"
  img_list :: "epd_image list"
  img_selectmode :: epd_image

section \<open>16-bit keycodes\<close>

definition extract_mod_bits :: "u16 \<Rightarrow> u8" where
  "extract_mod_bits code =
    (if in_range code QK_MODS QK_MODS_MAX then
       (let right = code AND 0x1000 \<noteq> 0 in
        (if code AND 0x100 \<noteq> 0 then (if right then 0x10 else 0x01) else 0) OR
        (if code AND 0x200 \<noteq> 0 then (if right then 0x20 else 0x02) else 0) OR
        (if code AND 0x400 \<noteq> 0 then (if right then 0x40 else 0x04) else 0) OR
        (if code AND 0x800 \<noteq> 0 then (if right then 0x80 else 0x08) else 0))
     else 0)"

definition do_code16 :: "u16 \<Rightarrow> (u8 \<Rightarrow> 'q action_util_scheme \<Rightarrow> 'q action_util_scheme) \<Rightarrow>
    'q action_util_scheme \<Rightarrow> 'q action_util_scheme" where
  "do_code16 code f s = f (extract_mod_bits code) s"

definition register_code16 :: "u16 \<Rightarrow> 'q action_util_scheme \<Rightarrow> 'q action_util_scheme" where
  "register_code16 code s =
    register_code (ucast code)
      (do_code16 code (if IS_MODIFIER_KEYCODE code \<or> code = KC_NO then register_mods else register_weak_mods) s)"

definition unregister_code16 :: "u16 \<Rightarrow> 'q action_util_scheme \<Rightarrow> 'q action_util_scheme" where
  "unregister_code16 code s =
    do_code16 code (if IS_MODIFIER_KEYCODE code \<or> code = KC_NO then unregister_mods else unregister_weak_mods)
      (unregister_code (ucast code) s)"

definition tap_code16_delay :: "u16 \<Rightarrow> u16 \<Rightarrow> 'q action_util_scheme \<Rightarrow> 'q action_util_scheme" where
  "tap_code16_delay code delay s =
    unregister_code16 code (fold (\<lambda>i. emit (WaitMs 1)) [0..<unat delay] (register_code16 code s))"

definition tap_code16 :: "u16 \<Rightarrow> 'q action_util_scheme \<Rightarrow> 'q action_util_scheme" where
  "tap_code16 code s = tap_code16_delay code (if code = KC_CAPS_LOCK then 80 else 0) s"

section \<open>The keycode of an event\<close>

definition get_event_keycode :: "keymap \<Rightarrow> keyevent_t \<Rightarrow> bool \<Rightarrow> 'q action_util_scheme \<Rightarrow> u16 \<times> 'q action_util_scheme" where
  "get_event_keycode km e update_layer_cache s =
    (let l = layers s; key = ev_key e in
     if \<not> disable_action_cache l then
       (if pressed e \<and> update_layer_cache then
          (let layer = layer_switch_get_layer (keymap_config s) km l key
           in (keymap_key_to_keycode km layer key,
               s\<lparr>layers := l\<lparr>source_layers_cache := update_source_layers_cache key layer (source_layers_cache l)\<rparr>\<rparr>))
        else (keymap_key_to_keycode km (read_source_layers_cache key (source_layers_cache l)) key, s))
     else (keymap_key_to_keycode km (layer_switch_get_layer (keymap_config s) km l key) key, s))"

definition get_record_keycode :: "keymap \<Rightarrow> keyrecord_t \<Rightarrow> bool \<Rightarrow> 'q action_util_scheme \<Rightarrow> u16 \<times> 'q action_util_scheme" where
  "get_record_keycode km r update_layer_cache s = get_event_keycode km (event r) update_layer_cache s"

section \<open>Space cadet\<close>

definition perform_space_cadet :: "keyrecord_t \<Rightarrow> u8 \<Rightarrow> u8 \<Rightarrow> u8 \<Rightarrow> 's quantum \<Rightarrow> 's quantum" where
  "perform_space_cadet r holdMod tapMod keycode s =
    (if pressed (event r) then
       (let s = s\<lparr>sc_last := holdMod, sc_timer := timer_read (clock s)\<rparr>
        in if IS_MODIFIER_KEYCODE (ucast holdMod) then register_mods (MOD_BIT holdMod) s else s)
     else if sc_last s = holdMod \<and> timer_elapsed (clock s) (sc_timer s) < TAPPING_TERM then
       (let s = (if holdMod \<noteq> tapMod then
                   (let s = (if IS_MODIFIER_KEYCODE (ucast holdMod) then unregister_mods (MOD_BIT holdMod) s else s)
                    in if IS_MODIFIER_KEYCODE (ucast tapMod) then register_mods (MOD_BIT tapMod) s else s)
                 else s);
            s = tap_code keycode s
        in if IS_MODIFIER_KEYCODE (ucast tapMod) then unregister_mods (MOD_BIT tapMod) s else s)
     else if IS_MODIFIER_KEYCODE (ucast holdMod) then unregister_mods (MOD_BIT holdMod) s
     else s)"

definition reset_space_cadet :: "'s quantum \<Rightarrow> 's quantum" where
  "reset_space_cadet s = s\<lparr>sc_last := 0\<rparr>"

text \<open>The keys of \<open>LSPO_KEYS\<close> to \<open>SFTENT_KEYS\<close>: the held modifier, the tapped one, the tapped key.\<close>

definition space_cadet_keys :: "u16 \<Rightarrow> (u8 \<times> u8 \<times> u8) option" where
  "space_cadet_keys keycode =
    (if keycode = 0x7C1A then Some (0xE1, 0xE1, 0x26)
     else if keycode = 0x7C1B then Some (0xE5, 0xE5, 0x27)
     else if keycode = 0x7C18 then Some (0xE0, 0xE1, 0x26)
     else if keycode = 0x7C19 then Some (0xE4, 0xE5, 0x27)
     else if keycode = 0x7C1C then Some (0xE2, 0xE1, 0x26)
     else if keycode = 0x7C1D then Some (0xE6, 0xE5, 0x27)
     else if keycode = 0x7C1E then Some (0xE5, 1, 0x28)
     else None)"

definition process_space_cadet :: "u16 \<Rightarrow> keyrecord_t \<Rightarrow> 's quantum \<Rightarrow> bool \<times> 's quantum" where
  "process_space_cadet keycode r s =
    (case space_cadet_keys keycode of
       Some (holdMod, tapMod, key) \<Rightarrow> (False, perform_space_cadet r holdMod tapMod key s)
     | None \<Rightarrow> (True, if pressed (event r) then reset_space_cadet s else s))"

section \<open>Grave escape\<close>

definition process_grave_esc :: "u16 \<Rightarrow> keyrecord_t \<Rightarrow> 's quantum \<Rightarrow> bool \<times> 's quantum" where
  "process_grave_esc keycode r s =
    (if keycode = 0x7C16 then
       (let shifted = real_mods s AND 0xAA \<noteq> 0;
            s = (if pressed (event r)
                 then add_key (if shifted then 0x35 else 0x29) (s\<lparr>grave_esc_was_shifted := shifted\<rparr>)
                 else del_key (if grave_esc_was_shifted s then 0x35 else 0x29) s)
        in (False, send_keyboard_report s))
     else (True, s))"

section \<open>Magic keys\<close>

text \<open>The bit fields of \<open>keymap_config.raw\<close>; three bits have no name and are not kept.\<close>

definition keymap_config_of_raw :: "u16 \<Rightarrow> keymap_config_t" where
  "keymap_config_of_raw w = \<lparr>
    swap_control_capslock = bit w 0, capslock_to_control = bit w 1, swap_lalt_lgui = bit w 2,
    swap_ralt_rgui = bit w 3, no_gui = bit w 4, swap_grave_esc = bit w 5,
    swap_backslash_backspace = bit w 6, nkro = bit w 7, swap_lctl_lgui = bit w 8,
    swap_rctl_rgui = bit w 9, oneshot_enable = bit w 10, swap_escape_capslock = bit w 11,
    autocorrect_enable = bit w 12 \<rparr>"

definition IS_MAGIC_KEYCODE :: "u16 \<Rightarrow> bool" where
  "IS_MAGIC_KEYCODE code \<longleftrightarrow> in_range code 0x7000 0x7022"

text \<open>The \<open>switch\<close> of \<open>process_magic\<close>, in the order of the keycodes.\<close>

definition magic_config :: "u16 \<Rightarrow> keymap_config_t \<Rightarrow> keymap_config_t" where
  "magic_config keycode c =
    (if keycode = 0x7000 then c\<lparr>swap_control_capslock := True\<rparr>
     else if keycode = 0x7001 then c\<lparr>swap_control_capslock := False\<rparr>
     else if keycode = 0x7002 then c\<lparr>swap_control_capslock := \<not> swap_control_capslock c\<rparr>
     else if keycode = 0x7003 then c\<lparr>capslock_to_control := False\<rparr>
     else if keycode = 0x7004 then c\<lparr>capslock_to_control := True\<rparr>
     else if keycode = 0x7005 then c\<lparr>swap_lalt_lgui := True\<rparr>
     else if keycode = 0x7006 then c\<lparr>swap_lalt_lgui := False\<rparr>
     else if keycode = 0x7007 then c\<lparr>swap_ralt_rgui := True\<rparr>
     else if keycode = 0x7008 then c\<lparr>swap_ralt_rgui := False\<rparr>
     else if keycode = 0x7009 then c\<lparr>no_gui := False\<rparr>
     else if keycode = 0x700A then c\<lparr>no_gui := True\<rparr>
     else if keycode = 0x700B then c\<lparr>no_gui := \<not> no_gui c\<rparr>
     else if keycode = 0x700C then c\<lparr>swap_grave_esc := True\<rparr>
     else if keycode = 0x700D then c\<lparr>swap_grave_esc := False\<rparr>
     else if keycode = 0x700E then c\<lparr>swap_backslash_backspace := True\<rparr>
     else if keycode = 0x700F then c\<lparr>swap_backslash_backspace := False\<rparr>
     else if keycode = 0x7010 then c\<lparr>swap_backslash_backspace := \<not> swap_backslash_backspace c\<rparr>
     else if keycode = 0x7011 then c\<lparr>nkro := True\<rparr>
     else if keycode = 0x7012 then c\<lparr>nkro := False\<rparr>
     else if keycode = 0x7013 then c\<lparr>nkro := \<not> nkro c\<rparr>
     else if keycode = 0x7014 then c\<lparr>swap_lalt_lgui := True, swap_ralt_rgui := True\<rparr>
     else if keycode = 0x7015 then c\<lparr>swap_lalt_lgui := False, swap_ralt_rgui := False\<rparr>
     else if keycode = 0x7016 then
       c\<lparr>swap_lalt_lgui := \<not> swap_lalt_lgui c, swap_ralt_rgui := \<not> swap_lalt_lgui c\<rparr>
     else if keycode = 0x7017 then c\<lparr>swap_lctl_lgui := True\<rparr>
     else if keycode = 0x7018 then c\<lparr>swap_lctl_lgui := False\<rparr>
     else if keycode = 0x7019 then c\<lparr>swap_rctl_rgui := True\<rparr>
     else if keycode = 0x701A then c\<lparr>swap_rctl_rgui := False\<rparr>
     else if keycode = 0x701B then c\<lparr>swap_lctl_lgui := True, swap_rctl_rgui := True\<rparr>
     else if keycode = 0x701C then c\<lparr>swap_lctl_lgui := False, swap_rctl_rgui := False\<rparr>
     else if keycode = 0x701D then
       c\<lparr>swap_lctl_lgui := \<not> swap_lctl_lgui c, swap_rctl_rgui := \<not> swap_lctl_lgui c\<rparr>
     else if keycode = 0x7020 then c\<lparr>swap_escape_capslock := True\<rparr>
     else if keycode = 0x7021 then c\<lparr>swap_escape_capslock := False\<rparr>
     else if keycode = 0x7022 then c\<lparr>swap_escape_capslock := \<not> swap_escape_capslock c\<rparr>
     else c)"

definition on_eeprom :: "('s wear_leveling \<Rightarrow> 's wear_leveling) \<Rightarrow> 's quantum \<Rightarrow> 's quantum" where
  "on_eeprom f s = s\<lparr>eeprom := f (eeprom s)\<rparr>"

definition persist_keymap_config :: "'s platform \<Rightarrow> 's quantum \<Rightarrow> 's quantum" where
  "persist_keymap_config p s =
    on_eeprom (eeconfig_update_keymap (flash p) (keymap_config_raw (keymap_config s))) s"

definition process_magic :: "'s platform \<Rightarrow> u16 \<Rightarrow> keyrecord_t \<Rightarrow> 's quantum \<Rightarrow> bool \<times> 's quantum" where
  "process_magic p keycode r s =
    (if pressed (event r) \<and> IS_MAGIC_KEYCODE keycode then
       (let s = s\<lparr>keymap_config := keymap_config_of_raw (eeconfig_read_keymap (eeprom s))\<rparr>;
            s = (if in_range keycode 0x7011 0x7013 then clear_keyboard s else s);
            s = s\<lparr>keymap_config := magic_config keycode (keymap_config s)\<rparr>;
            s = (if keycode = 0x701E then on_eeprom (eeconfig_update_handedness (flash p) True) s
                 else if keycode = 0x701F then on_eeprom (eeconfig_update_handedness (flash p) False) s
                 else s)
        in (False, clear_keyboard (persist_keymap_config p s)))
     else (True, s))"

section \<open>Default layers\<close>

definition set_single_default_layer :: "u8 \<Rightarrow> 's quantum \<Rightarrow> 's quantum" where
  "set_single_default_layer default_layer s = au_layers (default_layer_set (layer_bit default_layer)) s"

definition set_single_persistent_default_layer :: "'s platform \<Rightarrow> u8 \<Rightarrow> 's quantum \<Rightarrow> 's quantum" where
  "set_single_persistent_default_layer p default_layer s =
    set_single_default_layer default_layer
      (on_eeprom (eeconfig_update_default_layer (flash p) (layer_bit default_layer)) s)"

definition process_default_layer :: "'s platform \<Rightarrow> u16 \<Rightarrow> keyrecord_t \<Rightarrow> 's quantum \<Rightarrow> bool \<times> 's quantum" where
  "process_default_layer p keycode r s =
    (if in_range keycode 0x52E0 0x52FF \<and> \<not> pressed (event r)
     then (False, set_single_persistent_default_layer p (ucast (keycode AND 0x1F)) s)
     else (True, s))"

section \<open>Resets\<close>

definition shutdown_quantum :: "'s quantum \<Rightarrow> 's quantum" where
  "shutdown_quantum s = emit (WaitMs 250) (clear_keyboard s)"

definition reset_keyboard :: "'s quantum \<Rightarrow> 's quantum" where
  "reset_keyboard s = (shutdown_quantum s)\<lparr>stopped := Some BootloaderJump\<rparr>"

definition soft_reset_keyboard :: "'s quantum \<Rightarrow> 's quantum" where
  "soft_reset_keyboard s = (shutdown_quantum s)\<lparr>stopped := Some McuReset\<rparr>"

section \<open>The chain\<close>

definition and_then :: "('s \<Rightarrow> bool \<times> 's) \<Rightarrow> ('s \<Rightarrow> bool \<times> 's) \<Rightarrow> 's \<Rightarrow> bool \<times> 's" where
  "and_then f g s = (case f s of (True, s) \<Rightarrow> g s | (False, s) \<Rightarrow> (False, s))"

definition process_kb :: "'s platform \<Rightarrow> u16 \<Rightarrow> keyrecord_t \<Rightarrow> 's quantum \<Rightarrow> bool \<times> 's quantum" where
  "process_kb p keycode r s =
    (case process_record_kb (img_list p) (img_selectmode p) keycode (pressed (event r)) (danopad s) of
      (go, d) \<Rightarrow> (go, s\<lparr>danopad := d\<rparr>))"

text \<open>\<open>oneshot_set\<close> of the actions writes the configuration word; here it reaches the EEPROM.\<close>

definition quantum_oneshot :: "'s platform \<Rightarrow> bool \<Rightarrow> 's quantum \<Rightarrow> 's quantum" where
  "quantum_oneshot p active s =
    (if oneshot_enable (keymap_config s) \<noteq> active then persist_keymap_config p (oneshot_set active s) else s)"

definition quantum_keycodes :: "'s platform \<Rightarrow> u16 \<Rightarrow> 's quantum \<Rightarrow> bool \<times> 's quantum" where
  "quantum_keycodes p keycode s =
    (if keycode = 0x7C00 then (False, reset_keyboard s)
     else if keycode = 0x7C01 then (False, soft_reset_keyboard s)
     else if keycode = 0x7C02 then
       (False, s\<lparr>danopad := (danopad s)\<lparr>debug_enable := \<not> debug_enable (danopad s)\<rparr>\<rparr>)
     else if keycode = 0x7C03 then (False, soft_reset_keyboard (on_eeprom (eeconfig_disable (flash p)) s))
     else if keycode = 0x7C5C then (True, quantum_oneshot p (\<not> oneshot_enable (keymap_config s)) s)
     else if keycode = 0x7C5A then (True, quantum_oneshot p True s)
     else if keycode = 0x7C5B then (True, quantum_oneshot p False s)
     else (True, s))"

definition quantum_process_record :: "'s platform \<Rightarrow> keymap \<Rightarrow> keyrecord_t \<Rightarrow> 's quantum \<Rightarrow> bool \<times> 's quantum" where
  "quantum_process_record p km r s =
    (let (keycode, s) = get_record_keycode km r True s
     in and_then (process_kb p keycode r)
         (and_then (process_space_cadet keycode r)
           (and_then (process_magic p keycode r)
             (and_then (process_grave_esc keycode r)
               (and_then (process_default_layer p keycode r)
                 (\<lambda>s. if pressed (event r) then quantum_keycodes p keycode s else (True, s)))))) s)"

definition board_hooks :: "'s platform \<Rightarrow> keymap \<Rightarrow> ('s, unit) quantum_ext record_hooks" where
  "board_hooks p km = \<lparr>
    pre_process_record_quantum = \<lambda>r s. (True, snd (get_record_keycode km r True s)),
    process_record_quantum = quantum_process_record p km,
    post_process_record_quantum = \<lambda>r s. snd (get_record_keycode km r False s) \<rparr>"


section \<open>The operations of the actions leave the extension alone\<close>

lemma send_more: "action_util.more (send_keyboard_report s) = action_util.more s"
  by (simp add: send_keyboard_report_def send_nkro_report_def send_6kro_report_def split_beta Let_def
      get_mods_for_report_def clear_oneshot_mods_def oneshot_mods_changed_kb_def emit_def)

lemma clear_state_more: "action_util.more (clear_oneshot_layer_state st s) = action_util.more s"
  by (simp add: clear_oneshot_layer_state_def Let_def reset_oneshot_layer_def oneshot_layer_changed_kb_def
      au_layer_off_def emit_def)

lemma register_more:
  "action_util.more (register_code c s) = action_util.more s" "action_util.more (unregister_code c s) = action_util.more s"
  by (simp_all add: register_code_def unregister_code_def Let_def send_more add_key_def del_key_def add_mods_def del_mods_def
      emit_def)

lemma au_step_more: "au_step s t \<Longrightarrow> action_util.more t = action_util.more s"
  by (induction rule: au_step.induct)
    (simp_all add: send_more register_more clear_state_more tap_code_def tap_code_delay_def register_mods_def
      unregister_mods_def register_weak_mods_def unregister_weak_mods_def set_mods_def set_weak_mods_def
      add_mods_def del_mods_def add_weak_mods_def del_weak_mods_def clear_keyboard_def clear_mods_def
      clear_keyboard_but_mods_def clear_keyboard_but_mods_and_keys_def clear_keys_def clear_weak_mods_def
      add_key_def del_key_def add_oneshot_mods_def del_oneshot_mods_def set_oneshot_mods_def
      clear_oneshot_mods_def oneshot_mods_changed_kb_def set_oneshot_layer_def reset_oneshot_layer_def
      oneshot_layer_changed_kb_def au_layer_on_def Let_def oneshot_set_def add_oneshot_locked_mods_def
      del_oneshot_locked_mods_def set_oneshot_locked_mods_def clear_oneshot_locked_mods_def
      oneshot_locked_mods_changed_kb_def emit_def)

lemma quantum_more: 
  assumes "action_util.more t = action_util.more (s :: 's quantum)"
  shows "eeprom t = eeprom s" "danopad t = danopad s" "stopped t = stopped s"  "clock t = clock s"
  using assms by (cases s; cases t; simp)+

section \<open>What the processors keep\<close>

locale kept_by_quantum = kept_by_operations inv for inv :: "'s quantum \<Rightarrow> bool" +
  fixes p :: "'s platform" and km :: keymap
  assumes config: "inv s \<Longrightarrow> inv (s\<lparr>keymap_config := c\<rparr>)"
    and statics: "inv s \<Longrightarrow> inv (s\<lparr>sc_last := a\<rparr>)" "inv s \<Longrightarrow> inv (s\<lparr>sc_timer := t\<rparr>)"
      "inv s \<Longrightarrow> inv (s\<lparr>grave_esc_was_shifted := b\<rparr>)" "inv s \<Longrightarrow> inv (s\<lparr>stopped := x\<rparr>)"
    and eeprom_word: "inv s \<Longrightarrow> inv (on_eeprom (eeconfig_update_keymap (flash p) w) s)"
    and eeprom_layer: "inv s \<Longrightarrow> inv (on_eeprom (eeconfig_update_default_layer (flash p) l) s)"
    and eeprom_hand: "inv s \<Longrightarrow> inv (on_eeprom (eeconfig_update_handedness (flash p) b) s)"
    and eeprom_off: "inv s \<Longrightarrow> inv (on_eeprom (eeconfig_disable (flash p)) s)"
    and kb: "inv s \<Longrightarrow> inv (snd (process_kb p keycode r s))"
    and debug: "inv s \<Longrightarrow> inv (s\<lparr>danopad := (danopad s)\<lparr>debug_enable := b\<rparr>\<rparr>)"
begin

lemma keycode: "inv s \<Longrightarrow> inv (snd (get_record_keycode km r u s))"
  by (simp add: get_record_keycode_def get_event_keycode_def Let_def layers)

lemma and_then: "(\<And>s. inv s \<Longrightarrow> inv (snd (f s))) \<Longrightarrow> (\<And>s. inv s \<Longrightarrow> inv (snd (g s))) \<Longrightarrow> inv s \<Longrightarrow> inv (snd (and_then f g s))"
proof -
  assume f: "\<And>s. inv s \<Longrightarrow> inv (snd (f s))" and g: "\<And>s. inv s \<Longrightarrow> inv (snd (g s))" and s: "inv s"
  obtain go u where u: "f s = (go, u)" by fastforce
  show ?thesis using f [OF s] g [of u] u by (simp add: and_then_def split: bool.split)
qed

lemma space_cadet: "inv s \<Longrightarrow> inv (snd (process_space_cadet code r s))"
  by (simp add: process_space_cadet_def perform_space_cadet_def reset_space_cadet_def Let_def operations statics
      split: option.split prod.split)

lemma magic: "inv s \<Longrightarrow> inv (snd (process_magic p code r s))"
  by (simp add: process_magic_def persist_keymap_config_def Let_def operations config eeprom_word eeprom_hand)

lemma grave_esc: "inv s \<Longrightarrow> inv (snd (process_grave_esc code r s))"
  by (simp add: process_grave_esc_def Let_def operations statics)

lemma default_layer: "inv s \<Longrightarrow> inv (snd (process_default_layer p code r s))"
  by (simp add: process_default_layer_def set_single_persistent_default_layer_def set_single_default_layer_def
      layer_changes eeprom_layer)

lemma keycodes: "inv s \<Longrightarrow> inv (snd (quantum_keycodes p code s))"
  by (simp add: quantum_keycodes_def reset_keyboard_def soft_reset_keyboard_def shutdown_quantum_def quantum_oneshot_def
      persist_keymap_config_def operations effects statics eeprom_word eeprom_off debug)

lemma process_record_quantum: "inv s \<Longrightarrow> inv (snd (quantum_process_record p km r s))"
  by (simp add: quantum_process_record_def split_beta keycode and_then kb space_cadet magic grave_esc default_layer
      keycodes)

end

sublocale kept_by_quantum \<subseteq> kept_by_hooks inv "board_hooks p km"
  by unfold_locales (simp_all add: board_hooks_def keycode process_record_quantum)

text \<open>What depends on the extension only is not touched by the actions.\<close>

lemma extension_kept:
  fixes f :: "'s quantum \<Rightarrow> 'e"
  assumes more: "\<And>s t. action_util.more t = action_util.more s \<Longrightarrow> f t = f s"
  shows "kept_by_operations (\<lambda>s. P (f s))"
proof
  show "P (f t)" if "P (f s)" "au_step s t" for s t using more [OF au_step_more [OF that(2)]] that(1) by simp
  show "P (f (s\<lparr>layers := l\<rparr>))" if "P (f s)" for s l using more [of "s\<lparr>layers := l\<rparr>" s] that by simp
  show "P (f (emit e s))" if "P (f s)" "\<And>v. host_receive e v = v" for s e
    using more [of "emit e s" s] that(1) by (simp add: emit_def)
qed

lemma au_inv_extension:
  fixes s :: "'s quantum"
  shows "au_inv (s\<lparr>sc_last := a\<rparr>) = au_inv s" "au_inv (s\<lparr>sc_timer := t\<rparr>) = au_inv s"
    "au_inv (s\<lparr>grave_esc_was_shifted := b\<rparr>) = au_inv s" "au_inv (s\<lparr>stopped := x\<rparr>) = au_inv s"
    "au_inv (s\<lparr>eeprom := e\<rparr>) = au_inv s" "au_inv (s\<lparr>danopad := d\<rparr>) = au_inv s" "au_inv (s\<lparr>clock := c\<rparr>) = au_inv s"
  by (simp_all add: au_inv_def)

lemma process_kb_au_inv: "au_inv (snd (process_kb p keycode r s)) = au_inv s"
  by (simp add: process_kb_def split_beta au_inv_def)

interpretation sent: kept_by_quantum au_inv p km for p :: "'s platform" and km
  by unfold_locales (simp_all add: on_eeprom_def process_kb_au_inv au_inv_extension)

lemma reach_update:
  assumes "wl_reach chip sz s" "unat a + length buf \<le> 4096"
  shows "wl_reach chip sz (eeprom_write_block (rp2040_ops chip sz) buf a s)"
  unfolding eeprom_write_block_def by (rule wl_reach.write_data [OF assms prod.collapse [symmetric]])

lemma reach_updates:
  assumes "wl_reach chip sz s"
  defines "ops \<equiv> rp2040_ops chip sz"
  shows "wl_reach chip sz (eeconfig_update_keymap ops w s)" "wl_reach chip sz (eeconfig_update_default_layer ops l s)"
    "wl_reach chip sz (eeconfig_update_handedness ops b s)" "wl_reach chip sz (eeconfig_disable ops s)"
proof -
  have erased: "wl_reach chip sz (eeprom_driver_format ops False s)"
    unfolding eeprom_driver_format_def eeprom_driver_erase_def ops_def
    by (rule wl_reach.erase [OF assms(1) prod.collapse [symmetric]])
  show "wl_reach chip sz (eeconfig_update_keymap ops w s)" "wl_reach chip sz (eeconfig_update_default_layer ops l s)"
    "wl_reach chip sz (eeconfig_update_handedness ops b s)" "wl_reach chip sz (eeconfig_disable ops s)"
    using assms(1) erased unfolding ops_def
    by (simp_all add: eeconfig_update_keymap_def eeconfig_update_default_layer_def eeconfig_update_handedness_def
        eeconfig_disable_def eeprom_update_word_def eeprom_update_byte_def eeprom_write_word_def eeprom_write_byte_def
        reach_update eeconfig_addresses)
qed

definition rp2040_platform :: "'f flash_chip \<Rightarrow> u32 \<Rightarrow> epd_image list \<Rightarrow> epd_image \<Rightarrow> 'f platform" where
  "rp2040_platform chip sz imgs sel = \<lparr> flash = rp2040_ops chip sz, img_list = imgs, img_selectmode = sel \<rparr>"

interpretation stored_ops: kept_by_operations "\<lambda>s :: 'f quantum. wl_reach chip sz (eeprom s)"
  for chip :: "'f flash_chip" and sz
  by (rule extension_kept [where f = eeprom, OF quantum_more(1)])

interpretation stored: kept_by_quantum "\<lambda>s :: 'f quantum. wl_reach chip sz (eeprom s)"
    "rp2040_platform chip sz imgs sel" km
  for chip :: "'f flash_chip" and sz imgs sel km
  by unfold_locales (simp_all add: rp2040_platform_def on_eeprom_def reach_updates process_kb_def split_beta)

interpretation shown_ops: kept_by_operations "\<lambda>s :: 'f quantum. \<exists>ks. board busy imgs sel (danopad s) ks"
  for busy imgs sel
  by (rule extension_kept [where f = danopad, OF quantum_more(2)])

lemma board_process_kb:
  assumes "board busy (img_list p) (img_selectmode p) (danopad s) ks"
  shows "\<exists>ks. board busy (img_list p) (img_selectmode p) (danopad (snd (process_kb p keycode r s))) ks"
  using board.record_key [OF assms prod.collapse [symmetric]] by (force simp: process_kb_def split_beta)

interpretation shown: kept_by_quantum
    "\<lambda>s :: 'f quantum. \<exists>ks. board busy (img_list p) (img_selectmode p) (danopad s) ks" p km
  for busy and p :: "'f platform" and km
  by unfold_locales (auto simp: on_eeprom_def board_process_kb intro: board.debug)
end
