(* ===== verification/Unicode.thy ===== *)
theory Unicode
  imports Quantum
begin

text \<open>
  Unicode input: \<open>quantum/unicode/utf8.c\<close>, \<open>quantum/unicode/unicode.c\<close> and the digits of
  \<open>quantum/send_string/send_string.c\<close>. Text is decoded from UTF-8, and each code point is typed in
  hexadecimal in the way of the operating system that the input mode names.

  \<open>char\<close> is unsigned, as on ARM. A string is the list of bytes that may be read, with its terminator;
  \<open>None\<close> is a read beyond it, of which C says nothing. The state of the host's lock LEDs is a parameter.
  Sounds and the cycling through selected modes are not modelled: no modes are selected by default.
\<close>

section \<open>UTF-8\<close>

text \<open>The byte \<open>str[i]\<close> under a mask.\<close>

definition masked_byte :: "u8 list \<Rightarrow> nat \<Rightarrow> u8 \<Rightarrow> u32" where
  "masked_byte str i m = ucast (str ! i AND m)"

definition decode_utf8 :: "u8 list \<Rightarrow> (u32 \<times> u8 list) option" where
  "decode_utf8 str =
    (if str = [] then None
     else
       let b = str ! 0;
           (code_point, n) =
             (if b < 0x80 then (ucast b :: u32, 1 :: nat)
              else if b AND 0xE0 = 0xC0 then
                (push_bit 6 (masked_byte str 0 0x1F) OR masked_byte str 1 0x3F, 2)
              else if b AND 0xF0 = 0xE0 then
                (push_bit 12 (masked_byte str 0 0x0F) OR push_bit 6 (masked_byte str 1 0x3F) OR
                 masked_byte str 2 0x3F, 3)
              else if b AND 0xF8 = 0xF0 \<and> b \<le> 0xF4 then
                (push_bit 18 (masked_byte str 0 0x07) OR push_bit 12 (masked_byte str 1 0x3F) OR
                 push_bit 6 (masked_byte str 2 0x3F) OR masked_byte str 3 0x3F, 4)
              else (- 1, 1))
       in if length str < n then None
          else Some (if sint code_point \<ge> 0xD800 \<and> sint code_point \<le> 0xDFFF then - 1 else code_point, drop n str))"

lemma decode_utf8_shorter: "decode_utf8 str = Some (cp, rest) \<Longrightarrow> length rest < length str"
  by (auto simp: decode_utf8_def Let_def split: if_splits)

section \<open>Typing digits\<close>

datatype unicode_mode = UNICODE_MODE_MACOS | UNICODE_MODE_LINUX | UNICODE_MODE_WINDOWS | UNICODE_MODE_BSD
  | UNICODE_MODE_WINCOMPOSE | UNICODE_MODE_EMACS

record led_t =
  num_lock :: bool
  caps_lock :: bool
  scroll_lock :: bool
  compose :: bool
  kana :: bool

text \<open>\<open>send_char\<close> for the hexadecimal digits: no modifier and no dead key is involved.\<close>

definition nibble_keycode :: "u8 \<Rightarrow> u8" where
  "nibble_keycode d = (if d = 0 then 0x27 else if d \<le> 9 then 0x1E + (d - 1) else 0x04 + (d - 10))"

definition send_nibble :: "u8 \<Rightarrow> 'q action_util_scheme \<Rightarrow> 'q action_util_scheme" where
  "send_nibble number u = emit (WaitMs 0) (tap_code_delay (nibble_keycode (number AND 0xF)) 0 u)"

definition send_nibble_wrapper :: "unicode_mode \<Rightarrow> u8 \<Rightarrow> 'q action_util_scheme \<Rightarrow> 'q action_util_scheme" where
  "send_nibble_wrapper mode digit u =
    (if mode = UNICODE_MODE_WINDOWS then
       tap_code (if digit < 10 then 0x59 + (10 + digit - 1) mod 10 else 0x04 + (digit - 10)) u
     else send_nibble digit u)"

text \<open>The loops of \<open>register_hex\<close> and \<open>register_hex32\<close>, for a way \<open>f\<close> to send a digit.\<close>

definition hex_digit :: "u32 \<Rightarrow> nat \<Rightarrow> u8" where
  "hex_digit hex i = ucast (drop_bit (i * 4) hex AND 0xF)"

definition hex32_loop :: "(u8 \<Rightarrow> 's \<Rightarrow> 's) \<Rightarrow> bool \<Rightarrow> u32 \<Rightarrow> 's \<Rightarrow> 's" where
  "hex32_loop f needs_leading_zero hex s =
    snd (fold (\<lambda>i (first_digit, s).
      (let digit = hex_digit hex i;
           s = (if first_digit \<and> needs_leading_zero \<and> digit > 9 then f 0 s else s);
           must_send = i < 4
       in if digit \<noteq> 0 \<or> \<not> first_digit \<or> must_send then (False, f digit s) else (first_digit, s)))
      (rev [0..<8]) (True, s))"

definition register_hex :: "unicode_mode \<Rightarrow> u16 \<Rightarrow> 'q action_util_scheme \<Rightarrow> 'q action_util_scheme" where
  "register_hex mode hex u = fold (\<lambda>i. send_nibble_wrapper mode (hex_digit (ucast hex) i)) (rev [0..<4]) u"

definition register_hex32 :: "unicode_mode \<Rightarrow> u32 \<Rightarrow> 'q action_util_scheme \<Rightarrow> 'q action_util_scheme" where
  "register_hex32 mode hex u = hex32_loop (send_nibble_wrapper mode) (mode = UNICODE_MODE_WINCOMPOSE) hex u"

section \<open>Code points\<close>

abbreviation (input) UNICODE_TYPE_DELAY :: u16 where "UNICODE_TYPE_DELAY \<equiv> 10"
abbreviation (input) UNICODE_KEY_MAC :: u8 where "UNICODE_KEY_MAC \<equiv> 0xE2"
abbreviation (input) UNICODE_KEY_LNX :: u16 where "UNICODE_KEY_LNX \<equiv> 0x0318"
abbreviation (input) UNICODE_KEY_WINC :: u8 where "UNICODE_KEY_WINC \<equiv> 0xE6"

text \<open>The result of \<open>unicode_input_start\<close> comes with the modifiers that it saves.\<close>

definition unicode_input_start ::
    "unicode_mode \<Rightarrow> led_t \<Rightarrow> 'q action_util_scheme \<Rightarrow> u8 \<times> 'q action_util_scheme" where
  "unicode_input_start mode leds u =
    (let u = (if mode = UNICODE_MODE_LINUX \<and> caps_lock leds then tap_code 0x39 u else u);
         saved_mods = real_mods u;
         u = clear_weak_mods (clear_mods u);
         u = (case mode of
             UNICODE_MODE_MACOS \<Rightarrow> register_code UNICODE_KEY_MAC u
           | UNICODE_MODE_LINUX \<Rightarrow> tap_code16 UNICODE_KEY_LNX u
           | UNICODE_MODE_WINDOWS \<Rightarrow>
               tap_code 0x57 (emit (WaitMs UNICODE_TYPE_DELAY)
                 (register_code 0xE2 (if num_lock leds then u else tap_code 0x53 u)))
           | UNICODE_MODE_WINCOMPOSE \<Rightarrow> tap_code 0x18 (tap_code UNICODE_KEY_WINC u)
           | UNICODE_MODE_EMACS \<Rightarrow> tap_code16 0x28 (tap_code16 0x25 (tap_code16 0x011B u))
           | UNICODE_MODE_BSD \<Rightarrow> u)
     in (saved_mods, emit (WaitMs UNICODE_TYPE_DELAY) u))"

definition unicode_input_finish ::
    "unicode_mode \<Rightarrow> led_t \<Rightarrow> u8 \<Rightarrow> 'q action_util_scheme \<Rightarrow> 'q action_util_scheme" where
  "unicode_input_finish mode leds saved_mods u =
    set_mods saved_mods
      (case mode of
         UNICODE_MODE_MACOS \<Rightarrow> unregister_code UNICODE_KEY_MAC u
       | UNICODE_MODE_LINUX \<Rightarrow> (let u = tap_code 0x2C u in if caps_lock leds then tap_code 0x39 u else u)
       | UNICODE_MODE_WINDOWS \<Rightarrow>
           (let u = unregister_code 0xE2 u in if \<not> num_lock leds then tap_code 0x53 u else u)
       | UNICODE_MODE_WINCOMPOSE \<Rightarrow> tap_code 0x28 u
       | UNICODE_MODE_EMACS \<Rightarrow> tap_code16 0x28 u
       | UNICODE_MODE_BSD \<Rightarrow> u)"

definition unicode_input_cancel ::
    "unicode_mode \<Rightarrow> led_t \<Rightarrow> u8 \<Rightarrow> 'q action_util_scheme \<Rightarrow> 'q action_util_scheme" where
  "unicode_input_cancel mode leds saved_mods u =
    set_mods saved_mods
      (case mode of
         UNICODE_MODE_MACOS \<Rightarrow> unregister_code UNICODE_KEY_MAC u
       | UNICODE_MODE_LINUX \<Rightarrow> (let u = tap_code 0x29 u in if caps_lock leds then tap_code 0x39 u else u)
       | UNICODE_MODE_WINCOMPOSE \<Rightarrow> tap_code 0x29 u
       | UNICODE_MODE_WINDOWS \<Rightarrow>
           (let u = unregister_code 0xE2 u in if \<not> num_lock leds then tap_code 0x53 u else u)
       | UNICODE_MODE_EMACS \<Rightarrow> tap_code16 0x010A u
       | UNICODE_MODE_BSD \<Rightarrow> u)"

text \<open>The numbers that are typed for a code point, between start and finish.\<close>

definition unicode_numbers :: "unicode_mode \<Rightarrow> u32 \<Rightarrow> u32 list" where
  "unicode_numbers mode code_point =
    (if code_point > 0xFFFF \<and> mode = UNICODE_MODE_MACOS then
       (let code_point = code_point - 0x10000; lo = code_point AND 0x3FF; hi = drop_bit 10 (code_point AND 0xFFC00)
        in [hi + 0xD800, lo + 0xDC00])
     else [code_point])"

definition register_unicode ::
    "unicode_mode \<Rightarrow> led_t \<Rightarrow> u32 \<Rightarrow> 'q action_util_scheme \<Rightarrow> 'q action_util_scheme" where
  "register_unicode mode leds code_point u =
    (if code_point > 0x10FFFF \<or> code_point > 0xFFFF \<and> mode = UNICODE_MODE_WINDOWS then u
     else
       (let (saved_mods, u) = unicode_input_start mode leds u;
            u = fold (register_hex32 mode) (unicode_numbers mode code_point) u
        in unicode_input_finish mode leds saved_mods u))"

function send_unicode_string ::
    "unicode_mode \<Rightarrow> led_t \<Rightarrow> u8 list \<Rightarrow> 'q action_util_scheme \<Rightarrow> 'q action_util_scheme option" where
  "send_unicode_string mode leds str u =
    (if str = [] then None
     else if str ! 0 = 0 then Some u
     else case decode_utf8 str of
        None \<Rightarrow> None
      | Some (code_point, rest) \<Rightarrow>
          send_unicode_string mode leds rest
            (if sint code_point \<ge> 0 then register_unicode mode leds code_point u else u))"
  by auto
termination
  by (relation "measure (\<lambda>(_, _, str, _). length str)") (auto dest: decode_utf8_shorter)

declare send_unicode_string.simps [simp del]


section \<open>Decoding\<close>

lemma low_bits:
  "unat (x AND 0x07) = unat x mod 8" "unat (x AND 0x0F) = unat x mod 16" "unat (x AND 0x1F) = unat x mod 32"
  "unat (x AND 0x3F) = unat x mod 64" for x :: u8
proof -
  have "unat (x AND mask n) = unat x mod 2 ^ n" for n
    unfolding take_bit_eq_mask [symmetric] unsigned_take_bit_eq by (rule take_bit_eq_mod)
  from this [of 3] this [of 4] this [of 5] this [of 6]
  show "unat (x AND 0x07) = unat x mod 8" "unat (x AND 0x0F) = unat x mod 16" "unat (x AND 0x1F) = unat x mod 32"
    "unat (x AND 0x3F) = unat x mod 64" by (simp_all add: mask_eq_exp_minus_1)
qed

lemma high_bits:
  "x AND 0xE0 = 0xC0 \<longleftrightarrow> unat x div 32 = 6" "x AND 0xF0 = 0xE0 \<longleftrightarrow> unat x div 16 = 14"
  "x AND 0xF8 = 0xF0 \<longleftrightarrow> unat x div 8 = 30" for x :: u8
proof -
  have high: "x AND 0xE0 = push_bit 5 (drop_bit 5 x)" "x AND 0xF0 = push_bit 4 (drop_bit 4 x)"
    "x AND 0xF8 = push_bit 3 (drop_bit 3 x)"
    by (rule u8_eqI; simp add: word_bits)+
  have x: "unat x < 256" using unat_less_exp [of x] by simp
  have "unat (push_bit n (drop_bit n x)) = unat x div 2 ^ n * 2 ^ n" for n
  proof -
    have "unat x div 2 ^ n * 2 ^ n < 256" using x by (rule le_less_trans [rotated]) simp
    then show ?thesis unfolding unsigned_push_bit_eq unfolding push_bit_eq_mult unat_drop_bit
      by (intro take_bit_nat_eq_self) simp
  qed
  from this [of 5] this [of 4] this [of 3]
  show "x AND 0xE0 = 0xC0 \<longleftrightarrow> unat x div 32 = 6" "x AND 0xF0 = 0xE0 \<longleftrightarrow> unat x div 16 = 14"
    "x AND 0xF8 = 0xF0 \<longleftrightarrow> unat x div 8 = 30"
    unfolding high word_unat_eq_iff by auto
qed

lemma unat_push_or:
  fixes a b :: u32
  assumes "unat b < 2 ^ k" "unat a * 2 ^ k + unat b < 2 ^ 32"
  shows "unat (push_bit k a OR b) = unat a * 2 ^ k + unat b"
proof -
  have "take_bit k b = b" using assms(1) by (simp add: word_unat_eq_iff unsigned_take_bit_eq take_bit_nat_eq_self)
  then have "\<not> bit b i" if "k \<le> i" for i using that by (metis bit_take_bit_iff not_less)
  then have "push_bit k a OR b = push_bit k a + b"
    by (intro disjunctive_add_eq_or [symmetric] bit_word_eqI) (auto simp: word_bits)
  moreover have "unat (push_bit k a) = unat a * 2 ^ k"
  proof -
    have "unat a * 2 ^ k < 2 ^ 32" using assms(2) by linarith
    then show ?thesis unfolding unsigned_push_bit_eq unfolding push_bit_eq_mult by (intro take_bit_nat_eq_self) simp
  qed
  ultimately show ?thesis using assms(2) by (simp add: unat_word_ariths)
qed

lemma unat_masked: "unat (masked_byte str i m) = unat (str ! i AND m)"
proof -
  have "unat (str ! i AND m) < 256" using unat_less_exp [of "str ! i AND m"] by simp
  then show ?thesis by (simp add: masked_byte_def unsigned_ucast_eq take_bit_nat_eq_self)
qed

text \<open>The encoding of a Unicode scalar value.\<close>

definition scalar_value :: "nat \<Rightarrow> bool" where
  "scalar_value c \<longleftrightarrow> c < 0x110000 \<and> \<not> (0xD800 \<le> c \<and> c \<le> 0xDFFF)"

definition utf8_encode :: "nat \<Rightarrow> u8 list" where
  "utf8_encode c =
    (if c < 0x80 then [of_nat c]
     else if c < 0x800 then [of_nat (0xC0 + c div 64), of_nat (0x80 + c mod 64)]
     else if c < 0x10000 then
       [of_nat (0xE0 + c div 4096), of_nat (0x80 + c div 64 mod 64), of_nat (0x80 + c mod 64)]
     else
       [of_nat (0xF0 + c div 262144), of_nat (0x80 + c div 4096 mod 64), of_nat (0x80 + c div 64 mod 64),
        of_nat (0x80 + c mod 64)])"

lemma sint_small_u32: "unat w < 2147483648 \<Longrightarrow> sint w = int (unat w)" for w :: u32
proof -
  assume "unat w < 2147483648"
  then have "- 2147483648 \<le> int (unat w)" "int (unat w) < 2147483648" by linarith+
  then have "- 2147483648 \<le> uint w \<and> uint w < 2147483648" by (simp only: uint_nat)
  then have "sint w = uint w" by (simp add: sint_uint signed_take_bit_int_eq_self)
  then show ?thesis by (simp only: uint_nat)
qed

text \<open>The check for surrogates, for a code point known as a natural number.\<close>

definition checked_code_point :: "nat \<Rightarrow> u32" where
  "checked_code_point c = (if 0xD800 \<le> c \<and> c \<le> 0xDFFF then - 1 else of_nat c)"

lemma surrogate_check:
  assumes "unat w = c" "c < 2147483648"
  shows "(if sint w \<ge> 0xD800 \<and> sint w \<le> 0xDFFF then - 1 else w) = checked_code_point c"
proof -
  have "sint w = int c" using sint_small_u32 [of w] assms by simp
  moreover have "w = of_nat c" using assms(1) by auto
  ultimately show ?thesis by (auto simp: checked_code_point_def)
qed

lemma decode_one:
  assumes "unat b < 0x80"
  shows "decode_utf8 (b # str) = Some (of_nat (unat b), str)"
proof -
  have "unat (ucast b :: u32) = unat b"
    using assms by (simp add: unsigned_ucast_eq take_bit_nat_eq_self)
  then show ?thesis using assms surrogate_check [of "ucast b" "unat b"]
    by (simp add: decode_utf8_def word_less_nat_alt Let_def checked_code_point_def)
qed

lemma decode_two:
  assumes "unat b div 32 = 6"
  shows "decode_utf8 (b # b1 # str) =
    Some (checked_code_point (unat b mod 32 * 64 + unat b1 mod 64), str)"
proof -
  have "\<not> b < 0x80" "b AND 0xE0 = 0xC0" using assms by (auto simp: word_less_nat_alt high_bits)
  moreover have "unat (push_bit 6 (masked_byte (b # b1 # str) 0 0x1F) OR masked_byte (b # b1 # str) 1 0x3F)
      = unat b mod 32 * 64 + unat b1 mod 64"
    by (subst unat_push_or) (simp_all add: unat_masked low_bits)
  ultimately show ?thesis by (simp add: decode_utf8_def Let_def surrogate_check)
qed

text \<open>Only these instances are wanted, oriented towards the finer division.\<close>

lemma coarser_div:
  "unat b div 8 = 30 \<Longrightarrow> unat b div 16 = 15" "unat b div 8 = 30 \<Longrightarrow> unat b div 32 = 7"
  "unat b div 16 = 14 \<Longrightarrow> unat b div 32 = 7" for b :: u8
  using div_mult2_eq [of "unat b" 8 2] div_mult2_eq [of "unat b" 8 4] div_mult2_eq [of "unat b" 16 2] by simp_all

lemma decode_three:
  assumes "unat b div 16 = 14"
  shows "decode_utf8 (b # b1 # b2 # str) =
    Some (checked_code_point (unat b mod 16 * 4096 + (unat b1 mod 64 * 64 + unat b2 mod 64)), str)"
proof -
  let ?s = "b # b1 # b2 # str"
  have "unat b div 32 \<noteq> 6" using assms by (simp add: coarser_div)
  then have "\<not> b < 0x80" "b AND 0xE0 \<noteq> 0xC0" "b AND 0xF0 = 0xE0"
    using assms by (auto simp: word_less_nat_alt high_bits)
  moreover have "unat (push_bit 12 (masked_byte ?s 0 0x0F) OR push_bit 6 (masked_byte ?s 1 0x3F) OR masked_byte ?s 2 0x3F)
      = unat b mod 16 * 4096 + (unat b1 mod 64 * 64 + unat b2 mod 64)"
  proof -
    have "unat b1 mod 64 < 64" "unat b2 mod 64 < 64" "unat b mod 16 < 16" by simp_all
    moreover from this have "unat (push_bit 6 (masked_byte ?s 1 0x3F) OR masked_byte ?s 2 0x3F)
        = unat b1 mod 64 * 64 + unat b2 mod 64"
      by (subst unat_push_or) (simp_all add: unat_masked low_bits)
    ultimately show ?thesis by (subst unat_push_or) (simp_all add: unat_masked low_bits)
  qed
  ultimately show ?thesis by (simp add: decode_utf8_def Let_def surrogate_check)
qed

lemma decode_four:
  assumes "unat b div 8 = 30" "unat b \<le> 0xF4"
  shows "decode_utf8 (b # b1 # b2 # b3 # str) =
    Some (checked_code_point (unat b mod 8 * 262144 + (unat b1 mod 64 * 4096 + (unat b2 mod 64 * 64 + unat b3 mod 64))), str)"
proof -
  let ?s = "b # b1 # b2 # b3 # str"
  have "unat b div 32 \<noteq> 6" "unat b div 16 \<noteq> 14" using assms(1) by (simp_all add: coarser_div)
  then have "\<not> b < 0x80" "b AND 0xE0 \<noteq> 0xC0" "b AND 0xF0 \<noteq> 0xE0" "b AND 0xF8 = 0xF0" "b \<le> 0xF4"
    using assms by (auto simp: word_less_nat_alt word_le_nat_alt high_bits)
  moreover have "unat (push_bit 18 (masked_byte ?s 0 0x07) OR push_bit 12 (masked_byte ?s 1 0x3F) OR
      push_bit 6 (masked_byte ?s 2 0x3F) OR masked_byte ?s 3 0x3F)
      = unat b mod 8 * 262144 + (unat b1 mod 64 * 4096 + (unat b2 mod 64 * 64 + unat b3 mod 64))"
  proof -
    have m: "unat b1 mod 64 < 64" "unat b2 mod 64 < 64" "unat b3 mod 64 < 64" "unat b mod 8 < 8" by simp_all
    then have 1: "unat (push_bit 6 (masked_byte ?s 2 0x3F) OR masked_byte ?s 3 0x3F)
        = unat b2 mod 64 * 64 + unat b3 mod 64"
      by (subst unat_push_or) (simp_all add: unat_masked low_bits)
    then have "unat (push_bit 12 (masked_byte ?s 1 0x3F) OR push_bit 6 (masked_byte ?s 2 0x3F) OR masked_byte ?s 3 0x3F)
        = unat b1 mod 64 * 4096 + (unat b2 mod 64 * 64 + unat b3 mod 64)"
      using m by (subst unat_push_or) (simp_all add: unat_masked low_bits)
    then show ?thesis using m by (subst unat_push_or) (simp_all add: unat_masked low_bits)
  qed
  ultimately show ?thesis by (simp add: decode_utf8_def Let_def surrogate_check)
qed

lemma decode_encode:
  assumes "scalar_value c"
  shows "decode_utf8 (utf8_encode c @ rest) = Some (of_nat c, rest)"
proof -
  have u: "unat (of_nat n :: u8) = n" if "n < 256" for n using that by (simp add: unat_of_nat)
  have c: "c < 0x110000" "checked_code_point c = of_nat c"
    using assms by (auto simp: scalar_value_def checked_code_point_def)
  have l: "0x80 + n mod 64 < (256 :: nat)" "(0x80 + n mod 64) mod 64 = n mod 64" for n :: nat
  proof -
    have "0x80 + k < (256 :: nat) \<and> (0x80 + k) mod 64 = k" if "k < 64" for k :: nat
      using that by (auto intro: mod_nat_eqI)
    from this [of "n mod 64"] show "0x80 + n mod 64 < (256 :: nat)" "(0x80 + n mod 64) mod 64 = n mod 64" by simp_all
  qed
  have c64: "c div 64 * 64 + c mod 64 = c" by simp
  have "c div 64 div 64 = c div 4096" "c div 4096 div 64 = c div 262144" by (simp_all add: div_mult2_eq [symmetric])
  then have "c div 64 = c div 4096 * 64 + c div 64 mod 64" "c div 4096 = c div 262144 * 64 + c div 4096 mod 64"
    by (metis div_mult_mod_eq)+
  then have c4096: "c div 4096 * 4096 + (c div 64 mod 64 * 64 + c mod 64) = c"
    and c262144: "c div 262144 * 262144 + (c div 4096 mod 64 * 4096 + (c div 64 mod 64 * 64 + c mod 64)) = c"
    using c64 by linarith+
  consider (one) "c < 0x80" | (two) "0x80 \<le> c" "c < 0x800" | (three) "0x800 \<le> c" "c < 0x10000"
    | (four) "0x10000 \<le> c" by linarith
  then show ?thesis
  proof cases
    case one
    then show ?thesis by (simp add: utf8_encode_def u decode_one)
  next
    case two
    define h where "h = c div 64"
    have "h < 32" using two by (simp add: h_def)
    then have "(0xC0 + h) div 32 = 6" "(0xC0 + h) mod 32 = h" "0xC0 + h < 256" by (auto intro: div_nat_eqI mod_nat_eqI)
    with two c64 show ?thesis by (simp add: utf8_encode_def u decode_two l c flip: h_def del: of_nat_add)
  next
    case three
    define h where "h = c div 4096"
    have "h < 16" using three by (simp add: h_def)
    then have "(0xE0 + h) div 16 = 14" "(0xE0 + h) mod 16 = h" "0xE0 + h < 256" by (auto intro: div_nat_eqI mod_nat_eqI)
    with three c4096 show ?thesis by (simp add: utf8_encode_def u decode_three l c flip: h_def del: of_nat_add)
  next
    case four
    define h where "h = c div 262144"
    have "h \<le> 4" using c(1) by (simp add: h_def)
    then have "(0xF0 + h) div 8 = 30" "(0xF0 + h) mod 8 = h" "0xF0 + h < 256" "0xF0 + h \<le> 0xF4"
      by (auto intro: div_nat_eqI mod_nat_eqI)
    with four c262144 show ?thesis by (simp add: utf8_encode_def u decode_four l c flip: h_def del: of_nat_add)
  qed
qed

lemma encode_starts:
  assumes "scalar_value c" "0 < c"
  shows "\<exists>b bs. utf8_encode c = b # bs \<and> b \<noteq> 0"
proof -
  have b: "(of_nat n :: u8) \<noteq> 0" if "0 < n" "n < 256" for n
  proof -
    have "unat (of_nat n :: u8) = n" using that by (simp add: unat_of_nat)
    then show ?thesis using that by auto
  qed
  have "c < 0x110000" using assms(1) by (simp add: scalar_value_def)
  then have "c div 262144 \<le> 4" by simp
  then show ?thesis using assms(2)
    by (auto simp: utf8_encode_def b simp del: of_nat_add)
qed

text \<open>
  C18: text that is sent as UTF-8 arrives code point by code point. For every list of Unicode scalar values
  other than 0, the string of their encodings with its terminator makes the firmware register exactly these code
  points in their order, reads nothing after the terminator, and returns.
\<close>

theorem unicode_string_roundtrip:
  assumes "list_all (\<lambda>c. scalar_value c \<and> 0 < c) cs"
  shows "send_unicode_string mode leds (concat (map utf8_encode cs) @ 0 # rest) u =
    Some (fold (\<lambda>c. register_unicode mode leds (of_nat c)) cs u)"
  using assms
proof (induction cs arbitrary: u)
  case Nil
  then show ?case by (simp add: send_unicode_string.simps)
next
  case (Cons c cs)
  then have c: "scalar_value c" "0 < c" by simp_all
  from encode_starts [OF c] obtain b bs where b: "utf8_encode c = b # bs" "b \<noteq> 0" by blast
  have "unat (of_nat c :: u32) = c" using c(1) by (simp add: scalar_value_def unat_of_nat)
  then have s: "sint (of_nat c :: u32) = int c"
    using c(1) sint_small_u32 [of "of_nat c"] by (simp add: scalar_value_def)
  have "decode_utf8 (b # bs @ concat (map utf8_encode cs) @ 0 # rest) =
      Some (of_nat c, concat (map utf8_encode cs) @ 0 # rest)"
    using decode_encode [OF c(1), of "concat (map utf8_encode cs) @ 0 # rest"] b(1) by simp
  then show ?case
    using Cons b(2) s by (subst send_unicode_string.simps) (simp add: b(1))
qed

lemma unicode_string_roundtrip_witness:
  "send_unicode_string UNICODE_MODE_LINUX \<lparr>num_lock = True, caps_lock = False, scroll_lock = False, compose = False, kana = False\<rparr>
     (concat (map utf8_encode [0x41, 0x20AC, 0x1F600]) @ [0]) action_util_init =
   Some (fold (\<lambda>c. register_unicode UNICODE_MODE_LINUX \<lparr>num_lock = True, caps_lock = False, scroll_lock = False, compose = False, kana = False\<rparr> (of_nat c))
     [0x41, 0x20AC, 0x1F600] action_util_init)"
  using unicode_string_roundtrip [of "[0x41, 0x20AC, 0x1F600]" UNICODE_MODE_LINUX
      "\<lparr>num_lock = True, caps_lock = False, scroll_lock = False, compose = False, kana = False\<rparr>" "[]" action_util_init]
  by (simp add: scalar_value_def)

text \<open>A string that ends within a code point: the terminator is taken for its rest and what follows is read.\<close>

theorem truncated_utf8_read_on:
  assumes "unat b div 32 = 6 \<or> unat b div 16 = 14"
  shows "send_unicode_string mode leds [b, 0] u = None"
proof -
  have b: "b \<noteq> 0" using assms by auto
  show ?thesis
  proof (cases "unat b div 32 = 6")
    case True
    then show ?thesis using b decode_two [OF True, of 0 "[]"]
      by (subst send_unicode_string.simps) (simp add: send_unicode_string.simps [of _ _ "[]"])
  next
    case False
    then have "unat b div 16 = 14" using assms by simp
    then have "\<not> b < 0x80" "b AND 0xE0 \<noteq> 0xC0" "b AND 0xF0 = 0xE0"
      using False by (auto simp: word_less_nat_alt high_bits)
    then have "decode_utf8 [b, 0] = None" by (simp add: decode_utf8_def Let_def)
    then show ?thesis using b by (subst send_unicode_string.simps) simp
  qed
qed

section \<open>Digits\<close>




















end
