(* ===== verification/Quantum_Features.thy ===== *)
theory Quantum_Features
  imports Quantum
begin

text \<open>
  What the feature processors of the board promise: settings made with the magic keys and default layers
  survive a restart, the keys with two meanings leave nothing held behind.
\<close>

section \<open>Settings survive a restart\<close>

lemma bit_pack_flags:
  "bit (fold (\<lambda>(i, b) w. if b then w OR push_bit i 1 else w) (zip [m..<m + length bs] bs) (w :: u16)) n \<longleftrightarrow>
    bit w n \<or> (m \<le> n \<and> n < m + length bs \<and> n < 16 \<and> bs ! (n - m))"
proof (induction bs arbitrary: m w)
  case (Cons b bs)
  have b: "bit (if b then w OR push_bit m 1 else w) n \<longleftrightarrow> bit w n \<or> (b \<and> n = m \<and> n < 16)"
    by (auto simp: bit_simps bit_1_iff)
  have "[m..<m + length (b # bs)] = m # [Suc m..<Suc m + length bs]" by (simp add: upt_rec)
  then have "bit (fold (\<lambda>(i, b) w. if b then w OR push_bit i 1 else w) (zip [m..<m + length (b # bs)] (b # bs)) w) n \<longleftrightarrow>
      bit w n \<or> (b \<and> n = m \<and> n < 16) \<or> (Suc m \<le> n \<and> n < Suc m + length bs \<and> n < 16 \<and> bs ! (n - Suc m))"
    by (simp only: zip_Cons_Cons fold_simps(2) prod.case Cons.IH b) blast
  also have "\<dots> \<longleftrightarrow> bit w n \<or> (m \<le> n \<and> n < m + length (b # bs) \<and> n < 16 \<and> (b # bs) ! (n - m))"
    by (cases "n = m") (auto simp: nth_Cons' Suc_le_eq)
  finally show ?case .
qed auto

lemma keymap_config_of_raw_raw [simp]: "keymap_config_of_raw (keymap_config_raw c) = c"
proof -
  let ?bs = "[swap_control_capslock c, capslock_to_control c, swap_lalt_lgui c, swap_ralt_rgui c,
         no_gui c, swap_grave_esc c, swap_backslash_backspace c, nkro c, swap_lctl_lgui c,
         swap_rctl_rgui c, oneshot_enable c, swap_escape_capslock c, autocorrect_enable c]"
  have len: "length ?bs = 13" by simp
  have "bit (keymap_config_raw c) n = (?bs ! n)" if "n < 13" for n
    using bit_pack_flags [of 0 ?bs 0 n, unfolded len add_0] that unfolding keymap_config_raw_def by simp
  then show ?thesis by (simp add: keymap_config_of_raw_def)
qed

lemma clear_keyboard_extension [simp]:
  fixes s :: "'s quantum"
  shows "eeprom (clear_keyboard s) = eeprom s" "danopad (clear_keyboard s) = danopad s"
    "stopped (clear_keyboard s) = stopped s" "clock (clear_keyboard s) = clock s"
  by (simp_all add: quantum_more [OF au_step_more [OF au_step.clear_all]])

lemma key_pressed_clear:
  assumes "reports_ok (report s)" "k \<noteq> 0"
  shows "\<not> key_pressed k (clear_keyboard s)"
proof -
  have "reports_ok (report (clear_mods s))" using assms(1) by (simp add: clear_mods_def)
  then have "\<not> key_pressed k (clear_keys (clear_mods s))"
    using active.pressed_clear [where r = "report (clear_mods s)" and k = k] assms(2) by (simp add: key_pressed_def clear_keys_def)
  then show ?thesis
    by (simp add: clear_keyboard_def clear_keyboard_but_mods_def clear_keyboard_but_mods_and_keys_def)
qed

lemma clear_keyboard_clears:
  "keymap_config (clear_keyboard s) = keymap_config s" "real_mods (clear_keyboard s) = 0"
  by (simp_all add: clear_keyboard_def clear_keyboard_but_mods_def clear_keyboard_but_mods_and_keys_def clear_mods_def
      clear_keys_def clear_weak_mods_def emit_def) 

definition magic_field :: "u16 \<Rightarrow> 's quantum \<Rightarrow> keymap_config_t" where
  "magic_field kc s = magic_config kc (keymap_config_of_raw (eeconfig_read_keymap (eeprom s)))"

lemma process_magic_result:
  assumes "pressed (event r)" "IS_MAGIC_KEYCODE kc"
  shows "eeprom (snd (process_magic p kc r s)) = eeconfig_update_keymap (flash p) (keymap_config_raw (magic_field kc s))
      (if kc = 0x701E then eeconfig_update_handedness (flash p) True (eeprom s)
       else if kc = 0x701F then eeconfig_update_handedness (flash p) False (eeprom s) else eeprom s)"
    "keymap_config (snd (process_magic p kc r s)) = magic_field kc s"
    "real_mods (snd (process_magic p kc r s)) = 0" "\<not> fst (process_magic p kc r s)"
  using assms
  by (simp_all add: process_magic_def persist_keymap_config_def on_eeprom_def Let_def magic_field_def
      clear_keyboard_clears)

lemma layer_bit_ucast:
  "(ucast (ucast (layer_bit n) :: u8) :: u16) = (if n < 8 then layer_bit n else 0)"
proof (rule bit_word_eqI)
  fix i :: nat assume "i < LENGTH(16)"
  then show "bit (ucast (ucast (layer_bit n) :: u8) :: u16) i = bit (if n < 8 then layer_bit n else 0) i"
    by (auto simp: layer_bit_def bit_simps bit_1_iff word_less_nat_alt)
qed

lemma keymap_reads:
  assumes "rp2040_flash chip sz" "holds chip sz c s"
  shows "eeconfig_read_keymap (eeprom_driver_init (rp2040_ops chip sz)
      (reset_state (eeconfig_update_keymap (rp2040_ops chip sz) w s))) = w"
    "eeconfig_read_default_layer (eeprom_driver_init (rp2040_ops chip sz)
      (reset_state (eeconfig_update_keymap (rp2040_ops chip sz) w s))) = eeconfig_read_default_layer s"
    "eeconfig_read_default_layer (eeprom_driver_init (rp2040_ops chip sz)
      (reset_state (eeconfig_update_default_layer (rp2040_ops chip sz) l s))) = ucast (ucast l :: u8)"
    "eeconfig_read_keymap (eeprom_driver_init (rp2040_ops chip sz)
      (reset_state (eeconfig_update_default_layer (rp2040_ops chip sz) l s))) = eeconfig_read_keymap s"
proof -
  have len: "length c = 4096" using assms(2) by (simp add: holds_def)
  let ?ops = "rp2040_ops chip sz"
  have k: "holds chip sz (memcpy_at c (unat EECONFIG_KEYMAP) [lo8 w, hi8 w])
      (eeprom_driver_init ?ops (reset_state (eeconfig_update_keymap ?ops w s)))"
    unfolding eeconfig_update_keymap_def
    by (intro restart_holds field_holds assms; simp add: eeconfig_addresses)
  have d: "holds chip sz (memcpy_at c (unat EECONFIG_DEFAULT_LAYER) [ucast l])
      (eeprom_driver_init ?ops (reset_state (eeconfig_update_default_layer ?ops l s)))"
    unfolding eeconfig_update_default_layer_def
    by (intro restart_holds field_holds assms; simp add: eeconfig_addresses)
  show "eeconfig_read_keymap (eeprom_driver_init ?ops (reset_state (eeconfig_update_keymap ?ops w s))) = w"
    "eeconfig_read_default_layer (eeprom_driver_init ?ops (reset_state (eeconfig_update_keymap ?ops w s))) =
      eeconfig_read_default_layer s"
    "eeconfig_read_default_layer (eeprom_driver_init ?ops (reset_state (eeconfig_update_default_layer ?ops l s))) =
      ucast (ucast l :: u8)"
    "eeconfig_read_keymap (eeprom_driver_init ?ops (reset_state (eeconfig_update_default_layer ?ops l s))) =
      eeconfig_read_keymap s"
    unfolding eeconfig_read_keymap_def eeconfig_read_default_layer_def
    using field_reads [OF k] field_reads [OF d] field_reads [OF assms(2)]
    by (simp_all add: field_simps_eeprom len)
qed

lemma magic_releases:
  assumes "pressed (event r)" "IS_MAGIC_KEYCODE kc" "au_inv s" "k \<noteq> 0"
  shows "\<not> key_pressed k (snd (process_magic p kc r s))"
proof -
  obtain u where "snd (process_magic p kc r s) = clear_keyboard u" "au_inv u"
    using assms(1-3) reports.operations(13) [of "s\<lparr>keymap_config := keymap_config_of_raw (eeconfig_read_keymap (eeprom s))\<rparr>"]
    by (fastforce simp: process_magic_def persist_keymap_config_def on_eeprom_def Let_def au_inv_extension)
  then show ?thesis using key_pressed_clear [of u k] assms(4) by (simp add: au_inv_def)
qed

lemma handedness_keeps_layer:
  fixes a b :: bool
  assumes "rp2040_flash chip sz" "wl_reach chip sz e"
  defines "e' \<equiv> (if a then eeconfig_update_handedness (rp2040_ops chip sz) True e
    else if b then eeconfig_update_handedness (rp2040_ops chip sz) False e else e)"
  shows "\<exists>c. holds chip sz c e'" "eeconfig_read_default_layer e' = eeconfig_read_default_layer e"
proof -
  let ?c = "wl_cache e"
  note h = holds_reach [OF assms(1,2)]
  have len: "length ?c = 4096" using h by (simp add: holds_def)
  have u: "holds chip sz (memcpy_at ?c (unat EECONFIG_HANDEDNESS) [if b then 1 else 0])
      (eeconfig_update_handedness (rp2040_ops chip sz) b e)" for b
    unfolding eeconfig_update_handedness_def by (intro field_holds assms(1) h; simp add: eeconfig_addresses)
  then show "\<exists>c. holds chip sz c e'" using h by (auto simp: e'_def)
  have "eeconfig_read_default_layer (eeconfig_update_handedness (rp2040_ops chip sz) b e) = eeconfig_read_default_layer e" for b
    unfolding eeconfig_read_default_layer_def using field_reads(1) [OF u] field_reads(1) [OF h]
    by (simp add: field_simps_eeprom len)
  then show "eeconfig_read_default_layer e' = eeconfig_read_default_layer e" by (simp add: e'_def)
qed

text \<open>
  C10: the magic keys act on the stored configuration and survive a restart: after the press of a magic
  key the configuration in RAM is the one that was stored with the key's change, a restart reads the same
  configuration and the same default layers back, no key and no modifier is left held, and the key is not
  processed further.
\<close>

theorem magic_settings_persist:
  assumes "rp2040_flash chip sz" "wl_reach chip sz (eeprom s)" "IS_MAGIC_KEYCODE kc" "pressed (event r)"
    and "au_inv s"
  shows "let p = rp2040_platform chip sz imgs sel; (go, s') = process_magic p kc r s;
      e' = eeprom_driver_init (flash p) (reset_state (eeprom s'))
    in \<not> go \<and> keymap_config s' = magic_config kc (keymap_config_of_raw (eeconfig_read_keymap (eeprom s))) \<and>
      keymap_config_of_raw (eeconfig_read_keymap e') = keymap_config s' \<and>
      eeconfig_read_default_layer e' = eeconfig_read_default_layer (eeprom s) \<and>
      real_mods s' = 0 \<and> (\<forall>k. k = 0 \<or> \<not> key_pressed k s')"
proof -
  let ?p = "rp2040_platform chip sz imgs sel" and ?ops = "rp2040_ops chip sz"
  define e0 where "e0 = (if kc = 0x701E then eeconfig_update_handedness ?ops True (eeprom s)
       else if kc = 0x701F then eeconfig_update_handedness ?ops False (eeprom s) else eeprom s)"
  note res = process_magic_result [where p = ?p and s = s, OF assms(4,3)]
  obtain c where c: "holds chip sz c e0" and layer: "eeconfig_read_default_layer e0 = eeconfig_read_default_layer (eeprom s)"
    unfolding e0_def using handedness_keeps_layer [OF assms(1,2)] by metis
  have e: "eeprom (snd (process_magic ?p kc r s)) = eeconfig_update_keymap ?ops (keymap_config_raw (magic_field kc s)) e0"
    using res(1) by (simp add: e0_def rp2040_platform_def)
  have f: "flash ?p = ?ops" by (simp add: rp2040_platform_def)
  show ?thesis
    unfolding Let_def case_prod_beta f e
    using keymap_reads(1,2) [OF assms(1) c] layer res(2-4) magic_releases [OF assms(4,3,5)]
    by (auto simp: magic_field_def)
qed

text \<open>
  C35: the default layer chosen with a PDF key is in force at once, and a restart restores it when it is one
  of the layers 0 to 7; the EEPROM keeps eight bits only, so that a restart after PDF of a higher layer
  finds no default layer at all. The configuration word is not touched.
\<close>

theorem default_layer_persists:
  assumes "rp2040_flash chip sz" "wl_reach chip sz (eeprom s)" "in_range kc 0x52E0 0x52FF" "\<not> pressed (event r)"
  shows "let p = rp2040_platform chip sz imgs sel; n = ucast (kc AND 0x1F) :: u8;
      (go, s') = process_default_layer p kc r s; e' = eeprom_driver_init (flash p) (reset_state (eeprom s'))
    in \<not> go \<and> default_layer_state (layers s') = layer_bit n \<and>
      eeconfig_read_default_layer e' = (if n < 8 then layer_bit n else 0) \<and>
      eeconfig_read_keymap e' = eeconfig_read_keymap (eeprom s)"
  using keymap_reads(3,4) [OF assms(1) holds_reach [OF assms(1,2)]] assms(3,4)
  by (simp add: Let_def process_default_layer_def set_single_persistent_default_layer_def set_single_default_layer_def
      rp2040_platform_def on_eeprom_def au_layers_def default_layer_set_def default_layer_state_set_def default_layer_state_set_kb_def
      default_layer_state_set_user_def layer_bit_ucast)

section \<open>Keys that are two\<close>

lemma quantum_more_statics:
  assumes "action_util.more t = action_util.more (s :: 's quantum)"
  shows "grave_esc_was_shifted t = grave_esc_was_shifted s" "sc_last t = sc_last s" "sc_timer t = sc_timer s"
  using assms by (cases s; cases t; simp)+

lemma key_pressed_set_mods: "key_pressed k (set_mods m s) = key_pressed k s"
  by (simp add: set_mods_def key_pressed_def)

text \<open>
  C36: the release of the grave-escape key lifts the key that its press has put down, whatever the modifiers
  are by then: grave when Shift or GUI was held at the press, else escape; the other keys stay as they are.
\<close>

theorem grave_escape_releases_its_key:
  assumes "reports_ok (report s)" "pressed (event r)" "\<not> pressed (event r')" "k \<noteq> 0"
  shows "let key = (if real_mods s AND 0xAA \<noteq> 0 then 0x35 else 0x29);
      s1 = snd (process_grave_esc 0x7C16 r s); s2 = snd (process_grave_esc 0x7C16 r' (set_mods m s1))
    in host_key k s1 = (key_pressed k s \<or> k = key \<and> key_room key s) \<and>
      host_key k s2 = (key_pressed k s \<and> k \<noteq> key)"
proof -
  define sh where "sh \<longleftrightarrow> real_mods s AND 0xAA \<noteq> 0"
  define key :: u8 where "key = (if sh then 0x35 else 0x29)"
  let ?u = "s\<lparr>grave_esc_was_shifted := sh\<rparr>"
  let ?s1 = "send_keyboard_report (add_key key ?u)"
  have s1: "snd (process_grave_esc 0x7C16 r s) = ?s1"
    using assms(2) by (simp add: process_grave_esc_def sh_def key_def Let_def)
  have more: "grave_esc_was_shifted ?s1 = sh"
  proof -
    have "action_util.more ?s1 = action_util.more ?u" by (simp add: send_more add_key_def)
    then show ?thesis using quantum_more_statics(1) [of ?s1 ?u] by simp
  qed
  have s2: "snd (process_grave_esc 0x7C16 r' (set_mods m ?s1)) = send_keyboard_report (del_key key (set_mods m ?s1))"
    using assms(3) more by (simp add: process_grave_esc_def key_def Let_def set_mods_def)
  have ok: "reports_ok (report ?u)" using assms(1) by simp
  have k: "key \<noteq> 0" by (simp add: key_def)
  have p1: "key_pressed k (add_key key ?u) = (key_pressed k s \<or> k = key \<and> key_room key s)"
    using key_pressed_add [OF ok k assms(4)] by (simp add: key_pressed_def key_room_def nkro_on_def)
  have ok1: "reports_ok (report (set_mods m ?s1))"
    using reports_ok_send [OF reports_ok_keys(1) [OF ok]] by (simp add: set_mods_def)
  have "key_pressed k (set_mods m ?s1) = key_pressed k (add_key key ?u)"
    by (simp only: key_pressed_set_mods key_pressed_send)
  then show ?thesis
    using key_pressed_del [OF ok1 k assms(4)] p1
    unfolding Let_def s1 s2 sh_def [symmetric] key_def [symmetric] by (auto simp: host_after_send)
qed



lemma mods_keys [simp]:
  "key_pressed k (register_mods m s) = key_pressed k s" "key_pressed k (unregister_mods m s) = key_pressed k s"
  by (simp_all add: register_mods_def unregister_mods_def)


















lemma au_inv_mods [simp]: "au_inv s \<Longrightarrow> au_inv (register_mods m s)" "au_inv s \<Longrightarrow> au_inv (unregister_mods m s)"
    "au_inv s \<Longrightarrow> au_inv (tap_code c s)"
  by (rule au_inv_step, rule au_step.intros, assumption)+




section \<open>On a fresh board\<close>

definition fresh_quantum :: "(bool \<times> (u32 \<Rightarrow> u8)) quantum" where
  "fresh_quantum = action_util.extend action_util_init
    (quantum.fields 0 False 0 0 (snd (wear_leveling_init (rp2040_ops nor_chip 2097152) erased_flash)) (danopad_boot 0) None)"

lemma fresh_quantum:
  "wl_reach nor_chip 2097152 (eeprom fresh_quantum)" "au_inv fresh_quantum" "reports_ok (report fresh_quantum)"
  "real_mods fresh_quantum = 0"
proof -
  show "wl_reach nor_chip 2097152 (eeprom fresh_quantum)"
    using erased_flash_start(1) by (simp add: fresh_quantum_def action_util.defs quantum.defs)
  show "au_inv fresh_quantum" unfolding fresh_quantum_def by (rule au_inv_reachable [OF au_reachable.init])
  then show "reports_ok (report fresh_quantum)" by (simp add: au_inv_def)
  show "real_mods fresh_quantum = 0" by (simp add: fresh_quantum_def action_util.defs action_util_init_def)
qed

lemma magic_settings_persist_witness:
  "nkro (keymap_config (snd (process_magic (rp2040_platform nor_chip 2097152 [] []) 0x7011
    (new_record (key_event 0 0 5 True)) fresh_quantum)))"
  using magic_settings_persist [OF nor_chip_ok fresh_quantum(1), of "0x7011" "new_record (key_event 0 0 5 True)" "[]" "[]"]
    fresh_quantum(2)
  by (simp add: Let_def split_beta IS_MAGIC_KEYCODE_def in_range_def magic_config_def new_record_def)

lemma default_layer_persists_witness:
  "eeconfig_read_default_layer (eeprom_driver_init (rp2040_ops nor_chip 2097152) (reset_state (eeprom
    (snd (process_default_layer (rp2040_platform nor_chip 2097152 [] []) 0x52E3
      (new_record (key_event 0 0 5 False)) fresh_quantum))))) = layer_bit 3"
  using default_layer_persists [OF nor_chip_ok fresh_quantum(1), of "0x52E3" "new_record (key_event 0 0 5 False)" "[]" "[]"]
  by (simp add: Let_def split_beta in_range_def new_record_def rp2040_platform_def)

lemma grave_escape_releases_its_key_witness:
  "\<not> host_key 0x29 (snd (process_grave_esc 0x7C16 (new_record (key_event 0 0 9 False))
    (set_mods 2 (snd (process_grave_esc 0x7C16 (new_record (key_event 0 0 5 True)) fresh_quantum)))))"
  using grave_escape_releases_its_key [OF fresh_quantum(3), of "new_record (key_event 0 0 5 True)"
      "new_record (key_event 0 0 9 False)" "0x29" 2] fresh_quantum(4)
  by (simp add: Let_def new_record_def)


end
