(* ===== verification/Firmware.thy ===== *)
theory Firmware
  imports Quantum_Features
begin

text \<open>
  The whole firmware of the board: the start (\<open>keyboard_setup\<close>, \<open>keyboard_init\<close> and \<open>quantum_init\<close> of
  \<open>quantum/keyboard.c\<close>, \<open>quantum/bootmagic/bootmagic.c\<close>) and the main loop of \<open>quantum/main.c\<close>, which runs
  the keyboard task with the board's processors and the housekeeping task of the display.

  The other calls of \<open>keyboard_init\<close> and of the main loop that the board compiles belong to the console,
  the USB stack and the mouse keys.
\<close>

section \<open>The start\<close>

type_synonym 's firmware_state = "('s, unit) quantum_ext keyboard"

text \<open>All static variables are zero at power-on; \<open>e\<close> is the driver's state with the content of the flash.\<close>

definition power_on :: "u32 \<Rightarrow> 's wear_leveling \<Rightarrow> 's quantum" where
  "power_on t e =
    action_util.extend (action_util_init\<lparr>keymap_config := keymap_config_zero\<rparr>)
      (quantum.fields t False 0 0 e (danopad_boot (unat t)) None)"

definition keyboard_setup :: "'s platform \<Rightarrow> 's quantum \<Rightarrow> 's quantum" where
  "keyboard_setup p s = on_eeprom (eeprom_driver_init (flash p)) s"

abbreviation (input) BOOTMAGIC_DEBOUNCE :: nat where "BOOTMAGIC_DEBOUNCE \<equiv> 30"
abbreviation (input) BOOTMAGIC_ROW :: nat where "BOOTMAGIC_ROW \<equiv> 0"
abbreviation (input) BOOTMAGIC_COLUMN :: nat where "BOOTMAGIC_COLUMN \<equiv> 0"

definition bootmagic_should_reset :: "matrix_state \<Rightarrow> bool" where
  "bootmagic_should_reset m \<longleftrightarrow> matrix_get_row BOOTMAGIC_ROW m AND push_bit BOOTMAGIC_COLUMN 1 \<noteq> 0"

text \<open>The pins read \<open>rd1\<close> at the first scan and \<open>rd2\<close> at the second.\<close>

definition bootmagic_scan ::
    "'s platform \<Rightarrow> gpio_levels \<Rightarrow> gpio_levels \<Rightarrow> matrix_state \<times> 's quantum \<Rightarrow> matrix_state \<times> 's quantum" where
  "bootmagic_scan p rd1 rd2 = (\<lambda>(m, s).
    (let m = snd (matrix_scan (clock s) rd1 m);
         s = s\<lparr>clock := clock s + of_nat BOOTMAGIC_DEBOUNCE\<rparr>;
         m = snd (matrix_scan (clock s) rd2 m)
     in (m, if bootmagic_should_reset m
            then (on_eeprom (eeconfig_disable (flash p)) s)\<lparr>stopped := Some BootloaderJump\<rparr> else s)))"

definition quantum_init ::
    "'s platform \<Rightarrow> gpio_levels \<Rightarrow> gpio_levels \<Rightarrow> matrix_state \<times> 's quantum \<Rightarrow> matrix_state \<times> 's quantum" where
  "quantum_init p rd1 rd2 = (\<lambda>(m, s).
    (let s = (if eeconfig_is_enabled (eeprom s) then s
              else case eeconfig_init (flash p) (eeprom s) of
                (layer, e) \<Rightarrow> au_layers (\<lambda>l. l\<lparr>default_layer_state := layer\<rparr>) (s\<lparr>eeprom := e\<rparr>));
         w = eeconfig_read_debug (eeprom s);
         s = s\<lparr>danopad := (danopad s)\<lparr>debug_enable := bit w 0, debug_matrix := bit w 1\<rparr>,
           keymap_config := keymap_config_of_raw (eeconfig_read_keymap (eeprom s))\<rparr>;
         (m, s) = bootmagic_scan p rd1 rd2 (m, s)
     in (m, if stopped s = None
            then au_layers (default_layer_set (eeconfig_read_default_layer (eeprom s))) s else s)))"

definition keyboard_init ::
    "'s platform \<Rightarrow> gpio \<Rightarrow> gpio_levels \<Rightarrow> gpio_levels \<Rightarrow> 's quantum \<Rightarrow> matrix_state \<times> 's quantum" where
  "keyboard_init p g rd1 rd2 s =
    (case quantum_init p rd1 rd2 (matrix_init g, s) of
      (m, s) \<Rightarrow> (m, if stopped s = None then s\<lparr>danopad := keyboard_post_init_kb (img_list p) (danopad s)\<rparr> else s))"

definition firmware_start ::
    "'s platform \<Rightarrow> gpio \<Rightarrow> gpio_levels \<Rightarrow> gpio_levels \<Rightarrow> u32 \<Rightarrow> 's wear_leveling \<Rightarrow> 's firmware_state" where
  "firmware_start p g rd1 rd2 t e =
    (case keyboard_init p g rd1 rd2 (keyboard_setup p (power_on t e)) of (m, s) \<Rightarrow> keyboard_statics m s)"

section \<open>The main loop\<close>

definition on_host :: "('q action_util_scheme \<Rightarrow> 'q action_util_scheme) \<Rightarrow> 'q keyboard \<Rightarrow> 'q keyboard" where
  "on_host f k = k\<lparr>kb_tapping := (kb_tapping k)\<lparr>host := f (host (kb_tapping k))\<rparr>\<rparr>"

definition kb_host :: "'q keyboard \<Rightarrow> 'q action_util_scheme" where
  "kb_host k = host (kb_tapping k)"

definition pass_time :: "nat \<Rightarrow> 's quantum \<Rightarrow> 's quantum" where
  "pass_time d s = s\<lparr>clock := clock s + of_nat d, danopad := (danopad s)\<lparr>epd := epd_elapse d (epd (danopad s))\<rparr>\<rparr>"

text \<open>
  The tasks of the loop, at distances below 65.5 seconds, until a reset; \<open>ready\<close> says with which states of
  the flash the board may start, \<open>busy\<close> is the display, \<open>rd\<close> the pins, \<open>tm\<close> the times of the events. The host may change the USB protocol in between.
\<close>

inductive firmware ::
    "'s platform \<Rightarrow> epd_panel \<Rightarrow> ('s wear_leveling \<Rightarrow> bool) \<Rightarrow> keymap \<Rightarrow> 's firmware_state \<Rightarrow> bool"
  for p busy ready km where
  start: "ready e \<Longrightarrow> firmware p busy ready km (firmware_start p g rd1 rd2 t e)"
| task: "firmware p busy ready km k \<Longrightarrow> stopped (kb_host k) = None \<Longrightarrow> d < 65536 \<Longrightarrow>
    firmware p busy ready km (keyboard_task (board_hooks p km) km rd (clock (kb_host k) + of_nat d) tm (on_host (pass_time d) k))"
| housekeeping: "firmware p busy ready km k \<Longrightarrow> stopped (kb_host k) = None \<Longrightarrow>
    housekeeping_task_kb busy (danopad (kb_host k)) = Some b \<Longrightarrow> firmware p busy ready km (on_host (\<lambda>s. s\<lparr>danopad := b\<rparr>) k)"
| usb: "firmware p busy ready km k \<Longrightarrow> stopped (kb_host k) = None \<Longrightarrow>
    firmware p busy ready km (on_host (\<lambda>s. s\<lparr>protocol_report := b\<rparr>) k)"

section \<open>What every state of the firmware has\<close>

lemma kb_host_simps [simp]:
  "kb_host (k\<lparr>kb_tapping := x\<rparr>) = host x" "kb_host (k\<lparr>matrix_previous := m\<rparr>) = kb_host k"
  "kb_host (k\<lparr>kb_matrix := ms\<rparr>) = kb_host k" "kb_host (k\<lparr>last_tick := t\<rparr>) = kb_host k"
  "kb_host (k\<lparr>last_matrix_modification_time := u\<rparr>) = kb_host k"
  "kb_host (k\<lparr>last_input_modification_time := u\<rparr>) = kb_host k"
  "kb_host (k\<lparr>kb_tapping := x, kb_events := es\<rparr>) = host x"
  by (simp_all add: kb_host_def)

context kept_by_hooks begin

lemma action_exec_keeps: "inv (kb_host k) \<Longrightarrow> inv (host (action_exec h km e (kb_tapping k)))"
  unfolding kb_host_def by (rule action_exec)

lemma report_row_keeps: "inv (kb_host s) \<Longrightarrow> inv (kb_host (report_row h km tm rw s))"
proof -
  assume s: "inv (kb_host s)"
  have "inv (kb_host (fold (report_key h km tm rw cur chg) [0..<MATRIX_COLS] s))" for cur chg
    by (rule fold_invariant [where P = "\<lambda>k. inv (kb_host k)" and Q = "\<lambda>_. True"])
      (simp_all add: s report_key_def call_action_exec_def action_exec_keeps del: call_all_simps)
  then show ?thesis using s by (simp add: report_row_def Let_def)
qed

lemma matrix_task_keeps: "inv (kb_host k) \<Longrightarrow> inv (kb_host (snd (matrix_task h km rd now tm k)))"
proof -
  let ?k = "k\<lparr>kb_matrix := snd (matrix_scan now rd (kb_matrix k))\<rparr>"
  assume "inv (kb_host k)"
  then have k: "inv (kb_host ?k)" by simp
  have "inv (kb_host (fold (report_row h km tm) [0..<MATRIX_ROWS] ?k))"
    by (rule fold_invariant [where P = "\<lambda>k. inv (kb_host k)" and Q = "\<lambda>_. True"])
      (rule TrueI, rule k, rule report_row_keeps)
  moreover have "inv (kb_host (generate_tick_event h km (timer_read now) ?k))"
    using k action_exec_keeps [OF k] by (simp add: generate_tick_event_def call_action_exec_def del: call_all_simps)
  ultimately show ?thesis by (simp only: matrix_task_def Let_def snd_conv split: if_split) simp
qed

lemma keyboard_task_keeps: "inv (kb_host k) \<Longrightarrow> inv (kb_host (keyboard_task h km rd now tm k))"
  using matrix_task_keeps [of k km rd now tm]
  by (simp add: keyboard_task_def split_beta last_matrix_activity_trigger_def)

end

lemma kb_host_statics [simp]: "kb_host (keyboard_statics m u) = u"
  by (simp add: kb_host_def keyboard_statics_def tapping_init_def)

lemma on_host_simps [simp]: "kb_host (on_host f k) = f (kb_host k)" "kb_matrix (on_host f k) = kb_matrix k"
  by (simp_all add: kb_host_def on_host_def)

text \<open>The start leaves the reports as they are.\<close>

lemma start_au_inv: "au_inv (kb_host (firmware_start p g rd1 rd2 t e))"
proof -
  have "au_inv (keyboard_setup p (power_on t e))"
  proof -
    have "au_inv (action_util.extend action_util_init q)" for q by (rule au_inv_reachable [OF au_reachable.init])
    then show ?thesis
      by (simp add: keyboard_setup_def on_eeprom_def power_on_def action_util.defs quantum.defs au_inv_def)
  qed
  then have "au_inv (snd (quantum_init p rd1 rd2 (m, keyboard_setup p (power_on t e))))" for m
    by (simp add: quantum_init_def bootmagic_scan_def Let_def split_beta au_layers_def on_eeprom_def au_inv_extension)
  then have "au_inv (snd (keyboard_init p g rd1 rd2 (keyboard_setup p (power_on t e))))"
    by (simp add: keyboard_init_def split_beta au_inv_extension)
  then show ?thesis by (simp add: firmware_start_def split_beta keyboard_statics_def kb_host_def tapping_init_def)
qed

lemma firmware_au_inv: "firmware p busy ready km k \<Longrightarrow> au_inv (kb_host k)"
proof (induction rule: firmware.induct)
  case (task k d rd tm)
  then show ?case by (intro sent.keyboard_task_keeps) (simp add: pass_time_def au_inv_extension)
qed (simp_all add: start_au_inv au_inv_extension)

section \<open>The clock and the matrix\<close>

interpretation timed_ops: kept_by_operations "\<lambda>s :: 'f quantum. clock s = c" for c
  by (rule extension_kept [where f = clock, OF quantum_more(4)])

interpretation timed: kept_by_quantum "\<lambda>s :: 'f quantum. clock s = c" p km for c and p :: "'f platform" and km
  by unfold_locales (simp_all add: on_eeprom_def process_kb_def split_beta)

lemma start_matrix:
  "\<exists>m u. firmware_start p g rd1 rd2 t e = keyboard_statics m u \<and> matrix_history (clock u) m"
proof -
  let ?s0 = "keyboard_setup p (power_on t e)"
  have c0: "clock ?s0 = t" by (simp add: keyboard_setup_def on_eeprom_def power_on_def action_util.defs quantum.defs)
  let ?m = "snd (matrix_scan (t + of_nat 30) rd2 (snd (matrix_scan (t + of_nat 0) rd1 (matrix_init g))))"
  have m: "matrix_history (t + of_nat 30) ?m"
    using matrix_history.scan [OF matrix_history.scan [OF matrix_history.init, of 0 t rd1 g], of 30 rd2] by simp
  have "fst (keyboard_init p g rd1 rd2 ?s0) = ?m" "clock (snd (keyboard_init p g rd1 rd2 ?s0)) = t + of_nat 30"
    using c0 by (simp_all add: keyboard_init_def quantum_init_def bootmagic_scan_def Let_def split_beta au_layers_def
        on_eeprom_def)
  moreover have "firmware_start p g rd1 rd2 t e = keyboard_statics (fst (keyboard_init p g rd1 rd2 ?s0))
      (snd (keyboard_init p g rd1 rd2 ?s0))" by (simp add: firmware_start_def split_beta)
  ultimately show ?thesis using m by metis
qed

lemma firmware_keyboard_run:
  "firmware p busy ready km k \<Longrightarrow> \<exists>es. keyboard_run (board_hooks p km) km es (clock (kb_host k)) k"
proof (induction rule: firmware.induct)
  case (start e g rd1 rd2 t)
  obtain m u where "firmware_start p g rd1 rd2 t e = keyboard_statics m u" "matrix_history (clock u) m"
    using start_matrix by blast
  with keyboard_run.init [OF this(2), of "board_hooks p km" km u] show ?case by auto
next
  case (task k d rd tm)
  let ?k = "on_host (pass_time d) k" and ?h = "board_hooks p km" and ?t = "clock (kb_host k) + of_nat d"
  obtain es where "keyboard_run ?h km es (clock (kb_host k)) ?k"
    using task.IH keyboard_run.other unfolding on_host_def by blast
  from keyboard_run.task [OF this task.hyps(3)]
  have "\<exists>es. keyboard_run ?h km es ?t (keyboard_task ?h km rd ?t tm ?k)" by blast
  moreover have "clock (kb_host (keyboard_task ?h km rd ?t tm ?k)) = ?t"
    by (rule timed.keyboard_task_keeps) (simp add: pass_time_def)
  ultimately show ?case by simp
next
  case (housekeeping k b)
  then obtain es where "keyboard_run (board_hooks p km) km es (clock (kb_host k)) k" by blast
  then have "keyboard_run (board_hooks p km) km es (clock (kb_host k)) (on_host (\<lambda>s. s\<lparr>danopad := b\<rparr>) k)"
    unfolding on_host_def by (rule keyboard_run.other)
  then show ?case by auto
next
  case (usb k b)
  then obtain es where "keyboard_run (board_hooks p km) km es (clock (kb_host k)) k" by blast
  then have "keyboard_run (board_hooks p km) km es (clock (kb_host k)) (on_host (\<lambda>s. s\<lparr>protocol_report := b\<rparr>) k)"
    unfolding on_host_def by (rule keyboard_run.other)
  then show ?case by auto
qed

lemma board_hooks_accept: "fst (pre_process_record_quantum (board_hooks p km) r u)"
  by (simp add: board_hooks_def)

section \<open>Storage and display\<close>

lemma reach_field:
  assumes "wl_reach chip sz s"
  shows "unat a < 4096 \<Longrightarrow> wl_reach chip sz (eeprom_update_byte (rp2040_ops chip sz) a b s)"
    "unat a + 2 \<le> 4096 \<Longrightarrow> wl_reach chip sz (eeprom_update_word (rp2040_ops chip sz) a w s)"
    "unat a + 4 \<le> 4096 \<Longrightarrow> wl_reach chip sz (eeprom_update_dword (rp2040_ops chip sz) a d s)"
    "unat a + 8 \<le> 4096 \<Longrightarrow> wl_reach chip sz (eeprom_write_qword (rp2040_ops chip sz) a q s)"
proof -
  have "length (bytes_of (raw64_words q)) = 8" by (simp add: raw64_words_def)
  then show "unat a + 8 \<le> 4096 \<Longrightarrow> wl_reach chip sz (eeprom_write_qword (rp2040_ops chip sz) a q s)"
    using assms by (simp add: eeprom_write_qword_def eeprom_update_block_def reach_update)
qed (use assms in \<open>simp_all add: eeprom_update_byte_def eeprom_update_word_def eeprom_update_dword_def
      eeprom_write_byte_def eeprom_write_word_def eeprom_write_dword_def reach_update\<close>)

lemma reach_format: "wl_reach chip sz s \<Longrightarrow> wl_reach chip sz (eeprom_driver_format (rp2040_ops chip sz) b s)"
  unfolding eeprom_driver_format_def eeprom_driver_erase_def by (rule wl_reach.erase [OF _ prod.collapse [symmetric]])

lemma reach_init: "wl_reach chip sz s \<Longrightarrow> wl_reach chip sz (snd (eeconfig_init (rp2040_ops chip sz) s))"
  unfolding eeconfig_init_def eeconfig_init_quantum_def Let_def snd_conv eeconfig_init_kb_def eeconfig_init_user_def
    eeconfig_update_user_def eeconfig_update_kb_def eeconfig_update_default_layer_def
  by (intro reach_field reach_format; simp add: eeconfig_addresses)

lemma start_stored:
  assumes "wl_reach chip sz e0" "wl_store e = wl_store e0"
  shows "wl_reach chip sz (eeprom (kb_host (firmware_start (rp2040_platform chip sz imgs sel) g rd1 rd2 t e)))"
proof -
  let ?p = "rp2040_platform chip sz imgs sel" and ?ops = "rp2040_ops chip sz"
  have "wl_reach chip sz (eeprom_driver_init ?ops e)"
    unfolding eeprom_driver_init_def by (rule wl_reach.restart [OF assms prod.collapse [symmetric]])
  then have "wl_reach chip sz (eeprom (keyboard_setup ?p (power_on t e)))"
    by (simp add: keyboard_setup_def on_eeprom_def power_on_def action_util.defs quantum.defs rp2040_platform_def)
  then have "wl_reach chip sz (eeprom (snd (quantum_init ?p rd1 rd2 (m, keyboard_setup ?p (power_on t e)))))" for m
    by (simp add: quantum_init_def bootmagic_scan_def Let_def split_beta au_layers_def on_eeprom_def reach_init
        reach_updates rp2040_platform_def)
  then show ?thesis by (simp add: firmware_start_def keyboard_init_def split_beta)
qed

lemma start_shown:
  "board busy (img_list p) (img_selectmode p) (danopad (kb_host (firmware_start p g rd1 rd2 t e))) 0 \<or>
    stopped (kb_host (firmware_start p g rd1 rd2 t e)) = Some BootloaderJump \<and>
    epd_trace (epd (danopad (kb_host (firmware_start p g rd1 rd2 t e)))) = []"
proof -
  have "keyboard_post_init_kb i (danopad_boot n\<lparr>debug_enable := x, debug_matrix := y\<rparr>) =
      keyboard_post_init_kb i (danopad_boot n)" for i n x y
    by (simp add: keyboard_post_init_kb_def danopad_boot_def)
  moreover have "epd_trace (epd (danopad_boot n)) = []" for n by (simp add: epd_trace_def epd_boot_def danopad_boot_def)
  ultimately show ?thesis
    using board.boot [of busy "img_list p" "img_selectmode p" "unat t"]
    by (simp add: firmware_start_def keyboard_init_def quantum_init_def bootmagic_scan_def Let_def split_beta au_layers_def
        on_eeprom_def keyboard_setup_def power_on_def action_util.defs quantum.defs kb_host_def keyboard_statics_def
        tapping_init_def)
qed

lemma firmware_stored:
  assumes start: "\<And>e. ready e \<Longrightarrow> \<exists>e0. wl_reach chip sz e0 \<and> wl_store e = wl_store e0"
  shows "firmware (rp2040_platform chip sz imgs sel) busy ready km k \<Longrightarrow> wl_reach chip sz (eeprom (kb_host k))"
proof (induction rule: firmware.induct)
  case (start e g rd1 rd2 t)
  then show ?case using assms start_stored by blast
next
  case (task k d rd tm)
  show ?case by (rule stored.keyboard_task_keeps) (use task.IH in \<open>simp add: pass_time_def\<close>)
qed simp_all

lemma firmware_shown:
  "firmware p busy ready km k \<Longrightarrow>
    stopped (kb_host k) = Some BootloaderJump \<and> epd_trace (epd (danopad (kb_host k))) = [] \<or>
    (\<exists>ks. board busy (img_list p) (img_selectmode p) (danopad (kb_host k)) ks)"
proof (induction rule: firmware.induct)
  case (start e g rd1 rd2 t)
  then show ?case using start_shown by blast
next
  case (task k d rd tm)
  let ?k = "on_host (pass_time d) k"
  have "\<exists>ks. board busy (img_list p) (img_selectmode p) (danopad (kb_host ?k)) ks"
    using task by (auto simp: pass_time_def intro: board.elapse)
  from shown.keyboard_task_keeps [OF this] show ?case by blast
next
  case (housekeeping k b)
  then show ?case by (auto intro: board.housekeeping)
qed simp_all

lemma firmware_display:
  assumes "firmware p busy ready km k"
  shows "if epd_trace (epd (danopad (kb_host k))) = [] then stopped (kb_host k) = Some BootloaderJump
    else \<exists>reset sessions. epd_trace (epd (danopad (kb_host k))) =
      gpio_trace @ concat (map session_trace sessions) @ progress_trace reset (epd (danopad (kb_host k)))"
proof (cases "\<exists>ks. board busy (img_list p) (img_selectmode p) (danopad (kb_host k)) ks")
  case True
  then obtain req where "epd_reach busy (epd (danopad (kb_host k))) req" using board_epd_reach by blast
  then obtain reset sessions where "epd_trace (epd (danopad (kb_host k))) =
      gpio_trace @ concat (map session_trace sessions) @ progress_trace reset (epd (danopad (kb_host k)))"
    using epd_reach_sessions [of busy _ req] by (fastforce simp: sessions_ok_def)
  then show ?thesis by (auto simp: gpio_trace_def epd_gpio_config_def io_emit_def)
next
  case False
  then show ?thesis using firmware_shown [OF assms] by simp
qed

lemma start_settings:
  assumes "rp2040_flash chip sz" "wl_reach chip sz e0" "wl_store e = wl_store e0"
    and "diode_matrix closed danopad01_row_pins danopad01_col_pins rd"
  shows "let u = kb_host (firmware_start (rp2040_platform chip sz imgs sel) g rd rd t e)
    in stopped u = (if closed 0 0 then Some BootloaderJump else None) \<and>
      (if closed 0 0 then eeconfig_is_disabled (eeprom u)
       else if eeconfig_is_enabled e0 then
         keymap_config u = keymap_config_of_raw (eeconfig_read_keymap e0) \<and>
         default_layer_state (layers u) = eeconfig_read_default_layer e0
       else keymap_config u = keymap_config_of_raw 0x1400 \<and> default_layer_state (layers u) = 1)"
proof -
  let ?p = "rp2040_platform chip sz imgs sel" and ?ops = "rp2040_ops chip sz" and ?c = "wl_cache e0"
  define e1 where "e1 = eeprom_driver_init ?ops e"
  have h0: "holds chip sz ?c e0" by (rule holds_reach [OF assms(1,2)])
  have h1: "holds chip sz ?c e1" unfolding e1_def by (rule start_holds [OF assms(1) h0 assms(3)])
  define e2 where "e2 = (if eeconfig_is_enabled e1 then e1 else snd (eeconfig_init ?ops e1))"
  have en: "eeconfig_is_enabled e1 = eeconfig_is_enabled e0"
    using field_reads(2) [OF h0] field_reads(2) [OF h1] by (simp add: eeconfig_is_enabled_def eeconfig_addresses)
  have h2: "holds chip sz (if eeconfig_is_enabled e0 then ?c else default_content) e2"
    using h1 init_holds(2) [OF assms(1) h1] en by (simp add: e2_def)
  have reads: "eeconfig_read_keymap e2 = (if eeconfig_is_enabled e0 then eeconfig_read_keymap e0 else 0x1400)"
    "eeconfig_read_default_layer e2 = (if eeconfig_is_enabled e0 then eeconfig_read_default_layer e0 else 1)"
    using field_reads [OF h0] field_reads [OF h2] default_content
    by (simp_all add: eeconfig_read_keymap_def eeconfig_read_default_layer_def eeconfig_addresses)
  have disabled: "eeconfig_is_disabled (eeconfig_disable ?ops e2)"
    using field_reads(2) [OF disable_holds [OF assms(1) h2]] disabled_content
    by (simp add: eeconfig_is_disabled_def eeconfig_addresses disabled_content(2) [unfolded One_nat_def])
  have m: "bootmagic_should_reset (snd (matrix_scan (t + 30) rd (snd (matrix_scan t rd (matrix_init g))))) = closed 0 0"
    using matrix_scans_follow [OF matrix_history.init [of t g] assms(4), of 0 "[30]" 0 0]
    by (simp add: bootmagic_should_reset_def matrix_is_on_def matrix_get_row_def MATRIX_ROWS_def MATRIX_COLS_def)
  have f: "flash ?p = ?ops" by (simp add: rp2040_platform_def)
  define s0 where "s0 = keyboard_setup ?p (power_on t e)"
  have s0: "eeprom s0 = e1" "clock s0 = t" "stopped s0 = None"
    by (simp_all add: s0_def keyboard_setup_def on_eeprom_def power_on_def action_util.defs quantum.defs f e1_def)
  define s1 where "s1 = (if eeconfig_is_enabled (eeprom s0) then s0
              else case eeconfig_init (flash ?p) (eeprom s0) of
                (layer, e) \<Rightarrow> au_layers (\<lambda>l. l\<lparr>default_layer_state := layer\<rparr>) (s0\<lparr>eeprom := e\<rparr>))"
  have s1: "eeprom s1 = e2" "clock s1 = t" "stopped s1 = None"
    using s0 by (simp_all add: s1_def e2_def f split_beta au_layers_def)
  let ?u = "snd (quantum_init ?p rd rd (matrix_init g, s0))"
  have u: "stopped ?u = (if closed 0 0 then Some BootloaderJump else None)"
    "eeprom ?u = (if closed 0 0 then eeconfig_disable ?ops e2 else e2)"
    "keymap_config ?u = keymap_config_of_raw (eeconfig_read_keymap e2)"
    "\<not> closed 0 0 \<Longrightarrow> default_layer_state (layers ?u) = eeconfig_read_default_layer e2"
    using m s1 by (simp_all add: quantum_init_def s1_def [symmetric] bootmagic_scan_def Let_def f on_eeprom_def au_layers_def
        default_layer_set_def default_layer_state_set_def default_layer_state_set_kb_def default_layer_state_set_user_def
        split: if_splits)
  have k: "kb_host (firmware_start ?p g rd rd t e) =
      (if stopped ?u = None then ?u\<lparr>danopad := keyboard_post_init_kb (img_list ?p) (danopad ?u)\<rparr> else ?u)"
    by (simp add: firmware_start_def keyboard_init_def s0_def [symmetric] split_beta)
  show ?thesis
    unfolding Let_def k using u reads disabled by simp
qed

section \<open>Properties\<close>

text \<open>
  C1: whatever keys are pressed and whatever they do on this board, magic keys, resets and display keys
  included, the following holds in every state that the firmware reaches. The host has received exactly the
  reports against which the next one is compared, and both reports are well formed. When the power goes, the
  next start of the driver restores the EEPROM content byte for byte from what the flash stores at this moment.
  The display has been sent its pin set-up, a series of complete sequences and a prefix of the one in
  progress, or nothing at all when the start has gone to the bootloader.
\<close>

theorem firmware_keeps_its_state:
  assumes "firmware (rp2040_platform chip sz imgs sel) busy ready km k" "rp2040_flash chip sz"
    and "\<And>e. ready e \<Longrightarrow> \<exists>e0. wl_reach chip sz e0 \<and> wl_store e = wl_store e0"
  shows "let u = kb_host k; display = epd (danopad u) in
    reports_ok (report u) \<and> host_view (out u) = (last_6kro_report u, last_nkro_report u) \<and>
    (\<forall>e. wl_store e = wl_store (eeprom u) \<longrightarrow>
      wl_cache (eeprom_driver_init (rp2040_ops chip sz) e) = wl_cache (eeprom u)) \<and>
    (if epd_trace display = [] then stopped u = Some BootloaderJump
     else \<exists>reset sessions. epd_trace display =
       gpio_trace @ concat (map session_trace sessions) @ progress_trace reset display)"
proof -
  have reach: "wl_reach chip sz (eeprom (kb_host k))" by (rule firmware_stored [OF assms(3,1)])
  have "wl_cache (eeprom_driver_init (rp2040_ops chip sz) e) = wl_cache (eeprom (kb_host k))"
    if "wl_store e = wl_store (eeprom (kb_host k))" for e
    using start_holds [OF assms(2) holds_reach [OF assms(2) reach] that] by (simp add: holds_def)
  then show ?thesis
    using firmware_au_inv [OF assms(1)] firmware_display [OF assms(1)] by (simp add: au_inv_def Let_def)
qed

text \<open>
  C2: from the switches to the actions the firmware loses no key event but by overflow: in every state that
  it reaches there is a sequence of events so far in which each key is pressed and released in turn, is
  down at the end exactly if it is in the matrix last reported, and which, as a multiset, is what
  \<open>process_record\<close> has been given, what waits for a tap key, and what was given up when more than seven waited.
\<close>

theorem firmware_accounts_for_keys:
  assumes "firmware p busy ready km k"
  shows "\<exists>es. mset es = mset (processed_events (kb_tapping k)) + mset (pending (kb_tapping k)) + mset (tp_dropped (kb_tapping k)) \<and>
    (\<forall>r < MATRIX_ROWS. \<forall>c < MATRIX_COLS. (\<forall>i < length (key_history r c es). key_history r c es ! i = even i) \<and>
      odd (length (key_history r c es)) = bit (matrix_previous k ! r) c)"
proof -
  obtain es where run: "keyboard_run (board_hooks p km) km es (clock (kb_host k)) k"
    using firmware_keyboard_run [OF assms] by blast
  have "account (kb_tapping k) = mset es"
    using tapping_trace_account [OF keyboard_run_trace [OF board_hooks_accept run]] by simp
  then show ?thesis using keyboard_run_matrix [OF run] by (auto simp: account_def)
qed

text \<open>
  C9: the start decides rightly. With the switches still and the flash as any earlier run has left it, the
  firmware goes to the bootloader exactly if the key in the first row and column is held, with the stored
  configuration marked as disabled; otherwise it runs with the stored configuration and default layers, or
  with the defaults when none was stored.
\<close>

theorem start_reads_settings:
  assumes "rp2040_flash chip sz" "wl_reach chip sz e0" "wl_store e = wl_store e0"
    and "diode_matrix closed danopad01_row_pins danopad01_col_pins rd"
  shows "let u = kb_host (firmware_start (rp2040_platform chip sz imgs sel) g rd rd t e)
    in stopped u = (if closed 0 0 then Some BootloaderJump else None) \<and>
      (if closed 0 0 then eeconfig_is_disabled (eeprom u)
       else if eeconfig_is_enabled e0 then
         keymap_config u = keymap_config_of_raw (eeconfig_read_keymap e0) \<and>
         default_layer_state (layers u) = eeconfig_read_default_layer e0
       else keymap_config u = keymap_config_of_raw 0x1400 \<and> default_layer_state (layers u) = 1)"
  by (rule start_settings [OF assms])

section \<open>A first run\<close>

text \<open>A fresh flash, a board whose switches at row 2 are closed up to column 2, the default keymap.\<close>

definition fresh_eeprom :: "(bool \<times> (u32 \<Rightarrow> u8)) wear_leveling" where
  "fresh_eeprom = snd (wear_leveling_init (rp2040_ops nor_chip 2097152) erased_flash)"

definition first_start :: "(bool \<times> (u32 \<Rightarrow> u8)) firmware_state" where
  "first_start = firmware_start (rp2040_platform nor_chip 2097152 [] []) (\<lambda>p. InputHigh)
    (board_levels (\<lambda>r c. r = 2 \<and> c < 3)) (board_levels (\<lambda>r c. r = 2 \<and> c < 3)) 0 fresh_eeprom"

definition first_task :: "(bool \<times> (u32 \<Rightarrow> u8)) firmware_state" where
  "first_task = keyboard_task (board_hooks (rp2040_platform nor_chip 2097152 [] []) danopad01_keymaps) danopad01_keymaps
    (board_levels (\<lambda>r c. r = 2 \<and> c < 3)) (clock (kb_host first_start) + of_nat 1) (\<lambda>r c. 31) (on_host (pass_time 1) first_start)"

lemma first_run:
  "stopped (kb_host first_start) = None"
  "firmware (rp2040_platform nor_chip 2097152 [] []) (\<lambda>_ _. False) (\<lambda>e. e = fresh_eeprom) danopad01_keymaps first_task"
proof -
  show run: "stopped (kb_host first_start) = None"
    using start_settings [OF nor_chip_ok erased_flash_start(1) refl board_wiring(1) [of "\<lambda>r c. r = 2 \<and> c < 3"],
        where imgs = "[]" and sel = "[]" and g = "\<lambda>p. InputHigh" and t = 0]
    by (simp add: Let_def first_start_def fresh_eeprom_def)
  have "firmware (rp2040_platform nor_chip 2097152 [] []) (\<lambda>_ _. False) (\<lambda>e. e = fresh_eeprom) danopad01_keymaps first_start"
    unfolding first_start_def by (rule firmware.start) (rule refl)
  from firmware.task [OF this run, of 1] show
    "firmware (rp2040_platform nor_chip 2097152 [] []) (\<lambda>_ _. False) (\<lambda>e. e = fresh_eeprom) danopad01_keymaps first_task"
    unfolding first_task_def by simp
qed

lemma firmware_keeps_its_state_witness:
  "host_view (out (kb_host first_task)) = (last_6kro_report (kb_host first_task), last_nkro_report (kb_host first_task)) \<and>
    wl_cache (eeprom_driver_init (rp2040_ops nor_chip 2097152) (reset_state (eeprom (kb_host first_task)))) =
      wl_cache (eeprom (kb_host first_task))"
proof -
  have "\<exists>e0. wl_reach nor_chip 2097152 e0 \<and> wl_store e = wl_store e0" if "e = fresh_eeprom" for e
    using erased_flash_start(1) that by (auto simp: fresh_eeprom_def)
  from firmware_keeps_its_state [OF first_run(2) nor_chip_ok this] show ?thesis by (simp add: Let_def reset_state_store)
qed

lemma firmware_accounts_for_keys_witness:
  "\<exists>es. mset es = mset (processed_events (kb_tapping first_task)) + mset (pending (kb_tapping first_task)) +
      mset (tp_dropped (kb_tapping first_task)) \<and>
    odd (length (key_history 2 1 es)) = bit (matrix_previous first_task ! 2) 1"
proof -
  have "2 < MATRIX_ROWS" "1 < MATRIX_COLS" by (simp_all add: MATRIX_ROWS_def MATRIX_COLS_def)
  with firmware_accounts_for_keys [OF first_run(2)] show ?thesis by blast
qed

lemma start_reads_settings_witness:
  "oneshot_enable (keymap_config (kb_host first_start)) \<or> eeconfig_is_enabled fresh_eeprom"
  using start_reads_settings [OF nor_chip_ok erased_flash_start(1) refl board_wiring(1) [of "\<lambda>r c. r = 2 \<and> c < 3"],
        where imgs = "[]" and sel = "[]" and g = "\<lambda>p. InputHigh" and t = 0]
  by (simp add: Let_def first_start_def fresh_eeprom_def keymap_config_of_raw_def split: if_splits)
end
