(* ===== verification/Spec2Isabelle.thy ===== *)
theory Spec2Isabelle
  imports
    Bitwise
    Keymap_Common
    Action_Util
    Debounce_Keys
    Deferred_Exec
    Eeprom
    Danopad01
    Mousekey
    Dynamic_Macro
    Key_Lock
    Secure
    Unicode
    Firmware
begin

text \<open>
  A verification library for the firmware of the macro pad danopad01 (\<open>keyboards/hernian/danopad01\<close>), a
  keyboard of four rows and six columns on an RP2040 with an e-paper display, and for the parts of QMK that run on
  it. Paths are below \<open>src/\<close>.

  \<^bold>\<open>The program.\<close> \<open>main\<close> (\<open>quantum/main.c\<close>) starts the keyboard and
  then alternates between the keyboard task and the housekeeping task of the board. The keyboard task scans the
  matrix (\<open>matrix.c\<close>), debounces it (\<open>debounce/\<close>), and turns every changed key into an
  event with a position, a direction and a time (\<open>keyboard.c\<close>). The tapping machine
  (\<open>action_tapping.c\<close>) decides for each event whether it belongs to a tap or a hold and passes records
  on, in order; \<open>quantum.c\<close> offers each record to the feature processors and then
  \<open>action.c\<close> looks the action up, through the layers (\<open>action_layer.c\<close>) and the keymap
  (\<open>keymap_common.c\<close>), and performs it: it changes the layers, the modifiers and the key reports
  (\<open>action_util.c\<close>, \<open>report.c\<close>), which go to the host. Settings live in an emulated EEPROM
  (\<open>eeconfig.c\<close>), kept by a log in the flash (\<open>wear_leveling.c\<close> and its RP2040 driver).
  One of the processors is the board's own (\<open>danopad01.c\<close>): it selects images for the display, whose
  driver (\<open>epd_ws1in54_V2.c\<close>) is run by the housekeeping task.

  \<^bold>\<open>The theories and what they model.\<close> State is passed explicitly: a C structure or a group of
  static variables is a record, a function takes the record and returns the new one, an operation that fails returns
  a flag or an option as in C. The clock is an argument. Calls that leave the model (reports to the USB driver,
  waits, notifications of user hooks) are logged in the record in the order of the C code.

    \<^item> \<open>Qmk_Prelude\<close>: machine integers, timer macros, bytes, arrays, the collection \<open>word_bits\<close>.
    \<^item> \<open>Bitwise\<close>: \<open>quantum/bitwise.c\<close>. \<open>Keycodes\<close>: ranges and accessors of \<open>quantum_keycodes.h\<close>,
      \<open>modifiers.h\<close> and \<open>keycode.h\<close>. \<open>Keycode_Config\<close>: \<open>keycode_config.c\<close>, the swaps of the magic keys.
    \<^item> \<open>Keymap_Common\<close>: \<open>keymap_common.c\<close> and the action codes; the keymap of the board is \<open>danopad01_keymaps\<close>.
      \<open>Layers\<close>: \<open>action_layer.c\<close> with the cache of source layers (record \<open>layer_env\<close>).
    \<^item> \<open>Report\<close>: the 6KRO and NKRO reports of \<open>tmk_core/protocol/report.c\<close>. \<open>Action_Util\<close>: \<open>action_util.c\<close>,
      \<open>register_code\<close> to \<open>clear_keyboard\<close> of \<open>action.c\<close> (record \<open>action_util\<close>, with the log \<open>out\<close>).
    \<^item> \<open>Action\<close>: \<open>process_record\<close> and \<open>process_action\<close> of \<open>action.c\<close>. \<open>Action_Invariant\<close>: what all actions keep.
    \<^item> \<open>Action_Tapping\<close>: \<open>action_tapping.c\<close> and \<open>action_exec\<close> (record \<open>tapping\<close>: the tapping key, the ring buffer
      with its two indices, the host's state). \<open>Tapping_Account\<close> and \<open>Tapping_Order\<close>: what becomes of the events.
    \<^item> \<open>Debounce\<close>, \<open>Debounce_Keys\<close>: the seven algorithms of \<open>quantum/debounce/\<close>. \<open>Matrix\<close>: \<open>matrix.c\<close> and
      \<open>matrix_common.c\<close> with the pins as a map to directions and levels. \<open>Keyboard_Task\<close>: events, ghost
      detection and \<open>matrix_task\<close> of \<open>keyboard.c\<close> (record \<open>keyboard\<close>, with a log of the calls of \<open>action_exec\<close>).
    \<^item> \<open>Mousekey\<close>: \<open>mousekey.c\<close> in its default, accelerated mode, driven by the calls that \<open>Action_Util\<close> logs.
    \<^item> \<open>Secure\<close>, \<open>Key_Lock\<close>, \<open>Dynamic_Macro\<close>, \<open>Unicode\<close>: features that the board does not compile and a keymap may
      enable: \<open>secure.c\<close> with its processor and its hook in \<open>quantum.c\<close>, \<open>process_key_lock.c\<close>,
      \<open>process_dynamic_macro.c\<close> (the processing of a record is a parameter), and \<open>utf8.c\<close> and \<open>unicode.c\<close>
      with the digits of \<open>send_string.c\<close>.
    \<^item> \<open>Deferred_Exec\<close>: \<open>deferred_exec.c\<close>, the callbacks being programs over its interface.
    \<^item> \<open>Epd\<close>: \<open>epd_ws1in54_V2.c\<close>: pins, bytes, the sequencer, the idle timer. \<open>Danopad01\<close>: \<open>danopad01.c\<close>.
    \<^item> \<open>Wear_Leveling\<close>, \<open>Wear_Log\<close>: \<open>wear_leveling.c\<close>. \<open>Rp2040_Flash\<close>: its backing store on the flash.
      \<open>Eeprom\<close>: the EEPROM driver and \<open>eeconfig.c\<close>.
    \<^item> \<open>Quantum\<close>: \<open>quantum.c\<close>, space cadet, grave escape, magic and default layer keys; the record \<open>quantum\<close>
      extends \<open>action_util\<close> with the clock, the statics of the processors, the EEPROM and the display.
      \<open>Quantum_Features\<close>: their properties. \<open>Firmware\<close>: start and main loop, over all of the above.

  The theories of the actions, the tapping machine and the keyboard task work on any extension of
  \<open>action_util\<close>; the processors are the record \<open>record_hooks\<close>.
  \<open>Quantum.board_hooks\<close> is the board's, and \<open>Firmware.firmware\<close> the reachable states of
  the whole.

  \<^bold>\<open>Interfaces.\<close> \<open>layer_store\<close> (the cache), \<open>key_set\<close> (a key report),
  \<open>debouncer\<close> and \<open>settling_debouncer\<close>, \<open>row_loop\<close> and
  \<open>key_loop\<close>, \<open>token_table\<close> (deferred execution), \<open>backing_store\<close> (what the
  log needs of a flash), \<open>kept_by_operations\<close>, \<open>kept_by_hooks\<close> and
  \<open>kept_by_quantum\<close> (an invariant that the operations, the processors, the board's processors keep):
  each is a locale and is interpreted on the model's own definitions, each algorithm of the debouncers included.

  \<^bold>\<open>What the lemmas show.\<close> Single components: the reports implement finite sets of keys, the
  host's view agrees with the firmware's, the release of a key uses the layer of its press, no debouncer reports a
  bounce and all settle, the matrix reads the switches, a data set written to the log survives a reset, display
  updates are whole, deferred executors form a map from tokens. Chains: events alternate for each key, the tapping
  machine loses and duplicates none and keeps their order, and a tap key within its term taps and beyond it holds;
  \<open>Firmware\<close> composes them: each key event of the whole firmware is processed, waiting, or was given up
  at an overflow of the buffer, the stored data stay those of the log, and a restart reads the settings back.
  Features: the mouse stops when its keys are released, a recorded macro plays what was typed, the keyboard is
  unlocked by its sequence alone, a locked key stays down, and UTF-8 text is typed code point by code point. Each
  property carries its number in the text before it; the other theorems with a text show places where the code
  departs from its documentation.

  \<^bold>\<open>Bounds and termination.\<close> No definition uses fuel. Loops over arrays and bits are folds or
  structural recursion; \<open>bitpop_loop\<close>, \<open>allocate_from\<close>, \<open>process_record\<close>,
  \<open>pico_program_bulk\<close>, \<open>wear_leveling_write_raw\<close> and \<open>playback_loop\<close> have
  measures, as has \<open>send_unicode_string\<close>, where \<open>None\<close> is a read beyond the string. The
  loop that waits for the display's BUSY line is a partial function, and \<open>Epd.epd_task_returns\<close> shows
  that it returns with every panel that becomes ready while it is awake, also when the line stays high in deep
  sleep. The ring buffer holds 8 records, a report six keys, the log 8192
  bytes with 4096 bytes of data, as configured in the sources.

  \<^bold>\<open>Outside code.\<close> The flash chip, the panel, the levels of the pins, user callbacks and images
  are parameters, with hypotheses of their documented behaviour (\<open>nor_flash\<close>,
  \<open>board_wiring\<close>); witnesses instantiate them (\<open>nor_chip\<close>, \<open>board_levels\<close>).

  \<^bold>\<open>Not modelled.\<close> The USB stacks, ChibiOS and other platform code, which are bound to registers
  and to code outside the repository; lighting, audio, pointing devices, split keyboards, VIA, unicode maps, the
  choice of the input mode, the general sending of strings and further keycode processors, which the board does not
  compile (the features named above excepted); debug output; drivers and keymaps of other boards; vendored
  libraries, scripts, tables and tests. Within the modelled files, code that other configurations select (other
  layer widths, hold-on-other-key, retro tapping, inertia and kinetic mouse keys, four- and eight-byte log writes)
  is left out; the text of each theory says so.
\<close>

end
